(* ===== verification/Prelude.thy ===== *)
theory Prelude
  imports Main "HOL-Library.Sublist" "HOL-Library.Char_ord" "HOL-Library.List_Lexorder"
begin

text \<open>
  What the components of the Suite Cloud development share: results that carry the exception a
  Python function raises, the loops over them, and the string operations of the Python standard
  library that the sources under src/ use.

  A Python \<open>str\<close> is modelled as a \<open>string\<close>: each \<open>char\<close> stands for the code point
  with its number (U+0000 to U+00FF), so \<open>lower\<close> and the white space tests follow Python on that
  range.  Fallible code returns \<open>exn + 'a\<close>: \<open>Inl\<close> is the exception that leaves the function.
\<close>

named_theorems res_simps \<open>equations of the result combinators\<close>
named_theorems py_simps \<open>equations of the Python string operations\<close>

section \<open>Exceptions and results\<close>

text \<open>
  The exception classes the sources raise, each with the text or object its message names.
  \<open>ValidationError\<close> is the default class of \<open>frappe.throw\<close>.
\<close>

datatype exn =
    ValidationError string
  | DuplicateEntryError string
  | DoesNotExistError string
  | PermissionError string
  | AuthenticationError string
  | TooManyRequestsError
  | LabelNotAvailableError string
  | DomainNotVerifiedError string
  | OwnershipLookupError string
  | MailNotConfiguredError string
  | HostedObjectError string
  | InvalidInputError string
  | DomainNotReadyError string
  | SiteSetupError string
  | PyValueError string
  | StalwartRejected string
  | StalwartUnavailable
  | StalwartUnauthorized
  | StalwartFailed string

type_synonym 'a res = "exn + 'a"

definition rbind :: "'e + 'a \<Rightarrow> ('a \<Rightarrow> 'e + 'b) \<Rightarrow> 'e + 'b" where
  "rbind r f = (case r of Inl e \<Rightarrow> Inl e | Inr x \<Rightarrow> f x)"

lemma rbind_Inl [simp, res_simps]: "rbind (Inl e) f = Inl e"
  by (simp add: rbind_def)

lemma rbind_Inr [simp, res_simps]: "rbind (Inr x) f = f x"
  by (simp add: rbind_def)

lemma rbind_eq_Inr_iff [simp]: "rbind r f = Inr y \<longleftrightarrow> (\<exists>x. r = Inr x \<and> f x = Inr y)"
  by (cases r) auto

lemma rbind_eq_Inl_iff:
  "rbind r f = Inl e \<longleftrightarrow> r = Inl e \<or> (\<exists>x. r = Inr x \<and> f x = Inl e)"
  by (cases r) auto

text \<open>\<open>require b e\<close> is the guard \<open>if not b: raise e\<close>.\<close>

definition require :: "bool \<Rightarrow> 'e \<Rightarrow> 'e + unit" where
  "require b e = (if b then Inr () else Inl e)"

lemma require_Inr_iff [simp]: "require b e = Inr u \<longleftrightarrow> b"
  by (simp add: require_def)

lemma require_Inl_iff [simp]: "require b e = Inl e' \<longleftrightarrow> \<not> b \<and> e' = e"
  by (auto simp: require_def)

lemma require_True [simp]: "require True e = Inr ()"
  by (simp add: require_def)

lemma require_False [simp]: "require False e = Inl e"
  by (simp add: require_def)

text \<open>A \<open>for\<close> loop whose body may raise, over a state.\<close>

fun rfold :: "('a \<Rightarrow> 's \<Rightarrow> 'e + 's) \<Rightarrow> 'a list \<Rightarrow> 's \<Rightarrow> 'e + 's" where
  "rfold f [] s = Inr s"
| "rfold f (x # xs) s = rbind (f x s) (rfold f xs)"

lemma rfold_append: "rfold f (xs @ ys) s = rbind (rfold f xs s) (rfold f ys)"
proof (induction xs arbitrary: s)
  case Nil
  then show ?case by simp
next
  case (Cons x xs)
  then show ?case by (cases "f x s") simp_all
qed

lemma rfold_invariant:
  assumes "rfold f xs s = Inr t" and "P s"
    and "\<And>x a b. x \<in> set xs \<Longrightarrow> P a \<Longrightarrow> f x a = Inr b \<Longrightarrow> P b"
  shows "P t"
  using assms
proof (induction xs arbitrary: s)
  case Nil
  then show ?case by simp
next
  case (Cons x xs)
  from Cons.prems(1) obtain a where a: "f x s = Inr a" and rest: "rfold f xs a = Inr t"
    by auto
  have "P a" using Cons.prems(2,3) a by auto
  with rest show ?case using Cons.prems(3) by (intro Cons.IH) auto
qed

text \<open>A comprehension whose element expression may raise.\<close>

fun rmap :: "('a \<Rightarrow> 'e + 'b) \<Rightarrow> 'a list \<Rightarrow> 'e + 'b list" where
  "rmap f [] = Inr []"
| "rmap f (x # xs) = rbind (f x) (\<lambda>y. rbind (rmap f xs) (\<lambda>ys. Inr (y # ys)))"

lemma rmap_Inr_list_all2: "rmap f xs = Inr ys \<longleftrightarrow> list_all2 (\<lambda>x y. f x = Inr y) xs ys"
proof (induction xs arbitrary: ys)
  case Nil
  then show ?case by auto
next
  case (Cons x xs)
  then show ?case by (auto simp: list_all2_Cons1)
qed

lemma rmap_Inr_length: "rmap f xs = Inr ys \<Longrightarrow> length ys = length xs"
  by (auto simp: rmap_Inr_list_all2 dest: list_all2_lengthD)

lemma rmap_total: "(\<And>x. x \<in> set xs \<Longrightarrow> f x = Inr (g x)) \<Longrightarrow> rmap f xs = Inr (map g xs)"
  by (induction xs) auto

lemma rmap_Inr_set: "rmap f xs = Inr ys \<Longrightarrow> y \<in> set ys \<Longrightarrow> \<exists>x\<in>set xs. f x = Inr y"
  by (induction xs arbitrary: ys) auto

section \<open>Python strings\<close>

definition code :: "char \<Rightarrow> nat" where
  "code c = of_char c"

definition py_isspace :: "char \<Rightarrow> bool" where
  "py_isspace c \<longleftrightarrow> (let n = code c in (9 \<le> n \<and> n \<le> 13) \<or> (28 \<le> n \<and> n \<le> 32) \<or> n = 133 \<or> n = 160)"

definition lower_char :: "char \<Rightarrow> char" where
  "lower_char c =
     (let n = code c
      in if (65 \<le> n \<and> n \<le> 90) \<or> (192 \<le> n \<and> n \<le> 222 \<and> n \<noteq> 215) then char_of (n + 32) else c)"

definition py_lower :: "string \<Rightarrow> string" where
  "py_lower s = map lower_char s"

text \<open>\<open>lstrip\<close>, \<open>rstrip\<close> and \<open>strip\<close> for any class of characters.\<close>

definition lstrip_by :: "('a \<Rightarrow> bool) \<Rightarrow> 'a list \<Rightarrow> 'a list" where
  "lstrip_by p s = dropWhile p s"

definition rstrip_by :: "('a \<Rightarrow> bool) \<Rightarrow> 'a list \<Rightarrow> 'a list" where
  "rstrip_by p s = rev (dropWhile p (rev s))"

definition py_strip :: "string \<Rightarrow> string" where
  "py_strip s = rstrip_by py_isspace (lstrip_by py_isspace s)"

definition rstrip_dots :: "string \<Rightarrow> string" where
  "rstrip_dots s = rstrip_by (\<lambda>c. c = CHR ''.'') s"

lemma set_rstrip_by: "set (rstrip_by p s) \<subseteq> set s"
  by (auto simp: rstrip_by_def dest: set_dropWhileD)

lemma set_lstrip_by: "set (lstrip_by p s) \<subseteq> set s"
  by (auto simp: lstrip_by_def dest: set_dropWhileD)

lemma rstrip_by_last: "rstrip_by p s \<noteq> [] \<Longrightarrow> \<not> p (last (rstrip_by p s))"
  unfolding rstrip_by_def by (metis last_rev hd_dropWhile rev_is_Nil_conv)

lemma rstrip_by_id: "s = [] \<or> \<not> p (last s) \<Longrightarrow> rstrip_by p s = s"
  by (cases s rule: rev_cases) (auto simp: rstrip_by_def)

lemma rstrip_by_idem [simp]: "rstrip_by p (rstrip_by p s) = rstrip_by p s"
  by (rule rstrip_by_id) (use rstrip_by_last in blast)

lemma lstrip_by_id: "s = [] \<or> \<not> p (hd s) \<Longrightarrow> lstrip_by p s = s"
  by (cases s) (auto simp: lstrip_by_def)

lemma rstrip_by_prefix: "prefix (rstrip_by p s) s"
proof -
  have "suffix (dropWhile p (rev s)) (rev s)" by (rule suffix_dropWhile)
  then show ?thesis by (simp add: rstrip_by_def suffix_to_prefix)
qed

lemma hd_rstrip_by: "rstrip_by p s \<noteq> [] \<Longrightarrow> hd (rstrip_by p s) = hd s"
  using rstrip_by_prefix [of p s] by (metis hd_append2 prefixE)

lemma lstrip_by_hd: "lstrip_by p s \<noteq> [] \<Longrightarrow> \<not> p (hd (lstrip_by p s))"
  by (simp add: lstrip_by_def hd_dropWhile)

lemma py_strip_hd: "py_strip s \<noteq> [] \<Longrightarrow> \<not> py_isspace (hd (py_strip s))"
  unfolding py_strip_def
  by (metis hd_rstrip_by lstrip_by_hd rstrip_by_prefix prefix_bot.extremum_uniqueI)

lemma py_strip_last: "py_strip s \<noteq> [] \<Longrightarrow> \<not> py_isspace (last (py_strip s))"
  unfolding py_strip_def by (rule rstrip_by_last)

lemma py_strip_id: "s = [] \<or> (\<not> py_isspace (hd s) \<and> \<not> py_isspace (last s)) \<Longrightarrow> py_strip s = s"
  unfolding py_strip_def by (metis lstrip_by_id rstrip_by_id)

lemma py_strip_idem [simp]: "py_strip (py_strip s) = py_strip s"
  by (rule py_strip_id) (use py_strip_hd py_strip_last in blast)

lemma py_strip_Nil [simp]: "py_strip [] = []"
  by (simp add: py_strip_def rstrip_by_def lstrip_by_def)

text \<open>\<open>s.split(sep)\<close> for a one character separator: always at least one part.\<close>

fun split_on :: "'a \<Rightarrow> 'a list \<Rightarrow> 'a list list" where
  "split_on c [] = [[]]"
| "split_on c (x # xs) =
     (if x = c then [] # split_on c xs
      else (case split_on c xs of [] \<Rightarrow> [[x]] | p # ps \<Rightarrow> (x # p) # ps))"

text \<open>\<open>sep.join(parts)\<close> for a one character separator.\<close>

fun join_with :: "'a \<Rightarrow> 'a list list \<Rightarrow> 'a list" where
  "join_with c [] = []"
| "join_with c [p] = p"
| "join_with c (p # q # ps) = p @ c # join_with c (q # ps)"

lemma split_on_not_Nil [simp]: "split_on c s \<noteq> []"
  by (cases s) (auto split: list.splits)

lemma join_with_Cons: "ps \<noteq> [] \<Longrightarrow> join_with c (p # ps) = p @ c # join_with c ps"
  by (cases ps) auto

lemma join_split_on [simp]: "join_with c (split_on c s) = s"
proof (induction s)
  case Nil
  then show ?case by simp
next
  case (Cons x s)
  obtain p ps where ps: "split_on c s = p # ps"
    by (meson split_on_not_Nil neq_Nil_conv)
  with Cons show ?case by (cases ps) auto
qed

lemma split_on_no_sep: "p \<in> set (split_on c s) \<Longrightarrow> c \<notin> set p"
proof (induction s arbitrary: p)
  case Nil
  then show ?case by auto
next
  case (Cons x s)
  then show ?case by (auto split: list.splits if_splits)
qed

lemma split_on_id: "c \<notin> set s \<Longrightarrow> split_on c s = [s]"
  by (induction s) auto

lemma split_on_append:
  "c \<notin> set p \<Longrightarrow> split_on c (p @ c # s) = p # split_on c s"
  by (induction p) auto

lemma split_join_with:
  "ps \<noteq> [] \<Longrightarrow> (\<And>p. p \<in> set ps \<Longrightarrow> c \<notin> set p) \<Longrightarrow> split_on c (join_with c ps) = ps"
proof (induction ps)
  case Nil
  then show ?case by simp
next
  case (Cons p ps)
  show ?case
  proof (cases "ps = []")
    case True
    with Cons.prems show ?thesis by (simp add: split_on_id)
  next
    case False
    with Cons show ?thesis by (simp add: join_with_Cons split_on_append)
  qed
qed

lemma set_join_with: "set (join_with c ps) \<subseteq> insert c (\<Union>(set ` set ps))"
  by (induction c ps rule: join_with.induct) auto

text \<open>\<open>s.partition(sep)\<close> for a one character separator: before, whether it occurs, after.\<close>

fun partition_at :: "'a \<Rightarrow> 'a list \<Rightarrow> 'a list \<times> bool \<times> 'a list" where
  "partition_at c [] = ([], False, [])"
| "partition_at c (x # xs) =
     (if x = c then ([], True, xs) else (case partition_at c xs of (a, f, b) \<Rightarrow> (x # a, f, b)))"

lemma partition_at_append: "c \<notin> set p \<Longrightarrow> partition_at c (p @ c # s) = (p, True, s)"
  by (induction p) auto

lemma partition_at_absent: "c \<notin> set s \<Longrightarrow> partition_at c s = (s, False, [])"
  by (induction s) auto

lemma partition_at_found:
  "partition_at c s = (a, True, b) \<longleftrightarrow> s = a @ c # b \<and> c \<notin> set a"
proof
  assume "partition_at c s = (a, True, b)"
  then show "s = a @ c # b \<and> c \<notin> set a"
    by (induction s arbitrary: a) (auto split: prod.splits if_splits)
next
  assume "s = a @ c # b \<and> c \<notin> set a"
  then show "partition_at c s = (a, True, b)" by (simp add: partition_at_append)
qed

text \<open>
  \<open>s.endswith(suffix)\<close> is \<open>suffix suf s\<close> and \<open>s.startswith(p)\<close> is \<open>prefix p s\<close>
  (HOL-Library.Sublist).  \<open>s[: -len(suf)]\<close> after a successful test drops the suffix.
\<close>

definition drop_suffix :: "nat \<Rightarrow> 'a list \<Rightarrow> 'a list" where
  "drop_suffix n s = take (length s - n) s"

lemma drop_suffix_append [simp]: "drop_suffix (length t) (s @ t) = s"
  by (simp add: drop_suffix_def)

text \<open>\<open>s.replace(old, new)\<close> for a non-empty \<open>old\<close>: left to right, without overlaps.\<close>

function py_replace :: "'a list \<Rightarrow> 'a list \<Rightarrow> 'a list \<Rightarrow> 'a list" where
  "py_replace old new s =
     (case s of [] \<Rightarrow> []
      | x # xs \<Rightarrow> if old \<noteq> [] \<and> prefix old s then new @ py_replace old new (drop (length old) s)
                 else x # py_replace old new xs)"
  by pat_completeness auto
termination
  by (relation "measure (\<lambda>(old, new, s). length s)") auto

declare py_replace.simps [simp del]

text \<open>\<open>s.splitlines()\<close>: a carriage return and the newline after it are one break; no line follows the last break.\<close>

definition is_linebreak :: "char \<Rightarrow> bool" where
  "is_linebreak c \<longleftrightarrow> code c \<in> {10, 11, 12, 13, 28, 29, 30, 133}"

fun lines_from :: "string \<Rightarrow> string \<Rightarrow> string list" where
  "lines_from acc [] = (if acc = [] then [] else [acc])"
| "lines_from acc (c # cs) =
    (if is_linebreak c then acc # lines_from [] (if code c = 13 \<and> cs \<noteq> [] \<and> code (hd cs) = 10 then tl cs else cs)
     else lines_from (acc @ [c]) cs)"

definition splitlines :: "string \<Rightarrow> string list" where
  "splitlines s = lines_from [] s"

lemma lines_from_chars:
  "l \<in> set (lines_from acc s) \<Longrightarrow> c \<in> set l \<Longrightarrow> c \<in> set acc \<or> (c \<in> set s \<and> \<not> is_linebreak c)"
proof (induction acc s rule: lines_from.induct)
  case (2 acc a cs)
  then show ?case by (auto split: if_splits dest: list.set_sel(2))
qed (auto split: if_splits)

lemma splitlines_chars: "l \<in> set (splitlines s) \<Longrightarrow> c \<in> set l \<Longrightarrow> c \<in> set s \<and> \<not> is_linebreak c"
  using lines_from_chars [of l "[]" s c] by (simp add: splitlines_def)

lemma lines_from_line: "\<forall>c\<in>set l. \<not> is_linebreak c \<Longrightarrow> lines_from acc (l @ s) = lines_from (acc @ l) s"
  by (induction l arbitrary: acc) auto

section \<open>Decimal numerals\<close>

definition digit_char :: "nat \<Rightarrow> char" where
  "digit_char d = char_of (48 + d)"

definition py_isdigit :: "char \<Rightarrow> bool" where
  "py_isdigit c \<longleftrightarrow> 48 \<le> code c \<and> code c \<le> 57"

fun show_nat :: "nat \<Rightarrow> string" where
  "show_nat n = (if n < 10 then [digit_char n] else show_nat (n div 10) @ [digit_char (n mod 10)])"

declare show_nat.simps [simp del]

definition read_nat :: "string \<Rightarrow> nat" where
  "read_nat s = foldl (\<lambda>acc c. 10 * acc + (code c - 48)) 0 s"

lemma code_digit_char: "d < 10 \<Longrightarrow> code (digit_char d) = 48 + d"
  by (simp add: code_def digit_char_def of_char_of take_bit_nat_eq_self_iff)

lemma py_isdigit_digit_char: "d < 10 \<Longrightarrow> py_isdigit (digit_char d)"
  by (simp add: py_isdigit_def code_digit_char)

lemma show_nat_not_Nil [simp]: "show_nat n \<noteq> []"
  by (subst show_nat.simps) simp

lemma show_nat_digits: "c \<in> set (show_nat n) \<Longrightarrow> py_isdigit c"
proof (induction n rule: show_nat.induct)
  case (1 n)
  show ?case
  proof (cases "n < 10")
    case True
    with "1.prems" show ?thesis by (simp add: show_nat.simps [of n] py_isdigit_digit_char)
  next
    case False
    with "1" show ?thesis
      by (auto simp: show_nat.simps [of n] py_isdigit_digit_char)
  qed
qed

lemma read_show_nat [simp]: "read_nat (show_nat n) = n"
proof (induction n rule: show_nat.induct)
  case (1 n)
  show ?case
  proof (cases "n < 10")
    case True
    then show ?thesis by (simp add: show_nat.simps [of n] read_nat_def code_digit_char)
  next
    case False
    then have "read_nat (show_nat (n div 10)) = n div 10" using "1.IH" by simp
    then show ?thesis using False
      by (simp add: show_nat.simps [of n] read_nat_def code_digit_char)
  qed
qed

lemma show_nat_inj: "show_nat m = show_nat n \<Longrightarrow> m = n"
  by (metis read_show_nat)

text \<open>Numbers compare like the pair of their quotient and their remainder.\<close>

lemma less_div_mod_iff:
  assumes "0 < k"
  shows "(a::nat) < b \<longleftrightarrow> a div k < b div k \<or> (a div k = b div k \<and> a mod k < b mod k)"
proof -
  have ab: "a = k * (a div k) + a mod k" "b = k * (b div k) + b mod k" by simp_all
  consider "a div k < b div k" | "a div k = b div k" | "b div k < a div k" by linarith
  then show ?thesis
  proof cases
    case 1
    then show ?thesis by (metis div_le_mono not_le)
  next
    case 2
    then have "a < b \<longleftrightarrow> a mod k < b mod k" using ab by (metis add_less_cancel_left)
    with 2 show ?thesis by simp
  next
    case 3
    then show ?thesis by (metis div_le_mono less_imp_le_nat not_le not_less_iff_gr_or_eq)
  qed
qed

section \<open>Regular expressions\<close>

text \<open>
  A pattern ending in \<open>$\<close> also matches before a newline that ends the text: \<open>dollar_match p s\<close> is
  \<open>re.match\<close> of an anchored pattern whose body accepts exactly the texts of \<open>p\<close>.
\<close>

definition newline :: char where
  "newline = CHR 10"

text \<open>Lines joined with newlines split into the same lines, when none is empty or holds a break.\<close>

lemma splitlines_join:
  "(\<And>l. l \<in> set ls \<Longrightarrow> l \<noteq> [] \<and> (\<forall>c\<in>set l. \<not> is_linebreak c)) \<Longrightarrow> splitlines (join_with newline ls) = ls"
proof (induction ls)
  case Nil
  then show ?case by (simp add: splitlines_def)
next
  case (Cons l ls)
  have nl: "is_linebreak newline" "code newline \<noteq> 13" by (simp_all add: is_linebreak_def newline_def code_def)
  show ?case
  proof (cases "ls = []")
    case True
    then show ?thesis using Cons.prems lines_from_line [of l "[]" "[]"] by (simp add: splitlines_def)
  next
    case False
    have "splitlines (join_with newline ls) = ls" by (rule Cons.IH) (use Cons.prems in auto)
    moreover have "lines_from [] (l @ s) = lines_from l s" for s using lines_from_line [of l "[]" s] Cons.prems [of l] by simp
    ultimately show ?thesis using False nl by (simp add: join_with_Cons splitlines_def)
  qed
qed

definition dollar_match :: "(string \<Rightarrow> bool) \<Rightarrow> string \<Rightarrow> bool" where
  "dollar_match p s \<longleftrightarrow> p s \<or> (s \<noteq> [] \<and> last s = newline \<and> p (butlast s))"

lemma dollar_matchI: "p s \<Longrightarrow> dollar_match p s"
  by (simp add: dollar_match_def)

lemma dollar_match_no_newline: "newline \<notin> set s \<Longrightarrow> dollar_match p s \<longleftrightarrow> p s"
  using last_in_set by (fastforce simp: dollar_match_def)

definition is_az09 :: "char \<Rightarrow> bool" where
  "is_az09 c \<longleftrightarrow> (97 \<le> code c \<and> code c \<le> 122) \<or> (48 \<le> code c \<and> code c \<le> 57)"

lemma is_az09_not: "is_az09 c \<Longrightarrow> c \<noteq> CHR ''-'' \<and> c \<noteq> CHR ''.'' \<and> c \<noteq> newline \<and> c \<noteq> CHR ''@''"
  by (auto simp: is_az09_def code_def newline_def)

section \<open>Lists\<close>

text \<open>\<open>list(dict.fromkeys(xs))\<close>: the first occurrence of each element, in order.\<close>

fun fromkeys :: "'a list \<Rightarrow> 'a list" where
  "fromkeys [] = []"
| "fromkeys (x # xs) = x # filter (\<lambda>y. y \<noteq> x) (fromkeys xs)"

lemma set_fromkeys [simp]: "set (fromkeys xs) = set xs"
  by (induction xs) auto

lemma distinct_fromkeys [simp]: "distinct (fromkeys xs)"
  by (induction xs) auto

lemma fromkeys_id: "distinct xs \<Longrightarrow> fromkeys xs = xs"
  by (induction xs) (auto simp: filter_id_conv)

text \<open>\<open>next((x for x in xs if p(x)), None)\<close> is \<open>find p xs\<close>.\<close>

lemma find_Some_in: "find p xs = Some x \<Longrightarrow> x \<in> set xs \<and> p x"
  by (induction xs) (auto split: if_splits)

lemma hd_sort_in: "xs \<noteq> [] \<Longrightarrow> hd (sort xs) \<in> set (xs :: 'a :: linorder list)"
proof -
  assume "xs \<noteq> []"
  then have "sort xs \<noteq> []" by (metis length_0_conv length_sort)
  then have "hd (sort xs) \<in> set (sort xs)" by (rule hd_in_set)
  then show ?thesis by simp
qed

end
