(* ===== verification/Calendar.thy ===== *)
theory Calendar
  imports Prelude
begin

text \<open>
  The UTC dates of the Python standard library's \<open>datetime\<close> that the sending limits use: adding
  days, \<open>replace(day=1)\<close> and the \<open>strftime\<close> renderings \<open>%Y%m%d\<close>, \<open>%Y%m\<close> and
  \<open>%Y-%m-%d\<close>.
\<close>

record date =
  year :: nat
  month :: nat
  day :: nat

definition is_leap :: "nat \<Rightarrow> bool" where
  "is_leap y \<longleftrightarrow> y mod 4 = 0 \<and> (y mod 100 \<noteq> 0 \<or> y mod 400 = 0)"

definition days_in_month :: "nat \<Rightarrow> nat \<Rightarrow> nat" where
  "days_in_month y m =
     (if m = 2 then (if is_leap y then 29 else 28)
      else if m = 4 \<or> m = 6 \<or> m = 9 \<or> m = 11 then 30 else 31)"

definition valid_date :: "date \<Rightarrow> bool" where
  "valid_date d \<longleftrightarrow> 1000 \<le> year d \<and> year d \<le> 9999 \<and> 1 \<le> month d \<and> month d \<le> 12 \<and>
     1 \<le> day d \<and> day d \<le> days_in_month (year d) (month d)"

definition first_of_next_month :: "nat \<Rightarrow> nat \<Rightarrow> date" where
  "first_of_next_month y m =
     (if m = 12 then \<lparr>year = y + 1, month = 1, day = 1\<rparr> else \<lparr>year = y, month = m + 1, day = 1\<rparr>)"

definition next_day :: "date \<Rightarrow> date" where
  "next_day d =
     (if day d < days_in_month (year d) (month d) then d\<lparr>day := day d + 1\<rparr>
      else first_of_next_month (year d) (month d))"

definition prev_day :: "date \<Rightarrow> date" where
  "prev_day d =
     (if 1 < day d then d\<lparr>day := day d - 1\<rparr>
      else if month d = 1 then \<lparr>year = year d - 1, month = 12, day = 31\<rparr>
      else d\<lparr>month := month d - 1, day := days_in_month (year d) (month d - 1)\<rparr>)"

text \<open>\<open>d + timedelta(days=n)\<close> and \<open>d - timedelta(days=n)\<close>.\<close>

fun add_days :: "nat \<Rightarrow> date \<Rightarrow> date" where
  "add_days 0 d = d"
| "add_days (Suc n) d = add_days n (next_day d)"

fun sub_days :: "nat \<Rightarrow> date \<Rightarrow> date" where
  "sub_days 0 d = d"
| "sub_days (Suc n) d = sub_days n (prev_day d)"

lemma add_days_numeral [simp]: "add_days (numeral k) d = add_days (pred_numeral k) (next_day d)"
  by (simp add: numeral_eq_Suc)

lemma sub_days_numeral [simp]: "sub_days (numeral k) d = sub_days (pred_numeral k) (prev_day d)"
  by (simp add: numeral_eq_Suc)

lemma days_in_month_bounds: "28 \<le> days_in_month y m \<and> days_in_month y m \<le> 31"
  by (simp add: days_in_month_def)

lemma add_days_add: "add_days (a + b) d = add_days b (add_days a d)"
  by (induction a arbitrary: d) auto

lemma add_days_within:
  "day d + n \<le> days_in_month (year d) (month d) \<Longrightarrow> add_days n d = d\<lparr>day := day d + n\<rparr>"
proof (induction n arbitrary: d)
  case 0
  then show ?case by simp
next
  case (Suc n)
  let ?e = "d\<lparr>day := day d + 1\<rparr>"
  from Suc.prems have "next_day d = ?e" by (simp add: next_day_def)
  moreover have "add_days n ?e = ?e\<lparr>day := day ?e + n\<rparr>"
    using Suc.prems by (intro Suc.IH) simp
  ultimately show ?case by simp
qed

lemma next_day_last:
  "day d = days_in_month (year d) (month d) \<Longrightarrow> next_day d = first_of_next_month (year d) (month d)"
  by (simp add: next_day_def)

text \<open>
  Thirty-two days after the first of a month lies in the next month, whatever the month: the
  library idiom for "the first day of next month".
\<close>

lemma add_32_days_first:
  "(add_days 32 \<lparr>year = y, month = m, day = 1\<rparr>)\<lparr>day := 1\<rparr> = first_of_next_month y m"
proof -
  let ?k = "days_in_month y m"
  let ?d = "\<lparr>year = y, month = m, day = 1\<rparr>"
  let ?f = "first_of_next_month y m"
  have k: "28 \<le> ?k" "?k \<le> 31" using days_in_month_bounds by auto
  have "add_days (?k - 1) ?d = ?d\<lparr>day := ?k\<rparr>"
    using k by (subst add_days_within) auto
  then have "add_days (?k - 1 + 1) ?d = ?f"
    by (simp only: add_days_add) (simp add: next_day_last)
  then have "add_days 32 ?d = add_days (32 - ?k) ?f"
    using k add_days_add [of ?k "32 - ?k" ?d] by (simp del: add_days_numeral)
  also have "\<dots> = ?f\<lparr>day := day ?f + (32 - ?k)\<rparr>"
  proof (rule add_days_within)
    have "day ?f = 1" by (simp add: first_of_next_month_def)
    then show "day ?f + (32 - ?k) \<le> days_in_month (year ?f) (month ?f)"
      using k days_in_month_bounds [of "year ?f" "month ?f"] by linarith
  qed
  finally show ?thesis by (simp add: first_of_next_month_def)
qed

lemma first_of_next_month_valid:
  "1000 \<le> y \<Longrightarrow> y < 9999 \<Longrightarrow> 1 \<le> m \<Longrightarrow> m \<le> 12 \<Longrightarrow> valid_date (first_of_next_month y m)"
  by (auto simp: valid_date_def first_of_next_month_def days_in_month_def)

section \<open>Renderings\<close>

definition pad2 :: "nat \<Rightarrow> string" where
  "pad2 n = [digit_char (n div 10), digit_char (n mod 10)]"

definition pad4 :: "nat \<Rightarrow> string" where
  "pad4 n = pad2 (n div 100) @ pad2 (n mod 100)"

text \<open>\<open>f"{moment:%Y%m%d}"\<close>, \<open>f"{moment:%Y%m}"\<close> and \<open>f"{moment:%Y-%m-%d}"\<close>.\<close>

definition stamp_day :: "date \<Rightarrow> string" where
  "stamp_day d = pad4 (year d) @ pad2 (month d) @ pad2 (day d)"

definition stamp_month :: "date \<Rightarrow> string" where
  "stamp_month d = pad4 (year d) @ pad2 (month d)"

definition iso_date :: "date \<Rightarrow> string" where
  "iso_date d = pad4 (year d) @ ''-'' @ pad2 (month d) @ ''-'' @ pad2 (day d)"

lemma length_pad [simp]: "length (pad2 n) = 2" "length (pad4 n) = 4"
  by (simp_all add: pad2_def pad4_def)

lemma length_stamps [simp]: "length (stamp_day d) = 8" "length (stamp_month d) = 6"
  by (simp_all add: stamp_day_def stamp_month_def)

lemma digit_char_eq_iff: "a < 10 \<Longrightarrow> b < 10 \<Longrightarrow> digit_char a = digit_char b \<longleftrightarrow> a = b"
  by (metis add_left_cancel code_digit_char)

lemma pad2_eq_iff: "a < 100 \<Longrightarrow> b < 100 \<Longrightarrow> pad2 a = pad2 b \<longleftrightarrow> a = b"
  by (auto simp: pad2_def digit_char_eq_iff) (metis div_mult_mod_eq)

lemma pad4_eq_iff: "a < 10000 \<Longrightarrow> b < 10000 \<Longrightarrow> pad4 a = pad4 b \<longleftrightarrow> a = b"
proof
  assume "a < 10000" "b < 10000" "pad4 a = pad4 b"
  then have "a div 100 = b div 100" "a mod 100 = b mod 100"
    by (auto simp: pad4_def pad2_eq_iff)
  then show "a = b" by (metis div_mult_mod_eq)
qed simp

lemma valid_date_bounds:
  "valid_date d \<Longrightarrow> year d < 10000 \<and> month d < 100 \<and> day d < 100"
  using days_in_month_bounds [of "year d" "month d"] by (auto simp: valid_date_def)

lemma stamp_day_eq_iff:
  "valid_date d \<Longrightarrow> valid_date e \<Longrightarrow> stamp_day d = stamp_day e \<longleftrightarrow> d = e"
  using valid_date_bounds [of d] valid_date_bounds [of e]
  by (auto simp: stamp_day_def pad2_eq_iff pad4_eq_iff)

lemma stamp_month_eq_iff:
  "valid_date d \<Longrightarrow> valid_date e \<Longrightarrow>
    stamp_month d = stamp_month e \<longleftrightarrow> year d = year e \<and> month d = month e"
  using valid_date_bounds [of d] valid_date_bounds [of e]
  by (auto simp: stamp_month_def pad2_eq_iff pad4_eq_iff)

lemma pad2_digits: "c \<in> set (pad2 n) \<Longrightarrow> n < 100 \<Longrightarrow> py_isdigit c"
  by (auto simp: pad2_def py_isdigit_digit_char)

lemma pad4_digits: "c \<in> set (pad4 n) \<Longrightarrow> n < 10000 \<Longrightarrow> py_isdigit c"
  by (auto simp: pad4_def dest!: pad2_digits)

lemma stamp_digits: "valid_date d \<Longrightarrow> c \<in> set (stamp_day d) \<union> set (stamp_month d) \<Longrightarrow> py_isdigit c"
  using valid_date_bounds [of d]
  by (auto simp: stamp_day_def stamp_month_def dest!: pad2_digits pad4_digits)

text \<open>
  The stamps sort like the dates: the retention and history queries compare period keys as text.
\<close>

lemma digit_char_less_iff: "a < 10 \<Longrightarrow> b < 10 \<Longrightarrow> digit_char a < digit_char b \<longleftrightarrow> a < b"
  using code_digit_char [of a] code_digit_char [of b]
  by (simp add: less_char_def code_def)

lemma pad2_less_iff:
  assumes "a < 100" "b < 100" "length xs = length ys"
  shows "pad2 a @ xs < pad2 b @ ys \<longleftrightarrow> a < b \<or> (a = b \<and> xs < ys)"
proof -
  have d: "a div 10 < 10" "b div 10 < 10" "a mod 10 < 10" "b mod 10 < 10"
    using assms by auto
  have e: "a = b \<longleftrightarrow> a div 10 = b div 10 \<and> a mod 10 = b mod 10"
    by (metis div_mult_mod_eq)
  have l: "a < b \<longleftrightarrow> a div 10 < b div 10 \<or> (a div 10 = b div 10 \<and> a mod 10 < b mod 10)"
    by (rule less_div_mod_iff) simp
  show ?thesis
    unfolding e l by (auto simp: pad2_def digit_char_less_iff digit_char_eq_iff d)
qed

lemma pad4_less_iff:
  assumes "a < 10000" "b < 10000" "length xs = length ys"
  shows "pad4 a @ xs < pad4 b @ ys \<longleftrightarrow> a < b \<or> (a = b \<and> xs < ys)"
proof -
  have e: "a = b \<longleftrightarrow> a div 100 = b div 100 \<and> a mod 100 = b mod 100"
    by (metis div_mult_mod_eq)
  have l: "a < b \<longleftrightarrow> a div 100 < b div 100 \<or> (a div 100 = b div 100 \<and> a mod 100 < b mod 100)"
    by (rule less_div_mod_iff) simp
  show ?thesis
    unfolding e l using assms by (auto simp: pad4_def pad2_less_iff)
qed

definition date_less :: "date \<Rightarrow> date \<Rightarrow> bool" where
  "date_less d e \<longleftrightarrow> year d < year e \<or> (year d = year e \<and>
     (month d < month e \<or> (month d = month e \<and> day d < day e)))"

lemma stamp_day_less_iff:
  assumes "valid_date d" "valid_date e"
  shows "stamp_day d < stamp_day e \<longleftrightarrow> date_less d e"
proof -
  have "pad2 (day d) < pad2 (day e) \<longleftrightarrow> day d < day e"
    using pad2_less_iff [of "day d" "day e" "[]" "[]"] assms valid_date_bounds by auto
  then show ?thesis
    using valid_date_bounds [OF assms(1)] valid_date_bounds [OF assms(2)]
    by (auto simp: stamp_day_def date_less_def pad2_less_iff pad4_less_iff)
qed

lemma stamp_month_less_iff:
  assumes "valid_date d" "valid_date e"
  shows "stamp_month d < stamp_month e \<longleftrightarrow>
    year d < year e \<or> (year d = year e \<and> month d < month e)"
proof -
  have "pad2 (month d) < pad2 (month e) \<longleftrightarrow> month d < month e"
    using pad2_less_iff [of "month d" "month e" "[]" "[]"] assms valid_date_bounds by auto
  then show ?thesis
    using valid_date_bounds [OF assms(1)] valid_date_bounds [OF assms(2)]
    by (auto simp: stamp_month_def pad4_less_iff)
qed

end
