(* ===== verification/Send_Usage.thy ===== *)
theory Send_Usage
  imports Calendar
begin

text \<open>
  The Mail Send Usage table (src/suite_cloud/mail/doctype/mail_send_usage/mail_send_usage.py):
  one row per account and UTC period.  The table is a list of rows; \<open>usage_ok\<close> is its unique
  index on account and period.  A moment in time is the UTC date it falls on, an argument of the
  operations that read the clock.
\<close>

record usage_row =
  u_name :: string
  u_account :: string
  u_period :: string
  u_sent :: int
  u_refused :: int
  u_send_limit :: int
  u_reported_at :: date
  u_modified :: date

text \<open>The fields of a Mail Account that the sending limits read.\<close>

record account_row =
  a_cluster :: "string option"
  a_daily :: int
  a_monthly :: int

type_synonym accounts = "string \<rightharpoonup> account_row"

text \<open>What a flush hands to the upsert: \<open>{account, period, sent, refused}\<close>.\<close>

record counts_row =
  r_account :: string
  r_period :: string
  r_sent :: int
  r_refused :: int

section \<open>Periods\<close>

definition usage_name :: "(string \<Rightarrow> string) \<Rightarrow> string \<Rightarrow> string \<Rightarrow> string" where
  "usage_name sha1 account period = sha1 (account @ '':'' @ period)"

definition day_period :: "date \<Rightarrow> string" where
  "day_period now = ''d:'' @ stamp_day now"

definition month_period :: "date \<Rightarrow> string" where
  "month_period now = ''m:'' @ stamp_month now"

definition periods_at :: "date \<Rightarrow> string \<times> string" where
  "periods_at now = (day_period now, month_period now)"

definition reportable_periods :: "date \<Rightarrow> string list" where
  "reportable_periods now =
     (let (day, month) = periods_at now; (day', month') = periods_at (sub_days 1 now)
      in [day, month, day', month'])"

definition period_key :: "usage_row \<Rightarrow> string \<times> string" where
  "period_key u = (u_account u, u_period u)"

definition usage_ok :: "usage_row list \<Rightarrow> bool" where
  "usage_ok us \<longleftrightarrow> distinct (map period_key us)"

definition find_usage :: "string \<Rightarrow> string \<Rightarrow> usage_row list \<Rightarrow> usage_row option" where
  "find_usage account period us = find (\<lambda>u. period_key u = (account, period)) us"

section \<open>Writing\<close>

definition limits_by_account :: "accounts \<Rightarrow> string \<Rightarrow> (char \<Rightarrow> int) option" where
  "limits_by_account accts account =
     (case accts account of None \<Rightarrow> None
      | Some a \<Rightarrow> Some (\<lambda>c. if c = CHR ''d'' then a_daily a else a_monthly a))"

text \<open>
  The row of one \<open>INSERT ... ON DUPLICATE KEY UPDATE\<close>: a stored row keeps the higher counts and,
  for a past period, its limit.
\<close>

definition merge_usage :: "string list \<Rightarrow> usage_row \<Rightarrow> usage_row \<Rightarrow> usage_row" where
  "merge_usage current new old =
     old\<lparr>u_sent := max (u_sent old) (u_sent new),
         u_refused := max (u_refused old) (u_refused new),
         u_send_limit := (if u_period old \<in> set current then u_send_limit new else u_send_limit old),
         u_reported_at := u_reported_at new,
         u_modified := u_modified new\<rparr>"

fun insert_or_merge :: "string list \<Rightarrow> usage_row \<Rightarrow> usage_row list \<Rightarrow> usage_row list" where
  "insert_or_merge current new [] = [new]"
| "insert_or_merge current new (u # us) =
     (if period_key u = period_key new then merge_usage current new u # us
      else u # insert_or_merge current new us)"

definition new_usage :: "(string \<Rightarrow> string) \<Rightarrow> date \<Rightarrow> (char \<Rightarrow> int) \<Rightarrow> counts_row \<Rightarrow> usage_row" where
  "new_usage sha1 now limit r =
     \<lparr>u_name = usage_name sha1 (r_account r) (r_period r), u_account = r_account r,
      u_period = r_period r, u_sent = r_sent r, u_refused = r_refused r,
      u_send_limit = limit (hd (r_period r)), u_reported_at = now, u_modified = now\<rparr>"

definition known_rows :: "accounts \<Rightarrow> counts_row list \<Rightarrow> counts_row list" where
  "known_rows accts rows =
     sort_key r_account (sort_key r_period
       (filter (\<lambda>r. limits_by_account accts (r_account r) \<noteq> None) rows))"

text \<open>
  \<open>limits[account][period[0]]\<close> raises when the period starts with neither letter, before the
  statement runs.
\<close>

definition upsert_usage ::
  "(string \<Rightarrow> string) \<Rightarrow> accounts \<Rightarrow> date \<Rightarrow> counts_row list \<Rightarrow> usage_row list \<Rightarrow> (nat \<times> usage_row list) res"
where
  "upsert_usage sha1 accts now rows us =
     (let rows' = known_rows accts rows;
          (day, month) = periods_at now
      in rbind (require (list_all (\<lambda>r. take 1 (r_period r) \<in> {''d'', ''m''}) rows') (PyValueError ''KeyError''))
         (\<lambda>_. Inr (length rows',
            fold (\<lambda>r. case limits_by_account accts (r_account r) of None \<Rightarrow> id
                   | Some limit \<Rightarrow> insert_or_merge [day, month] (new_usage sha1 now limit r)) rows' us)))"

definition delete_usage :: "string \<Rightarrow> usage_row list \<Rightarrow> usage_row list" where
  "delete_usage account us = filter (\<lambda>u. u_account u \<noteq> account) us"

definition DEFAULT_RETENTION_DAYS :: nat where
  "DEFAULT_RETENTION_DAYS = 90"

definition retention_days :: "int \<Rightarrow> nat" where
  "retention_days configured = (if configured > 0 then nat configured else DEFAULT_RETENTION_DAYS)"

definition is_expired :: "date \<Rightarrow> int \<Rightarrow> string \<Rightarrow> bool" where
  "is_expired now configured period \<longleftrightarrow>
     (let (day, month) = periods_at (sub_days (retention_days configured) now)
      in (prefix ''d:'' period \<and> period < day) \<or> (prefix ''m:'' period \<and> period < month))"

definition get_expired_periods :: "date \<Rightarrow> int \<Rightarrow> usage_row list \<Rightarrow> string list" where
  "get_expired_periods now configured us =
     sort (remdups (filter (is_expired now configured) (map u_period us)))"

definition prune_usage_job :: "date \<Rightarrow> int \<Rightarrow> usage_row list \<Rightarrow> usage_row list" where
  "prune_usage_job now configured us =
     fold (\<lambda>period. filter (\<lambda>u. u_period u \<noteq> period)) (get_expired_periods now configured us) us"

section \<open>Reading\<close>

record usage_now =
  n_day :: int
  n_month :: int
  n_refused_day :: int
  n_refused_month :: int

definition sent_by_account :: "date \<Rightarrow> usage_row list \<Rightarrow> string \<Rightarrow> usage_now" where
  "sent_by_account now us account =
     (let (day, month) = periods_at now
      in fold (\<lambda>u n. if u_period u = day then n\<lparr>n_day := u_sent u, n_refused_day := u_refused u\<rparr>
                     else n\<lparr>n_month := u_sent u, n_refused_month := u_refused u\<rparr>)
           (filter (\<lambda>u. u_account u = account \<and> (u_period u = day \<or> u_period u = month)) us)
           \<lparr>n_day = 0, n_month = 0, n_refused_day = 0, n_refused_month = 0\<rparr>)"

record history_entry =
  h_date :: string
  h_sent :: int
  h_refused :: int
  h_limit :: int

text \<open>\<open>now - timedelta(days=n)\<close> for an \<open>n\<close> of either sign.\<close>

definition days_before :: "int \<Rightarrow> date \<Rightarrow> date" where
  "days_before n now = (if 0 \<le> n then sub_days (nat n) now else add_days (nat (- n)) now)"

definition in_history :: "date \<Rightarrow> int \<Rightarrow> string \<Rightarrow> bool" where
  "in_history now days period \<longleftrightarrow>
     (let (first_day, first_month) = periods_at (days_before (days - 1) now);
          (today, this_month) = periods_at now
      in (prefix ''d:'' period \<and> first_day \<le> period \<and> period \<le> today) \<or>
         (prefix ''m:'' period \<and> first_month \<le> period \<and> period \<le> this_month))"

definition history_entry_of :: "usage_row \<Rightarrow> history_entry" where
  "history_entry_of u =
     (let stamp = drop 2 (u_period u)
      in \<lparr>h_date = (if prefix ''d:'' (u_period u)
                    then take 4 stamp @ ''-'' @ take 2 (drop 4 stamp) @ ''-'' @ drop 6 stamp
                    else take 4 stamp @ ''-'' @ drop 4 stamp),
          h_sent = u_sent u, h_refused = u_refused u, h_limit = u_send_limit u\<rparr>)"

definition usage_history ::
  "date \<Rightarrow> usage_row list \<Rightarrow> string \<Rightarrow> int \<Rightarrow> history_entry list \<times> history_entry list" where
  "usage_history now us account days =
     (let rows = rev (sort_key u_period
                  (filter (\<lambda>u. u_account u = account \<and> in_history now days (u_period u)) us))
      in (map history_entry_of (filter (\<lambda>u. prefix ''d:'' (u_period u)) rows),
          map history_entry_of (filter (\<lambda>u. \<not> prefix ''d:'' (u_period u)) rows)))"

section \<open>Laws of the table\<close>

definition stored_sent :: "usage_row list \<Rightarrow> string \<Rightarrow> string \<Rightarrow> int" where
  "stored_sent us account period =
     (case find_usage account period us of None \<Rightarrow> 0 | Some u \<Rightarrow> u_sent u)"

lemma periods_differ [simp]: "day_period d \<noteq> month_period e" "month_period e \<noteq> day_period d"
  by (simp_all add: day_period_def month_period_def)

lemma prefix_periods [simp]:
  "prefix ''d:'' (day_period d)" "\<not> prefix ''d:'' (month_period d)"
  "prefix ''m:'' (month_period d)" "\<not> prefix ''m:'' (day_period d)"
  by (simp_all add: day_period_def month_period_def)

lemma take1_periods [simp]: "take 1 (day_period d) = ''d''" "take 1 (month_period d) = ''m''"
  by (simp_all add: day_period_def month_period_def)

lemma bar_notin_periods:
  assumes "valid_date d"
  shows "CHR ''|'' \<notin> set (day_period d)" "CHR ''|'' \<notin> set (month_period d)"
proof -
  have "\<not> py_isdigit (CHR ''|'')" by (simp add: py_isdigit_def code_def)
  then show "CHR ''|'' \<notin> set (day_period d)" "CHR ''|'' \<notin> set (month_period d)"
    using stamp_digits [OF assms] by (auto simp: day_period_def month_period_def)
qed

lemma period_key_merge [simp]: "period_key (merge_usage c n u) = period_key u"
  by (simp add: merge_usage_def period_key_def)

lemma merge_usage_idem [simp]: "merge_usage c n (merge_usage c n u) = merge_usage c n u"
  by (simp add: merge_usage_def)

lemma merge_usage_self [simp]: "merge_usage c n n = n"
  by (simp add: merge_usage_def)

lemma find_insert_or_merge:
  "find_usage a p (insert_or_merge c n us) =
     (if period_key n = (a, p)
      then Some (case find_usage a p us of None \<Rightarrow> n | Some u \<Rightarrow> merge_usage c n u)
      else find_usage a p us)"
  unfolding find_usage_def by (induction us) auto

lemma insert_or_merge_fixpoint:
  "find_usage (u_account n) (u_period n) us = Some u \<Longrightarrow> merge_usage c n u = u \<Longrightarrow>
     insert_or_merge c n us = us"
  unfolding find_usage_def by (induction us) (auto simp: period_key_def split: if_splits)

lemma keys_insert_or_merge:
  "period_key ` set (insert_or_merge c n us) = insert (period_key n) (period_key ` set us)"
  by (induction us) auto

lemma usage_ok_insert_or_merge: "usage_ok us \<Longrightarrow> usage_ok (insert_or_merge c n us)"
proof (induction us)
  case Nil
  then show ?case by (simp add: usage_ok_def)
next
  case (Cons u us)
  then show ?case using keys_insert_or_merge [of c n us]
    by (auto simp: usage_ok_def simp flip: image_image image_set)
qed

text \<open>The statement as a fold of single row upserts.\<close>

definition upsert_row ::
  "(string \<Rightarrow> string) \<Rightarrow> accounts \<Rightarrow> date \<Rightarrow> counts_row \<Rightarrow> usage_row list \<Rightarrow> usage_row list" where
  "upsert_row sha1 accts now r =
     (case limits_by_account accts (r_account r) of None \<Rightarrow> id
      | Some limit \<Rightarrow> insert_or_merge [day_period now, month_period now] (new_usage sha1 now limit r))"

definition row_key :: "counts_row \<Rightarrow> string \<times> string" where
  "row_key r = (r_account r, r_period r)"

definition well_lettered :: "accounts \<Rightarrow> counts_row list \<Rightarrow> bool" where
  "well_lettered accts rows \<longleftrightarrow>
     list_all (\<lambda>r. accts (r_account r) \<noteq> None \<longrightarrow> take 1 (r_period r) \<in> {''d'', ''m''}) rows"

lemma limits_by_account_None: "limits_by_account accts a = None \<longleftrightarrow> accts a = None"
  by (simp add: limits_by_account_def split: option.splits)

lemma set_known_rows: "set (known_rows accts rows) = {r \<in> set rows. accts (r_account r) \<noteq> None}"
  by (auto simp: known_rows_def limits_by_account_None)

lemma distinct_known_rows:
  "distinct (map row_key rows) \<Longrightarrow> distinct (map row_key (known_rows accts rows))"
  unfolding known_rows_def distinct_map by (auto simp: inj_on_def)

lemma upsert_usage_fold:
  "upsert_usage sha1 accts now rows us =
     (if well_lettered accts rows
      then Inr (length (known_rows accts rows), fold (upsert_row sha1 accts now) (known_rows accts rows) us)
      else Inl (PyValueError ''KeyError''))"
  unfolding upsert_usage_def upsert_row_def well_lettered_def periods_at_def Let_def
  by (auto simp: require_def list_all_iff set_known_rows)

lemma period_key_new_usage [simp]: "period_key (new_usage sha1 now l r) = row_key r"
  by (simp add: new_usage_def period_key_def row_key_def)

lemma usage_ok_upsert_row: "usage_ok us \<Longrightarrow> usage_ok (upsert_row sha1 accts now r us)"
  by (simp add: upsert_row_def usage_ok_insert_or_merge split: option.splits)

lemma usage_ok_upsert_rows: "usage_ok us \<Longrightarrow> usage_ok (fold (upsert_row sha1 accts now) rows us)"
  by (induction rows arbitrary: us) (auto simp: usage_ok_upsert_row)

lemma find_upsert_row_other:
  "row_key r \<noteq> (a, p) \<Longrightarrow> find_usage a p (upsert_row sha1 accts now r us) = find_usage a p us"
  by (simp add: upsert_row_def find_insert_or_merge split: option.splits)

lemma find_upsert_rows_other:
  "(a, p) \<notin> row_key ` set rows \<Longrightarrow>
     find_usage a p (fold (upsert_row sha1 accts now) rows us) = find_usage a p us"
  by (induction rows arbitrary: us) (auto simp: find_upsert_row_other)

text \<open>With one row per key, what a key holds afterwards is its row merged into what it held.\<close>

lemma find_upsert_rows:
  assumes "distinct (map row_key rows)" and "r \<in> set rows"
    and lim: "limits_by_account accts (r_account r) = Some l"
  shows "find_usage (r_account r) (r_period r) (fold (upsert_row sha1 accts now) rows us) =
    Some (case find_usage (r_account r) (r_period r) us of None \<Rightarrow> new_usage sha1 now l r
          | Some u \<Rightarrow> merge_usage [day_period now, month_period now] (new_usage sha1 now l r) u)"
proof -
  from assms(2) obtain xs ys where rows: "rows = xs @ r # ys"
    by (meson split_list)
  with assms(1) have out: "(r_account r, r_period r) \<notin> row_key ` set xs"
    "(r_account r, r_period r) \<notin> row_key ` set ys"
    by (auto simp: row_key_def)
  show ?thesis
    using out lim by (simp add: rows find_upsert_rows_other)
      (simp add: upsert_row_def find_insert_or_merge find_upsert_rows_other row_key_def)
qed

lemma upsert_row_fixpoint:
  assumes "distinct (map row_key rows)" and "r \<in> set rows"
  shows "upsert_row sha1 accts now r (fold (upsert_row sha1 accts now) rows us) =
    fold (upsert_row sha1 accts now) rows us"
proof (cases "limits_by_account accts (r_account r)")
  case None
  then show ?thesis by (simp add: upsert_row_def)
next
  case (Some l)
  let ?c = "[day_period now, month_period now]"
  let ?n = "new_usage sha1 now l r"
  let ?t = "fold (upsert_row sha1 accts now) rows us"
  obtain u where u: "find_usage (r_account r) (r_period r) ?t = Some u" "merge_usage ?c ?n u = u"
    using find_upsert_rows [OF assms Some, of sha1 now us] by (auto split: option.splits)
  have "insert_or_merge ?c ?n ?t = ?t"
    by (rule insert_or_merge_fixpoint [OF _ u(2)]) (simp add: new_usage_def u(1))
  moreover have "upsert_row sha1 accts now r = insert_or_merge ?c ?n"
    by (simp add: upsert_row_def Some)
  ultimately show ?thesis by simp
qed

lemma upsert_rows_idem:
  assumes "distinct (map row_key rows)"
  shows "fold (upsert_row sha1 accts now) rows (fold (upsert_row sha1 accts now) rows us) =
    fold (upsert_row sha1 accts now) rows us"
proof -
  have "fold (upsert_row sha1 accts now) rs t = t"
    if "\<And>r. r \<in> set rs \<Longrightarrow> upsert_row sha1 accts now r t = t" for rs t
    using that by (induction rs) auto
  then show ?thesis using upsert_row_fixpoint [OF assms] by blast
qed

lemma mapped_option_max: "0 \<le> (m::int) \<Longrightarrow> (case x of None \<Rightarrow> m | Some y \<Rightarrow> max (f y) m) =
    max (case x of None \<Rightarrow> 0 | Some y \<Rightarrow> f y) m"
  by (cases x) auto

lemma stored_sent_upsert:
  assumes "distinct (map row_key rows)" and "r \<in> set rows" and "accts (r_account r) \<noteq> None"
    and "0 \<le> r_sent r"
  shows "stored_sent (fold (upsert_row sha1 accts now) rows us) (r_account r) (r_period r) =
    max (stored_sent us (r_account r) (r_period r)) (r_sent r)"
proof -
  obtain l where l: "limits_by_account accts (r_account r) = Some l"
    using assms(3) limits_by_account_None by fastforce
  show ?thesis
    unfolding stored_sent_def find_upsert_rows [OF assms(1,2) l]
    using assms(4) by (auto simp: merge_usage_def new_usage_def split: option.splits)
qed

section \<open>Laws of the queries\<close>

lemma find_usage_Cons:
  "find_usage a p (u # us) = (if u_account u = a \<and> u_period u = p then Some u else find_usage a p us)"
  by (auto simp: find_usage_def period_key_def)

lemma sent_by_account_fold:
  fixes day month :: string
  assumes "usage_ok us" and "day \<noteq> month"
  defines "g \<equiv> \<lambda>u n. if u_period u = day then n\<lparr>n_day := u_sent u, n_refused_day := u_refused u\<rparr>
                     else n\<lparr>n_month := u_sent u, n_refused_month := u_refused u\<rparr>"
  shows "fold g (filter (\<lambda>u. u_account u = a \<and> (u_period u = day \<or> u_period u = month)) us) n =
    \<lparr>n_day = (case find_usage a day us of None \<Rightarrow> n_day n | Some u \<Rightarrow> u_sent u),
     n_month = (case find_usage a month us of None \<Rightarrow> n_month n | Some u \<Rightarrow> u_sent u),
     n_refused_day = (case find_usage a day us of None \<Rightarrow> n_refused_day n | Some u \<Rightarrow> u_refused u),
     n_refused_month = (case find_usage a month us of None \<Rightarrow> n_refused_month n | Some u \<Rightarrow> u_refused u)\<rparr>"
  using assms(1)
proof (induction us arbitrary: n)
  case Nil
  then show ?case by (simp add: find_usage_def)
next
  case (Cons u us)
  have ok: "usage_ok us" using Cons.prems by (simp add: usage_ok_def)
  have absent: "find_usage (u_account u) (u_period u) us = None"
  proof -
    have "period_key u \<notin> period_key ` set us" using Cons.prems by (simp add: usage_ok_def)
    then have "period_key v \<noteq> period_key u" if "v \<in> set us" for v using that by (metis image_eqI)
    then show ?thesis by (auto simp: find_usage_def find_None_iff period_key_def)
  qed
  have g_u: "g u m = (if u_period u = day then m\<lparr>n_day := u_sent u, n_refused_day := u_refused u\<rparr>
      else m\<lparr>n_month := u_sent u, n_refused_month := u_refused u\<rparr>)" for m
    by (simp add: g_def)
  show ?case
    using absent \<open>day \<noteq> month\<close>
    by (auto simp: Cons.IH [OF ok] g_u find_usage_Cons split: option.splits)
qed

lemma fold_filter_notin:
  "fold (\<lambda>p. filter (\<lambda>u. f u \<noteq> p)) ps us = filter (\<lambda>u. f u \<notin> set ps) us"
  by (induction ps arbitrary: us) (auto intro: filter_cong)

lemma prune_usage_filter:
  "prune_usage_job now configured us = filter (\<lambda>u. \<not> is_expired now configured (u_period u)) us"
  unfolding prune_usage_job_def fold_filter_notin get_expired_periods_def
  by (auto intro: filter_cong)

lemma day_period_less_iff:
  "valid_date d \<Longrightarrow> valid_date e \<Longrightarrow> day_period d < day_period e \<longleftrightarrow> date_less d e"
  by (simp add: day_period_def stamp_day_less_iff)

lemma month_period_less_iff:
  "valid_date d \<Longrightarrow> valid_date e \<Longrightarrow> month_period d < month_period e \<longleftrightarrow>
     year d < year e \<or> (year d = year e \<and> month d < month e)"
  by (simp add: month_period_def stamp_month_less_iff)

lemma day_period_eq_iff: "valid_date d \<Longrightarrow> valid_date e \<Longrightarrow> day_period d = day_period e \<longleftrightarrow> d = e"
  by (simp add: day_period_def stamp_day_eq_iff)

lemma month_period_eq_iff:
  "valid_date d \<Longrightarrow> valid_date e \<Longrightarrow>
     month_period d = month_period e \<longleftrightarrow> year d = year e \<and> month d = month e"
  by (simp add: month_period_def stamp_month_eq_iff)

lemma date_less_trans: "date_less a b \<Longrightarrow> date_less b c \<Longrightarrow> date_less a c"
  by (auto simp: date_less_def)

lemma date_less_irrefl [simp]: "\<not> date_less a a"
  by (auto simp: date_less_def)

lemma sent_by_account_stored:
  assumes "usage_ok us"
  shows "n_day (sent_by_account now us a) = stored_sent us a (day_period now)"
    "n_month (sent_by_account now us a) = stored_sent us a (month_period now)"
  unfolding sent_by_account_def periods_at_def Let_def case_prod_conv
    sent_by_account_fold [OF assms periods_differ(1)] stored_sent_def
  by (simp_all split: option.splits)

lemma year_sub_days: "year (sub_days n d) \<le> year d"
proof (induction n arbitrary: d)
  case (Suc n)
  have "year (prev_day d) \<le> year d" by (simp add: prev_day_def)
  with Suc [of "prev_day d"] show ?case by simp
qed simp

lemma prev_day_less: "1 \<le> year d \<Longrightarrow> 1 \<le> month d \<Longrightarrow> 1 \<le> day d \<Longrightarrow> date_less (prev_day d) d"
  by (auto simp: date_less_def prev_day_def)

lemma prev_day_fields: "1 \<le> month d \<Longrightarrow> 1 \<le> day d \<Longrightarrow> 1 \<le> month (prev_day d) \<and> 1 \<le> day (prev_day d)"
  using days_in_month_bounds [of "year d" "month d - 1"] by (auto simp: prev_day_def)

lemma sub_days_less:
  assumes "1 \<le> month d" "1 \<le> day d" "1 \<le> year (sub_days n d)" "0 < n"
  shows "date_less (sub_days n d) d"
  using assms
proof (induction n arbitrary: d)
  case (Suc n)
  have "year (sub_days n (prev_day d)) \<le> year (prev_day d)" by (rule year_sub_days)
  moreover have "year (prev_day d) \<le> year d" by (simp add: prev_day_def)
  ultimately have less: "date_less (prev_day d) d"
    using Suc.prems by (intro prev_day_less) auto
  show ?case
  proof (cases n)
    case 0
    with less show ?thesis by simp
  next
    case (Suc m)
    then have "date_less (sub_days n (prev_day d)) (prev_day d)"
      using Suc.prems prev_day_fields [of d] by (intro Suc.IH) auto
    with less show ?thesis by (auto intro: date_less_trans)
  qed
qed simp

section \<open>Properties\<close>

text \<open>
  A flush written twice changes nothing: upserting the same rows again, one row per account and
  period, stores exactly the same table and counts the same number of rows.
\<close>

theorem upsert_usage_idempotent:
  assumes "distinct (map row_key rows)"
    and "upsert_usage sha1 accts now rows us = Inr (n, us')"
  shows "upsert_usage sha1 accts now rows us' = Inr (n, us')"
  using assms upsert_rows_idem [OF distinct_known_rows [OF assms(1)]]
  by (auto simp: upsert_usage_fold split: if_splits)

theorem upsert_usage_idempotent_witness:
  "\<exists>us'. upsert_usage id (\<lambda>a. if a = ''a@x.io'' then Some \<lparr>a_cluster = Some ''c'', a_daily = 5, a_monthly = 50\<rparr> else None)
         \<lparr>year = 2026, month = 3, day = 10\<rparr>
         [\<lparr>r_account = ''a@x.io'', r_period = ''d:20260310'', r_sent = 3, r_refused = 1\<rparr>,
          \<lparr>r_account = ''b@x.io'', r_period = ''d:20260310'', r_sent = 2, r_refused = 0\<rparr>] us' = Inr (1, us')
       \<and> stored_sent us' ''a@x.io'' ''d:20260310'' = 3"
proof -
  let ?accts = "\<lambda>a. if a = ''a@x.io'' then Some \<lparr>a_cluster = Some ''c'', a_daily = 5, a_monthly = 50\<rparr> else None"
  let ?now = "\<lparr>year = 2026, month = 3, day = 10\<rparr>"
  let ?rows = "[\<lparr>r_account = ''a@x.io'', r_period = ''d:20260310'', r_sent = 3, r_refused = 1\<rparr>,
          \<lparr>r_account = ''b@x.io'', r_period = ''d:20260310'', r_sent = 2, r_refused = 0\<rparr>]"
  let ?u = "new_usage id ?now (\<lambda>c. if c = CHR ''d'' then 5 else 50) (hd ?rows)"
  have "upsert_usage id ?accts ?now ?rows [] = Inr (1, [?u])"
    by (simp add: upsert_usage_def known_rows_def limits_by_account_def periods_at_def require_def new_usage_def)
  from upsert_usage_idempotent [OF _ this] have "upsert_usage id ?accts ?now ?rows [?u] = Inr (1, [?u])"
    by (simp add: row_key_def)
  moreover have "stored_sent [?u] ''a@x.io'' ''d:20260310'' = 3"
    by (simp add: stored_sent_def find_usage_def period_key_def new_usage_def)
  ultimately show ?thesis by blast
qed

text \<open>
  The retention job deletes exactly the rows of days before the cutoff day and of months before
  the cutoff month, the period keys comparing like the dates they name, and never a row of the
  current day or month, whatever retention is configured.
\<close>

theorem prune_usage_exact:
  assumes "valid_date now" and "valid_date d"
    and "valid_date (sub_days (retention_days configured) now)" (is "valid_date ?cutoff")
  shows "(u_period u = day_period d \<longrightarrow>
       (u \<in> set (prune_usage_job now configured us) \<longleftrightarrow> u \<in> set us \<and> \<not> date_less d ?cutoff)) \<and>
     (u_period u = month_period d \<longrightarrow>
       (u \<in> set (prune_usage_job now configured us) \<longleftrightarrow>
        u \<in> set us \<and> \<not> (year d < year ?cutoff \<or> year d = year ?cutoff \<and> month d < month ?cutoff))) \<and>
     (u \<in> set us \<and> u_period u \<in> {day_period now, month_period now} \<longrightarrow>
       u \<in> set (prune_usage_job now configured us))"
proof -
  have "0 < retention_days configured"
    by (simp add: retention_days_def DEFAULT_RETENTION_DAYS_def)
  then have less: "date_less ?cutoff now"
    using assms by (intro sub_days_less) (auto simp: valid_date_def)
  have day_iff: "is_expired now configured (day_period e) \<longleftrightarrow> date_less e ?cutoff"
    if "valid_date e" for e
    using that assms by (simp add: is_expired_def periods_at_def Let_def day_period_less_iff)
  have month_iff: "is_expired now configured (month_period e) \<longleftrightarrow>
      year e < year ?cutoff \<or> year e = year ?cutoff \<and> month e < month ?cutoff"
    if "valid_date e" for e
    using that assms by (simp add: is_expired_def periods_at_def Let_def month_period_less_iff)
  have current: "\<not> is_expired now configured (day_period now)" "\<not> is_expired now configured (month_period now)"
    using less day_iff [OF assms(1)] month_iff [OF assms(1)] by (auto simp: date_less_def)
  show ?thesis
    unfolding prune_usage_filter set_filter mem_Collect_eq
    using day_iff [OF assms(2)] month_iff [OF assms(2)] current by (metis insertE singletonD)
qed

theorem prune_usage_exact_witness:
  "let now = \<lparr>year = 2026, month = 3, day = 10\<rparr>;
       old = \<lparr>year = 2026, month = 3, day = 7\<rparr>;
       u = \<lparr>u_name = ''n'', u_account = ''a@x.io'', u_period = day_period old, u_sent = 4,
            u_refused = 0, u_send_limit = 9, u_reported_at = old, u_modified = old\<rparr>
   in u \<notin> set (prune_usage_job now 2 [u])"
proof -
  let ?now = "\<lparr>year = 2026, month = 3, day = 10\<rparr>"
  let ?old = "\<lparr>year = 2026, month = 3, day = 7\<rparr>"
  have cut: "sub_days (retention_days 2) ?now = \<lparr>year = 2026, month = 3, day = 8\<rparr>"
    by (simp add: retention_days_def prev_day_def)
  show ?thesis
    unfolding Let_def
    by (rule notI, subst (asm) prune_usage_exact [of ?now ?old 2, THEN conjunct1, THEN mp])
      (simp_all only: cut, simp_all add: valid_date_def days_in_month_def date_less_def)
qed

end
