(* ===== verification/Sending_Limits.thy ===== *)
theory Sending_Limits
  imports Send_Usage
begin

text \<open>
  The sending limits (src/suite_cloud/mail/sending_limits.py and
  src/suite_cloud/api/sending_limits.py): the Redis side of the counters, the atomic check script,
  the limit cache and the flush into Mail Send Usage.

  The Redis values are the fields of \<open>store\<close>, one per kind of key the code uses: the counter hashes
  and the limit hashes (their keys differ right after \<open>sending_limits:\<close>), the two member sets as
  lists without duplicates, and the expiry the code last gave a key.  A set that is empty does not
  exist.  \<open>make_key\<close> is Frappe's prefixing of cache keys, and \<open>sha1\<close> the hash of the row names:
  both are parameters.  Redis counts in 64 bits, far above any count of recipients, so counters are
  \<open>int\<close>.
\<close>

section \<open>State\<close>

record counter =
  c_sent :: "int option"
  c_refused :: "int option"

record limits =
  l_cluster :: string
  l_daily :: int
  l_monthly :: int

record store =
  counters :: "string \<rightharpoonup> counter"
  limit_cache :: "string \<rightharpoonup> limits"
  ttl :: "string \<rightharpoonup> nat"
  touched :: "string list"
  flushing :: "string list"
  accounts_tab :: accounts
  usage_tab :: "usage_row list"

datatype verdict = VSeed | VAccept | VDaily | VMonthly

definition LIMIT_TTL :: nat where "LIMIT_TTL = 3600"
definition DAY_TTL :: nat where "DAY_TTL = 3 * 86400"
definition MONTH_TTL :: nat where "MONTH_TTL = 35 * 86400"
definition FLUSH_BATCH :: nat where "FLUSH_BATCH = 5000"
definition MESSAGE_LIMIT :: nat where "MESSAGE_LIMIT = 199"

section \<open>The atomic check\<close>

definition counter_key :: "(string \<Rightarrow> string) \<Rightarrow> string \<Rightarrow> string \<Rightarrow> string" where
  "counter_key make_key account period = make_key (''sending_limits:count:'' @ account @ '':'' @ period)"

definition limit_key :: "(string \<Rightarrow> string) \<Rightarrow> string \<Rightarrow> string" where
  "limit_key make_key account = make_key (''sending_limits:limit:'' @ account)"

definition member :: "string \<Rightarrow> string \<Rightarrow> string" where
  "member account period = account @ ''|'' @ period"

definition hget :: "string \<Rightarrow> store \<Rightarrow> counter" where
  "hget k s = (case counters s k of None \<Rightarrow> \<lparr>c_sent = None, c_refused = None\<rparr> | Some c \<Rightarrow> c)"

definition hset :: "string \<Rightarrow> counter \<Rightarrow> store \<Rightarrow> store" where
  "hset k c s = s\<lparr>counters := (counters s)(k \<mapsto> c)\<rparr>"

definition setnx :: "int \<Rightarrow> int option \<Rightarrow> int option" where
  "setnx v old = (case old of None \<Rightarrow> Some v | Some x \<Rightarrow> Some x)"

definition or_zero :: "int option \<Rightarrow> int" where
  "or_zero v = (case v of None \<Rightarrow> 0 | Some x \<Rightarrow> x)"

text \<open>\<open>HSETNX key 'sent' a\<close> and \<open>HSETNX key 'refused' b\<close>.\<close>

definition seed_counter :: "string \<Rightarrow> int \<Rightarrow> int \<Rightarrow> store \<Rightarrow> store" where
  "seed_counter k sent refused s =
     hset k \<lparr>c_sent = setnx sent (c_sent (hget k s)), c_refused = setnx refused (c_refused (hget k s))\<rparr> s"

definition incr_sent :: "string \<Rightarrow> store \<Rightarrow> store" where
  "incr_sent k s = hset k ((hget k s)\<lparr>c_sent := Some (or_zero (c_sent (hget k s)) + 1)\<rparr>) s"

definition incr_refused :: "string \<Rightarrow> store \<Rightarrow> store" where
  "incr_refused k s = hset k ((hget k s)\<lparr>c_refused := Some (or_zero (c_refused (hget k s)) + 1)\<rparr>) s"

definition sadd :: "string \<Rightarrow> string list \<Rightarrow> string list" where
  "sadd x xs = (if x \<in> set xs then xs else xs @ [x])"

type_synonym seed = "int \<times> int \<times> int \<times> int"

definition apply_seed :: "string \<Rightarrow> string \<Rightarrow> seed option \<Rightarrow> store \<Rightarrow> store" where
  "apply_seed dk mk seed s =
     (case seed of None \<Rightarrow> s
      | Some (ds, dr, ms, mr) \<Rightarrow> seed_counter mk ms mr (seed_counter dk ds dr s))"

definition judge :: "int \<Rightarrow> int \<Rightarrow> int \<Rightarrow> int \<Rightarrow> verdict" where
  "judge day_sent month_sent daily monthly =
     (if day_sent + 1 > daily then VDaily else if month_sent + 1 > monthly then VMonthly else VAccept)"

definition check_script ::
  "string \<Rightarrow> string \<Rightarrow> string \<Rightarrow> string \<Rightarrow> int \<Rightarrow> int \<Rightarrow> seed option \<Rightarrow> store \<Rightarrow> verdict \<times> store" where
  "check_script dk mk day_member month_member daily monthly seed s =
     (if seed = None \<and> (counters s dk = None \<or> counters s mk = None) then (VSeed, s)
      else
        let s1 = apply_seed dk mk seed s;
            verdict = judge (or_zero (c_sent (hget dk s1))) (or_zero (c_sent (hget mk s1))) daily monthly;
            s2 = (if verdict = VAccept then incr_sent mk (incr_sent dk s1)
                  else incr_refused mk (incr_refused dk s1))
        in (verdict, s2\<lparr>ttl := (ttl s2)(dk \<mapsto> DAY_TTL, mk \<mapsto> MONTH_TTL),
                       touched := sadd month_member (sadd day_member (touched s2))\<rparr>))"

definition run_check ::
  "(string \<Rightarrow> string) \<Rightarrow> string \<Rightarrow> string \<Rightarrow> string \<Rightarrow> limits \<Rightarrow> seed option \<Rightarrow> store \<Rightarrow> verdict \<times> store" where
  "run_check make_key account dk mk lim seed s =
     check_script (counter_key make_key account dk) (counter_key make_key account mk)
       (member account dk) (member account mk) (l_daily lim) (l_monthly lim) seed s"

section \<open>Counting a recipient\<close>

definition get_limits :: "(string \<Rightarrow> string) \<Rightarrow> string \<Rightarrow> store \<Rightarrow> limits \<times> store" where
  "get_limits make_key account s =
     (let key = limit_key make_key account in
      case limit_cache s key of
        Some lim \<Rightarrow> (lim, s)
      | None \<Rightarrow>
          let lim = (case accounts_tab s account of
                       None \<Rightarrow> \<lparr>l_cluster = '''', l_daily = 0, l_monthly = 0\<rparr>
                     | Some a \<Rightarrow> \<lparr>l_cluster = (case a_cluster a of None \<Rightarrow> '''' | Some c \<Rightarrow> c),
                                 l_daily = a_daily a, l_monthly = a_monthly a\<rparr>)
          in (lim, s\<lparr>limit_cache := (limit_cache s)(key \<mapsto> lim), ttl := (ttl s)(key \<mapsto> LIMIT_TTL)\<rparr>))"

definition get_seed :: "string \<Rightarrow> string \<Rightarrow> string \<Rightarrow> store \<Rightarrow> seed" where
  "get_seed account dk mk s =
     (let counts = (\<lambda>p. case find_usage account p (usage_tab s) of
                          None \<Rightarrow> (0, 0) | Some u \<Rightarrow> (u_sent u, u_refused u))
      in (fst (counts dk), snd (counts dk), fst (counts mk), snd (counts mk)))"

text \<open>\<open>f"{limit:,}"\<close>: a comma between every three digits, from the right.\<close>

fun commas_rev :: "string \<Rightarrow> string" where
  "commas_rev (a # b # c # d # ds) = a # b # c # CHR '','' # commas_rev (d # ds)"
| "commas_rev ds = ds"

definition show_commas :: "int \<Rightarrow> string" where
  "show_commas n = (if n < 0 then ''-'' else '''') @ rev (commas_rev (rev (show_nat (nat \<bar>n\<bar>))))"

definition refusal_reset :: "verdict \<Rightarrow> date \<Rightarrow> date" where
  "refusal_reset verdict now =
     (if verdict = VDaily then add_days 1 now
      else (add_days 32 (now\<lparr>day := 1\<rparr>))\<lparr>day := 1\<rparr>)"

definition get_refusal_message :: "verdict \<Rightarrow> string \<Rightarrow> limits \<Rightarrow> date \<Rightarrow> string" where
  "get_refusal_message verdict account lim now =
     (let (label, limit) = (if verdict = VDaily then (''Daily'', l_daily lim) else (''Monthly'', l_monthly lim));
          message = label @ '' sending limit of '' @ show_commas limit @ '' recipients reached for '' @
            account @ ''. It resets at '' @ iso_date (refusal_reset verdict now) @ '' 00:00 UTC.''
      in take MESSAGE_LIMIT message)"

definition count_recipient ::
  "(string \<Rightarrow> string) \<Rightarrow> string \<Rightarrow> string \<Rightarrow> date \<Rightarrow> store \<Rightarrow> string option \<times> store" where
  "count_recipient make_key cluster account now s =
     (let (lim, s1) = get_limits make_key account s in
      if l_cluster lim \<noteq> cluster then (None, s1)
      else
        let (day, month) = periods_at now;
            (v, s2) = run_check make_key account day month lim None s1;
            (v', s3) = (if v = VSeed
                        then run_check make_key account day month lim (Some (get_seed account day month s2)) s2
                        else (v, s2))
        in (if v' = VAccept then None else Some (get_refusal_message v' account lim now), s3))"

definition clear_limits :: "(string \<Rightarrow> string) \<Rightarrow> string \<Rightarrow> store \<Rightarrow> store" where
  "clear_limits make_key account s = s\<lparr>limit_cache := (limit_cache s)(limit_key make_key account := None)\<rparr>"

section \<open>The hook\<close>

datatype hook_answer = Accept | Reject string

text \<open>
  \<open>check\<close> of api/sending_limits.py: \<open>login\<close> is \<open>context.sasl.login\<close> when it is there, \<open>to_given\<close>
  whether the envelope names a recipient.
\<close>

definition check ::
  "(string \<Rightarrow> string) \<Rightarrow> string \<Rightarrow> string option \<Rightarrow> bool \<Rightarrow> date \<Rightarrow> store \<Rightarrow> hook_answer \<times> store" where
  "check make_key cluster login to_given now s =
     (let account = py_lower (py_strip (case login of None \<Rightarrow> '''' | Some l \<Rightarrow> l)) in
      if account = '''' \<or> \<not> to_given then (Accept, s)
      else
        let (refusal, s') = count_recipient make_key cluster account now s
        in (case refusal of None \<Rightarrow> (Accept, s')
            | Some m \<Rightarrow> if m = '''' then (Accept, s') else (Reject m, s')))"

section \<open>The flush\<close>

text \<open>\<open>member.decode().rpartition("|")[::2]\<close>: the parts around the last bar.\<close>

definition split_member :: "string \<Rightarrow> string \<times> string" where
  "split_member m =
     (case partition_at (CHR ''|'') (rev m) of (b, found, a) \<Rightarrow> if found then (rev a, rev b) else ('''', m))"

definition counts_row_of :: "(string \<Rightarrow> string) \<Rightarrow> store \<Rightarrow> string \<times> string \<Rightarrow> counts_row list res" where
  "counts_row_of make_key s pair =
     (case counters s (counter_key make_key (fst pair) (snd pair)) of
        None \<Rightarrow> Inr []
      | Some c \<Rightarrow>
          (case (c_sent c, c_refused c) of
             (Some n, Some m) \<Rightarrow> Inr [\<lparr>r_account = fst pair, r_period = snd pair, r_sent = n, r_refused = m\<rparr>]
           | (None, None) \<Rightarrow> Inr []
           | _ \<Rightarrow> Inl (PyValueError ''KeyError'')))"

definition get_usage_rows ::
  "(string \<Rightarrow> string) \<Rightarrow> date \<Rightarrow> string list \<Rightarrow> store \<Rightarrow> counts_row list res" where
  "get_usage_rows make_key now members s =
     (let pairs = filter (\<lambda>p. snd p \<in> set (reportable_periods now)) (map split_member members)
      in rbind (rmap (counts_row_of make_key s) pairs) (\<lambda>rows. Inr (concat rows)))"

function batches :: "nat \<Rightarrow> 'a list \<Rightarrow> 'a list list" where
  "batches n xs = (if n = 0 \<or> xs = [] then [] else take n xs # batches n (drop n xs))"
  by pat_completeness auto
termination
  by (relation "measure (\<lambda>(n, xs). length xs)") auto

declare batches.simps [simp del]

text \<open>
  \<open>flush_usage\<close> with the outcome of its database work as an argument: when a statement or the commit
  fails the transaction is rolled back and the exception leaves the function before the set is
  deleted.
\<close>

definition flush_usage ::
  "(string \<Rightarrow> string) \<Rightarrow> (string \<Rightarrow> string) \<Rightarrow> date \<Rightarrow> bool \<Rightarrow> store \<Rightarrow> exn option \<times> store" where
  "flush_usage make_key sha1 now db_ok s =
     (if flushing s = [] \<and> touched s = [] then (None, s)
      else
        let s1 = (if flushing s = [] then s\<lparr>flushing := touched s, touched := []\<rparr> else s)
        in (case rbind (get_usage_rows make_key now (flushing s1) s1)
                  (\<lambda>rows. rfold (\<lambda>batch us. rbind (upsert_usage sha1 (accounts_tab s1) now batch us) (\<lambda>r. Inr (snd r)))
                     (batches FLUSH_BATCH rows) (usage_tab s1)) of
              Inl e \<Rightarrow> (Some e, s1)
            | Inr us \<Rightarrow> if db_ok then (None, s1\<lparr>usage_tab := us, flushing := []\<rparr>)
                        else (Some (PyValueError ''database''), s1)))"

section \<open>Keys\<close>

definition is_period :: "string \<Rightarrow> bool" where
  "is_period p \<longleftrightarrow> (\<exists>d. valid_date d \<and> (p = day_period d \<or> p = month_period d))"

lemma is_periodI [intro]: "valid_date d \<Longrightarrow> is_period (day_period d)" "valid_date d \<Longrightarrow> is_period (month_period d)"
  by (auto simp: is_period_def)

lemma hd_stamp_day_digit: "valid_date d \<Longrightarrow> py_isdigit (hd (stamp_day d))"
  using stamp_digits [of d "hd (stamp_day d)"] by (metis Un_iff hd_in_set length_0_conv length_stamps(1) zero_neq_numeral)

lemma day_month_key_differ:
  assumes "valid_date d"
  shows "a @ '':'' @ day_period d \<noteq> b @ '':'' @ month_period e"
proof
  assume eq: "a @ '':'' @ day_period d = b @ '':'' @ month_period e"
  have "length (a @ '':'' @ day_period d) = length a + 11" "length (b @ '':'' @ month_period e) = length b + 9"
    by (simp_all add: day_period_def month_period_def)
  with eq have len: "length b = length (a @ '':d'')" by simp
  have "(a @ '':d'') @ ('':'' @ stamp_day d) = b @ ('':m:'' @ stamp_month e)"
    using eq by (simp add: day_period_def month_period_def)
  then have "'':'' @ stamp_day d = '':m:'' @ stamp_month e" using len by (metis append_eq_append_conv)
  then have "hd (stamp_day d) = CHR ''m''" by simp
  with hd_stamp_day_digit [OF assms] show False by (simp add: py_isdigit_def code_def)
qed

lemma key_text_inj:
  assumes "is_period p" "is_period q" "a @ '':'' @ p = b @ '':'' @ q"
  shows "a = b \<and> p = q"
proof -
  consider (same) "length p = length q"
    | (dm) d e where "valid_date d" "p = day_period d" "q = month_period e"
    | (md) d e where "valid_date e" "p = month_period d" "q = day_period e"
    using assms(1,2) by (auto simp: is_period_def day_period_def month_period_def)
  then show ?thesis
  proof cases
    case same
    then show ?thesis using assms(3) by (simp add: append_eq_append_conv)
  next
    case dm
    then show ?thesis using assms(3) day_month_key_differ by blast
  next
    case md
    then show ?thesis using assms(3) day_month_key_differ [of e b a d] by metis
  qed
qed

lemma counter_key_inj:
  assumes "inj make_key" "is_period p" "is_period q"
  shows "counter_key make_key a p = counter_key make_key b q \<longleftrightarrow> a = b \<and> p = q"
  using key_text_inj [OF assms(2,3), of a b] injD [OF assms(1)] by (auto simp: counter_key_def)

lemma limit_key_inj: "inj make_key \<Longrightarrow> limit_key make_key a = limit_key make_key b \<longleftrightarrow> a = b"
  by (auto simp: limit_key_def dest: injD)

text \<open>The two kinds of hash never share a key.\<close>

lemma limit_key_not_counter_key: "inj make_key \<Longrightarrow> limit_key make_key a \<noteq> counter_key make_key b p"
  by (auto simp: limit_key_def counter_key_def dest: injD)

lemma split_member: "CHR ''|'' \<notin> set p \<Longrightarrow> split_member (member a p) = (a, p)"
  by (simp add: split_member_def member_def partition_at_append)

section \<open>The check as one step\<close>

text \<open>Every counter hash holds both fields: what the seeding establishes.\<close>

definition full :: "store \<Rightarrow> bool" where
  "full s \<longleftrightarrow> (\<forall>k c. counters s k = Some c \<longrightarrow> c_sent c \<noteq> None \<and> c_refused c \<noteq> None)"

definition bump :: "verdict \<Rightarrow> counter \<Rightarrow> counter" where
  "bump v c = (if v = VAccept then c\<lparr>c_sent := Some (or_zero (c_sent c) + 1)\<rparr>
               else c\<lparr>c_refused := Some (or_zero (c_refused c) + 1)\<rparr>)"

definition effective :: "store \<Rightarrow> string \<Rightarrow> int \<Rightarrow> int \<Rightarrow> counter" where
  "effective s k sent refused =
     (case counters s k of None \<Rightarrow> \<lparr>c_sent = Some sent, c_refused = Some refused\<rparr> | Some c \<Rightarrow> c)"

definition after_check :: "string \<Rightarrow> string \<Rightarrow> string \<Rightarrow> string \<Rightarrow> verdict \<Rightarrow> counter \<Rightarrow> counter \<Rightarrow> store \<Rightarrow> store" where
  "after_check dk mk dm mm v cd cm s =
     s\<lparr>counters := (counters s)(dk \<mapsto> bump v cd, mk \<mapsto> bump v cm),
       ttl := (ttl s)(dk \<mapsto> DAY_TTL, mk \<mapsto> MONTH_TTL),
       touched := sadd mm (sadd dm (touched s))\<rparr>"

lemma check_script_present:
  fixes daily monthly :: int
  assumes "dk \<noteq> mk" "counters s dk = Some cd" "counters s mk = Some cm"
  defines "v \<equiv> judge (or_zero (c_sent cd)) (or_zero (c_sent cm)) daily monthly"
  shows "check_script dk mk dm mm daily monthly None s = (v, after_check dk mk dm mm v cd cm s)"
  using assms(1-3) unfolding v_def
  by (simp add: check_script_def apply_seed_def Let_def hget_def hset_def incr_sent_def
      incr_refused_def after_check_def bump_def)

lemma seed_counter_full:
  assumes "full s"
  shows "seed_counter k a b s = s\<lparr>counters := (counters s)(k \<mapsto> effective s k a b)\<rparr>"
proof (cases "counters s k")
  case None
  then show ?thesis by (simp add: seed_counter_def hset_def hget_def effective_def setnx_def)
next
  case (Some c)
  with assms obtain x y where "c_sent c = Some x" "c_refused c = Some y"
    unfolding full_def by blast
  then have "c = \<lparr>c_sent = Some x, c_refused = Some y\<rparr>" by simp
  with Some show ?thesis by (simp add: seed_counter_def hset_def hget_def effective_def setnx_def)
qed

lemma check_script_seeded:
  fixes daily monthly ds dr ms mr :: int
  assumes "dk \<noteq> mk" "full s"
  defines "cd \<equiv> effective s dk ds dr" and "cm \<equiv> effective s mk ms mr"
  defines "v \<equiv> judge (or_zero (c_sent cd)) (or_zero (c_sent cm)) daily monthly"
  shows "check_script dk mk dm mm daily monthly (Some (ds, dr, ms, mr)) s = (v, after_check dk mk dm mm v cd cm s)"
proof -
  let ?t = "s\<lparr>counters := (counters s)(dk \<mapsto> cd)\<rparr>"
  have "full ?t" using assms(2) by (auto simp: full_def cd_def effective_def split: option.splits)
  moreover have "effective ?t mk ms mr = cm" using assms(1) by (simp add: cm_def effective_def)
  ultimately have "apply_seed dk mk (Some (ds, dr, ms, mr)) s = s\<lparr>counters := (counters s)(dk \<mapsto> cd, mk \<mapsto> cm)\<rparr>"
    using assms(2) by (simp add: apply_seed_def seed_counter_full cd_def)
  then show ?thesis
    using assms(1) unfolding v_def
    by (simp add: check_script_def Let_def hget_def hset_def incr_sent_def
      incr_refused_def after_check_def bump_def)
qed

section \<open>The abstract meter\<close>

text \<open>
  What the code means by the recipients an account has used of a period: the live counter, or what
  Mail Send Usage stored when Redis holds none.
\<close>

definition used :: "(string \<Rightarrow> string) \<Rightarrow> store \<Rightarrow> string \<times> string \<Rightarrow> int" where
  "used make_key s k =
     (case counters s (counter_key make_key (fst k) (snd k)) of
        Some c \<Rightarrow> or_zero (c_sent c)
      | None \<Rightarrow> stored_sent (usage_tab s) (fst k) (snd k))"

definition limits_of :: "(string \<Rightarrow> string) \<Rightarrow> store \<Rightarrow> string \<Rightarrow> limits" where
  "limits_of make_key s account = fst (get_limits make_key account s)"

definition cap :: "(string \<Rightarrow> string) \<Rightarrow> store \<Rightarrow> string \<times> string \<Rightarrow> int" where
  "cap make_key s k =
     (if prefix ''d:'' (snd k) then l_daily (limits_of make_key s (fst k))
      else l_monthly (limits_of make_key s (fst k)))"

definition verdict_for :: "(string \<Rightarrow> string) \<Rightarrow> store \<Rightarrow> string \<Rightarrow> date \<Rightarrow> verdict" where
  "verdict_for make_key s account now =
     judge (used make_key s (account, day_period now)) (used make_key s (account, month_period now))
       (l_daily (limits_of make_key s account)) (l_monthly (limits_of make_key s account))"

lemma get_limits_frame:
  "get_limits make_key a s = (lim, s1) \<Longrightarrow>
     counters s1 = counters s \<and> usage_tab s1 = usage_tab s \<and> accounts_tab s1 = accounts_tab s \<and>
     touched s1 = touched s \<and> flushing s1 = flushing s"
  by (auto simp: get_limits_def Let_def split: option.splits)

lemma limits_of_get_limits:
  assumes "inj make_key"
  shows "limits_of make_key (snd (get_limits make_key a s)) b = limits_of make_key s b"
  using limit_key_inj [OF assms, of a b]
  by (auto simp: limits_of_def get_limits_def Let_def split: option.splits)

lemma limits_of_cong:
  "limit_cache s = limit_cache t \<Longrightarrow> accounts_tab s = accounts_tab t \<Longrightarrow>
     limits_of make_key s b = limits_of make_key t b"
  by (simp add: limits_of_def get_limits_def Let_def split: option.splits)

lemma or_zero_effective_seed:
  "or_zero (c_sent (effective s (counter_key make_key a p) (stored_sent (usage_tab s) a p) r)) =
     used make_key s (a, p)"
  by (simp add: effective_def used_def or_zero_def split: option.splits)

text \<open>Both passes of \<open>count_recipient\<close> together: the verdict is the meter's, and the counters move by one.\<close>

lemma count_recipient_step:
  assumes "inj make_key" "full s" "valid_date now"
    and cluster: "l_cluster (limits_of make_key s a) = cluster"
  obtains cd cm s1 where "get_limits make_key a s = (limits_of make_key s a, s1)"
    and "or_zero (c_sent cd) = used make_key s (a, day_period now)"
    and "or_zero (c_sent cm) = used make_key s (a, month_period now)"
    and "c_sent cd \<noteq> None" "c_refused cd \<noteq> None" "c_sent cm \<noteq> None" "c_refused cm \<noteq> None"
    and "count_recipient make_key cluster a now s =
      (if verdict_for make_key s a now = VAccept then None
       else Some (get_refusal_message (verdict_for make_key s a now) a (limits_of make_key s a) now),
       after_check (counter_key make_key a (day_period now)) (counter_key make_key a (month_period now))
         (member a (day_period now)) (member a (month_period now)) (verdict_for make_key s a now) cd cm s1)"
proof -
  let ?lim = "limits_of make_key s a"
  let ?dk = "counter_key make_key a (day_period now)" and ?mk = "counter_key make_key a (month_period now)"
  obtain s1 where s1: "get_limits make_key a s = (?lim, s1)"
    by (metis limits_of_def prod.collapse)
  note frame = get_limits_frame [OF s1]
  have full1: "full s1" using assms(2) frame by (simp add: full_def)
  have keys: "?dk \<noteq> ?mk" using assms(1,3) by (subst counter_key_inj) auto
  define seed where "seed = get_seed a (day_period now) (month_period now) s1"
  define dr mr where "dr = fst (snd seed)" and "mr = snd (snd (snd seed))"
  have seed: "seed = (stored_sent (usage_tab s) a (day_period now), dr,
      stored_sent (usage_tab s) a (month_period now), mr)"
    using frame
    by (simp add: dr_def mr_def seed_def get_seed_def stored_sent_def Let_def split: option.splits)
  let ?cd = "effective s1 ?dk (stored_sent (usage_tab s) a (day_period now)) dr"
  let ?cm = "effective s1 ?mk (stored_sent (usage_tab s) a (month_period now)) mr"
  have used1: "or_zero (c_sent ?cd) = used make_key s (a, day_period now)"
    "or_zero (c_sent ?cm) = used make_key s (a, month_period now)"
    using frame by (simp_all add: effective_def used_def or_zero_def split: option.splits)
  have some: "c_sent ?cd \<noteq> None" "c_refused ?cd \<noteq> None" "c_sent ?cm \<noteq> None" "c_refused ?cm \<noteq> None"
    using full1 by (auto simp: effective_def full_def split: option.splits)
  have v: "judge (or_zero (c_sent ?cd)) (or_zero (c_sent ?cm)) (l_daily ?lim) (l_monthly ?lim) =
      verdict_for make_key s a now"
    by (simp add: used1 verdict_for_def)
  have never_seed: "verdict_for make_key s a now \<noteq> VSeed" by (simp add: verdict_for_def judge_def)
  have "count_recipient make_key cluster a now s =
      (if verdict_for make_key s a now = VAccept then None
       else Some (get_refusal_message (verdict_for make_key s a now) a ?lim now),
       after_check ?dk ?mk (member a (day_period now)) (member a (month_period now))
         (verdict_for make_key s a now) ?cd ?cm s1)"
  proof (cases "counters s1 ?dk = None \<or> counters s1 ?mk = None")
    case True
    then have first: "run_check make_key a (day_period now) (month_period now) ?lim None s1 = (VSeed, s1)"
      by (simp add: run_check_def check_script_def)
    have second: "run_check make_key a (day_period now) (month_period now) ?lim (Some seed) s1 =
        (verdict_for make_key s a now, after_check ?dk ?mk (member a (day_period now))
          (member a (month_period now)) (verdict_for make_key s a now) ?cd ?cm s1)"
      unfolding run_check_def seed check_script_seeded [OF keys full1] v ..
    show ?thesis
      using first second cluster
      by (simp add: count_recipient_def s1 periods_at_def seed_def [symmetric])
  next
    case False
    then obtain xd xm where x: "counters s1 ?dk = Some xd" "counters s1 ?mk = Some xm" by auto
    then have "?cd = xd" "?cm = xm" by (simp_all add: effective_def)
    then have "run_check make_key a (day_period now) (month_period now) ?lim None s1 =
        (verdict_for make_key s a now, after_check ?dk ?mk (member a (day_period now))
          (member a (month_period now)) (verdict_for make_key s a now) ?cd ?cm s1)"
      using check_script_present [OF keys x] v by (simp add: run_check_def)
    then show ?thesis
      using never_seed cluster by (simp add: count_recipient_def s1 periods_at_def)
  qed
  with s1 used1 some that show ?thesis by blast
qed

lemma count_recipient_other_cluster:
  "l_cluster (limits_of make_key s a) \<noteq> cluster \<Longrightarrow>
     count_recipient make_key cluster a now s = (None, snd (get_limits make_key a s))"
  by (cases "get_limits make_key a s") (simp add: count_recipient_def limits_of_def)

lemma full_after_check:
  assumes "full s" "c_sent cd \<noteq> None" "c_refused cd \<noteq> None" "c_sent cm \<noteq> None" "c_refused cm \<noteq> None"
  shows "full (after_check dk mk dm mm v cd cm s)"
  using assms by (auto simp: full_def after_check_def bump_def)

lemma sent_bump: "or_zero (c_sent (bump v c)) = or_zero (c_sent c) + (if v = VAccept then 1 else 0)"
  by (simp add: bump_def or_zero_def)

lemma used_after_check:
  "used make_key (after_check dk mk dm mm v cd cm s) k =
     (if counter_key make_key (fst k) (snd k) = mk then or_zero (c_sent (bump v cm))
      else if counter_key make_key (fst k) (snd k) = dk then or_zero (c_sent (bump v cd))
      else used make_key s k)"
  by (simp add: used_def after_check_def split: option.splits)

lemma used_cong: "counters s = counters t \<Longrightarrow> usage_tab s = usage_tab t \<Longrightarrow> used make_key s k = used make_key t k"
  by (simp add: used_def split: option.splits)

text \<open>The events of a run: a check for an account, asked by a cluster, on a day.\<close>

type_synonym event = "string \<times> string \<times> date"

definition step :: "(string \<Rightarrow> string) \<Rightarrow> event \<Rightarrow> store \<Rightarrow> store" where
  "step make_key e s = (case e of (cluster, a, now) \<Rightarrow> snd (count_recipient make_key cluster a now s))"

definition accepts :: "(string \<Rightarrow> string) \<Rightarrow> event \<Rightarrow> store \<Rightarrow> string \<times> string \<Rightarrow> bool" where
  "accepts make_key e s k =
     (case e of (cluster, a, now) \<Rightarrow>
        l_cluster (limits_of make_key s a) = cluster \<and>
        fst (count_recipient make_key cluster a now s) = None \<and>
        fst k = a \<and> (snd k = day_period now \<or> snd k = month_period now))"

definition sound :: "(string \<Rightarrow> string) \<Rightarrow> store \<Rightarrow> bool" where
  "sound make_key s \<longleftrightarrow> inj make_key \<and> full s"

lemma step_sound:
  assumes "sound make_key s" "valid_date now"
  shows "sound make_key (step make_key (cluster, a, now) s)"
proof (cases "l_cluster (limits_of make_key s a) = cluster")
  case True
  have inj: "inj make_key" and full: "full s" using assms(1) by (auto simp: sound_def)
  obtain cd cm s1 where s1: "get_limits make_key a s = (limits_of make_key s a, s1)"
    and some: "c_sent cd \<noteq> None" "c_refused cd \<noteq> None" "c_sent cm \<noteq> None" "c_refused cm \<noteq> None"
    and eq: "snd (count_recipient make_key cluster a now s) =
      after_check (counter_key make_key a (day_period now)) (counter_key make_key a (month_period now))
        (member a (day_period now)) (member a (month_period now)) (verdict_for make_key s a now) cd cm s1"
    by (rule count_recipient_step [OF inj full assms(2) True]) auto
  have "full s1" using full get_limits_frame [OF s1] by (simp add: full_def)
  then show ?thesis using inj some by (simp add: sound_def step_def eq full_after_check)
next
  case False
  obtain lim s1 where s1: "get_limits make_key a s = (lim, s1)" by fastforce
  show ?thesis
    using assms(1) get_limits_frame [OF s1]
    by (simp add: step_def count_recipient_other_cluster [OF False] s1 sound_def full_def)
qed

lemma step_used:
  assumes "sound make_key s" "valid_date now" "is_period (snd k)"
  shows "used make_key (step make_key (cluster, a, now) s) k =
    used make_key s k + (if accepts make_key (cluster, a, now) s k then 1 else 0)"
proof (cases "l_cluster (limits_of make_key s a) = cluster")
  case True
  have inj: "inj make_key" and full: "full s" using assms(1) by (auto simp: sound_def)
  let ?v = "verdict_for make_key s a now"
  obtain cd cm s1 where s1: "get_limits make_key a s = (limits_of make_key s a, s1)"
    and used1: "or_zero (c_sent cd) = used make_key s (a, day_period now)"
      "or_zero (c_sent cm) = used make_key s (a, month_period now)"
    and eq: "count_recipient make_key cluster a now s =
      (if ?v = VAccept then None else Some (get_refusal_message ?v a (limits_of make_key s a) now),
       after_check (counter_key make_key a (day_period now)) (counter_key make_key a (month_period now))
        (member a (day_period now)) (member a (month_period now)) ?v cd cm s1)"
    by (rule count_recipient_step [OF inj full assms(2) True]) blast
  have iff: "counter_key make_key (fst k) (snd k) = counter_key make_key a q \<longleftrightarrow> k = (a, q)"
    if "is_period q" for q
    using counter_key_inj [OF inj assms(3) that] by (cases k) auto
  have acc: "accepts make_key (cluster, a, now) s k \<longleftrightarrow>
      ?v = VAccept \<and> (k = (a, day_period now) \<or> k = (a, month_period now))"
    by (cases k) (auto simp: accepts_def True eq)
  have same: "used make_key s1 k = used make_key s k"
    using get_limits_frame [OF s1] by (intro used_cong) auto
  show ?thesis
    using used1 same
    by (simp add: step_def eq used_after_check acc sent_bump iff is_periodI [OF assms(2)])
next
  case False
  obtain lim s1 where s1: "get_limits make_key a s = (lim, s1)" by fastforce
  show ?thesis
    using get_limits_frame [OF s1] False used_cong [of s1 s make_key k]
    by (simp add: step_def accepts_def count_recipient_other_cluster [OF False] s1)
qed

lemma step_limits:
  assumes "sound make_key s" "valid_date now"
  shows "limits_of make_key (step make_key (cluster, a, now) s) b = limits_of make_key s b"
proof (cases "l_cluster (limits_of make_key s a) = cluster")
  case True
  have inj: "inj make_key" and full: "full s" using assms(1) by (auto simp: sound_def)
  obtain cd cm s1 where s1: "get_limits make_key a s = (limits_of make_key s a, s1)"
    and eq: "snd (count_recipient make_key cluster a now s) =
      after_check (counter_key make_key a (day_period now)) (counter_key make_key a (month_period now))
        (member a (day_period now)) (member a (month_period now)) (verdict_for make_key s a now) cd cm s1"
    by (rule count_recipient_step [OF inj full assms(2) True]) auto
  have "limits_of make_key (step make_key (cluster, a, now) s) b = limits_of make_key s1 b"
    by (rule limits_of_cong) (simp_all add: step_def eq after_check_def)
  then show ?thesis using limits_of_get_limits [OF inj, of a s b] by (simp add: s1)
next
  case False
  then show ?thesis
    using assms(1) by (simp add: step_def sound_def count_recipient_other_cluster limits_of_get_limits)
qed

lemma accepts_below_cap:
  assumes "sound make_key s" "valid_date now" "accepts make_key (cluster, a, now) s k"
  shows "used make_key s k < cap make_key s k"
proof -
  have inj: "inj make_key" and full: "full s" using assms(1) by (auto simp: sound_def)
  have True: "l_cluster (limits_of make_key s a) = cluster" using assms(3) by (simp add: accepts_def)
  have "verdict_for make_key s a now = VAccept"
    using assms(3)
    by (rule_tac count_recipient_step [OF inj full assms(2) True]) (auto simp: accepts_def split: if_splits)
  then show ?thesis
    using assms(3) by (cases k) (auto simp: accepts_def cap_def verdict_for_def judge_def split: if_splits)
qed

section \<open>Runs\<close>

text \<open>
  The contract of a metered gate, and what any run of events through one may let pass: every
  accepted event adds one to the meters it charges, and no event is accepted at the cap.
\<close>

fun tally :: "('e \<Rightarrow> 's \<Rightarrow> bool) \<Rightarrow> ('e \<Rightarrow> 's \<Rightarrow> 's) \<Rightarrow> 'e list \<Rightarrow> 's \<Rightarrow> int" where
  "tally acc stp [] s = 0"
| "tally acc stp (e # es) s = (if acc e s then 1 else 0) + tally acc stp es (stp e s)"

locale metered_gate =
  fixes ok :: "'s \<Rightarrow> bool" and event :: "'e \<Rightarrow> bool" and key :: "'k \<Rightarrow> bool"
    and step :: "'e \<Rightarrow> 's \<Rightarrow> 's" and accepts :: "'e \<Rightarrow> 's \<Rightarrow> 'k \<Rightarrow> bool"
    and used :: "'s \<Rightarrow> 'k \<Rightarrow> int" and cap :: "'s \<Rightarrow> 'k \<Rightarrow> int"
  assumes ok_step: "ok s \<Longrightarrow> event e \<Longrightarrow> ok (step e s)"
    and used_step: "ok s \<Longrightarrow> event e \<Longrightarrow> key k \<Longrightarrow>
      used (step e s) k = used s k + (if accepts e s k then 1 else 0)"
    and cap_step: "ok s \<Longrightarrow> event e \<Longrightarrow> cap (step e s) k = cap s k"
    and accept_below: "ok s \<Longrightarrow> event e \<Longrightarrow> accepts e s k \<Longrightarrow> used s k < cap s k"
begin

lemma run_used:
  "ok s \<Longrightarrow> list_all event es \<Longrightarrow> key k \<Longrightarrow>
     used (fold step es s) k = used s k + tally (\<lambda>e s. accepts e s k) step es s"
  by (induction es arbitrary: s) (auto simp: used_step ok_step)

lemma run_bound:
  "ok s \<Longrightarrow> list_all event es \<Longrightarrow> key k \<Longrightarrow>
     used s k + tally (\<lambda>e s. accepts e s k) step es s \<le> max (used s k) (cap s k)"
proof (induction es arbitrary: s)
  case (Cons e es)
  have "used (step e s) k + tally (\<lambda>e s. accepts e s k) step es (step e s) \<le>
      max (used (step e s) k) (cap (step e s) k)"
    using Cons by (simp add: ok_step)
  then show ?case
    using Cons.prems accept_below [of s e k] by (auto simp: used_step cap_step split: if_splits)
qed simp

end

interpretation limit_gate: metered_gate
  "sound make_key" "\<lambda>e. valid_date (snd (snd e))" "\<lambda>k. is_period (snd k)"
  "step make_key" "accepts make_key" "used make_key" "cap make_key" for make_key
proof
  fix s and e :: event and k :: "string \<times> string"
  assume "sound make_key s" and "valid_date (snd (snd e))"
  note assms = this
  obtain cluster a now where e: "e = (cluster, a, now)" by (cases e)
  then have now: "valid_date now" using assms by simp
  show "sound make_key (step make_key e s)" using step_sound [OF assms(1) now] by (simp add: e)
  show "cap make_key (step make_key e s) k = cap make_key s k"
    using step_limits [OF assms(1) now] by (simp add: e cap_def)
  show "used make_key (step make_key e s) k = used make_key s k + (if accepts make_key e s k then 1 else 0)"
    if "is_period (snd k)"
    using step_used [OF assms(1) now that] by (simp add: e)
  show "used make_key s k < cap make_key s k" if "accepts make_key e s k"
    using accepts_below_cap [OF assms(1) now] that by (simp add: e)
qed

section \<open>Laws of the flush\<close>

lemma concat_batches: "0 < n \<Longrightarrow> concat (batches n xs) = xs"
  by (induction n xs rule: batches.induct) (subst batches.simps, simp)

lemma batches_nonempty: "b \<in> set (batches n xs) \<Longrightarrow> b \<noteq> [] \<and> set b \<subseteq> set xs"
proof (induction n xs rule: batches.induct)
  case (1 n xs)
  then show ?case
    by (subst (asm) (2) batches.simps) (fastforce split: if_splits dest: in_set_takeD in_set_dropD)
qed

lemma rfold_upsert:
  "(\<And>b. b \<in> set bs \<Longrightarrow> well_lettered accts b) \<Longrightarrow>
   rfold (\<lambda>batch us. rbind (upsert_usage sha1 accts now batch us) (\<lambda>r. Inr (snd r))) bs us =
     Inr (fold (upsert_row sha1 accts now) (concat (map (known_rows accts) bs)) us)"
  by (induction bs arbitrary: us) (auto simp: upsert_usage_fold)

lemma distinct_concat_known:
  "distinct (map row_key (concat bs)) \<Longrightarrow> distinct (map row_key (concat (map (known_rows accts) bs)))"
proof (induction bs)
  case (Cons b bs)
  have sub: "set (concat (map (known_rows accts) bs)) \<subseteq> set (concat bs)"
    by (auto simp: set_known_rows)
  have "row_key ` set (known_rows accts b) \<inter> row_key ` set (concat (map (known_rows accts) bs)) = {}"
  proof -
    have "row_key ` set b \<inter> row_key ` set (concat bs) = {}" using Cons.prems by (simp del: set_concat)
    moreover have "set (known_rows accts b) \<subseteq> set b" by (auto simp: set_known_rows)
    ultimately show ?thesis using sub by blast
  qed
  with Cons show ?case by (simp add: distinct_known_rows del: set_concat)
qed simp

lemma set_concat_known:
  "set (concat (map (known_rows accts) bs)) = {r \<in> set (concat bs). accts (r_account r) \<noteq> None}"
  by (auto simp: set_known_rows)

definition row_of_pair :: "(string \<Rightarrow> string) \<Rightarrow> store \<Rightarrow> string \<times> string \<Rightarrow> counts_row list" where
  "row_of_pair make_key s pair =
     (case counters s (counter_key make_key (fst pair) (snd pair)) of None \<Rightarrow> []
      | Some c \<Rightarrow> [\<lparr>r_account = fst pair, r_period = snd pair, r_sent = or_zero (c_sent c),
                   r_refused = or_zero (c_refused c)\<rparr>])"

definition reported :: "date \<Rightarrow> string list \<Rightarrow> (string \<times> string) list" where
  "reported now members = filter (\<lambda>p. snd p \<in> set (reportable_periods now)) (map split_member members)"

lemma counts_row_of_full: "full s \<Longrightarrow> counts_row_of make_key s pair = Inr (row_of_pair make_key s pair)"
  by (fastforce simp: counts_row_of_def row_of_pair_def full_def or_zero_def split: option.splits)

lemma get_usage_rows_full:
  "full s \<Longrightarrow> get_usage_rows make_key now members s =
     Inr (concat (map (row_of_pair make_key s) (reported now members)))"
  by (simp add: get_usage_rows_def reported_def rmap_total [OF counts_row_of_full] Let_def)

text \<open>The member set: no member twice, and every member has its bar.\<close>

definition members_ok :: "string list \<Rightarrow> bool" where
  "members_ok ms \<longleftrightarrow> distinct ms \<and> list_all (\<lambda>m. CHR ''|'' \<in> set m) ms"

lemma split_member_join: "CHR ''|'' \<in> set m \<Longrightarrow> m = fst (split_member m) @ ''|'' @ snd (split_member m)"
proof -
  assume "CHR ''|'' \<in> set m"
  then obtain b a where ba: "rev m = b @ CHR ''|'' # a" "CHR ''|'' \<notin> set b"
    by (metis set_rev split_list_first)
  then have "m = rev a @ CHR ''|'' # rev b" by (metis rev_append rev_rev_ident rev.simps(2) append_assoc append_Cons append_Nil)
  with ba show ?thesis by (simp add: split_member_def partition_at_append)
qed

lemma distinct_reported: "members_ok ms \<Longrightarrow> distinct (reported now ms)"
proof -
  assume ok: "members_ok ms"
  have "inj_on split_member (set ms)"
    using ok split_member_join by (intro inj_onI) (metis list_all_iff members_ok_def)
  then show ?thesis using ok by (simp add: reported_def members_ok_def distinct_map)
qed

lemma row_keys_of_pairs:
  "map row_key (concat (map (row_of_pair make_key s) ps)) =
     filter (\<lambda>p. counters s (counter_key make_key (fst p) (snd p)) \<noteq> None) ps"
  by (induction ps) (auto simp: row_of_pair_def row_key_def)

lemma members_ok_sadd: "members_ok ms \<Longrightarrow> members_ok (sadd (member a p) ms)"
  by (auto simp: members_ok_def sadd_def member_def)

lemma reportable_letters: "p \<in> set (reportable_periods now) \<Longrightarrow> take 1 p \<in> {''d'', ''m''}"
  by (auto simp: reportable_periods_def periods_at_def Let_def day_period_def month_period_def)

definition rows_of :: "(string \<Rightarrow> string) \<Rightarrow> date \<Rightarrow> store \<Rightarrow> counts_row list" where
  "rows_of make_key now s = concat (map (row_of_pair make_key s) (reported now (flushing s)))"

lemma flush_usage_ok:
  assumes "full s" "flushing s \<noteq> []"
  shows "flush_usage make_key sha1 now True s =
    (None, s\<lparr>usage_tab := fold (upsert_row sha1 (accounts_tab s) now)
         (concat (map (known_rows (accounts_tab s)) (batches FLUSH_BATCH (rows_of make_key now s))))
         (usage_tab s), flushing := []\<rparr>)"
proof -
  have "take 1 (r_period r) \<in> {''d'', ''m''}" if "r \<in> set (rows_of make_key now s)" for r
  proof -
    have "r_period r \<in> set (reportable_periods now)"
      using that by (auto simp: rows_of_def reported_def row_of_pair_def split: option.splits)
    then show ?thesis by (rule reportable_letters)
  qed
  then have "well_lettered accts b" if "b \<in> set (batches FLUSH_BATCH (rows_of make_key now s))" for accts b
    using batches_nonempty [OF that] by (auto simp: well_lettered_def list_all_iff)
  note upsert = rfold_upsert [OF this]
  show ?thesis
    using assms upsert by (simp add: flush_usage_def get_usage_rows_full flip: rows_of_def)
qed

lemma flush_usage_renames:
  assumes "flushing s = []" "touched s \<noteq> []"
  shows "flush_usage make_key sha1 now db_ok s =
    flush_usage make_key sha1 now db_ok (s\<lparr>flushing := touched s, touched := []\<rparr>)"
  using assms by (simp add: flush_usage_def)

lemma stored_after_flush:
  assumes "full s" "members_ok (flushing s)" "m \<in> set (flushing s)" "m = member a p"
    and "p \<in> set (reportable_periods now)" "CHR ''|'' \<notin> set p" "accounts_tab s a \<noteq> None"
    and "counters s (counter_key make_key a p) = Some c" "0 \<le> or_zero (c_sent c)"
  shows "stored_sent (usage_tab (snd (flush_usage make_key sha1 now True s))) a p =
    max (stored_sent (usage_tab s) a p) (or_zero (c_sent c))"
proof -
  let ?rows = "rows_of make_key now s" and ?accts = "accounts_tab s"
  let ?known = "concat (map (known_rows ?accts) (batches FLUSH_BATCH ?rows))"
  let ?r = "\<lparr>r_account = a, r_period = p, r_sent = or_zero (c_sent c), r_refused = or_zero (c_refused c)\<rparr>"
  have all: "concat (batches FLUSH_BATCH ?rows) = ?rows"
    by (rule concat_batches) (simp add: FLUSH_BATCH_def)
  have "(a, p) \<in> set (reported now (flushing s))"
    using assms(3-6) split_member [of p a] by (force simp: reported_def)
  then have "?r \<in> set ?rows"
    using assms(8) by (force simp: rows_of_def row_of_pair_def)
  then have "?r \<in> set ?known"
    using assms(7) by (simp add: set_concat_known all del: set_concat)
  moreover have "distinct (map row_key ?known)"
    using assms(2) by (intro distinct_concat_known)
      (simp only: all, simp add: rows_of_def row_keys_of_pairs distinct_reported)
  ultimately have "stored_sent (fold (upsert_row sha1 ?accts now) ?known (usage_tab s)) (r_account ?r) (r_period ?r) =
      max (stored_sent (usage_tab s) (r_account ?r) (r_period ?r)) (r_sent ?r)"
    using assms(7,9) by (intro stored_sent_upsert) auto
  moreover have "flushing s \<noteq> []" using assms(3) by auto
  ultimately show ?thesis using flush_usage_ok [OF assms(1)] by simp
qed

section \<open>Reachable states\<close>

text \<open>
  The states the service can be in: checks, flushes that succeed or fail, limits cleared after a
  save, accounts changing, usage deleted or pruned, and Redis dropping any counter at any moment.
\<close>

inductive reachable :: "(string \<Rightarrow> string) \<Rightarrow> (string \<Rightarrow> string) \<Rightarrow> store \<Rightarrow> bool"
  for make_key sha1 where
  start: "usage_ok us \<Longrightarrow> \<forall>u\<in>set us. 0 \<le> u_sent u \<Longrightarrow> reachable make_key sha1
    \<lparr>counters = Map.empty, limit_cache = Map.empty, ttl = Map.empty, touched = [], flushing = [],
     accounts_tab = accts, usage_tab = us\<rparr>"
| checked: "reachable make_key sha1 s \<Longrightarrow> valid_date now \<Longrightarrow>
    reachable make_key sha1 (snd (check make_key cluster login to_given now s))"
| flushed: "reachable make_key sha1 s \<Longrightarrow> valid_date now \<Longrightarrow> valid_date (sub_days 1 now) \<Longrightarrow>
    reachable make_key sha1 (snd (flush_usage make_key sha1 now db_ok s))"
| lost: "reachable make_key sha1 s \<Longrightarrow> reachable make_key sha1 (s\<lparr>counters := (counters s)(k := None)\<rparr>)"
| cleared: "reachable make_key sha1 s \<Longrightarrow> reachable make_key sha1 (clear_limits make_key a s)"
| accounts_changed: "reachable make_key sha1 s \<Longrightarrow> reachable make_key sha1 (s\<lparr>accounts_tab := accts\<rparr>)"
| pruned: "reachable make_key sha1 s \<Longrightarrow>
    reachable make_key sha1 (s\<lparr>usage_tab := prune_usage_job now configured (usage_tab s)\<rparr>)"
| deleted: "reachable make_key sha1 s \<Longrightarrow>
    reachable make_key sha1 (s\<lparr>usage_tab := delete_usage a (usage_tab s)\<rparr>)"

definition table_ok :: "usage_row list \<Rightarrow> bool" where
  "table_ok us \<longleftrightarrow> usage_ok us \<and> (\<forall>u\<in>set us. 0 \<le> u_sent u)"

definition counters_ahead :: "(string \<Rightarrow> string) \<Rightarrow> store \<Rightarrow> bool" where
  "counters_ahead make_key s \<longleftrightarrow>
     (\<forall>a p c. is_period p \<longrightarrow> counters s (counter_key make_key a p) = Some c \<longrightarrow>
        stored_sent (usage_tab s) a p \<le> or_zero (c_sent c) \<and> 0 \<le> or_zero (c_sent c))"

definition meter_inv :: "(string \<Rightarrow> string) \<Rightarrow> store \<Rightarrow> bool" where
  "meter_inv make_key s \<longleftrightarrow> full s \<and> members_ok (touched s) \<and> members_ok (flushing s) \<and>
     table_ok (usage_tab s) \<and> counters_ahead make_key s"

lemma stored_sent_nonneg: "table_ok us \<Longrightarrow> 0 \<le> stored_sent us a p"
  by (auto simp: table_ok_def stored_sent_def find_usage_def split: option.splits dest: find_Some_in)

lemma find_usage_unique:
  "usage_ok us \<Longrightarrow> u \<in> set us \<Longrightarrow> period_key u = (a, p) \<Longrightarrow> find_usage a p us = Some u"
proof (induction us)
  case (Cons v us)
  then show ?case
    by (cases "v = u") (auto simp: usage_ok_def find_usage_def rev_image_eqI)
qed simp

lemma stored_sent_filter:
  assumes "table_ok us"
  shows "table_ok (filter q us) \<and> stored_sent (filter q us) a p \<le> stored_sent us a p"
proof -
  have ok: "table_ok (filter q us)"
    using assms by (auto simp: table_ok_def usage_ok_def distinct_map_filter)
  show ?thesis
  proof (cases "find_usage a p (filter q us)")
    case None
    then have "stored_sent (filter q us) a p = 0" by (simp add: stored_sent_def)
    then show ?thesis using ok stored_sent_nonneg [OF assms] by simp
  next
    case (Some u)
    then have u: "u \<in> set us" "period_key u = (a, p)"
      by (auto simp: find_usage_def dest: find_Some_in)
    then have "find_usage a p us = Some u"
      using assms by (intro find_usage_unique) (simp_all add: table_ok_def)
    then show ?thesis using ok Some by (simp add: stored_sent_def)
  qed
qed

lemma meter_inv_shrink:
  assumes "meter_inv make_key s"
  shows "meter_inv make_key (s\<lparr>usage_tab := filter q (usage_tab s)\<rparr>)"
  using assms stored_sent_filter [of "usage_tab s" q]
  by (fastforce simp: meter_inv_def full_def counters_ahead_def intro: order_trans)

lemma used_nonneg_ahead:
  assumes "meter_inv make_key s" "is_period p"
  shows "stored_sent (usage_tab s) a p \<le> used make_key s (a, p) \<and> 0 \<le> used make_key s (a, p)"
  using assms stored_sent_nonneg [of "usage_tab s"]
  by (auto simp: meter_inv_def used_def counters_ahead_def split: option.splits)

lemma meter_inv_count:
  assumes "inj make_key" "meter_inv make_key s" "valid_date now"
  shows "meter_inv make_key (snd (count_recipient make_key cluster a now s))"
proof (cases "l_cluster (limits_of make_key s a) = cluster")
  case True
  have full: "full s" using assms(2) by (simp add: meter_inv_def)
  let ?v = "verdict_for make_key s a now"
  let ?dk = "counter_key make_key a (day_period now)" and ?mk = "counter_key make_key a (month_period now)"
  obtain cd cm s1 where s1: "get_limits make_key a s = (limits_of make_key s a, s1)"
    and some: "c_sent cd \<noteq> None" "c_refused cd \<noteq> None" "c_sent cm \<noteq> None" "c_refused cm \<noteq> None"
    and eq: "snd (count_recipient make_key cluster a now s) = after_check ?dk ?mk
        (member a (day_period now)) (member a (month_period now)) ?v cd cm s1"
    by (rule count_recipient_step [OF assms(1) full assms(3) True]) auto
  note frame = get_limits_frame [OF s1]
  let ?t = "after_check ?dk ?mk (member a (day_period now)) (member a (month_period now)) ?v cd cm s1"
  have "full s1" using full frame by (simp add: full_def)
  then have "full ?t" using some by (rule full_after_check)
  moreover have "members_ok (touched ?t)" "members_ok (flushing ?t)"
    using assms(2) frame by (simp_all add: meter_inv_def after_check_def members_ok_sadd)
  moreover have "counters_ahead make_key ?t"
    unfolding counters_ahead_def
  proof (intro allI impI)
    fix b p c
    assume p: "is_period p" and c: "counters ?t (counter_key make_key b p) = Some c"
    have "stored_sent (usage_tab s) b p \<le> used make_key ?t (b, p) \<and> 0 \<le> used make_key ?t (b, p)"
      using used_nonneg_ahead [OF assms(2) p, of b] step_used [of make_key s now "(b, p)" cluster a]
        assms(1,3) full p by (auto simp: sound_def step_def eq)
    then show "stored_sent (usage_tab ?t) b p \<le> or_zero (c_sent c) \<and> 0 \<le> or_zero (c_sent c)"
      using c frame by (simp add: used_def after_check_def)
  qed
  moreover have "table_ok (usage_tab ?t)"
    using assms(2) frame by (simp add: meter_inv_def after_check_def)
  ultimately show ?thesis by (simp add: meter_inv_def eq)
next
  case False
  obtain lim s1 where s1: "get_limits make_key a s = (lim, s1)" by fastforce
  show ?thesis
    using assms(2) get_limits_frame [OF s1]
    by (simp add: count_recipient_other_cluster [OF False] s1 meter_inv_def full_def counters_ahead_def)
qed

lemma snd_check:
  "snd (check make_key cluster login to_given now s) \<in>
     {s, snd (count_recipient make_key cluster (py_lower (py_strip (case login of None \<Rightarrow> '''' | Some l \<Rightarrow> l))) now s)}"
  by (auto simp: check_def Let_def split: prod.splits option.splits)

lemma table_ok_upsert_rows:
  "table_ok us \<Longrightarrow> \<forall>r\<in>set rows. 0 \<le> r_sent r \<Longrightarrow> table_ok (fold (upsert_row sha1 accts now) rows us)"
proof (induction rows arbitrary: us)
  case (Cons r rows)
  have keep: "\<forall>u\<in>set (insert_or_merge c n us). 0 \<le> u_sent u"
    if "0 \<le> u_sent n" "\<forall>u\<in>set us. 0 \<le> u_sent u" for c n us
    using that by (induction us) (auto simp: merge_usage_def)
  have "\<forall>u\<in>set (upsert_row sha1 accts now r us). 0 \<le> u_sent u"
  proof (cases "limits_by_account accts (r_account r)")
    case (Some l)
    have "0 \<le> u_sent (new_usage sha1 now l r)" using Cons.prems(2) by (simp add: new_usage_def)
    moreover have "\<forall>u\<in>set us. 0 \<le> u_sent u" using Cons.prems(1) by (simp add: table_ok_def)
    ultimately have "\<forall>u\<in>set (insert_or_merge [day_period now, month_period now] (new_usage sha1 now l r) us). 0 \<le> u_sent u"
      by (rule keep)
    then show ?thesis by (simp only: upsert_row_def Some option.case)
  qed (use Cons.prems(1) in \<open>simp add: upsert_row_def table_ok_def\<close>)
  then have "table_ok (upsert_row sha1 accts now r us)"
    using Cons.prems(1) usage_ok_upsert_row by (simp add: table_ok_def)
  then show ?case using Cons by simp
qed simp

text \<open>
  What a flush hands over never passes the counters: a row carries its own counter, so the stored
  count stays at or below it.
\<close>

lemma meter_inv_upserted:
  fixes make_key sha1 now s
  defines "known \<equiv> concat (map (known_rows (accounts_tab s)) (batches FLUSH_BATCH (rows_of make_key now s)))"
  assumes "meter_inv make_key s" and periods: "\<And>p. p \<in> set (reportable_periods now) \<Longrightarrow> is_period p"
  shows "meter_inv make_key (s\<lparr>usage_tab := fold (upsert_row sha1 (accounts_tab s) now) known (usage_tab s), flushing := []\<rparr>)"
proof -
  let ?us = "fold (upsert_row sha1 (accounts_tab s) now) known (usage_tab s)"
  have all: "concat (batches FLUSH_BATCH (rows_of make_key now s)) = rows_of make_key now s"
    by (rule concat_batches) (simp add: FLUSH_BATCH_def)
  have dist: "distinct (map row_key known)"
    unfolding known_def using assms(2) by (intro distinct_concat_known)
      (simp only: all, simp add: meter_inv_def rows_of_def row_keys_of_pairs distinct_reported)
  have row: "\<exists>c. is_period (r_period r) \<and> counters s (counter_key make_key (r_account r) (r_period r)) = Some c \<and>
      r_sent r = or_zero (c_sent c) \<and> accounts_tab s (r_account r) \<noteq> None" if "r \<in> set known" for r
  proof -
    have "r \<in> set (rows_of make_key now s)" "accounts_tab s (r_account r) \<noteq> None"
      using that by (auto simp add: known_def set_concat_known all simp del: set_concat)
    then show ?thesis
      using periods
      by (auto simp: rows_of_def reported_def row_of_pair_def split: option.splits dest!: sym [of "Some _"])
  qed
  have nonneg: "\<forall>r\<in>set known. 0 \<le> r_sent r"
    using row assms(2) by (force simp: meter_inv_def counters_ahead_def)
  have "counters_ahead make_key (s\<lparr>usage_tab := ?us, flushing := []\<rparr>)"
    unfolding counters_ahead_def
  proof (intro allI impI, simp)
    fix a p c
    assume p: "is_period p" and c: "counters s (counter_key make_key a p) = Some c"
    then have ahead: "stored_sent (usage_tab s) a p \<le> or_zero (c_sent c)" "0 \<le> or_zero (c_sent c)"
      using assms(2) by (auto simp: meter_inv_def counters_ahead_def)
    show "stored_sent ?us a p \<le> or_zero (c_sent c) \<and> 0 \<le> or_zero (c_sent c)"
    proof (cases "(a, p) \<in> row_key ` set known")
      case True
      then obtain r where r: "r \<in> set known" "r_account r = a" "r_period r = p"
        by (auto simp: row_key_def)
      with row [OF r(1)] c have "r_sent r = or_zero (c_sent c)" "accounts_tab s a \<noteq> None" by auto
      then show ?thesis using stored_sent_upsert [OF dist r(1)] r ahead by simp
    next
      case False
      then have "find_usage a p ?us = find_usage a p (usage_tab s)" by (rule find_upsert_rows_other)
      then show ?thesis using ahead by (simp add: stored_sent_def)
    qed
  qed
  moreover have "table_ok ?us" using assms(2) nonneg by (intro table_ok_upsert_rows) (auto simp: meter_inv_def)
  ultimately show ?thesis using assms(2) by (simp add: meter_inv_def full_def members_ok_def)
qed

lemma reportable_is_period:
  "valid_date now \<Longrightarrow> valid_date (sub_days 1 now) \<Longrightarrow> p \<in> set (reportable_periods now) \<Longrightarrow> is_period p"
  by (auto simp: reportable_periods_def periods_at_def Let_def)

lemma flush_usage_failed:
  "full s \<Longrightarrow> flushing s \<noteq> [] \<Longrightarrow> snd (flush_usage make_key sha1 now False s) = s"
  by (simp add: flush_usage_def Let_def split: sum.splits)

lemma meter_inv_flush_started:
  assumes "meter_inv make_key s" "flushing s \<noteq> []" "\<And>p. p \<in> set (reportable_periods now) \<Longrightarrow> is_period p"
  shows "meter_inv make_key (snd (flush_usage make_key sha1 now db_ok s))"
proof -
  have full: "full s" using assms(1) by (simp add: meter_inv_def)
  show ?thesis
    using meter_inv_upserted [OF assms(1,3)] flush_usage_ok [OF full assms(2)]
      flush_usage_failed [OF full assms(2)] assms(1)
    by (cases db_ok) simp_all
qed

lemma meter_inv_flush:
  assumes "meter_inv make_key s" "\<And>p. p \<in> set (reportable_periods now) \<Longrightarrow> is_period p"
  shows "meter_inv make_key (snd (flush_usage make_key sha1 now db_ok s))"
proof -
  let ?t = "s\<lparr>flushing := touched s, touched := []\<rparr>"
  consider "flushing s \<noteq> []" | "flushing s = []" "touched s \<noteq> []" | "flushing s = []" "touched s = []"
    by blast
  then show ?thesis
  proof cases
    case 1
    then show ?thesis using meter_inv_flush_started [OF assms(1) _ assms(2)] by simp
  next
    case 2
    have "meter_inv make_key ?t"
      using assms(1) by (simp add: meter_inv_def full_def members_ok_def counters_ahead_def)
    then show ?thesis
      using meter_inv_flush_started [of make_key ?t] assms(2) 2 flush_usage_renames [OF 2] by simp
  next
    case 3
    then show ?thesis using assms(1) by (simp add: flush_usage_def)
  qed
qed

lemma meter_inv_dropped:
  "meter_inv make_key s \<Longrightarrow> meter_inv make_key (s\<lparr>counters := (counters s)(k := None)\<rparr>)"
  by (auto simp: meter_inv_def full_def counters_ahead_def)

lemma meter_inv_frame:
  "meter_inv make_key s \<Longrightarrow> meter_inv make_key (clear_limits make_key a s)"
  "meter_inv make_key s \<Longrightarrow> meter_inv make_key (s\<lparr>accounts_tab := accts\<rparr>)"
  by (simp_all add: meter_inv_def full_def counters_ahead_def clear_limits_def)

lemma reachable_meter_inv:
  assumes "reachable make_key sha1 s" and "inj make_key"
  shows "meter_inv make_key s"
  using assms(1)
proof (induction rule: reachable.induct)
  case (start us accts)
  then show ?case
    by (simp add: meter_inv_def full_def members_ok_def table_ok_def counters_ahead_def)
next
  case (checked s now cluster login to_given)
  then show ?case
    using snd_check [of make_key cluster login to_given now s] meter_inv_count [OF assms(2)] by auto
next
  case (flushed s now db_ok)
  then show ?case using reportable_is_period by (intro meter_inv_flush) auto
next
  case (lost s k)
  then show ?case by (simp add: meter_inv_dropped)
next
  case (cleared s a)
  then show ?case by (simp add: meter_inv_frame)
next
  case (accounts_changed s accts)
  then show ?case by (simp add: meter_inv_frame)
next
  case (pruned s now configured)
  then show ?case unfolding prune_usage_filter by (simp add: meter_inv_shrink)
next
  case (deleted s a)
  then show ?case unfolding delete_usage_def by (simp add: meter_inv_shrink)
qed

section \<open>Properties\<close>



text \<open>
  C2. A check answers by the account's own cluster and limits: another cluster's account is not
  counted; otherwise the recipient is let through exactly when one more stays within the daily and
  the monthly limit, the day and month meters then move by one and no other meter moves, and a
  refusal leaves every meter as it was.  This holds also when Redis has lost one or both counters,
  so that the script asks for a seed first.
\<close>

theorem count_recipient_exact:
  assumes "inj make_key" and "full s" and "valid_date now"
  shows "let lim = limits_of make_key s a; d = (a, day_period now); m = (a, month_period now);
             (answer, s') = count_recipient make_key cluster a now s;
             passes = (used make_key s d + 1 \<le> l_daily lim \<and> used make_key s m + 1 \<le> l_monthly lim)
         in full s' \<and>
            (l_cluster lim \<noteq> cluster \<longrightarrow> answer = None \<and> (\<forall>k. used make_key s' k = used make_key s k)) \<and>
            (l_cluster lim = cluster \<longrightarrow> (answer = None \<longleftrightarrow> passes) \<and>
               (\<forall>k. is_period (snd k) \<longrightarrow>
                  used make_key s' k = used make_key s k + (if passes \<and> (k = d \<or> k = m) then 1 else 0)))"
proof -
  have ok: "sound make_key s" using assms(1,2) by (simp add: sound_def)
  obtain ans s' where c: "count_recipient make_key cluster a now s = (ans, s')" by fastforce
  have step: "step make_key (cluster, a, now) s = s'" by (simp add: step_def c)
  have full: "full s'" using step_sound [OF ok assms(3), of cluster a] by (simp add: step sound_def)
  have other: "ans = None \<and> (\<forall>k. used make_key s' k = used make_key s k)"
    if "l_cluster (limits_of make_key s a) \<noteq> cluster"
  proof -
    obtain lim s1 where s1: "get_limits make_key a s = (lim, s1)" by fastforce
    with that c have "ans = None" "s' = s1" by (simp_all add: count_recipient_other_cluster)
    then show ?thesis using get_limits_frame [OF s1] by (auto intro: used_cong)
  qed
  have none_iff: "ans = None \<longleftrightarrow> verdict_for make_key s a now = VAccept"
    if "l_cluster (limits_of make_key s a) = cluster"
    by (rule count_recipient_step [OF assms that]) (auto simp: c split: if_splits)
  have acc: "verdict_for make_key s a now = VAccept \<longleftrightarrow>
      used make_key s (a, day_period now) + 1 \<le> l_daily (limits_of make_key s a) \<and>
      used make_key s (a, month_period now) + 1 \<le> l_monthly (limits_of make_key s a)"
    by (auto simp: verdict_for_def judge_def)
  have moved: "used make_key s' k = used make_key s k +
      (if verdict_for make_key s a now = VAccept \<and> (k = (a, day_period now) \<or> k = (a, month_period now)) then 1 else 0)"
    if "l_cluster (limits_of make_key s a) = cluster" "is_period (snd k)" for k
    using step_used [OF ok assms(3) that(2), of cluster a] none_iff [OF that(1)] that(1)
    by (cases k) (auto simp: step accepts_def c)
  show ?thesis
    unfolding c Let_def case_prod_conv using full other none_iff moved unfolding acc by blast
qed

theorem count_recipient_exact_witness:
  "let s = \<lparr>counters = Map.empty, limit_cache = Map.empty, ttl = Map.empty, touched = [], flushing = [],
        accounts_tab = [''a@x.io'' \<mapsto> \<lparr>a_cluster = Some ''c1'', a_daily = 2, a_monthly = 9\<rparr>],
        usage_tab = [\<lparr>u_name = ''n'', u_account = ''a@x.io'', u_period = ''d:20260310'', u_sent = 2, u_refused = 0,
          u_send_limit = 2, u_reported_at = \<lparr>year = 2026, month = 3, day = 10\<rparr>,
          u_modified = \<lparr>year = 2026, month = 3, day = 10\<rparr>\<rparr>]\<rparr>
   in fst (count_recipient id ''c1'' ''a@x.io'' \<lparr>year = 2026, month = 3, day = 10\<rparr> s) \<noteq> None"
proof -
  let ?d = "\<lparr>year = 2026, month = 3, day = 10\<rparr>"
  let ?s = "\<lparr>counters = Map.empty, limit_cache = Map.empty, ttl = Map.empty, touched = [], flushing = [],
        accounts_tab = [''a@x.io'' \<mapsto> \<lparr>a_cluster = Some ''c1'', a_daily = 2, a_monthly = 9\<rparr>],
        usage_tab = [\<lparr>u_name = ''n'', u_account = ''a@x.io'', u_period = ''d:20260310'', u_sent = 2, u_refused = 0,
          u_send_limit = 2, u_reported_at = ?d, u_modified = ?d\<rparr>]\<rparr>"
  have v: "valid_date ?d" by (simp add: valid_date_def days_in_month_def)
  have f: "full ?s" by (simp add: full_def)
  have p: "day_period ?d = ''d:20260310''"
    by code_simp
  have "used id ?s (''a@x.io'', day_period ?d) = 2"
    by (simp add: p used_def stored_sent_def find_usage_def period_key_def)
  moreover have "limits_of id ?s ''a@x.io'' = \<lparr>l_cluster = ''c1'', l_daily = 2, l_monthly = 9\<rparr>"
    by (simp add: limits_of_def get_limits_def Let_def)
  ultimately show ?thesis
    using count_recipient_exact [OF inj_on_id f v, of "''a@x.io''" "''c1''"]
    unfolding Let_def by (auto split: prod.splits)
qed




text \<open>
  A refusal's reset date is right and its message fits one SMTP reply line: a daily limit resets
  on the next calendar day, a monthly one on the first day of the next month, for every month
  length, and the message never passes 199 characters.
\<close>

theorem refusal_message_resets:
  "refusal_reset VDaily now = next_day now \<and>
   refusal_reset VMonthly now = first_of_next_month (year now) (month now) \<and>
   length (get_refusal_message v account lim now) \<le> 199"
proof -
  have "now\<lparr>day := 1\<rparr> = \<lparr>year = year now, month = month now, day = 1\<rparr>" by simp
  then have "refusal_reset VMonthly now = first_of_next_month (year now) (month now)"
    unfolding refusal_reset_def by (simp only: add_32_days_first) simp
  moreover have "refusal_reset VDaily now = next_day now" by (simp add: refusal_reset_def)
  moreover have "length (get_refusal_message v account lim now) \<le> MESSAGE_LIMIT"
    unfolding get_refusal_message_def Let_def case_prod_beta length_take by (rule min.cobounded2)
  ultimately show ?thesis by (simp add: MESSAGE_LIMIT_def)
qed

end
