(* ===== verification/Json.thy ===== *)
theory Json
  imports Prelude
begin

text \<open>
  JSON values and Python dictionaries.  A dictionary is an association list in insertion order
  without repeated keys (\<open>dict_ok\<close>): assigning a key that is there replaces its value in place,
  assigning a new one appends it.
\<close>

datatype json =
    JNull
  | JBool bool
  | JInt int
  | JStr string
  | JList "json list"
  | JObj "(string \<times> json) list"

type_synonym ('k, 'v) dict = "('k \<times> 'v) list"

definition dict_ok :: "('k, 'v) dict \<Rightarrow> bool" where
  "dict_ok d \<longleftrightarrow> distinct (map fst d)"

fun dict_set :: "'k \<Rightarrow> 'v \<Rightarrow> ('k, 'v) dict \<Rightarrow> ('k, 'v) dict" where
  "dict_set k v [] = [(k, v)]"
| "dict_set k v ((k', v') # d) = (if k' = k then (k, v) # d else (k', v') # dict_set k v d)"

definition dict_pop :: "'k \<Rightarrow> ('k, 'v) dict \<Rightarrow> ('k, 'v) dict" where
  "dict_pop k d = filter (\<lambda>e. fst e \<noteq> k) d"

text \<open>A dictionary display or comprehension: a later entry for a key replaces an earlier one.\<close>

definition dict_of :: "('k \<times> 'v) list \<Rightarrow> ('k, 'v) dict" where
  "dict_of es = fold (\<lambda>(k, v). dict_set k v) es []"

definition dict_keys :: "('k, 'v) dict \<Rightarrow> 'k list" where
  "dict_keys d = map fst d"

lemma map_of_dict_set [simp]: "map_of (dict_set k v d) = (map_of d)(k \<mapsto> v)"
  by (induction d) auto

lemma map_of_dict_pop [simp]: "map_of (dict_pop k d) = (map_of d)(k := None)"
  by (induction d) (auto simp: dict_pop_def)

lemma keys_dict_set: "fst ` set (dict_set k v d) = insert k (fst ` set d)"
proof (induction d)
  case (Cons e d)
  then show ?case by (cases e; cases "fst e = k") (simp_all add: insert_commute)
qed simp

lemma dict_ok_set [simp]: "dict_ok d \<Longrightarrow> dict_ok (dict_set k v d)"
proof (induction d)
  case (Cons e d)
  then show ?case using keys_dict_set [of k v d] by (cases e) (auto simp: dict_ok_def)
qed (simp add: dict_ok_def)

lemma dict_ok_pop [simp]: "dict_ok d \<Longrightarrow> dict_ok (dict_pop k d)"
  by (simp add: dict_ok_def dict_pop_def distinct_map_filter)

lemma dict_ok_Nil [simp]: "dict_ok []"
  by (simp add: dict_ok_def)

lemma dict_of_snoc: "dict_of (es @ [(k, v)]) = dict_set k v (dict_of es)"
  by (simp add: dict_of_def)

lemma dict_ok_dict_of [simp]: "dict_ok (dict_of es)"
proof (induction es rule: rev_induct)
  case (snoc e es)
  then show ?case by (cases e) (simp add: dict_of_snoc)
qed (simp add: dict_of_def)

lemma map_of_dict_of: "map_of (dict_of es) = map_of (rev es)"
proof (induction es rule: rev_induct)
  case (snoc e es)
  then show ?case by (cases e) (simp add: dict_of_snoc)
qed (simp add: dict_of_def)

lemma keys_dict_of: "fst ` set (dict_of es) = fst ` set es"
proof (induction es rule: rev_induct)
  case (snoc e es)
  then show ?case by (cases e) (simp add: dict_of_snoc keys_dict_set)
qed (simp add: dict_of_def)

lemma set_dict_set: "set (dict_set k v d) \<subseteq> insert (k, v) (set d)"
  by (induction k v d rule: dict_set.induct) auto

lemma set_dict_of: "set (dict_of es) \<subseteq> set es"
proof (induction es rule: rev_induct)
  case (snoc e es)
  obtain k v where "e = (k, v)" by (cases e)
  with snoc show ?case using set_dict_set [of k v "dict_of es"] by (auto simp: dict_of_snoc)
qed (simp add: dict_of_def)

lemma image_filter_not_in: "f ` {x \<in> A. f x \<notin> B} = f ` A - B"
  by auto

lemma map_of_not_None_keys: "{k. map_of d k \<noteq> None} = fst ` set d"
  by (auto simp: map_of_eq_None_iff)

lemma dict_set_fresh: "k \<notin> fst ` set d \<Longrightarrow> dict_set k v d = d @ [(k, v)]"
  by (induction d) auto

lemma dict_of_distinct: "distinct (map fst es) \<Longrightarrow> dict_of es = es"
proof (induction es rule: rev_induct)
  case (snoc e es)
  then show ?case by (cases e) (auto simp: dict_of_snoc dict_set_fresh)
qed (simp add: dict_of_def)

lemma dict_set_same: "map_of d k = Some v \<Longrightarrow> dict_set k v d = d"
  by (induction d) (auto split: if_splits)

lemma dict_pop_absent: "map_of d k = None \<Longrightarrow> dict_pop k d = d"
  by (auto simp: dict_pop_def map_of_eq_None_iff filter_id_conv)

text \<open>\<open>d.get(k)\<close> and \<open>d.get(k) or {}\<close> on a JSON value.\<close>

definition jget :: "string \<Rightarrow> json \<Rightarrow> json" where
  "jget k j = (case j of JObj d \<Rightarrow> (case map_of d k of None \<Rightarrow> JNull | Some v \<Rightarrow> v) | _ \<Rightarrow> JNull)"

definition jobj :: "json \<Rightarrow> (string \<times> json) list" where
  "jobj j = (case j of JObj d \<Rightarrow> d | _ \<Rightarrow> [])"

definition jlist :: "json \<Rightarrow> json list" where
  "jlist j = (case j of JList xs \<Rightarrow> xs | _ \<Rightarrow> [])"

definition jstr :: "json \<Rightarrow> string" where
  "jstr j = (case j of JStr s \<Rightarrow> s | _ \<Rightarrow> [])"

definition jopt :: "string option \<Rightarrow> json" where
  "jopt v = (case v of None \<Rightarrow> JNull | Some s \<Rightarrow> JStr s)"

text \<open>\<open>s or None\<close>.\<close>

definition nonempty :: "string \<Rightarrow> json" where
  "nonempty s = (if s = [] then JNull else JStr s)"

end
