(* ===== verification/Steps.thy ===== *)
theory Steps
  imports Json
begin

text \<open>
  Re-entrant steps (src/suite_cloud/hosting/__init__.py): a step reads and writes the database rows
  it owns, calls Central, Pilot or a site, and may fail half-way.  The rows are \<open>doc\<close>; \<open>saved\<close> is
  the last savepoint, which an unexpected failure goes back to; \<open>world\<close> is everything outside.
  An operation returns a value or raises, and always a state: what was written before an error the
  caller handles stays written.
\<close>

datatype herr =
    Pilot_Not_Ready string
  | Pilot_Conflict (conflict_code: string) string
  | Pilot_Error string
  | Central_Unavailable string
  | Central_Rejected (rejected_message: string) (remediation: string)
  | Site_Unavailable string
  | Setup_Error string
  | Other_Error string

fun error_text :: "herr \<Rightarrow> string" where
  "error_text (Pilot_Not_Ready m) = m"
| "error_text (Pilot_Conflict _ m) = m"
| "error_text (Pilot_Error m) = m"
| "error_text (Central_Unavailable m) = m"
| "error_text (Central_Rejected m _) = m"
| "error_text (Site_Unavailable m) = m"
| "error_text (Setup_Error m) = m"
| "error_text (Other_Error m) = m"

record ('d, 'w) st =
  doc :: 'd
  saved :: 'd
  world :: 'w

type_synonym ('d, 'w, 'a) op = "('d, 'w) st \<Rightarrow> (herr + 'a) \<times> ('d, 'w) st"
type_synonym ('w, 'a) call = "'w \<Rightarrow> (herr + 'a) \<times> 'w"

definition ret :: "'a \<Rightarrow> ('d, 'w, 'a) op" where
  "ret x s = (Inr x, s)"

definition raise :: "herr \<Rightarrow> ('d, 'w, 'a) op" where
  "raise e s = (Inl e, s)"

definition seq :: "('d, 'w, 'a) op \<Rightarrow> ('a \<Rightarrow> ('d, 'w, 'b) op) \<Rightarrow> ('d, 'w, 'b) op" where
  "seq m f s = (case m s of (Inl e, s') \<Rightarrow> (Inl e, s') | (Inr x, s') \<Rightarrow> f x s')"

definition get_doc :: "('d, 'w, 'd) op" where
  "get_doc s = (Inr (doc s), s)"

definition db_set :: "('d \<Rightarrow> 'd) \<Rightarrow> ('d, 'w, unit) op" where
  "db_set f s = (Inr (), s\<lparr>doc := f (doc s)\<rparr>)"

text \<open>A request to a server: it may have changed the world even when it fails.\<close>

definition ask :: "('w, 'a) call \<Rightarrow> ('d, 'w, 'a) op" where
  "ask c s = (case c (world s) of (r, w) \<Rightarrow> (r, s\<lparr>world := w\<rparr>))"

definition except :: "('d, 'w, 'a) op \<Rightarrow> (herr \<Rightarrow> ('d, 'w, 'a) op) \<Rightarrow> ('d, 'w, 'a) op" where
  "except m handler s = (case m s of (Inl e, s') \<Rightarrow> handler e s' | (Inr x, s') \<Rightarrow> (Inr x, s'))"

definition begin_step :: "('d, 'w, unit) op" where
  "begin_step s = (Inr (), s\<lparr>saved := doc s\<rparr>)"

definition undo_step :: "('d, 'w, unit) op" where
  "undo_step s = (Inr (), s\<lparr>doc := saved s\<rparr>)"

definition checkpoint :: "('d, 'w, unit) op" where
  "checkpoint = begin_step"

lemmas step_defs = ret_def raise_def seq_def get_doc_def db_set_def ask_def except_def begin_step_def undo_step_def checkpoint_def

section \<open>Tasks on a server\<close>

record task =
  t_id :: string
  t_status :: string

definition TERMINAL_TASK_STATUSES :: "string list" where
  "TERMINAL_TASK_STATUSES = [''success'', ''failed'', ''killed'']"

definition is_finished :: "task \<Rightarrow> bool" where
  "is_finished t \<longleftrightarrow> t_status t \<in> set TERMINAL_TASK_STATUSES"

definition TASK_WAIT_SECONDS :: nat where "TASK_WAIT_SECONDS = 300"
definition TASK_POLL_SECONDS :: nat where "TASK_POLL_SECONDS = 5"

text \<open>
  The loop sleeps \<open>TASK_POLL_SECONDS\<close> before each further look, so at most \<open>MAX_POLLS\<close> looks
  fit before the deadline; \<open>polls\<close> is how many do.
\<close>

definition MAX_POLLS :: nat where "MAX_POLLS = TASK_WAIT_SECONDS div TASK_POLL_SECONDS"

fun poll_task :: "nat \<Rightarrow> ('w, task) call \<Rightarrow> task \<Rightarrow> ('d, 'w, task) op" where
  "poll_task 0 get_task t = ret t"
| "poll_task (Suc n) get_task t = (if is_finished t then ret t else seq (ask get_task) (poll_task n get_task))"

definition wait_for_task :: "nat \<Rightarrow> ('w, task) call \<Rightarrow> ('d, 'w, task) op" where
  "wait_for_task polls get_task = seq checkpoint (\<lambda>_. seq (ask get_task) (poll_task (min polls MAX_POLLS) get_task))"

text \<open>\<open>str.splitlines\<close>: a line ends at LF, CR, CR LF, VT, FF, NEL or a separator control character.\<close>

definition is_line_break :: "char \<Rightarrow> bool" where
  "is_line_break c \<longleftrightarrow> code c \<in> {10, 11, 12, 13, 28, 29, 30, 133}"

fun splitlines_acc :: "string \<Rightarrow> string \<Rightarrow> string list" where
  "splitlines_acc acc [] = (if acc = [] then [] else [rev acc])"
| "splitlines_acc acc (c # s) =
    (if code c = 13 \<and> s \<noteq> [] \<and> code (hd s) = 10 then rev acc # splitlines_acc [] (tl s)
     else if is_line_break c then rev acc # splitlines_acc [] s
     else splitlines_acc (c # acc) s)"

definition splitlines :: "string \<Rightarrow> string list" where
  "splitlines = splitlines_acc []"

text \<open>The last \<open>lines\<close> lines of a task's output.\<close>

definition last_lines :: "nat \<Rightarrow> string \<Rightarrow> string" where
  "last_lines n output = (let ls = splitlines (py_strip output) in join_with newline (drop (length ls - n) ls))"

definition output_tail :: "('w, string) call \<Rightarrow> ('d, 'w, string) op" where
  "output_tail task_output = seq (ask task_output) (\<lambda>out. ret (last_lines 20 out))"

section \<open>Laws\<close>

lemma seq_Inr_iff [simp]: "seq m f s = (Inr y, s') \<longleftrightarrow> (\<exists>x s1. m s = (Inr x, s1) \<and> f x s1 = (Inr y, s'))"
  by (auto simp: seq_def split: prod.splits sum.splits)

lemma ret_iff [simp]: "ret x s = (Inr y, s') \<longleftrightarrow> y = x \<and> s' = s"
  by (auto simp: ret_def)

lemma raise_iff [simp]: "raise e s \<noteq> (Inr y, s')"
  by (simp add: raise_def)

lemma db_set_iff [simp]: "db_set f s = (Inr u, s') \<longleftrightarrow> s' = s\<lparr>doc := f (doc s)\<rparr>"
  by (auto simp: db_set_def)

lemma get_doc_iff [simp]: "get_doc s = (Inr d, s') \<longleftrightarrow> d = doc s \<and> s' = s"
  by (auto simp: get_doc_def)

lemma ask_frame: "ask c s = (r, s') \<Longrightarrow> doc s' = doc s \<and> saved s' = saved s"
  by (auto simp: ask_def split: prod.splits)

lemma poll_task_frame: "poll_task n g t s = (r, s') \<Longrightarrow> doc s' = doc s"
  by (induction n g t arbitrary: s rule: poll_task.induct)
    (auto simp: ret_def seq_def split: if_splits prod.splits sum.splits dest!: ask_frame)

lemma wait_for_task_frame: "wait_for_task polls g s = (r, s') \<Longrightarrow> doc s' = doc s"
  by (auto simp: wait_for_task_def checkpoint_def begin_step_def seq_def split: prod.splits sum.splits
      dest!: ask_frame poll_task_frame)

lemma output_tail_frame: "output_tail c s = (r, s') \<Longrightarrow> doc s' = doc s"
  by (auto simp: output_tail_def seq_def ret_def split: prod.splits sum.splits dest!: ask_frame)

section \<open>Rows of a table by key\<close>

lemma find_upd_key:
  "(\<And>v. key (f v) = key v) \<Longrightarrow>
   find (\<lambda>v. key v = m) (map (\<lambda>v. if key v = n then f v else v) vs) =
   (if m = n then map_option f (find (\<lambda>v. key v = n) vs) else find (\<lambda>v. key v = m) vs)"
  by (induction vs) auto

lemma find_distinct_key: "distinct (map key vs) \<Longrightarrow> v \<in> set vs \<Longrightarrow> find (\<lambda>u. key u = key v) vs = Some v"
  by (induction vs) (auto simp: image_iff)

lemma find_append_Some: "find p xs = Some x \<Longrightarrow> find p (xs @ ys) = Some x"
  by (induction xs) (auto split: if_splits)

section \<open>Invariants of the rows\<close>

text \<open>
  \<open>keeps I m\<close>: whatever \<open>m\<close> answers, rows and savepoint that satisfy \<open>I\<close> still do afterwards.
  The rules below follow the structure of an operation; each operation's own fact is collected in
  \<open>keeps_intros\<close>.
\<close>

named_theorems keeps_intros

definition rows_ok :: "('d \<Rightarrow> bool) \<Rightarrow> ('d, 'w) st \<Rightarrow> bool" where
  "rows_ok I s \<longleftrightarrow> I (doc s) \<and> I (saved s)"

definition keeps :: "('d \<Rightarrow> bool) \<Rightarrow> ('d, 'w, 'a) op \<Rightarrow> bool" where
  "keeps I m \<longleftrightarrow> (\<forall>s. rows_ok I s \<longrightarrow> rows_ok I (snd (m s)))"

lemma keepsD: "keeps I m \<Longrightarrow> rows_ok I s \<Longrightarrow> m s = (r, s') \<Longrightarrow> rows_ok I s'"
  by (metis keeps_def snd_conv)

lemma keeps_ret [keeps_intros]: "keeps I (ret x)"
  by (simp add: keeps_def ret_def)

lemma keeps_raise [keeps_intros]: "keeps I (raise e)"
  by (simp add: keeps_def raise_def)

lemma keeps_get_doc [keeps_intros]: "keeps I get_doc"
  by (simp add: keeps_def get_doc_def)

lemma keeps_ask [keeps_intros]: "keeps I (ask c)"
  by (auto simp: keeps_def ask_def rows_ok_def split: prod.splits)

lemma keeps_begin_step [keeps_intros]: "keeps I begin_step"
  by (simp add: keeps_def begin_step_def rows_ok_def)

lemma keeps_undo_step [keeps_intros]: "keeps I undo_step"
  by (simp add: keeps_def undo_step_def rows_ok_def)

lemma keeps_checkpoint [keeps_intros]: "keeps I checkpoint"
  by (simp add: checkpoint_def keeps_begin_step)

lemma keeps_seq [keeps_intros]: "keeps I m \<Longrightarrow> (\<And>x. keeps I (f x)) \<Longrightarrow> keeps I (seq m f)"
  by (fastforce simp: keeps_def seq_def split: prod.splits sum.splits)

lemma keeps_except [keeps_intros]: "keeps I m \<Longrightarrow> (\<And>e. keeps I (h e)) \<Longrightarrow> keeps I (except m h)"
  by (fastforce simp: keeps_def except_def split: prod.splits sum.splits)

lemma keeps_db_set: "(\<And>d. I d \<Longrightarrow> I (f d)) \<Longrightarrow> keeps I (db_set f)"
  by (simp add: keeps_def db_set_def rows_ok_def)

lemma keeps_if [keeps_intros]: "(b \<Longrightarrow> keeps I m) \<Longrightarrow> (\<not> b \<Longrightarrow> keeps I n) \<Longrightarrow> keeps I (if b then m else n)"
  by simp

lemma keeps_option [keeps_intros]:
  "keeps I m \<Longrightarrow> (\<And>x. keeps I (f x)) \<Longrightarrow> keeps I (case v of None \<Rightarrow> m | Some x \<Rightarrow> f x)"
  by (cases v) auto

lemma keeps_poll_task [keeps_intros]: "keeps I (poll_task n g t)"
  by (induction n g t rule: poll_task.induct) (auto intro!: keeps_intros)

lemma keeps_wait_for_task [keeps_intros]: "keeps I (wait_for_task polls g)"
  unfolding wait_for_task_def by (intro keeps_intros)

lemma keeps_output_tail [keeps_intros]: "keeps I (output_tail g)"
  unfolding output_tail_def by (intro keeps_intros)

text \<open>A run of operations one after the other, ended by the first error.\<close>

fun run_all :: "('x \<Rightarrow> ('d, 'w, unit) op) \<Rightarrow> 'x list \<Rightarrow> ('d, 'w, unit) op" where
  "run_all f [] = ret ()"
| "run_all f (x # xs) = seq (f x) (\<lambda>_. run_all f xs)"

lemma keeps_run_all [keeps_intros]: "(\<And>x. keeps I (f x)) \<Longrightarrow> keeps I (run_all f xs)"
  by (induction xs) (auto intro!: keeps_intros)

text \<open>What a value an operation returns is known to satisfy.\<close>

definition yields :: "('d, 'w, 'a) op \<Rightarrow> ('a \<Rightarrow> bool) \<Rightarrow> bool" where
  "yields m Q \<longleftrightarrow> (\<forall>s x s'. m s = (Inr x, s') \<longrightarrow> Q x)"

lemma keeps_seq_yields:
  "keeps I m \<Longrightarrow> yields m Q \<Longrightarrow> (\<And>x. Q x \<Longrightarrow> keeps I (f x)) \<Longrightarrow> keeps I (seq m f)"
  by (fastforce simp: keeps_def yields_def seq_def split: prod.splits sum.splits)

text \<open>A step that starts with a savepoint needs the invariant of the rows only.\<close>

lemma keeps_from_begin:
  "keeps I m \<Longrightarrow> I (doc s) \<Longrightarrow> seq begin_step (\<lambda>_. m) s = (r, s') \<Longrightarrow> rows_ok I s'"
  by (rule keepsD [of I m "s\<lparr>saved := doc s\<rparr>"]) (simp_all add: rows_ok_def seq_def begin_step_def)

lemma begin_step_iff [simp]: "begin_step s = (Inr u, s') \<longleftrightarrow> s' = s\<lparr>saved := doc s\<rparr>"
  by (auto simp: begin_step_def)

lemma except_Inr_iff:
  "except m h s = (Inr x, s') \<longleftrightarrow> m s = (Inr x, s') \<or> (\<exists>e s1. m s = (Inl e, s1) \<and> h e s1 = (Inr x, s'))"
  by (auto simp: except_def split: prod.splits sum.splits)

lemma ask_iff [simp]: "ask c s = (r, s') \<longleftrightarrow> (\<exists>w. c (world s) = (r, w) \<and> s' = s\<lparr>world := w\<rparr>)"
  by (auto simp: ask_def split: prod.splits)

text \<open>Without \<open>undo_step\<close> the rows alone carry an invariant, e.g. that a table is as it was.\<close>

named_theorems holds_intros

definition holds :: "('d \<Rightarrow> bool) \<Rightarrow> ('d, 'w, 'a) op \<Rightarrow> bool" where
  "holds I m \<longleftrightarrow> (\<forall>s. I (doc s) \<longrightarrow> I (doc (snd (m s))))"

lemma holdsD: "holds I m \<Longrightarrow> m s = (r, s') \<Longrightarrow> I (doc s) \<Longrightarrow> I (doc s')"
  by (metis holds_def snd_conv)

lemma holds_basic [holds_intros]:
  "holds I (ret x)" "holds I (raise e)" "holds I get_doc" "holds I (ask c)" "holds I begin_step" "holds I checkpoint"
  by (auto simp: holds_def step_defs split: prod.splits)

lemma holds_seq [holds_intros]: "holds I m \<Longrightarrow> (\<And>x. holds I (f x)) \<Longrightarrow> holds I (seq m f)"
  by (fastforce simp: holds_def seq_def split: prod.splits sum.splits)

lemma holds_except [holds_intros]: "holds I m \<Longrightarrow> (\<And>e. holds I (h e)) \<Longrightarrow> holds I (except m h)"
  by (fastforce simp: holds_def except_def split: prod.splits sum.splits)

lemma holds_db_set: "(\<And>d. I d \<Longrightarrow> I (f d)) \<Longrightarrow> holds I (db_set f)"
  by (simp add: holds_def db_set_def)

lemma holds_if [holds_intros]: "(b \<Longrightarrow> holds I m) \<Longrightarrow> (\<not> b \<Longrightarrow> holds I n) \<Longrightarrow> holds I (if b then m else n)"
  by simp

lemma holds_option [holds_intros]:
  "holds I m \<Longrightarrow> (\<And>x. holds I (f x)) \<Longrightarrow> holds I (case v of None \<Rightarrow> m | Some x \<Rightarrow> f x)"
  by (cases v) auto

lemma holds_wait_for_task [holds_intros]: "holds I (wait_for_task polls g)"
  by (simp add: holds_def wait_for_task_frame [OF prod.collapse [symmetric]])

lemma holds_output_tail [holds_intros]: "holds I (output_tail g)"
  by (simp add: holds_def output_tail_frame [OF prod.collapse [symmetric]])

lemma holds_run_all [holds_intros]: "(\<And>x. holds I (f x)) \<Longrightarrow> holds I (run_all f xs)"
  by (induction xs) (auto intro!: holds_intros)

text \<open>An operation that takes no savepoint.\<close>

named_theorems unsaved_intros

definition unsaved :: "('d, 'w, 'a) op \<Rightarrow> bool" where
  "unsaved m \<longleftrightarrow> (\<forall>s. saved (snd (m s)) = saved s)"

lemma unsavedD: "unsaved m \<Longrightarrow> m s = (r, s') \<Longrightarrow> saved s' = saved s"
  by (metis unsaved_def snd_conv)

lemma unsaved_basic [unsaved_intros]:
  "unsaved (ret x)" "unsaved (raise e)" "unsaved get_doc" "unsaved (ask c)" "unsaved (db_set f)"
  by (auto simp: unsaved_def step_defs split: prod.splits)

lemma unsaved_seq [unsaved_intros]: "unsaved m \<Longrightarrow> (\<And>x. unsaved (f x)) \<Longrightarrow> unsaved (seq m f)"
  unfolding unsaved_def seq_def by (auto split: prod.splits sum.splits) (metis snd_conv)+

lemma unsaved_if [unsaved_intros]: "(b \<Longrightarrow> unsaved m) \<Longrightarrow> (\<not> b \<Longrightarrow> unsaved n) \<Longrightarrow> unsaved (if b then m else n)"
  by simp

lemma unsaved_option [unsaved_intros]:
  "unsaved m \<Longrightarrow> (\<And>x. unsaved (f x)) \<Longrightarrow> unsaved (case v of None \<Rightarrow> m | Some x \<Rightarrow> f x)"
  by (cases v) auto

section \<open>Pre- and postconditions\<close>

text \<open>
  \<open>triple P m Q I\<close>: from rows in \<open>P\<close> and a savepoint in \<open>I\<close>, the operation returns with rows in \<open>Q\<close> or raises
  with rows in \<open>I\<close>, and the savepoint is in \<open>I\<close> either way.
\<close>

definition triple :: "('d \<Rightarrow> bool) \<Rightarrow> ('d, 'w, 'a) op \<Rightarrow> ('a \<Rightarrow> 'd \<Rightarrow> bool) \<Rightarrow> ('d \<Rightarrow> bool) \<Rightarrow> bool" where
  "triple P m Q I \<longleftrightarrow> (\<forall>s r s'. P (doc s) \<longrightarrow> I (saved s) \<longrightarrow> m s = (r, s') \<longrightarrow>
     I (saved s') \<and> (case r of Inr x \<Rightarrow> Q x (doc s') | Inl e \<Rightarrow> I (doc s')))"

lemma tripleI:
  "(\<And>s r s'. P (doc s) \<Longrightarrow> I (saved s) \<Longrightarrow> m s = (r, s') \<Longrightarrow> I (saved s') \<and> (case r of Inr x \<Rightarrow> Q x (doc s') | Inl e \<Rightarrow> I (doc s'))) \<Longrightarrow>
   triple P m Q I"
  by (simp add: triple_def)

lemma tripleD:
  "triple P m Q I \<Longrightarrow> P (doc s) \<Longrightarrow> I (saved s) \<Longrightarrow> m s = (r, s') \<Longrightarrow>
   I (saved s') \<and> (case r of Inr x \<Rightarrow> Q x (doc s') | Inl e \<Rightarrow> I (doc s'))"
  by (simp add: triple_def)

lemma keeps_triple:
  assumes "triple I m (\<lambda>_. I) I"
  shows "keeps I m"
  unfolding keeps_def rows_ok_def
proof (intro allI impI)
  fix s :: "('a, 'b) st" assume ok: "I (doc s) \<and> I (saved s)"
  obtain r s' where run: "m s = (r, s')" by fastforce
  from tripleD [OF assms _ _ run] ok have "I (saved s')" "I (doc s')" by (auto split: sum.splits)
  then show "I (doc (snd (m s))) \<and> I (saved (snd (m s)))" using run by simp
qed

lemma triple_keeps:
  assumes "keeps I m" "\<And>d. P d \<Longrightarrow> I d"
  shows "triple P m (\<lambda>_. I) I"
proof (rule tripleI)
  fix s r s' assume P: "P (doc s)" "I (saved s)" and run: "m s = (r, s')"
  have "rows_ok I s'" by (rule keepsD [OF assms(1) _ run]) (use P assms(2) in \<open>simp add: rows_ok_def\<close>)
  then show "I (saved s') \<and> (case r of Inr x \<Rightarrow> I (doc s') | Inl e \<Rightarrow> I (doc s'))"
    by (simp add: rows_ok_def split: sum.splits)
qed

lemma triple_seq:
  assumes "triple P m Q I" "\<And>x. triple (Q x) (f x) R I"
  shows "triple P (seq m f) R I"
proof (rule tripleI)
  fix s r s' assume P: "P (doc s)" "I (saved s)" and run: "seq m f s = (r, s')"
  obtain r1 s1 where one: "m s = (r1, s1)" by fastforce
  note first = tripleD [OF assms(1) P one]
  show "I (saved s') \<and> (case r of Inr x \<Rightarrow> R x (doc s') | Inl e \<Rightarrow> I (doc s'))"
  proof (cases r1)
    case (Inl e)
    then show ?thesis using first run one by (auto simp: seq_def)
  next
    case (Inr x)
    then show ?thesis using first run one tripleD [OF assms(2) [of x], of s1 r s'] by (simp add: seq_def)
  qed
qed

lemma triple_except:
  assumes "triple P m Q I" "\<And>e. triple I (h e) Q I"
  shows "triple P (except m h) Q I"
proof (rule tripleI)
  fix s r s' assume P: "P (doc s)" "I (saved s)" and run: "except m h s = (r, s')"
  obtain r1 s1 where one: "m s = (r1, s1)" by fastforce
  note first = tripleD [OF assms(1) P one]
  show "I (saved s') \<and> (case r of Inr x \<Rightarrow> Q x (doc s') | Inl e \<Rightarrow> I (doc s'))"
  proof (cases r1)
    case (Inl e)
    then show ?thesis using first run one tripleD [OF assms(2) [of e], of s1 r s'] by (simp add: except_def)
  next
    case (Inr x)
    then show ?thesis using first run one by (auto simp: except_def)
  qed
qed

lemma triple_db_set: "(\<And>d. P d \<Longrightarrow> Q () (f d)) \<Longrightarrow> triple P (db_set f) Q I"
  by (auto simp: triple_def db_set_def)

lemma triple_ret: "(\<And>d. P d \<Longrightarrow> Q x d) \<Longrightarrow> triple P (ret x) Q I"
  by (auto simp: triple_def ret_def)

lemma triple_raise: "(\<And>d. P d \<Longrightarrow> I d) \<Longrightarrow> triple P (raise e) Q I"
  by (auto simp: triple_def raise_def)

lemma triple_get_doc: "triple P get_doc (\<lambda>x d. P d \<and> x = d) I"
  by (auto simp: triple_def get_doc_def)

text \<open>An operation that leaves the rows alone.\<close>

lemma triple_frame:
  assumes "holds P m" "keeps I m" "\<And>d. P d \<Longrightarrow> I d"
  shows "triple P m (\<lambda>_. P) I"
proof (rule tripleI)
  fix s r s' assume P: "P (doc s)" "I (saved s)" and run: "m s = (r, s')"
  have "P (doc s')" using holdsD [OF assms(1) run] P by simp
  moreover have "rows_ok I s'" using keepsD [OF assms(2) _ run] P assms(3) by (simp add: rows_ok_def)
  ultimately show "I (saved s') \<and> (case r of Inr x \<Rightarrow> P (doc s') | Inl e \<Rightarrow> I (doc s'))"
    by (simp add: rows_ok_def split: sum.splits)
qed

lemma triple_if: "(b \<Longrightarrow> triple P m Q I) \<Longrightarrow> (\<not> b \<Longrightarrow> triple P n Q I) \<Longrightarrow> triple P (if b then m else n) Q I"
  by simp

lemma triple_option:
  "(v = None \<Longrightarrow> triple P m Q I) \<Longrightarrow> (\<And>x. v = Some x \<Longrightarrow> triple P (f x) Q I) \<Longrightarrow> triple P (case v of None \<Rightarrow> m | Some x \<Rightarrow> f x) Q I"
  by (cases v) auto

lemma triple_pre: "triple P' m Q I \<Longrightarrow> (\<And>d. P d \<Longrightarrow> P' d) \<Longrightarrow> triple P m Q I"
  unfolding triple_def by blast

lemma triple_post:
  assumes "triple P m Q' I" "\<And>x d. Q' x d \<Longrightarrow> Q x d"
  shows "triple P m Q I"
proof (rule tripleI)
  fix s r s' assume "P (doc s)" "I (saved s)" "m s = (r, s')"
  from tripleD [OF assms(1) this] assms(2) show "I (saved s') \<and> (case r of Inr x \<Rightarrow> Q x (doc s') | Inl e \<Rightarrow> I (doc s'))"
    by (auto split: sum.splits)
qed

end
