(* ===== verification/Machines.thy ===== *)
theory Machines
  imports Steps Complex_Main
begin

text \<open>
  Servers on Central (src/suite_cloud/hosting/machines.py and the Virtual Machine and Region
  doctypes): created, booted, checked and given the Suite app, one re-entrant step at a time.
  The database is the list of servers and of regions; Central's and Pilot's clients are records of
  calls on the world.  An empty string stands for a value that is not set.  Sizes in gigabytes are
  rationals where the code has floats.
\<close>

section \<open>Rows\<close>

record vm =
  vm_name :: string
  vm_region :: string
  vm_title :: string
  vm_request_key :: string
  vm_plan :: string
  vm_image_offering :: string
  vm_image_id :: string
  vm_has_public_ipv4 :: bool
  vm_has_public_ipv6 :: bool
  vm_status :: string
  vm_enabled :: bool
  vm_error :: string
  vm_central_action :: string
  vm_central_resource_id :: string
  vm_gateway_url :: string
  vm_pilot_audience :: string
  vm_ipv6_address :: string
  vm_public_ipv4 :: string
  vm_public_ipv6 :: string
  vm_booted_at :: "int option"
  vm_ready_since :: "int option"
  vm_last_synced_at :: "int option"
  vm_host_verified :: bool
  vm_wildcard_zone :: string
  vm_letsencrypt_email_set :: bool
  vm_suite_app_status :: string
  vm_suite_app_task :: string
  vm_suite_app_commit :: string
  vm_vcpus :: rat
  vm_memory_mb :: int
  vm_disk_gb :: rat
  vm_max_sites :: int
  vm_foreign_site_count :: int

record region =
  rg_region :: string
  rg_display_name :: string
  rg_provider :: string
  rg_country_code :: string
  rg_status :: string
  rg_reachable :: bool
  rg_enabled :: bool
  rg_mail_region :: string
  rg_proxy_zone :: string
  rg_last_synced_at :: "int option"

record fleet =
  vms :: "vm list"
  regions :: "region list"

definition get_vm :: "string \<Rightarrow> 'z fleet_scheme \<Rightarrow> vm option" where
  "get_vm n d = find (\<lambda>v. vm_name v = n) (vms d)"

definition upd_vm :: "string \<Rightarrow> (vm \<Rightarrow> vm) \<Rightarrow> 'z fleet_scheme \<Rightarrow> 'z fleet_scheme" where
  "upd_vm n f d = d\<lparr>vms := map (\<lambda>v. if vm_name v = n then f v else v) (vms d)\<rparr>"

definition get_region :: "string \<Rightarrow> 'z fleet_scheme \<Rightarrow> region option" where
  "get_region c d = find (\<lambda>r. rg_region r = c) (regions d)"

definition set_proxy_zone :: "string \<Rightarrow> string \<Rightarrow> 'z fleet_scheme \<Rightarrow> 'z fleet_scheme" where
  "set_proxy_zone c zone d =
    d\<lparr>regions := map (\<lambda>r. if rg_region r = c then r\<lparr>rg_proxy_zone := zone\<rparr> else r) (regions d)\<rparr>"

section \<open>Settings and clients\<close>

record hosting_config =
  central_configured :: bool
  acme_contact_email :: string
  suite_app_repo :: string
  suite_app_ref :: string
  central_image_offering :: string
  central_plan :: string
  reserved_memory_mb :: int
  memory_per_site_mb :: int
  reserved_disk_gb :: int
  disk_per_site_gb :: int
  max_sites_per_vm :: int
  ready_sites_per_region :: int
  min_free_site_slots :: int
  auto_create_vms :: bool

record action_status =
  as_action :: string
  as_resource_id :: string
  as_status :: string
  as_message :: string
  as_remediation :: string

record server =
  sv_resource_id :: string
  sv_status :: string
  sv_gateway_url :: string
  sv_pilot_audience :: string
  sv_ipv6_address :: string
  sv_public_ipv4 :: string
  sv_public_ipv6 :: string
  sv_plan :: string
  sv_vcpus :: rat
  sv_memory_megabytes :: int
  sv_disk_gigabytes :: rat

record registry =
  reg_servers :: "server list"
  reg_creations :: "string list"

record image =
  im_id :: string
  im_has_site :: string
  im_created_at :: int

record plan_row =
  pl_plan :: string
  pl_rate :: rat

type_synonym catalog = "(string \<times> plan_row list) list"

record server_args =
  sa_region :: string
  sa_title :: string
  sa_request_key :: string
  sa_plan :: string
  sa_offering :: string
  sa_image_id :: string
  sa_has_public_ipv4 :: bool
  sa_has_public_ipv6 :: bool

record instance_row =
  in_region :: string
  in_display_name :: string
  in_provider :: string
  in_country_code :: string
  in_status :: string
  in_reachable :: bool

record 'w central_client =
  ct_create_server :: "server_args \<Rightarrow> ('w, action_status) call"
  ct_action_status :: "string \<Rightarrow> ('w, action_status) call"
  ct_retry_action :: "string \<Rightarrow> ('w, action_status) call"
  ct_registry :: "('w, registry) call"
  ct_list_images :: "string \<Rightarrow> string \<Rightarrow> ('w, image list) call"
  ct_eligible_plans :: "string \<Rightarrow> string \<Rightarrow> string \<Rightarrow> ('w, catalog) call"
  ct_list_instances :: "('w, instance_row list) call"
  ct_terminate_server :: "string \<Rightarrow> ('w, unit) call"

record pilot_settings =
  ps_letsencrypt_email :: string
  ps_production_enabled :: bool

record app_row =
  app_name :: string
  app_current_commit :: string

record 'w pilot_client =
  pc_wildcard_domains :: "vm \<Rightarrow> ('w, string list) call"
  pc_settings :: "vm \<Rightarrow> ('w, pilot_settings) call"
  pc_set_letsencrypt_email :: "vm \<Rightarrow> string \<Rightarrow> ('w, unit) call"
  pc_list_apps :: "vm \<Rightarrow> ('w, app_row list) call"
  pc_install_app :: "vm \<Rightarrow> string \<Rightarrow> string \<Rightarrow> ('w, task) call"
  pc_get_task :: "vm \<Rightarrow> string \<Rightarrow> ('w, task) call"
  pc_task_output :: "vm \<Rightarrow> string \<Rightarrow> ('w, string) call"
  pc_list_sites :: "vm \<Rightarrow> ('w, string list) call"

text \<open>What the steps read besides the rows: settings, clients, the clock, how often a task is polled.\<close>

record 'w env =
  cfg :: hosting_config
  central :: "'w central_client"
  pilot :: "'w pilot_client"
  now_at :: int
  polls :: nat

section \<open>The Virtual Machine document\<close>

definition PLACEABLE_STATUS :: string where "PLACEABLE_STATUS = ''Running''"

definition BUILDING_STATUSES :: "string list" where
  "BUILDING_STATUSES = [''Pending'', ''Provisioning'', ''Deploying'', PLACEABLE_STATUS]"

definition is_ready :: "vm \<Rightarrow> bool" where
  "is_ready v \<longleftrightarrow> vm_status v = PLACEABLE_STATUS \<and> vm_host_verified v \<and> vm_suite_app_status v = ''Installed'' \<and> vm_error v = []"

definition is_building :: "vm \<Rightarrow> bool" where
  "is_building v \<longleftrightarrow> \<not> is_ready v \<and> vm_error v = [] \<and> vm_status v \<in> set BUILDING_STATUSES"

definition vm_on_trash :: "vm \<Rightarrow> herr + unit" where
  "vm_on_trash v = require (\<not> (vm_central_resource_id v \<noteq> [] \<and> vm_status v \<noteq> ''Terminated''))
    (Other_Error ''Terminate the server on Central before deleting it here.'')"

text \<open>\<open>validate\<close> on insert: Central derives the server's digest from the title.\<close>

definition vm_validate_new :: "vm \<Rightarrow> vm" where
  "vm_validate_new v = v\<lparr>vm_title := ''suite-'' @ vm_region v @ ''-'' @ vm_name v,
                         vm_request_key := ''suite-cloud-'' @ vm_name v\<rparr>"

section \<open>Sizing\<close>

definition by_memory :: "hosting_config \<Rightarrow> int \<Rightarrow> int" where
  "by_memory c memory_mb = (memory_mb - reserved_memory_mb c) div memory_per_site_mb c"

definition by_disk :: "hosting_config \<Rightarrow> rat \<Rightarrow> int" where
  "by_disk c disk_gb = \<lfloor>(disk_gb - of_int (reserved_disk_gb c)) / of_int (disk_per_site_gb c)\<rfloor>"

text \<open>The numbers of the settings' hosting section, as \<open>validate_hosting\<close> accepts them.\<close>

definition at_least :: "int \<Rightarrow> string \<Rightarrow> int \<Rightarrow> herr + unit" where
  "at_least low message n = require (\<not> n < low) (Other_Error message)"

definition validate_sizing :: "hosting_config \<Rightarrow> herr + unit" where
  "validate_sizing c =
    rbind (at_least 1 ''Memory per Site must be at least 1.'' (memory_per_site_mb c)) (\<lambda>_.
    rbind (at_least 1 ''Disk per Site must be at least 1.'' (disk_per_site_gb c)) (\<lambda>_.
    rbind (rmap (at_least 0 ''cannot be negative.'')
      [max_sites_per_vm c, ready_sites_per_region c, min_free_site_slots c, reserved_memory_mb c, reserved_disk_gb c]) (\<lambda>_.
    at_least 1 ''A server must take at least one site.'' (max_sites_per_vm c))))"

text \<open>Dividing by an allowance of zero raises in Python.\<close>

definition sites_that_fit :: "hosting_config \<Rightarrow> int \<Rightarrow> rat \<Rightarrow> herr + int" where
  "sites_that_fit c memory_mb disk_gb =
    (if memory_per_site_mb c = 0 \<or> disk_per_site_gb c = 0 then Inl (Other_Error ''ZeroDivisionError'')
     else Inr (max 0 (min (max_sites_per_vm c) (min (by_memory c memory_mb) (by_disk c disk_gb)))))"

text \<open>The server's size and the sites it fits; \<open>None\<close> until Central reports it.\<close>

definition server_size :: "hosting_config \<Rightarrow> server \<Rightarrow> herr + (vm \<Rightarrow> vm)" where
  "server_size c sv =
    (if sv_memory_megabytes sv = 0 \<or> sv_disk_gigabytes sv = 0 then Inr id
     else rbind (sites_that_fit c (sv_memory_megabytes sv) (sv_disk_gigabytes sv)) (\<lambda>n.
       Inr (\<lambda>v. v\<lparr>vm_vcpus := sv_vcpus sv, vm_memory_mb := sv_memory_megabytes sv,
                  vm_disk_gb := sv_disk_gigabytes sv, vm_max_sites := n\<rparr>)))"

section \<open>Choosing an image and a plan\<close>

text \<open>Python's \<open>max\<close> and \<open>min\<close> with a key: the first row of the greatest, or least, key.\<close>

fun first_best :: "('k \<Rightarrow> 'k \<Rightarrow> bool) \<Rightarrow> ('a \<Rightarrow> 'k) \<Rightarrow> 'a \<Rightarrow> 'a list \<Rightarrow> 'a" where
  "first_best better key x [] = x"
| "first_best better key x (y # ys) = first_best better key (if better (key y) (key x) then y else x) ys"

definition newest_image :: "image list \<Rightarrow> herr + string" where
  "newest_image images =
    (case filter (\<lambda>i. im_has_site i \<noteq> ''1'') images of
       [] \<Rightarrow> Inl (Other_Error ''Central offers no image without a baked site for this region.'')
     | i # is \<Rightarrow> Inr (im_id (first_best (>) im_created_at i is)))"

definition cheapest_plan :: "catalog \<Rightarrow> herr + string" where
  "cheapest_plan plans =
    (case concat (map snd plans) of
       [] \<Rightarrow> Inl (Other_Error ''Central offers no plan for this image in the region within the team's spend limit.'')
     | r # rs \<Rightarrow> Inr (pl_plan (first_best (<) pl_rate r rs)))"

definition lift :: "herr + 'a \<Rightarrow> ('d, 'w, 'a) op" where
  "lift r = (case r of Inl e \<Rightarrow> raise e | Inr x \<Rightarrow> ret x)"

definition str_or :: "string \<Rightarrow> string \<Rightarrow> string" where
  "str_or a b = (if a \<noteq> [] then a else b)"

text \<open>Fixed on insert, so a retried create_server sends exactly what the first one did.\<close>

definition resolve_server_arguments :: "'w env \<Rightarrow> vm \<Rightarrow> ('d, 'w, vm) op" where
  "resolve_server_arguments e v =
    (let v1 = v\<lparr>vm_image_offering := str_or (vm_image_offering v) (central_image_offering (cfg e))\<rparr> in
     seq (if vm_image_id v1 \<noteq> [] then ret (vm_image_id v1)
          else seq (ask (ct_list_images (central e) (vm_region v1) (vm_image_offering v1))) (\<lambda>is. lift (newest_image is)))
       (\<lambda>im. let v2 = v1\<lparr>vm_image_id := im\<rparr>; p = str_or (vm_plan v2) (central_plan (cfg e)) in
         seq (if p \<noteq> [] then ret p
              else seq (ask (ct_eligible_plans (central e) (vm_region v2) (vm_image_offering v2) (vm_image_id v2)))
                (\<lambda>c. lift (cheapest_plan c)))
           (\<lambda>p. ret (v2\<lparr>vm_plan := p\<rparr>))))"

definition vm_before_insert :: "'w env \<Rightarrow> vm \<Rightarrow> ('d, 'w, vm) op" where
  "vm_before_insert e v =
    resolve_server_arguments e (v\<lparr>vm_status := ''Pending'', vm_max_sites := max_sites_per_vm (cfg e)\<rparr>)"

definition server_arguments :: "vm \<Rightarrow> server_args" where
  "server_arguments v =
    \<lparr>sa_region = vm_region v, sa_title = vm_title v, sa_request_key = vm_request_key v, sa_plan = vm_plan v,
     sa_offering = vm_image_offering v, sa_image_id = vm_image_id v,
     sa_has_public_ipv4 = vm_has_public_ipv4 v, sa_has_public_ipv6 = vm_has_public_ipv6 v\<rparr>"

section \<open>The steps\<close>

definition row_of :: "string \<Rightarrow> ('z fleet_scheme, 'w, vm) op" where
  "row_of n = seq get_doc (\<lambda>d. case get_vm n d of None \<Rightarrow> raise (Other_Error ''DoesNotExistError'') | Some v \<Rightarrow> ret v)"

definition set_vm :: "string \<Rightarrow> (vm \<Rightarrow> vm) \<Rightarrow> ('z fleet_scheme, 'w, unit) op" where
  "set_vm n f = db_set (upd_vm n f)"

definition stop :: "string \<Rightarrow> string \<Rightarrow> ('z fleet_scheme, 'w, unit) op" where
  "stop n message = set_vm n (\<lambda>v. v\<lparr>vm_error := message\<rparr>)"

definition FAILED_ACTION_STATUSES :: "string list" where
  "FAILED_ACTION_STATUSES = [''Failed'', ''Timed Out'']"

definition action_error_text :: "action_status \<Rightarrow> string" where
  "action_error_text a =
    str_or (as_message a) (''Central reports the creation '' @ as_status a @ ''.'') @
    (if as_remediation a \<noteq> [] then '' '' @ as_remediation a else [])"

definition central_message :: "string \<Rightarrow> string \<Rightarrow> string" where
  "central_message msg hint = join_with (CHR '' '') (filter (\<lambda>p. p \<noteq> []) [msg, hint])"

text \<open>Central folds identical pending creations into one: the second server to see it fails.\<close>

definition create :: "'w env \<Rightarrow> string \<Rightarrow> ('z fleet_scheme, 'w, bool) op" where
  "create e n = seq (row_of n) (\<lambda>v.
    if vm_central_action v \<noteq> [] then ret True
    else seq (ask (ct_create_server (central e) (server_arguments v))) (\<lambda>a.
      seq get_doc (\<lambda>d.
        case find (\<lambda>b. vm_central_action b = as_action a \<and> vm_name b \<noteq> n) (vms d) of
          Some b \<Rightarrow> seq (set_vm n (\<lambda>v. v\<lparr>vm_status := ''Failed'',
                       vm_error := ''Central collapsed this creation into '' @ vm_name b @ ''.''\<rparr>)) (\<lambda>_. ret False)
        | None \<Rightarrow> seq (set_vm n (\<lambda>v. v\<lparr>vm_central_action := as_action a\<rparr>)) (\<lambda>_. ret True))))"

definition accept :: "'w env \<Rightarrow> string \<Rightarrow> ('z fleet_scheme, 'w, bool) op" where
  "accept e n = seq (row_of n) (\<lambda>v.
    if vm_central_resource_id v \<noteq> [] then ret True
    else seq (ask (ct_action_status (central e) (vm_central_action v))) (\<lambda>a.
      if as_resource_id a \<noteq> [] then
        seq (set_vm n (\<lambda>v. v\<lparr>vm_central_resource_id := as_resource_id a, vm_status := ''Provisioning''\<rparr>)) (\<lambda>_. ret True)
      else if as_status a \<in> set FAILED_ACTION_STATUSES then
        seq (set_vm n (\<lambda>v. v\<lparr>vm_status := ''Failed'', vm_error := action_error_text a\<rparr>)) (\<lambda>_. ret False)
      else ret False))"

definition SERVER_STATUSES :: "string list" where
  "SERVER_STATUSES =
    [''Pending'', ''Provisioning'', ''Deploying'', ''Running'', ''Paused'', ''Stopped'', ''Failed'', ''Terminated'']"

definition find_server :: "registry \<Rightarrow> string \<Rightarrow> server option" where
  "find_server reg resource_id = find (\<lambda>s. sv_resource_id s = resource_id) (reg_servers reg)"

text \<open>Central's view of the server, written in one statement.\<close>

definition apply_server :: "'w env \<Rightarrow> string \<Rightarrow> server \<Rightarrow> ('z fleet_scheme, 'w, unit) op" where
  "apply_server e n sv = seq (lift (server_size (cfg e) sv)) (\<lambda>sized.
    set_vm n (\<lambda>v.
      let known = sv_status sv \<in> set SERVER_STATUSES in
      (sized (v\<lparr>vm_gateway_url := sv_gateway_url sv, vm_pilot_audience := sv_pilot_audience sv,
               vm_ipv6_address := sv_ipv6_address sv, vm_public_ipv4 := sv_public_ipv4 sv,
               vm_public_ipv6 := sv_public_ipv6 sv, vm_plan := sv_plan sv,
               vm_status := (if known then sv_status sv else vm_status v),
               vm_booted_at := (if known \<and> sv_status sv = ''Running'' \<and> vm_booted_at v = None then Some (now_at e)
                                else vm_booted_at v)\<rparr>))\<lparr>vm_last_synced_at := Some (now_at e)\<rparr>))"

definition has_booted :: "vm \<Rightarrow> bool" where
  "has_booted v \<longleftrightarrow> vm_status v = ''Running'' \<and> vm_gateway_url v \<noteq> [] \<and> vm_pilot_audience v \<noteq> []"

definition boot :: "'w env \<Rightarrow> string \<Rightarrow> ('z fleet_scheme, 'w, bool) op" where
  "boot e n = seq (row_of n) (\<lambda>v.
    if has_booted v then ret True
    else seq (ask (ct_registry (central e))) (\<lambda>reg.
      seq (case find_server reg (vm_central_resource_id v) of None \<Rightarrow> ret () | Some sv \<Rightarrow> apply_server e n sv) (\<lambda>_.
        seq (row_of n) (\<lambda>v. ret (has_booted v)))))"

definition PILOT_BOOT_DEADLINE :: int where "PILOT_BOOT_DEADLINE = 30 * 60"

definition is_pilot_error :: "herr \<Rightarrow> bool" where
  "is_pilot_error x \<longleftrightarrow> is_Pilot_Not_Ready x \<or> is_Pilot_Conflict x \<or> is_Pilot_Error x"

definition ensure_letsencrypt_email :: "'w env \<Rightarrow> vm \<Rightarrow> pilot_settings \<Rightarrow> ('d, 'w, pilot_settings) op" where
  "ensure_letsencrypt_email e v settings =
    (if ps_letsencrypt_email settings \<noteq> [] \<or> acme_contact_email (cfg e) = [] then ret settings
     else except (seq (ask (pc_set_letsencrypt_email (pilot e) v (acme_contact_email (cfg e)))) (\<lambda>_. ask (pc_settings (pilot e) v)))
       (\<lambda>x. if is_pilot_error x then ret settings else raise x))"

text \<open>The region's proxy zone; the first server verified there sets it.\<close>

definition learn_proxy_zone :: "string \<Rightarrow> string \<Rightarrow> ('z fleet_scheme, 'w, string) op" where
  "learn_proxy_zone region zone = seq get_doc (\<lambda>d.
    let known = (case get_region region d of None \<Rightarrow> [] | Some r \<Rightarrow> rg_proxy_zone r) in
    if known = [] then seq (db_set (set_proxy_zone region zone)) (\<lambda>_. ret zone) else ret known)"

definition host_problem :: "vm \<Rightarrow> string \<Rightarrow> pilot_settings \<Rightarrow> ('z fleet_scheme, 'w, string option) op" where
  "host_problem v zone settings =
    (if zone = [] then ret (Some ''Pilot lists no wildcard domain, so sites on this server cannot be routed.'')
     else if \<not> prefix (vm_region v @ ''.'') zone then
       ret (Some (''Pilot registers sites under '' @ zone @ '', which is not a zone of region '' @ vm_region v @ ''.''))
     else seq (learn_proxy_zone (vm_region v) zone) (\<lambda>proxy_zone.
       if zone \<noteq> proxy_zone then
         ret (Some (''Pilot registers sites under '' @ zone @ '', but region '' @ vm_region v @ '' serves '' @ proxy_zone @ ''.''))
       else if \<not> ps_production_enabled settings then ret (Some ''Pilot is not in production mode.'')
       else ret None))"

definition zone_of :: "string list \<Rightarrow> string" where
  "zone_of domains = (case domains of [] \<Rightarrow> [] | z # _ \<Rightarrow> lstrip_by (\<lambda>c. c = CHR ''.'') z)"

text \<open>The end of \<open>verify_host\<close>: stopped by a problem, or verified.\<close>

definition settle_host :: "string \<Rightarrow> string option \<Rightarrow> ('z fleet_scheme, 'w, bool) op" where
  "settle_host n problem =
    (case problem of
       Some p \<Rightarrow> seq (stop n p) (\<lambda>_. ret False)
     | None \<Rightarrow> seq (set_vm n (\<lambda>v. v\<lparr>vm_host_verified := True\<rparr>)) (\<lambda>_. ret True))"

definition check_host :: "'w env \<Rightarrow> string \<Rightarrow> vm \<Rightarrow> string list \<times> pilot_settings \<Rightarrow> ('z fleet_scheme, 'w, bool) op" where
  "check_host e n v = (\<lambda>(domains, settings).
    seq (ensure_letsencrypt_email e v settings) (\<lambda>settings.
    let zone = zone_of domains in
    seq (set_vm n (\<lambda>v. v\<lparr>vm_wildcard_zone := zone, vm_letsencrypt_email_set := ps_letsencrypt_email settings \<noteq> []\<rparr>)) (\<lambda>_.
    seq (host_problem v zone settings) (settle_host n))))"

text \<open>The part of \<open>verify_host\<close> inside its \<open>try\<close>: \<open>None\<close> while Pilot is not ready.\<close>

definition read_host :: "'w env \<Rightarrow> string \<Rightarrow> vm \<Rightarrow> ('z fleet_scheme, 'w, (string list \<times> pilot_settings) option) op" where
  "read_host e n v =
    except (seq (ask (pc_wildcard_domains (pilot e) v)) (\<lambda>ds. seq (ask (pc_settings (pilot e) v)) (\<lambda>ps. ret (Some (ds, ps)))))
      (\<lambda>x. if is_Pilot_Not_Ready x then
           seq (case vm_booted_at v of
                  Some t \<Rightarrow> if now_at e - t > PILOT_BOOT_DEADLINE
                    then stop n ''Pilot did not answer within 30 minutes of the server booting.'' else ret ()
                | None \<Rightarrow> ret ()) (\<lambda>_. ret None)
         else raise x)"

definition verify_host :: "'w env \<Rightarrow> string \<Rightarrow> ('z fleet_scheme, 'w, bool) op" where
  "verify_host e n = seq (row_of n) (\<lambda>v.
    if vm_host_verified v then ret True
    else seq (read_host e n v) (\<lambda>found. case found of None \<Rightarrow> ret False | Some answer \<Rightarrow> check_host e n v answer))"

definition SUITE_APP :: string where "SUITE_APP = ''suite''"

definition find_app :: "app_row list \<Rightarrow> app_row option" where
  "find_app apps = find (\<lambda>a. app_name a = SUITE_APP) apps"

definition mark_installed :: "string \<Rightarrow> app_row \<Rightarrow> ('z fleet_scheme, 'w, bool) op" where
  "mark_installed n app = seq (set_vm n (\<lambda>v. v\<lparr>vm_suite_app_status := ''Installed'',
      vm_suite_app_commit := app_current_commit app, vm_suite_app_task := []\<rparr>)) (\<lambda>_. ret True)"

text \<open>The part of \<open>install_suite\<close> after the task is known: wait on it and read what it left.\<close>

definition finish_install :: "'w env \<Rightarrow> string \<Rightarrow> ('z fleet_scheme, 'w, bool) op" where
  "finish_install e n = seq (row_of n) (\<lambda>v.
    seq (wait_for_task (polls e) (pc_get_task (pilot e) v (vm_suite_app_task v))) (\<lambda>t.
    if \<not> is_finished t then ret False
    else if t_status t \<noteq> ''success'' then
      seq (output_tail (pc_task_output (pilot e) v (vm_suite_app_task v))) (\<lambda>out.
        seq (set_vm n (\<lambda>v. v\<lparr>vm_suite_app_status := ''Failed'', vm_error := out\<rparr>)) (\<lambda>_. ret False))
    else seq (ask (pc_list_apps (pilot e) v)) (\<lambda>apps.
      case find_app apps of
        None \<Rightarrow> seq (set_vm n (\<lambda>v. v\<lparr>vm_suite_app_status := ''Failed'',
                  vm_error := ''The install finished without the Suite app.''\<rparr>)) (\<lambda>_. ret False)
      | Some app \<Rightarrow> mark_installed n app)))"

definition install_suite :: "'w env \<Rightarrow> string \<Rightarrow> ('z fleet_scheme, 'w, bool) op" where
  "install_suite e n = seq (row_of n) (\<lambda>v.
    if vm_suite_app_status v = ''Installed'' then ret True
    else if vm_suite_app_task v \<noteq> [] then finish_install e n
    else seq (ask (pc_list_apps (pilot e) v)) (\<lambda>apps.
      case find_app apps of
        Some app \<Rightarrow> mark_installed n app
      | None \<Rightarrow> seq (ask (pc_install_app (pilot e) v (suite_app_repo (cfg e)) (suite_app_ref (cfg e)))) (\<lambda>t.
          seq (set_vm n (\<lambda>v. v\<lparr>vm_suite_app_status := ''Installing'', vm_suite_app_task := t_id t\<rparr>)) (\<lambda>_.
            finish_install e n))))"

section \<open>Running the steps\<close>

definition run_step :: "string \<Rightarrow> string \<times> ('z fleet_scheme, 'w, bool) op \<Rightarrow> ('z fleet_scheme, 'w, bool) op" where
  "run_step n = (\<lambda>(label, step). seq begin_step (\<lambda>_.
    except step (\<lambda>x.
      if is_Pilot_Not_Ready x \<or> is_Central_Unavailable x then ret False
      else if is_Central_Rejected x then seq (stop n (central_message (rejected_message x) (remediation x))) (\<lambda>_. ret False)
      else seq undo_step (\<lambda>_. seq (stop n (label @ '' failed; see the Error Log.'')) (\<lambda>_. ret False)))))"

definition blocked :: "vm \<Rightarrow> bool" where
  "blocked v \<longleftrightarrow> vm_error v \<noteq> [] \<or> vm_status v \<in> {''Failed'', ''Terminated''}"

fun run_steps :: "string \<Rightarrow> (string \<times> ('z fleet_scheme, 'w, bool) op) list \<Rightarrow> ('z fleet_scheme, 'w, bool) op" where
  "run_steps n [] = ret True"
| "run_steps n (x # xs) = seq (row_of n) (\<lambda>v. if blocked v then ret False
     else seq (run_step n x) (\<lambda>ok. if ok then run_steps n xs else ret False))"

definition STEPS :: "'w env \<Rightarrow> string \<Rightarrow> (string \<times> ('z fleet_scheme, 'w, bool) op) list" where
  "STEPS e n = [(''create'', create e n), (''accept'', accept e n), (''boot'', boot e n),
     (''verify_host'', verify_host e n), (''install_suite'', install_suite e n)]"

definition mark_ready :: "'w env \<Rightarrow> string \<Rightarrow> ('z fleet_scheme, 'w, unit) op" where
  "mark_ready e n = seq (row_of n) (\<lambda>v.
    if vm_ready_since v = None then set_vm n (\<lambda>v. v\<lparr>vm_ready_since := Some (now_at e)\<rparr>) else ret ())"

definition provision :: "'w env \<Rightarrow> string \<Rightarrow> ('z fleet_scheme, 'w, unit) op" where
  "provision e n = seq (run_steps n (STEPS e n)) (\<lambda>ok. if ok then mark_ready e n else ret ())"

section \<open>The fleet\<close>

definition mark_terminated :: "'w env \<Rightarrow> string \<Rightarrow> ('z fleet_scheme, 'w, unit) op" where
  "mark_terminated e n = set_vm n (\<lambda>v. v\<lparr>vm_status := ''Terminated'', vm_enabled := False,
     vm_error := ''Central no longer lists server '' @ vm_central_resource_id v @ ''.'', vm_last_synced_at := Some (now_at e)\<rparr>)"

definition refresh_server :: "'w env \<Rightarrow> bool \<Rightarrow> registry \<Rightarrow> vm \<Rightarrow> ('z fleet_scheme, 'w, unit) op" where
  "refresh_server e mark_missing reg v =
    (if vm_central_resource_id v = [] \<or> vm_status v = ''Terminated'' then ret ()
     else case find_server reg (vm_central_resource_id v) of
       Some sv \<Rightarrow> apply_server e (vm_name v) sv
     | None \<Rightarrow> if mark_missing then mark_terminated e (vm_name v) else ret ())"

text \<open>
  Creations no server of ours started; each is reported once while the cache remembers it
  (\<open>cached\<close> are the actions whose key is alive).
\<close>

definition report_unknown_creations :: "string list \<Rightarrow> string list \<Rightarrow> registry \<Rightarrow> string list \<times> string list" where
  "report_unknown_creations known cached reg =
    fold (\<lambda>a (cache, reported). if a \<in> set known \<or> a \<in> set cache then (cache, reported) else (a # cache, reported @ [a]))
      (reg_creations reg) (cached, [])"

text \<open>Sites Pilot lists that are not Suite Sites take slots too; \<open>ours\<close> are this server's host names.\<close>

definition refresh_foreign_sites :: "'w env \<Rightarrow> (string \<Rightarrow> string list) \<Rightarrow> vm \<Rightarrow> ('z fleet_scheme, 'w, unit) op" where
  "refresh_foreign_sites e ours v =
    except (seq (ask (pc_list_sites (pilot e) v)) (\<lambda>names.
        set_vm (vm_name v) (\<lambda>r. r\<lparr>vm_foreign_site_count := int (card (set names - set (ours (vm_name v))))\<rparr>)))
      (\<lambda>x. if is_Pilot_Not_Ready x then ret () else raise x)"

definition drive_server :: "'w env \<Rightarrow> (string \<Rightarrow> string list) \<Rightarrow> string \<Rightarrow> ('z fleet_scheme, 'w, unit) op" where
  "drive_server e ours n = seq (row_of n) (\<lambda>v.
    if is_building v then ret () else if is_ready v then refresh_foreign_sites e ours v else ret ())"

text \<open>Returns the servers whose set-up was enqueued and the creations reported.\<close>

definition refresh_fleet ::
  "'w env \<Rightarrow> (string \<Rightarrow> string list) \<Rightarrow> string list \<Rightarrow> bool \<Rightarrow> ('z fleet_scheme, 'w, string list \<times> string list) op" where
  "refresh_fleet e ours cached mark_missing =
    (if \<not> central_configured (cfg e) then ret ([], [])
     else seq get_doc (\<lambda>d. let vs = vms d in
       seq (except (seq (ask (ct_registry (central e))) (\<lambda>r. ret (Some r)))
             (\<lambda>x. if is_Central_Unavailable x then ret None else raise x)) (\<lambda>found.
       case found of
         None \<Rightarrow> ret ([], [])
       | Some reg \<Rightarrow>
           seq (run_all (refresh_server e mark_missing reg) vs) (\<lambda>_.
           seq get_doc (\<lambda>d.
           let enqueued = map vm_name (filter is_building (vms d));
               reported = snd (report_unknown_creations (map vm_central_action vs) cached reg) in
           seq (run_all (drive_server e ours) (map vm_name vs)) (\<lambda>_. ret (enqueued, reported)))))))"

text \<open>Central's regions; \<open>enabled\<close>, \<open>mail_region\<close> and the learned \<open>proxy_zone\<close> stay.\<close>

definition clean_zone :: "string \<Rightarrow> string" where
  "clean_zone z = rstrip_by (\<lambda>c. c = CHR ''.'') (lstrip_by (\<lambda>c. c = CHR ''.'') (py_lower (py_strip z)))"

definition region_validate :: "region \<Rightarrow> region" where
  "region_validate r = r\<lparr>rg_proxy_zone := clean_zone (rg_proxy_zone r)\<rparr>"

definition new_region :: "string \<Rightarrow> region" where
  "new_region c = \<lparr>rg_region = c, rg_display_name = [], rg_provider = [], rg_country_code = [], rg_status = [],
     rg_reachable = False, rg_enabled = False, rg_mail_region = [], rg_proxy_zone = [], rg_last_synced_at = None\<rparr>"

definition sync_region :: "int \<Rightarrow> instance_row \<Rightarrow> 'z fleet_scheme \<Rightarrow> 'z fleet_scheme" where
  "sync_region t i d =
    (let upd = (\<lambda>r. region_validate (r\<lparr>rg_display_name := in_display_name i, rg_provider := in_provider i,
            rg_country_code := in_country_code i, rg_status := in_status i, rg_reachable := in_reachable i,
            rg_last_synced_at := Some t\<rparr>)) in
     case get_region (in_region i) d of
       Some _ \<Rightarrow> d\<lparr>regions := map (\<lambda>r. if rg_region r = in_region i then upd r else r) (regions d)\<rparr>
     | None \<Rightarrow> d\<lparr>regions := regions d @ [upd (new_region (in_region i))]\<rparr>)"

definition sync_regions :: "'w env \<Rightarrow> ('z fleet_scheme, 'w, nat) op" where
  "sync_regions e =
    (if \<not> central_configured (cfg e) then ret 0
     else seq (ask (ct_list_instances (central e))) (\<lambda>is.
       seq (run_all (\<lambda>i. db_set (sync_region (now_at e) i)) is) (\<lambda>_. ret (length is))))"

definition sync_fleet ::
  "'w env \<Rightarrow> (string \<Rightarrow> string list) \<Rightarrow> string list \<Rightarrow> ('z fleet_scheme, 'w, string list \<times> string list) op" where
  "sync_fleet e ours cached = seq (sync_regions e) (\<lambda>_. refresh_fleet e ours cached True)"

section \<open>Operator actions\<close>

definition reset_failed_install :: "string \<Rightarrow> ('z fleet_scheme, 'w, unit) op" where
  "reset_failed_install n = seq (row_of n) (\<lambda>v.
    if vm_suite_app_status v = ''Failed''
    then set_vm n (\<lambda>v. v\<lparr>vm_suite_app_status := ''Pending'', vm_suite_app_task := []\<rparr>) else ret ())"

text \<open>Answers whether the set-up was enqueued again.\<close>

definition retry_setup :: "string \<Rightarrow> ('z fleet_scheme, 'w, bool) op" where
  "retry_setup n = seq (set_vm n (\<lambda>v. v\<lparr>vm_status := (if vm_status v = ''Failed'' then ''Pending'' else vm_status v), vm_error := []\<rparr>)) (\<lambda>_.
    seq (reset_failed_install n) (\<lambda>_. ret True))"

definition retry :: "'w env \<Rightarrow> string \<Rightarrow> ('z fleet_scheme, 'w, bool) op" where
  "retry e n = seq (row_of n) (\<lambda>v.
    if vm_central_action v \<noteq> [] \<and> vm_central_resource_id v = [] \<and> vm_status v = ''Failed'' then
      seq (except (seq (ask (ct_retry_action (central e) (vm_central_action v))) (\<lambda>a.
             seq (set_vm n (\<lambda>v. v\<lparr>vm_central_action := str_or (as_action a) (vm_central_action v)\<rparr>)) (\<lambda>_. ret True)))
           (\<lambda>x. if is_Central_Rejected x then seq (stop n (central_message (rejected_message x) (remediation x))) (\<lambda>_. ret False)
               else raise x))
        (\<lambda>ok. if ok then retry_setup n else ret False)
    else retry_setup n)"

definition verify_host_action :: "'w env \<Rightarrow> string \<Rightarrow> ('z fleet_scheme, 'w, bool) op" where
  "verify_host_action e n = seq (set_vm n (\<lambda>v. v\<lparr>vm_host_verified := False, vm_error := []\<rparr>)) (\<lambda>_. verify_host e n)"

definition install_suite_app :: "string \<Rightarrow> ('z fleet_scheme, 'w, unit) op" where
  "install_suite_app n = seq (row_of n) (\<lambda>v.
    if vm_suite_app_status v = ''Failed''
    then seq (set_vm n (\<lambda>v. v\<lparr>vm_error := []\<rparr>)) (\<lambda>_. reset_failed_install n) else ret ())"

definition decommission :: "string \<Rightarrow> ('z fleet_scheme, 'w, unit) op" where
  "decommission n = set_vm n (\<lambda>v. v\<lparr>vm_enabled := False\<rparr>)"

definition terminate :: "'w env \<Rightarrow> (string \<Rightarrow> nat) \<Rightarrow> string \<Rightarrow> ('z fleet_scheme, 'w, unit) op" where
  "terminate e site_count n = seq (row_of n) (\<lambda>v.
    if vm_central_resource_id v = [] then
      raise (Other_Error ''The server never existed on Central; Retry closes the creation instead.'')
    else if site_count n \<noteq> 0 then raise (Other_Error ''Drop the Suite Sites on this server first.'')
    else seq (ask (ct_terminate_server (central e) (vm_central_resource_id v))) (\<lambda>_. decommission n))"

section \<open>Reading back a row\<close>

lemma get_upd_vm [simp]:
  "(\<And>v. vm_name (f v) = vm_name v) \<Longrightarrow>
   get_vm m (upd_vm n f d) = (if m = n then map_option f (get_vm n d) else get_vm m d)"
  by (simp add: get_vm_def upd_vm_def find_upd_key)

lemma get_vm_proxy_zone [simp]: "get_vm n (set_proxy_zone c z d) = get_vm n d"
  by (simp add: get_vm_def set_proxy_zone_def)

lemma row_of_iff [simp]: "row_of n s = (Inr v, s') \<longleftrightarrow> get_vm n (doc s) = Some v \<and> s' = s"
  by (auto simp: row_of_def split: option.splits)

lemma set_vm_iff [simp]: "set_vm n f s = (Inr u, s') \<longleftrightarrow> s' = s\<lparr>doc := upd_vm n f (doc s)\<rparr>"
  by (auto simp: set_vm_def)

lemma stop_iff [simp]: "stop n m s = (Inr u, s') \<longleftrightarrow> s' = s\<lparr>doc := upd_vm n (\<lambda>v. v\<lparr>vm_error := m\<rparr>) (doc s)\<rparr>"
  by (simp add: stop_def)

lemma lift_iff [simp]: "lift r s = (Inr x, s') \<longleftrightarrow> r = Inr x \<and> s' = s"
  by (auto simp: lift_def split: sum.splits)

lemma server_size_name: "server_size c sv = Inr f \<Longrightarrow> vm_name (f v) = vm_name v"
  by (auto simp: server_size_def split: if_splits)

lemma server_size_keeps:
  "server_size c sv = Inr f \<Longrightarrow> vm_central_resource_id (f v) = vm_central_resource_id v \<and> vm_error (f v) = vm_error v
     \<and> vm_ready_since (f v) = vm_ready_since v \<and> vm_status (f v) = vm_status v \<and> vm_gateway_url (f v) = vm_gateway_url v
     \<and> vm_pilot_audience (f v) = vm_pilot_audience v \<and> vm_host_verified (f v) = vm_host_verified v
     \<and> vm_region (f v) = vm_region v \<and> vm_wildcard_zone (f v) = vm_wildcard_zone v"
  by (auto simp: server_size_def split: if_splits)

section \<open>What a step that succeeded left behind\<close>

text \<open>How far a server is: on Central, booted, verified, with Suite.\<close>

definition reached :: "nat \<Rightarrow> string \<Rightarrow> 'z fleet_scheme \<Rightarrow> bool" where
  "reached k n d \<longleftrightarrow> (\<exists>v. get_vm n d = Some v
     \<and> (k \<ge> 2 \<longrightarrow> vm_central_resource_id v \<noteq> []) \<and> (k \<ge> 3 \<longrightarrow> has_booted v)
     \<and> (k \<ge> 4 \<longrightarrow> vm_host_verified v) \<and> (k \<ge> 5 \<longrightarrow> vm_suite_app_status v = ''Installed''))"

lemma create_reached: "create e n s = (Inr True, s') \<Longrightarrow> reached 1 n (doc s')"
  by (auto simp: create_def reached_def split: if_splits option.splits)

lemma accept_reached: "accept e n s = (Inr True, s') \<Longrightarrow> reached 2 n (doc s')"
  by (auto simp: accept_def reached_def split: if_splits)

text \<open>What Central's view never touches.\<close>

definition same_setup :: "vm \<Rightarrow> vm \<Rightarrow> bool" where
  "same_setup v v' \<longleftrightarrow> vm_name v' = vm_name v \<and> vm_region v' = vm_region v \<and> vm_error v' = vm_error v
     \<and> vm_central_resource_id v' = vm_central_resource_id v \<and> vm_ready_since v' = vm_ready_since v
     \<and> vm_host_verified v' = vm_host_verified v \<and> vm_wildcard_zone v' = vm_wildcard_zone v"

lemma apply_server_frame:
  assumes "apply_server e n sv s = (Inr u, s')"
  obtains f where "s' = s\<lparr>doc := upd_vm n f (doc s)\<rparr>" "\<forall>v. same_setup v (f v)"
  using assms by (auto simp: apply_server_def same_setup_def Let_def server_size_name server_size_keeps)

lemma get_upd_same_setup:
  "\<forall>v. same_setup v (f v) \<Longrightarrow> get_vm m (upd_vm n f d) = (if m = n then map_option f (get_vm n d) else get_vm m d)"
  by (simp add: same_setup_def)

lemma boot_reached:
  assumes run: "boot e n s = (Inr True, s')" and "reached 2 n (doc s)"
  shows "reached 3 n (doc s')"
proof -
  obtain v where v: "get_vm n (doc s) = Some v" "vm_central_resource_id v \<noteq> []"
    using assms(2) by (auto simp: reached_def)
  show ?thesis
  proof (cases "has_booted v")
    case True
    then show ?thesis using run v by (simp add: boot_def reached_def)
  next
    case False
    then obtain reg w s2 v' where
      view: "(case find_server reg (vm_central_resource_id v) of None \<Rightarrow> ret () | Some sv \<Rightarrow> apply_server e n sv) (s\<lparr>world := w\<rparr>) = (Inr (), s2)"
      and v': "get_vm n (doc s2) = Some v'" "has_booted v'" "s' = s2"
      using run v by (auto simp: boot_def)
    have "vm_central_resource_id v' = vm_central_resource_id v"
    proof (cases "find_server reg (vm_central_resource_id v)")
      case None
      then show ?thesis using view v v' by simp
    next
      case (Some sv)
      with view obtain f where "s2 = s\<lparr>world := w, doc := upd_vm n f (doc s)\<rparr>" "\<forall>v. same_setup v (f v)"
        by (auto elim: apply_server_frame)
      then show ?thesis using v v' by (auto simp: get_upd_same_setup) (simp add: same_setup_def)
    qed
    then show ?thesis using v v' by (simp add: reached_def)
  qed
qed

text \<open>The host check changes the region's zone and, of the server, what it learned.\<close>

lemma host_problem_frame: "host_problem v z ps s = (r, s') \<Longrightarrow> get_vm n (doc s') = get_vm n (doc s)"
  by (auto simp: host_problem_def learn_proxy_zone_def Let_def step_defs split: if_splits option.splits prod.splits sum.splits)

lemma ensure_letsencrypt_email_frame: "ensure_letsencrypt_email e v ps s = (r, s') \<Longrightarrow> doc s' = doc s"
  by (auto simp: ensure_letsencrypt_email_def step_defs split: if_splits prod.splits sum.splits)

lemma check_host_True:
  "check_host e n v a s = (Inr True, s') \<Longrightarrow> get_vm n (doc s) = Some u \<Longrightarrow>
   \<exists>u'. get_vm n (doc s') = Some u' \<and> vm_host_verified u' \<and> vm_central_resource_id u' = vm_central_resource_id u
     \<and> (has_booted u' \<longleftrightarrow> has_booted u)"
  by (auto simp: check_host_def settle_host_def Let_def has_booted_def split: if_splits option.splits prod.splits
      dest!: host_problem_frame [of _ _ _ _ _ _ n] ensure_letsencrypt_email_frame)

lemma read_host_Some: "read_host e n v s = (Inr (Some a), s') \<Longrightarrow> doc s' = doc s"
  by (auto simp: read_host_def except_Inr_iff split: if_splits)

lemma verify_host_reached:
  assumes "verify_host e n s = (Inr True, s')" "reached 3 n (doc s)"
  shows "reached 4 n (doc s')"
proof -
  obtain v where v: "get_vm n (doc s) = Some v" "vm_central_resource_id v \<noteq> []" "has_booted v"
    using assms(2) by (auto simp: reached_def)
  show ?thesis
  proof (cases "vm_host_verified v")
    case True
    then show ?thesis using assms(1) v by (simp add: verify_host_def reached_def)
  next
    case False
    then obtain a s1 where "read_host e n v s = (Inr (Some a), s1)" "check_host e n v a s1 = (Inr True, s')"
      using assms(1) v by (auto simp: verify_host_def split: option.splits)
    moreover from this(1) have "doc s1 = doc s" by (rule read_host_Some)
    ultimately show ?thesis using v check_host_True [of e n v a s1 s' v] by (auto simp: reached_def)
  qed
qed

lemma finish_install_True:
  "finish_install e n s = (Inr True, s') \<Longrightarrow> get_vm n (doc s) = Some u \<Longrightarrow>
   \<exists>u'. get_vm n (doc s') = Some u' \<and> vm_suite_app_status u' = ''Installed'' \<and> vm_host_verified u' = vm_host_verified u
     \<and> vm_central_resource_id u' = vm_central_resource_id u \<and> (has_booted u' \<longleftrightarrow> has_booted u) \<and> vm_error u' = vm_error u"
  by (auto simp: finish_install_def mark_installed_def has_booted_def split: if_splits option.splits
      dest!: wait_for_task_frame output_tail_frame)

lemma install_suite_True:
  assumes "install_suite e n s = (Inr True, s')" "get_vm n (doc s) = Some u"
  shows "\<exists>u'. get_vm n (doc s') = Some u' \<and> vm_suite_app_status u' = ''Installed'' \<and> vm_host_verified u' = vm_host_verified u
     \<and> vm_central_resource_id u' = vm_central_resource_id u \<and> (has_booted u' \<longleftrightarrow> has_booted u) \<and> vm_error u' = vm_error u"
proof (cases "vm_suite_app_status u = ''Installed'' \<or> vm_suite_app_task u \<noteq> []")
  case True
  then show ?thesis using assms finish_install_True by (auto simp: install_suite_def split: if_splits)
next
  case False
  then show ?thesis using assms
    by (auto simp: install_suite_def mark_installed_def has_booted_def split: if_splits option.splits
        dest!: finish_install_True)
qed

lemma run_step_True:
  "run_step n (l, step) s = (Inr True, s') \<longleftrightarrow> step (s\<lparr>saved := doc s\<rparr>) = (Inr True, s')"
  by (auto simp: run_step_def except_Inr_iff split: if_splits)

lemma run_steps_ready:
  assumes "run_steps n (STEPS e n) s = (Inr True, s')"
  shows "\<exists>v. get_vm n (doc s') = Some v \<and> is_ready v \<and> has_booted v \<and> vm_central_resource_id v \<noteq> []"
proof -
  obtain s1 s2 s3 s4 v where
    "create e n (s\<lparr>saved := doc s\<rparr>) = (Inr True, s1)" and 2: "accept e n (s1\<lparr>saved := doc s1\<rparr>) = (Inr True, s2)"
    and 3: "boot e n (s2\<lparr>saved := doc s2\<rparr>) = (Inr True, s3)" and 4: "verify_host e n (s3\<lparr>saved := doc s3\<rparr>) = (Inr True, s4)"
    and v: "get_vm n (doc s4) = Some v" "\<not> blocked v" and 5: "install_suite e n (s4\<lparr>saved := doc s4\<rparr>) = (Inr True, s')"
    using assms by (fastforce simp: STEPS_def run_step_True split: if_splits)
  have "reached 4 n (doc s4)"
    using accept_reached [OF 2] boot_reached [OF 3] verify_host_reached [OF 4] by simp
  then show ?thesis using v install_suite_True [OF 5, of v]
    by (auto simp: reached_def blocked_def is_ready_def has_booted_def PLACEABLE_STATUS_def)
qed

section \<open>Invariants of the servers' rows\<close>

text \<open>Most writes leave who a server is, what was learned of its host and when it became ready.\<close>

definition same_host :: "vm \<Rightarrow> vm \<Rightarrow> bool" where
  "same_host v v' \<longleftrightarrow> vm_name v' = vm_name v \<and> vm_region v' = vm_region v \<and> vm_ready_since v' = vm_ready_since v
     \<and> vm_host_verified v' = vm_host_verified v \<and> vm_wildcard_zone v' = vm_wildcard_zone v"

lemma keeps_lift [keeps_intros]: "keeps I (lift r)"
  by (simp add: keeps_def lift_def ret_def raise_def split: sum.splits)

lemma keeps_apply_server_writes:
  fixes e :: "'w env"
  assumes "\<And>f. \<forall>v. same_host v (f v) \<Longrightarrow> keeps I (set_vm n f :: ('z fleet_scheme, 'w, unit) op)"
  shows "keeps I (apply_server e n sv)"
proof -
  have "yields (lift (server_size (cfg e) sv)) (\<lambda>f. server_size (cfg e) sv = Inr f)"
    by (auto simp: yields_def)
  with keeps_lift show ?thesis unfolding apply_server_def
    by (rule keeps_seq_yields) (rule assms, simp add: same_host_def Let_def server_size_name server_size_keeps)
qed

text \<open>
  What the set-up of server \<open>n\<close> relies on to keep an invariant: that it survives such a write to the row,
  and the host check, the one step that writes more.
\<close>

locale fleet_invariant =
  fixes inv :: "'z fleet_scheme \<Rightarrow> bool" and e :: "'w env" and n :: string
  assumes kept: "\<forall>v. same_host v (f v) \<Longrightarrow> inv d \<Longrightarrow> inv (upd_vm n f d)"
    and verify: "keeps inv (verify_host e n :: ('z fleet_scheme, 'w, bool) op)"
begin

lemma keeps_write: "\<forall>v. same_host v (f v) \<Longrightarrow> keeps inv (set_vm n f)"
  unfolding set_vm_def by (rule keeps_db_set) (rule kept)

lemma keeps_row: "keeps inv (row_of n)"
  unfolding row_of_def by (intro keeps_intros)

lemma keeps_stop: "keeps inv (stop n m)"
  unfolding stop_def by (rule keeps_write) (simp add: same_host_def)

lemma keeps_apply_server: "keeps inv (apply_server e n sv)"
  by (rule keeps_apply_server_writes) (rule keeps_write)

lemma keeps_create: "keeps inv (create e n)"
  unfolding create_def by (intro keeps_intros keeps_row keeps_write) (simp_all add: same_host_def)

lemma keeps_accept: "keeps inv (accept e n)"
  unfolding accept_def by (intro keeps_intros keeps_row keeps_write) (simp_all add: same_host_def)

lemma keeps_boot: "keeps inv (boot e n)"
  unfolding boot_def by (intro keeps_intros keeps_row keeps_apply_server)

lemma keeps_mark_installed: "keeps inv (mark_installed n app)"
  unfolding mark_installed_def by (intro keeps_intros keeps_write) (simp add: same_host_def)

lemma keeps_finish_install: "keeps inv (finish_install e n)"
  unfolding finish_install_def by (intro keeps_intros keeps_row keeps_mark_installed keeps_write) (simp_all add: same_host_def)

lemma keeps_install_suite: "keeps inv (install_suite e n)"
  unfolding install_suite_def
  by (intro keeps_intros keeps_row keeps_mark_installed keeps_finish_install keeps_write) (simp_all add: same_host_def)

lemma keeps_step: "x \<in> set (STEPS e n) \<Longrightarrow> keeps inv (snd x)"
  using keeps_create keeps_accept keeps_boot verify keeps_install_suite by (auto simp: STEPS_def)

lemma run_step_inv:
  assumes "x \<in> set (STEPS e n)" "inv (doc s)" "run_step n x s = (r, s')"
  shows "inv (doc s')"
proof -
  obtain l step where x: "x = (l, step)" by (cases x)
  have "keeps inv step" using keeps_step [OF assms(1)] x by simp
  then have "rows_ok inv s'"
    using assms(2,3) unfolding x run_step_def prod.case
    by (elim keeps_from_begin [rotated 2]) (intro keeps_intros keeps_stop)
  then show ?thesis by (simp add: rows_ok_def)
qed

lemma run_steps_inv:
  "set xs \<subseteq> set (STEPS e n) \<Longrightarrow> inv (doc s) \<Longrightarrow> run_steps n xs s = (r, s') \<Longrightarrow> inv (doc s')"
proof (induction xs arbitrary: s)
  case (Cons x xs)
  then have x: "x \<in> set (STEPS e n)" "set xs \<subseteq> set (STEPS e n)" by auto
  have step: "inv (doc s1)" if "run_step n x s = (r1, s1)" for r1 s1
    using run_step_inv [OF x(1) Cons.prems(2) that] .
  show ?case using Cons.prems(2,3) step Cons.IH [OF x(2)]
    by (auto simp: seq_def row_of_def ret_def get_doc_def raise_def split: prod.splits sum.splits if_splits option.splits)
qed (simp add: ret_def)

lemmas setup_inv = run_steps_inv [OF subset_refl]

end

section \<open>Ready only when set up\<close>

definition ready_at :: "string \<Rightarrow> int option \<Rightarrow> 'z fleet_scheme \<Rightarrow> bool" where
  "ready_at n r d \<longleftrightarrow> (\<forall>v. get_vm n d = Some v \<longrightarrow> vm_ready_since v = r)"

lemma ready_at_write:
  "(\<And>v. vm_name (f v) = vm_name v) \<Longrightarrow> (\<And>v. vm_ready_since (f v) = vm_ready_since v) \<Longrightarrow>
   ready_at n r d \<Longrightarrow> ready_at n r (upd_vm m f d)"
  by (auto simp: ready_at_def)

lemma keeps_ready_at_set: 
  "(\<And>v. vm_name (f v) = vm_name v) \<Longrightarrow> (\<And>v. vm_ready_since (f v) = vm_ready_since v) \<Longrightarrow>
   keeps (ready_at n r) (set_vm m f)"
  unfolding set_vm_def by (rule keeps_db_set) (rule ready_at_write)

lemma keeps_ready_at_stop: "keeps (ready_at n r) (stop m x)"
  unfolding stop_def by (rule keeps_ready_at_set) simp_all

lemma keeps_ensure_email [keeps_intros]: "keeps I (ensure_letsencrypt_email e v ps)"
  unfolding ensure_letsencrypt_email_def by (intro keeps_intros)

lemma keeps_row_of [keeps_intros]: "keeps I (row_of m)"
  unfolding row_of_def by (intro keeps_intros)

lemma keeps_ready_at_host: "keeps (ready_at n r) (verify_host e m)"
proof -
  have zone: "keeps (ready_at n r) (db_set (set_proxy_zone c z))" for c z
    by (rule keeps_db_set) (simp add: ready_at_def)
  have "keeps (ready_at n r) (host_problem v z ps)" for v z ps
    unfolding host_problem_def learn_proxy_zone_def Let_def by (intro keeps_intros zone)
  then have "keeps (ready_at n r) (check_host e m v a)" for v a
    unfolding check_host_def settle_host_def Let_def
    by (cases a) (simp, intro keeps_intros keeps_ready_at_stop keeps_ready_at_set; simp)
  then show ?thesis
    unfolding verify_host_def read_host_def by (intro keeps_intros keeps_ready_at_stop)
qed

interpretation readiness: fleet_invariant "ready_at m r" e n for m r e n
  by unfold_locales (auto simp: same_host_def intro: ready_at_write keeps_ready_at_host)

text \<open>
  C14. A server gets its \<open>ready_since\<close> from \<open>provision\<close> only when it is ready: it exists on Central, runs
  there with a gateway and an audience for Pilot, its host is verified, the Suite app is installed and
  no error stops it.
\<close>

theorem provision_ready_only_when_set_up:
  assumes "provision e n s = (r, s')"
    and "get_vm n (doc s) = Some v" "vm_ready_since v = None"
    and "get_vm n (doc s') = Some v'" "vm_ready_since v' \<noteq> None"
  shows "is_ready v' \<and> has_booted v' \<and> vm_central_resource_id v' \<noteq> []"
proof -
  obtain r1 s1 where run: "run_steps n (STEPS e n) s = (r1, s1)" by fastforce
  have "ready_at n None (doc s1)"
    using readiness.setup_inv [OF _ run, of n None] assms(2,3) by (simp add: ready_at_def)
  then have r1: "r1 = Inr True"
    using assms run by (auto simp: provision_def seq_def ready_at_def ret_def split: sum.splits if_splits)
  then obtain u where u: "get_vm n (doc s1) = Some u" "is_ready u" "has_booted u" "vm_central_resource_id u \<noteq> []"
    using run_steps_ready run by blast
  have "provision e n s = mark_ready e n s1" using run r1 by (simp add: provision_def seq_def)
  then have "v' = u \<or> v' = u\<lparr>vm_ready_since := Some (now_at e)\<rparr>"
    using assms(1,4) u(1) by (auto simp: mark_ready_def step_defs row_of_def set_vm_def split: if_splits)
  then show ?thesis using u by (auto simp: is_ready_def has_booted_def)
qed

section \<open>Verified hosts serve the region's zone\<close>

definition zone_known :: "'z fleet_scheme \<Rightarrow> string \<Rightarrow> string option" where
  "zone_known d c = map_option rg_proxy_zone (get_region c d)"

definition host_zone_ok :: "'z fleet_scheme \<Rightarrow> vm \<Rightarrow> bool" where
  "host_zone_ok d v \<longleftrightarrow> zone_known d (vm_region v) \<noteq> None \<and>
     (vm_host_verified v \<longrightarrow> vm_wildcard_zone v \<noteq> [] \<and> prefix (vm_region v @ ''.'') (vm_wildcard_zone v)
        \<and> zone_known d (vm_region v) = Some (vm_wildcard_zone v))"

text \<open>
  Every server's region is known; a verified server's sites are routed through the one proxy zone of
  its region; and the zones kept are as \<open>Region.validate\<close> leaves them.
\<close>

definition zones_ok :: "'z fleet_scheme \<Rightarrow> bool" where
  "zones_ok d \<longleftrightarrow> distinct (map vm_name (vms d)) \<and> (\<forall>v\<in>set (vms d). host_zone_ok d v)
     \<and> (\<forall>r\<in>set (regions d). clean_zone (rg_proxy_zone r) = rg_proxy_zone r)"

text \<open>Pilot names its wildcard domains in lower case and without a dot at the end.\<close>

definition canonical_zones :: "'w env \<Rightarrow> bool" where
  "canonical_zones e \<longleftrightarrow> (\<forall>v w ds w'. pc_wildcard_domains (pilot e) v w = (Inr ds, w') \<longrightarrow> clean_zone (zone_of ds) = zone_of ds)"

lemma zone_known_upd_vm [simp]: "zone_known (upd_vm n f d) = zone_known d"
  by (simp add: zone_known_def get_region_def upd_vm_def fun_eq_iff)

lemma regions_upd_vm [simp]: "regions (upd_vm n f d) = regions d"
  by (simp add: upd_vm_def)

lemma map_name_upd_vm: "(\<And>v. vm_name (f v) = vm_name v) \<Longrightarrow> map vm_name (vms (upd_vm n f d)) = map vm_name (vms d)"
  by (simp add: upd_vm_def)

lemma host_zone_ok_upd_vm [simp]: "host_zone_ok (upd_vm n f d) v = host_zone_ok d v"
  by (simp add: host_zone_ok_def)

lemma zones_ok_upd:
  assumes "zones_ok d" "\<And>v. vm_name (f v) = vm_name v"
    "\<And>v. get_vm n d = Some v \<Longrightarrow> host_zone_ok d v \<Longrightarrow> host_zone_ok d (f v)"
  shows "zones_ok (upd_vm n f d)"
proof -
  have "get_vm n d = Some v" if "v \<in> set (vms d)" "vm_name v = n" for v
    using find_distinct_key [of vm_name "vms d" v] that assms(1) by (simp add: get_vm_def zones_ok_def)
  then have "\<forall>v\<in>set (vms (upd_vm n f d)). host_zone_ok d v"
    using assms(1,3) by (auto simp: upd_vm_def zones_ok_def)
  then show ?thesis using assms(1,2) by (simp add: zones_ok_def map_name_upd_vm)
qed

lemma zones_ok_write: "\<forall>v. same_host v (f v) \<Longrightarrow> zones_ok d \<Longrightarrow> zones_ok (upd_vm n f d)"
  by (rule zones_ok_upd) (auto simp: same_host_def host_zone_ok_def)

lemma zones_ok_unverified:
  "zones_ok d \<Longrightarrow> (\<And>v. vm_name (f v) = vm_name v \<and> vm_region (f v) = vm_region v \<and> \<not> vm_host_verified (f v)) \<Longrightarrow>
   zones_ok (upd_vm n f d)"
  by (rule zones_ok_upd) (auto simp: host_zone_ok_def)

lemma keeps_zones_stop: "keeps zones_ok (stop n m)"
  unfolding stop_def set_vm_def by (rule keeps_db_set) (rule zones_ok_write, simp_all add: same_host_def)

lemma get_region_set_proxy: 
  "get_region c' (set_proxy_zone c z d) = (if c' = c then map_option (rg_proxy_zone_update (\<lambda>_. z)) (get_region c d) else get_region c' d)"
  by (simp add: get_region_def set_proxy_zone_def find_upd_key)

lemma zones_ok_learn:
  assumes "zones_ok d" "zone_known d c = Some []" "clean_zone z = z"
  shows "zones_ok (set_proxy_zone c z d)"
proof -
  have "host_zone_ok (set_proxy_zone c z d) v" if "host_zone_ok d v" for v
    using that assms(2) by (auto simp: host_zone_ok_def zone_known_def get_region_set_proxy)
  moreover have "vms (set_proxy_zone c z d) = vms d" by (simp add: set_proxy_zone_def)
  ultimately show ?thesis using assms(1,3) by (auto simp: zones_ok_def) (auto simp: set_proxy_zone_def)
qed

text \<open>A host check without a problem: the zone is the region's, learned or known before.\<close>

lemma host_problem_None:
  assumes "host_problem v z ps s = (Inr None, s')" "zone_known (doc s) (vm_region v) \<noteq> None"
  shows "z \<noteq> [] \<and> prefix (vm_region v @ ''.'') z \<and> zone_known (doc s') (vm_region v) = Some z"
  using assms by (auto simp: host_problem_def learn_proxy_zone_def Let_def zone_known_def get_region_set_proxy split: if_splits)

lemma host_problem_zones:
  assumes "rows_ok zones_ok s" "clean_zone z = z" "zone_known (doc s) (vm_region v) \<noteq> None" "host_problem v z ps s = (r, s')"
  shows "rows_ok zones_ok s'"
  using assms zones_ok_learn [of "doc s" "vm_region v" z]
  by (auto simp: host_problem_def learn_proxy_zone_def Let_def zone_known_def step_defs rows_ok_def
      split: if_splits option.splits prod.splits sum.splits)

lemma settle_host_zones:
  assumes "rows_ok zones_ok s" "get_vm n (doc s) = Some v" "settle_host n q s = (r, s')"
    and "q = None \<Longrightarrow> vm_wildcard_zone v \<noteq> [] \<and> prefix (vm_region v @ ''.'') (vm_wildcard_zone v)
      \<and> zone_known (doc s) (vm_region v) = Some (vm_wildcard_zone v)"
  shows "rows_ok zones_ok s'"
proof (cases q)
  case None
  then show ?thesis using assms zones_ok_upd [of "doc s" "\<lambda>v. v\<lparr>vm_host_verified := True\<rparr>" n]
    by (simp add: settle_host_def rows_ok_def host_zone_ok_def seq_def ret_def set_vm_def db_set_def) (elim conjE, hypsubst, simp)
next
  case (Some m)
  have "keeps zones_ok (settle_host n (Some m))"
    unfolding settle_host_def option.case by (intro keeps_intros keeps_zones_stop)
  then show ?thesis using assms(1,3) Some keepsD by blast
qed

lemma check_host_zones:
  assumes ok: "rows_ok zones_ok s" and clean: "clean_zone (zone_of (fst a)) = zone_of (fst a)"
    and v: "get_vm n (doc s) = Some v" "\<not> vm_host_verified v" and run: "check_host e n v a s = (r, s')"
  shows "rows_ok zones_ok s'"
proof -
  define z where "z = zone_of (fst a)"
  obtain r1 s1 where s1: "ensure_letsencrypt_email e v (snd a) s = (r1, s1)" by fastforce
  then have ok1: "rows_ok zones_ok s1" "doc s1 = doc s"
    using ok keepsD [OF keeps_ensure_email] ensure_letsencrypt_email_frame by blast+
  show ?thesis
  proof (cases r1)
    case (Inl x)
    then show ?thesis using run s1 ok1 by (auto simp: check_host_def seq_def split: prod.splits)
  next
    case (Inr ps)
    define f :: "vm \<Rightarrow> vm" where "f = (\<lambda>v. v\<lparr>vm_wildcard_zone := z, vm_letsencrypt_email_set := ps_letsencrypt_email ps \<noteq> []\<rparr>)"
    define s2 where "s2 = s1\<lparr>doc := upd_vm n f (doc s1)\<rparr>"
    have fv: "get_vm n (doc s2) = Some (f v)" "vm_region (f v) = vm_region v" "\<not> vm_host_verified (f v)" "vm_wildcard_zone (f v) = z"
      using v ok1 by (simp_all add: s2_def f_def)
    have ok2: "rows_ok zones_ok s2"
      unfolding s2_def using ok ok1 v zones_ok_upd [of "doc s" f n] 
      by (auto simp: rows_ok_def f_def host_zone_ok_def)
    have known: "zone_known (doc s2) (vm_region v) \<noteq> None"
      using ok ok1 v by (auto simp: s2_def rows_ok_def zones_ok_def get_vm_def host_zone_ok_def dest!: find_Some_in)
    obtain p s3 where s3: "host_problem v z ps s2 = (p, s3)" by fastforce
    have ok3: "rows_ok zones_ok s3" using host_problem_zones [OF ok2 _ known s3] clean by (simp add: z_def)
    have settle: "(case p of Inl x \<Rightarrow> (Inl x, s3) | Inr q \<Rightarrow> settle_host n q s3) = (r, s')"
      using run s1 Inr s3 [unfolded s2_def] by (cases p) (simp_all add: check_host_def seq_def Let_def set_vm_def db_set_def case_prod_beta
          z_def [symmetric] f_def [symmetric])
    show ?thesis
    proof (cases p)
      case (Inr q)
      have "z \<noteq> [] \<and> prefix (vm_region v @ ''.'') z \<and> zone_known (doc s3) (vm_region v) = Some z" if "q = None"
        using host_problem_None [OF _ known, of z ps s3] s3 Inr that by simp
      then show ?thesis
        using settle Inr fv host_problem_frame [OF s3, of n] settle_host_zones [OF ok3, of n "f v" q r s'] by simp
    qed (use ok3 settle in simp)
  qed
qed

lemma keeps_zones_verify_host:
  assumes "canonical_zones e"
  shows "keeps zones_ok (verify_host e n)"
  unfolding keeps_def
proof (intro allI impI)
  fix s :: "('b fleet_scheme, 'a) st"
  assume ok: "rows_ok zones_ok s"
  have read: "keeps zones_ok (read_host e n v)" for v
    unfolding read_host_def by (intro keeps_intros keeps_zones_stop)
  show "rows_ok zones_ok (snd (verify_host e n s))"
  proof (cases "get_vm n (doc s)")
    case None
    then show ?thesis using ok by (simp add: verify_host_def row_of_def step_defs)
  next
    case (Some v)
    obtain r1 s1 where s1: "read_host e n v s = (r1, s1)" by fastforce
    have ok1: "rows_ok zones_ok s1" using keepsD [OF read ok s1] .
    have host: "rows_ok zones_ok (snd (check_host e n v a s1))" if "r1 = Inr (Some a)" "\<not> vm_host_verified v" for a
    proof -
      have "clean_zone (zone_of (fst a)) = zone_of (fst a)"
        using s1 that(1) assms by (auto simp: read_host_def except_Inr_iff canonical_zones_def split: if_splits)
      then show ?thesis using check_host_zones [OF ok1 _ _ that(2), of a n e] read_host_Some [of e n v s a s1] s1 that(1) Some
        by (metis prod.collapse)
    qed
    show ?thesis using ok ok1 s1 Some host
      by (auto simp: verify_host_def row_of_def step_defs split: sum.splits option.splits)
  qed
qed

lemma zones_invariant: "canonical_zones e \<Longrightarrow> fleet_invariant zones_ok e n"
  by unfold_locales (auto intro: zones_ok_write keeps_zones_verify_host)

lemma keeps_zones_set: "\<forall>v. same_host v (f v) \<Longrightarrow> keeps zones_ok (set_vm n f)"
  unfolding set_vm_def by (rule keeps_db_set) (rule zones_ok_write)

lemma keeps_zones_apply: "keeps zones_ok (apply_server e n sv)"
  by (rule keeps_apply_server_writes) (rule keeps_zones_set)

lemma keeps_zones_refresh: "keeps zones_ok (refresh_fleet e ours cached mm)"
proof -
  have "keeps zones_ok (refresh_server e mm reg v)" for reg v
    unfolding refresh_server_def mark_terminated_def
    by (intro keeps_intros keeps_zones_apply keeps_zones_set) (simp add: same_host_def)
  moreover have "keeps zones_ok (drive_server e ours n)" for n
    unfolding drive_server_def refresh_foreign_sites_def
    by (intro keeps_intros keeps_zones_set) (simp add: same_host_def)
  ultimately show ?thesis unfolding refresh_fleet_def Let_def by (intro keeps_intros)
qed

lemma keeps_zones_reset: "keeps zones_ok (reset_failed_install n)"
  unfolding reset_failed_install_def by (intro keeps_intros keeps_zones_set) (simp add: same_host_def)

lemma keeps_zones_retry: "keeps zones_ok (retry e n)"
  unfolding retry_def retry_setup_def
  by (intro keeps_intros keeps_zones_set keeps_zones_reset keeps_zones_stop) (simp_all add: same_host_def)

lemma keeps_zones_install_app: "keeps zones_ok (install_suite_app n)"
  unfolding install_suite_app_def by (intro keeps_intros keeps_zones_set keeps_zones_reset) (simp add: same_host_def)

lemma keeps_zones_decommission: "keeps zones_ok (decommission n)"
  unfolding decommission_def by (intro keeps_zones_set) (simp add: same_host_def)

lemma keeps_zones_terminate: "keeps zones_ok (terminate e c n)"
  unfolding terminate_def by (intro keeps_intros keeps_zones_decommission)

lemma keeps_zones_verify_action: "canonical_zones e \<Longrightarrow> keeps zones_ok (verify_host_action e n)"
  unfolding verify_host_action_def set_vm_def
  by (intro keeps_intros keeps_zones_verify_host keeps_db_set) (auto intro: zones_ok_unverified)

lemma zones_ok_regions:
  assumes "zones_ok d" "\<And>c z. zone_known d c = Some z \<Longrightarrow> zone_known d' c = Some z" "vms d' = vms d"
    "\<forall>r\<in>set (regions d'). clean_zone (rg_proxy_zone r) = rg_proxy_zone r"
  shows "zones_ok d'"
  using assms unfolding zones_ok_def host_zone_ok_def by (metis option.exhaust)

lemma zones_ok_sync_region:
  assumes ok: "zones_ok d"
  shows "zones_ok (sync_region t i d)"
proof (rule zones_ok_regions [OF ok])
  define upd :: "region \<Rightarrow> region" where "upd = (\<lambda>r. region_validate (r\<lparr>rg_display_name := in_display_name i, rg_provider := in_provider i,
      rg_country_code := in_country_code i, rg_status := in_status i, rg_reachable := in_reachable i, rg_last_synced_at := Some t\<rparr>))"
  have upd: "rg_region (upd r) = rg_region r" "rg_proxy_zone (upd r) = clean_zone (rg_proxy_zone r)" for r
    by (simp_all add: upd_def region_validate_def)
  have sync: "sync_region t i d = (case get_region (in_region i) d of
      Some _ \<Rightarrow> d\<lparr>regions := map (\<lambda>r. if rg_region r = in_region i then upd r else r) (regions d)\<rparr>
    | None \<Rightarrow> d\<lparr>regions := regions d @ [upd (new_region (in_region i))]\<rparr>)"
    unfolding sync_region_def upd_def Let_def ..
  have clean: "clean_zone (rg_proxy_zone r) = rg_proxy_zone r" if "r \<in> set (regions d)" for r
    using ok that by (simp add: zones_ok_def)
  have empty: "clean_zone [] = []" by (simp add: clean_zone_def py_strip_def py_lower_def lstrip_by_def rstrip_by_def)
  show "vms (sync_region t i d) = vms d" by (simp add: sync split: option.splits)
  show "\<forall>r\<in>set (regions (sync_region t i d)). clean_zone (rg_proxy_zone r) = rg_proxy_zone r"
    using clean empty by (auto simp: sync upd new_region_def split: option.splits)
  show "zone_known (sync_region t i d) c = Some z" if known: "zone_known d c = Some z" for c z
  proof -
    obtain r where r: "get_region c d = Some r" "rg_proxy_zone r = z" "r \<in> set (regions d)" "rg_region r = c"
      using known by (auto simp: zone_known_def get_region_def dest: find_Some_in)
    have "find (\<lambda>r. rg_region r = c) (regions d @ ys) = Some r" for ys
      using r(1) by (simp add: get_region_def find_append_Some)
    then show ?thesis using r clean [OF r(3)]
      by (auto simp: sync zone_known_def get_region_def find_upd_key upd split: option.splits)
  qed
qed

text \<open>
  What may happen to the fleet.  Each operation starts from committed rows and, failing, is rolled back
  by the framework; \<open>provision\<close> handles its own failures.  A new server's row is inserted
  unverified, under a fresh name, in a known region.
\<close>

inductive fleet_step :: "'w env \<Rightarrow> fleet \<Rightarrow> fleet \<Rightarrow> bool" for e :: "'w env" where
  set_up: "provision e n \<lparr>doc = d, saved = d, world = w\<rparr> = (r, s') \<Longrightarrow> fleet_step e d (doc s')"
| refreshed: "refresh_fleet e ours cached mm \<lparr>doc = d, saved = d, world = w\<rparr> = (Inr x, s') \<Longrightarrow> fleet_step e d (doc s')"
| synced: "sync_regions e \<lparr>doc = d, saved = d, world = w\<rparr> = (Inr k, s') \<Longrightarrow> fleet_step e d (doc s')"
| retried: "retry e n \<lparr>doc = d, saved = d, world = w\<rparr> = (Inr b, s') \<Longrightarrow> fleet_step e d (doc s')"
| reverified: "verify_host_action e n \<lparr>doc = d, saved = d, world = w\<rparr> = (Inr b, s') \<Longrightarrow> fleet_step e d (doc s')"
| reinstalled: "install_suite_app n \<lparr>doc = d, saved = d, world = (w :: 'w)\<rparr> = (Inr u, s') \<Longrightarrow> fleet_step e d (doc s')"
| decommissioned: "decommission n \<lparr>doc = d, saved = d, world = (w :: 'w)\<rparr> = (Inr u, s') \<Longrightarrow> fleet_step e d (doc s')"
| terminated: "terminate e site_count n \<lparr>doc = d, saved = d, world = w\<rparr> = (Inr u, s') \<Longrightarrow> fleet_step e d (doc s')"
| inserted: "vm_before_insert e v \<lparr>doc = d, saved = d, world = w\<rparr> = (Inr v', s') \<Longrightarrow> vm_name v \<notin> vm_name ` set (vms d) \<Longrightarrow>
    get_region (vm_region v) d \<noteq> None \<Longrightarrow> \<not> vm_host_verified v \<Longrightarrow>
    fleet_step e d (d\<lparr>vms := vms d @ [vm_validate_new v']\<rparr>)"

lemma keeps_zones_sync: "keeps zones_ok (sync_regions e)"
  unfolding sync_regions_def by (intro keeps_intros keeps_db_set zones_ok_sync_region)

lemma keeps_doc:
  "keeps I m \<Longrightarrow> I d \<Longrightarrow> m \<lparr>doc = d, saved = d, world = w\<rparr> = (r, s') \<Longrightarrow> I (doc s')"
  using keepsD [of I m "\<lparr>doc = d, saved = d, world = w\<rparr>" r s'] by (simp add: rows_ok_def)

lemma vm_before_insert_frame:
  "vm_before_insert e v s = (Inr v', s') \<Longrightarrow> vm_name v' = vm_name v \<and> vm_region v' = vm_region v \<and> vm_host_verified v' = vm_host_verified v"
  by (auto simp: vm_before_insert_def resolve_server_arguments_def Let_def)

lemma zones_ok_insert:
  assumes "zones_ok d" "vm_name v \<notin> vm_name ` set (vms d)" "get_region (vm_region v) d \<noteq> None" "\<not> vm_host_verified v"
  shows "zones_ok (d\<lparr>vms := vms d @ [v]\<rparr>)"
proof -
  have "host_zone_ok (d\<lparr>vms := vms d @ [v]\<rparr>) u \<longleftrightarrow> host_zone_ok d u" for u
    by (simp add: host_zone_ok_def zone_known_def get_region_def)
  moreover have "host_zone_ok d v" using assms by (simp add: host_zone_ok_def zone_known_def)
  ultimately show ?thesis using assms by (auto simp: zones_ok_def)
qed

lemma zones_ok_provision:
  assumes "canonical_zones e" "zones_ok d" "provision e n \<lparr>doc = d, saved = d, world = w\<rparr> = (r, s')"
  shows "zones_ok (doc s')"
proof -
  let ?s = "\<lparr>doc = d, saved = d, world = w\<rparr>"
  obtain r1 s1 where run: "run_steps n (STEPS e n) ?s = (r1, s1)" by fastforce
  have ok: "zones_ok (doc s1)"
    using fleet_invariant.setup_inv [OF zones_invariant [OF assms(1)] _ run] assms(2) by simp
  have "zones_ok (upd_vm n (\<lambda>v. v\<lparr>vm_ready_since := t\<rparr>) (doc s1))" for t
    by (rule zones_ok_upd [OF ok]) (simp_all add: host_zone_ok_def)
  then show ?thesis using assms(3) run ok
    by (auto simp: provision_def mark_ready_def row_of_def set_vm_def step_defs split: sum.splits if_splits option.splits)
qed


section \<open>How many sites fit\<close>

lemma le_div_int_iff: "0 < b \<Longrightarrow> k \<le> a div b \<longleftrightarrow> k * b \<le> (a :: int)"
proof
  assume b: "0 < b" and k: "k \<le> a div b"
  have "k * b \<le> a div b * b" using b k by (simp add: mult_right_mono)
  also have "\<dots> \<le> a" using b by (metis div_mult_mod_eq le_add_same_cancel1 pos_mod_sign)
  finally show "k * b \<le> a" .
next
  assume "0 < b" "k * b \<le> a"
  then show "k \<le> a div b" using zdiv_mono1 [of "k * b" a b] by simp
qed

text \<open>
  C24. Under settings the settings form accepts, the number of sites a server is given is exactly the
  number that fits: \<open>k\<close> sites are allowed if and only if \<open>k\<close> is within the cap and the server's memory
  and disk hold the server's own share and \<open>k\<close> sites' allowances.
\<close>

theorem sites_that_fit_exact:
  assumes "validate_sizing c = Inr ()"
  shows "\<exists>n. sites_that_fit c memory_mb disk_gb = Inr n \<and> 0 \<le> n \<and>
    (\<forall>k\<ge>1. k \<le> n \<longleftrightarrow> k \<le> max_sites_per_vm c \<and>
      reserved_memory_mb c + k * memory_per_site_mb c \<le> memory_mb \<and>
      of_int (reserved_disk_gb c + k * disk_per_site_gb c) \<le> disk_gb)"
proof -
  have pos: "memory_per_site_mb c \<ge> 1" "disk_per_site_gb c \<ge> 1"
    using assms by (auto simp: validate_sizing_def at_least_def)
  have mem: "k \<le> by_memory c memory_mb \<longleftrightarrow> reserved_memory_mb c + k * memory_per_site_mb c \<le> memory_mb" for k
    using pos(1) by (simp add: by_memory_def le_div_int_iff algebra_simps)
  have disk: "k \<le> by_disk c disk_gb \<longleftrightarrow> of_int (reserved_disk_gb c + k * disk_per_site_gb c) \<le> disk_gb" for k
    using pos(2) by (simp add: by_disk_def le_floor_iff pos_le_divide_eq algebra_simps)
  show ?thesis unfolding mem [symmetric] disk [symmetric]
    using pos by (auto simp: sites_that_fit_def le_max_iff_disj)
qed

definition demo_config :: hosting_config where
  "demo_config = \<lparr>central_configured = True, acme_contact_email = ''ops@example.com'', suite_app_repo = ''repo'', suite_app_ref = ''main'',
     central_image_offering = ''bench'', central_plan = ''small'', reserved_memory_mb = 1024, memory_per_site_mb = 512,
     reserved_disk_gb = 10, disk_per_site_gb = 5, max_sites_per_vm = 20, ready_sites_per_region = 2, min_free_site_slots = 3,
     auto_create_vms = True\<rparr>"

lemma sites_that_fit_exact_witness:
  "validate_sizing demo_config = Inr () \<and> sites_that_fit demo_config 4096 (99 / 2) = Inr 6"
proof
  show valid: "validate_sizing demo_config = Inr ()"
    by (simp add: validate_sizing_def at_least_def demo_config_def)
  obtain n where n: "sites_that_fit demo_config 4096 (99 / 2) = Inr n"
    and k: "\<forall>k\<ge>1. k \<le> n \<longleftrightarrow> k \<le> max_sites_per_vm demo_config \<and>
      reserved_memory_mb demo_config + k * memory_per_site_mb demo_config \<le> 4096 \<and>
      of_int (reserved_disk_gb demo_config + k * disk_per_site_gb demo_config) \<le> (99 / 2 :: rat)"
    using sites_that_fit_exact [OF valid, of 4096 "99 / 2"] by blast
  have "6 \<le> n" using k [rule_format, of 6] by (simp add: demo_config_def)
  moreover have "\<not> 7 \<le> n" using k [rule_format, of 7] by (simp add: demo_config_def)
  ultimately show "sites_that_fit demo_config 4096 (99 / 2) = Inr 6" using n by simp
qed

section \<open>A fleet of one server\<close>

definition demo_server :: server where
  "demo_server = \<lparr>sv_resource_id = ''r1'', sv_status = ''Running'', sv_gateway_url = ''https://g'', sv_pilot_audience = ''aud'',
     sv_ipv6_address = [], sv_public_ipv4 = [], sv_public_ipv6 = [], sv_plan = ''small'', sv_vcpus = 2, sv_memory_megabytes = 0,
     sv_disk_gigabytes = 0\<rparr>"

definition demo_status :: action_status where
  "demo_status = \<lparr>as_action = ''a1'', as_resource_id = ''r1'', as_status = ''Success'', as_message = [], as_remediation = []\<rparr>"

definition answers :: "'a \<Rightarrow> (unit, 'a) call" where
  "answers x w = (Inr x, w)"

definition demo_env :: "unit env" where
  "demo_env = \<lparr>cfg = demo_config,
     central = \<lparr>ct_create_server = (\<lambda>_. answers demo_status), ct_action_status = (\<lambda>_. answers demo_status),
       ct_retry_action = (\<lambda>_. answers demo_status), ct_registry = answers \<lparr>reg_servers = [demo_server], reg_creations = []\<rparr>,
       ct_list_images = (\<lambda>_ _. answers [\<lparr>im_id = ''i1'', im_has_site = [], im_created_at = 1\<rparr>]),
       ct_eligible_plans = (\<lambda>_ _ _. answers []),
       ct_list_instances = answers [\<lparr>in_region = ''blr1'', in_display_name = [], in_provider = [], in_country_code = [], in_status = [],
          in_reachable = True\<rparr>], ct_terminate_server = (\<lambda>_. answers ())\<rparr>,
     pilot = \<lparr>pc_wildcard_domains = (\<lambda>_. answers [''.blr1.example.com'']),
       pc_settings = (\<lambda>_. answers \<lparr>ps_letsencrypt_email = ''ops@example.com'', ps_production_enabled = True\<rparr>),
       pc_set_letsencrypt_email = (\<lambda>_ _. answers ()), pc_list_apps = (\<lambda>_. answers [\<lparr>app_name = ''suite'', app_current_commit = ''c''\<rparr>]),
       pc_install_app = (\<lambda>_ _ _. answers \<lparr>t_id = ''t1'', t_status = ''success''\<rparr>),
       pc_get_task = (\<lambda>_ _. answers \<lparr>t_id = ''t1'', t_status = ''success''\<rparr>), pc_task_output = (\<lambda>_ _. answers []),
       pc_list_sites = (\<lambda>_. answers [])\<rparr>,
     now_at = 1000, polls = 0\<rparr>"

definition new_vm :: "string \<Rightarrow> string \<Rightarrow> vm" where
  "new_vm n c = \<lparr>vm_name = n, vm_region = c, vm_title = [], vm_request_key = [], vm_plan = [], vm_image_offering = [], vm_image_id = [],
     vm_has_public_ipv4 = False, vm_has_public_ipv6 = False, vm_status = ''Pending'', vm_enabled = True, vm_error = [],
     vm_central_action = [], vm_central_resource_id = [], vm_gateway_url = [], vm_pilot_audience = [], vm_ipv6_address = [],
     vm_public_ipv4 = [], vm_public_ipv6 = [], vm_booted_at = None, vm_ready_since = None, vm_last_synced_at = None,
     vm_host_verified = False, vm_wildcard_zone = [], vm_letsencrypt_email_set = False, vm_suite_app_status = ''Pending'',
     vm_suite_app_task = [], vm_suite_app_commit = [], vm_vcpus = 0, vm_memory_mb = 0, vm_disk_gb = 0, vm_max_sites = 0,
     vm_foreign_site_count = 0\<rparr>"

definition demo_start :: "(fleet, unit) st" where
  "demo_start = (let d = \<lparr>vms = [new_vm ''v1'' ''blr1''], regions = [new_region ''blr1'']\<rparr> in \<lparr>doc = d, saved = d, world = ()\<rparr>)"

lemma demo_provision_ready:
  "case get_vm ''v1'' (doc (snd (provision demo_env ''v1'' demo_start))) of None \<Rightarrow> False
   | Some v \<Rightarrow> vm_ready_since v \<noteq> None \<and> vm_host_verified v \<and> vm_wildcard_zone v = ''blr1.example.com''"
  by code_simp

lemma provision_ready_only_when_set_up_witness:
  "\<exists>v. get_vm ''v1'' (doc (snd (provision demo_env ''v1'' demo_start))) = Some v \<and> is_ready v \<and> has_booted v \<and> vm_central_resource_id v \<noteq> []"
proof -
  obtain v where v: "get_vm ''v1'' (doc (snd (provision demo_env ''v1'' demo_start))) = Some v" "vm_ready_since v \<noteq> None"
    using demo_provision_ready by (auto split: option.splits)
  have "get_vm ''v1'' (doc demo_start) = Some (new_vm ''v1'' ''blr1'')" "vm_ready_since (new_vm ''v1'' ''blr1'') = None"
    by (simp_all add: demo_start_def get_vm_def new_vm_def Let_def)
  from provision_ready_only_when_set_up [OF prod.collapse [symmetric] this v] v(1) show ?thesis by blast
qed

lemma demo_canonical: "canonical_zones demo_env"
proof -
  have "clean_zone (zone_of [''.blr1.example.com'']) = zone_of [''.blr1.example.com'']" by code_simp
  then show ?thesis by (simp add: canonical_zones_def demo_env_def answers_def)
qed

definition committed :: "fleet \<Rightarrow> (fleet, unit) st" where
  "committed d = \<lparr>doc = d, saved = d, world = ()\<rparr>"

definition demo_synced :: fleet where
  "demo_synced = doc (snd (sync_regions demo_env (committed \<lparr>vms = [], regions = []\<rparr>)))"

definition demo_inserted :: fleet where
  "demo_inserted = (case vm_before_insert demo_env (new_vm ''v1'' ''blr1'') (committed demo_synced) of
     (Inr v, _) \<Rightarrow> demo_synced\<lparr>vms := vms demo_synced @ [vm_validate_new v]\<rparr> | _ \<Rightarrow> demo_synced)"

definition demo_set_up :: fleet where
  "demo_set_up = doc (snd (provision demo_env ''v1'' (committed demo_inserted)))"

lemma demo_runs:
  "fst (sync_regions demo_env (committed \<lparr>vms = [], regions = []\<rparr>)) = Inr 1"
  "isl (fst (vm_before_insert demo_env (new_vm ''v1'' ''blr1'') (committed demo_synced))) = False"
  "vms demo_synced = []" "get_region ''blr1'' demo_synced \<noteq> None"
  "list_all (\<lambda>v. vm_host_verified v \<and> vm_region v = ''blr1'') (vms demo_set_up) \<and> length (vms demo_set_up) = 1"
  by code_simp+

lemma demo_reachable: "(fleet_step demo_env)\<^sup>*\<^sup>* \<lparr>vms = [], regions = []\<rparr> demo_set_up"
proof -
  have "fleet_step demo_env \<lparr>vms = [], regions = []\<rparr> demo_synced"
    unfolding demo_synced_def using demo_runs(1) 
    by (intro fleet_step.synced [of _ _ _ 1]) (simp add: committed_def prod_eq_iff)
  moreover have "fleet_step demo_env demo_synced demo_inserted"
  proof -
    obtain v s where v: "vm_before_insert demo_env (new_vm ''v1'' ''blr1'') (committed demo_synced) = (Inr v, s)"
      using demo_runs(2) by (metis prod.collapse sum.collapse(2))
    have new: "vm_region (new_vm ''v1'' ''blr1'') = ''blr1''" "\<not> vm_host_verified (new_vm ''v1'' ''blr1'')" by (simp_all add: new_vm_def)
    show ?thesis using fleet_step.inserted [OF v [unfolded committed_def]] demo_runs(3,4) v new
      by (simp add: demo_inserted_def)
  qed
  moreover have "fleet_step demo_env demo_inserted demo_set_up"
    unfolding demo_set_up_def by (rule fleet_step.set_up) (simp add: committed_def prod_eq_iff)
  ultimately show ?thesis by (meson rtranclp.rtrancl_into_rtrancl rtranclp.rtrancl_refl)
qed


end
