(* ===== verification/Progress.thy ===== *)
theory Progress
  imports Steps
begin

text \<open>
  The steps of a signup (src/suite_cloud/hosting/progress.py), read from the records the request, its
  site and its mail domain keep.  A view holds what the steps look at; reading an attribute of a
  site that is not there raises.
\<close>

section \<open>Rows and views\<close>

record step_row =
  sr_step :: string
  sr_title :: string
  sr_status :: string
  sr_detail :: string
  sr_started_at :: "int option"
  sr_ended_at :: "int option"
  sr_duration :: "int option"

record site_view =
  sw_name :: string
  sw_creation :: int
  sw_error :: string
  sw_virtual_machine :: string
  sw_site_created :: bool
  sw_hostname :: string
  sw_activated_at :: "int option"
  sw_assign_site_domain :: bool
  sw_site_domain :: string
  sw_has_site_domain :: bool
  sw_skip_reason :: string
  sw_domain_summary :: string
  sw_mail_domain :: string
  sw_mail_published :: bool
  sw_mail_live :: bool
  sw_owner_invite :: string
  sw_login_email :: "herr + string"

record request_view =
  rv_name :: string
  rv_status :: string
  rv_email :: string
  rv_error :: string
  rv_tenant :: string
  rv_label :: string
  rv_processing_time :: "int option"
  rv_site :: "site_view option"

definition DONE :: "string list" where
  "DONE = [''Completed'', ''Skipped'']"

definition is_done_status :: "string \<Rightarrow> bool" where
  "is_done_status s \<longleftrightarrow> s \<in> set DONE"

type_synonym rows = "step_row list"

text \<open>\<open>rows[key]\<close>: a later row of the same step replaces an earlier one; none raises.\<close>

definition row_at :: "rows \<Rightarrow> string \<Rightarrow> herr + step_row" where
  "row_at rs k = (case find (\<lambda>r. sr_step r = k) (rev rs) of None \<Rightarrow> Inl (Other_Error k) | Some r \<Rightarrow> Inr r)"

section \<open>The steps\<close>

record step =
  st_key :: string
  st_title :: string
  st_after :: "string list"
  st_is_done :: "request_view \<Rightarrow> herr + bool"
  st_skip_reason :: "rows \<Rightarrow> request_view \<Rightarrow> herr + string"
  st_summary :: "request_view \<Rightarrow> herr + string"
  st_follow_up :: string

definition the_site :: "request_view \<Rightarrow> herr + site_view" where
  "the_site v = (case rv_site v of None \<Rightarrow> Inl (Other_Error ''AttributeError'') | Some w \<Rightarrow> Inr w)"

definition of_site :: "(site_view \<Rightarrow> 'a) \<Rightarrow> request_view \<Rightarrow> herr + 'a" where
  "of_site f v = rbind (the_site v) (\<lambda>w. Inr (f w))"

definition get_pool_reason :: "rows \<Rightarrow> request_view \<Rightarrow> herr + string" where
  "get_pool_reason rs v = rbind (row_at rs ''claim'') (\<lambda>r.
    case sr_started_at r of
      None \<Rightarrow> Inr []
    | Some t \<Rightarrow> rbind (the_site v) (\<lambda>w. Inr (if sw_creation w < t then ''Suite Site '' @ sw_name w @ '' was ready in the pool.'' else [])))"

definition get_site_domain_skip_reason :: "rows \<Rightarrow> request_view \<Rightarrow> herr + string" where
  "get_site_domain_skip_reason rs = of_site (\<lambda>w.
    if \<not> (sw_assign_site_domain w \<and> sw_site_domain w \<noteq> []) then ''The site gets no site domain.'' else sw_skip_reason w)"

definition no_skip :: "rows \<Rightarrow> request_view \<Rightarrow> herr + string" where
  "no_skip rs v = Inr []"

definition no_summary :: "request_view \<Rightarrow> herr + string" where
  "no_summary v = Inr []"

definition STEPS :: "step list" where
  "STEPS =
   [\<lparr>st_key = ''created'', st_title = ''Request created'', st_after = [], st_is_done = (\<lambda>v. Inr True),
      st_skip_reason = no_skip, st_summary = no_summary, st_follow_up = []\<rparr>,
    \<lparr>st_key = ''verified'', st_title = ''Email verified'', st_after = [''created''],
      st_is_done = (\<lambda>v. Inr (rv_status v \<notin> {''Pending'', ''Expired''})),
      st_skip_reason = no_skip, st_summary = no_summary, st_follow_up = []\<rparr>,
    \<lparr>st_key = ''tenant'', st_title = ''Creating the user and Suite Tenant'', st_after = [''verified''],
      st_is_done = (\<lambda>v. Inr (rv_tenant v \<noteq> [])), st_skip_reason = no_skip,
      st_summary = (\<lambda>v. Inr (''Label '' @ rv_label v)), st_follow_up = []\<rparr>,
    \<lparr>st_key = ''claim'', st_title = ''Looking for a ready Suite Site'', st_after = [''tenant''],
      st_is_done = (\<lambda>v. Inr (rv_site v \<noteq> None)), st_skip_reason = no_skip,
      st_summary = of_site (\<lambda>w. ''Suite Site '' @ sw_name w), st_follow_up = []\<rparr>,
    \<lparr>st_key = ''server'', st_title = ''Waiting for a Virtual Machine'', st_after = [''claim''],
      st_is_done = of_site (\<lambda>w. sw_virtual_machine w \<noteq> []), st_skip_reason = get_pool_reason,
      st_summary = of_site (\<lambda>w. ''Virtual Machine '' @ sw_virtual_machine w), st_follow_up = []\<rparr>,
    \<lparr>st_key = ''site'', st_title = ''Creating the Suite Site'', st_after = [''server''],
      st_is_done = of_site sw_site_created, st_skip_reason = get_pool_reason,
      st_summary = of_site sw_hostname, st_follow_up = []\<rparr>,
    \<lparr>st_key = ''configure'', st_title = ''Configuring the Suite Site'', st_after = [''site''],
      st_is_done = of_site (\<lambda>w. sw_activated_at w \<noteq> None), st_skip_reason = no_skip,
      st_summary = no_summary, st_follow_up = []\<rparr>,
    \<lparr>st_key = ''site_domain'', st_title = ''Adding the site domain'', st_after = [''configure''],
      st_is_done = of_site sw_has_site_domain, st_skip_reason = get_site_domain_skip_reason,
      st_summary = of_site sw_domain_summary, st_follow_up = ''Site domain''\<rparr>,
    \<lparr>st_key = ''mail_domain'', st_title = ''Creating the Mail Domain'', st_after = [''configure''],
      st_is_done = of_site (\<lambda>w. sw_mail_domain w \<noteq> []), st_skip_reason = no_skip,
      st_summary = of_site sw_mail_domain, st_follow_up = ''Mail''\<rparr>,
    \<lparr>st_key = ''mail_records'', st_title = ''Publishing the Mail Domain DNS records'', st_after = [''mail_domain''],
      st_is_done = of_site sw_mail_published, st_skip_reason = no_skip, st_summary = no_summary, st_follow_up = ''Mail''\<rparr>,
    \<lparr>st_key = ''mail_verified'', st_title = ''Verifying the Mail Domain DNS records'', st_after = [''mail_records''],
      st_is_done = of_site sw_mail_live, st_skip_reason = no_skip, st_summary = no_summary, st_follow_up = ''Mail''\<rparr>,
    \<lparr>st_key = ''invite'', st_title = ''Inviting the owner'', st_after = [''mail_verified''],
      st_is_done = of_site (\<lambda>w. sw_owner_invite w \<noteq> []), st_skip_reason = no_skip,
      st_summary = (\<lambda>v. rbind (the_site v) sw_login_email), st_follow_up = ''Owner invite''\<rparr>,
    \<lparr>st_key = ''completed'', st_title = ''Completed'', st_after = [''invite''],
      st_is_done = (\<lambda>v. Inr (rv_status v = ''Completed'')), st_skip_reason = no_skip,
      st_summary = no_summary, st_follow_up = []\<rparr>]"

section \<open>The status of a step\<close>

definition FOLLOW_UP_LABELS :: "string list" where
  "FOLLOW_UP_LABELS = filter (\<lambda>l. l \<noteq> []) (map st_follow_up STEPS)"

definition get_waiting_reason :: "request_view \<Rightarrow> step \<Rightarrow> string" where
  "get_waiting_reason v s =
    (if st_key s = ''verified'' then ''Waiting for the code mailed to '' @ rv_email v @ ''.''
     else case rv_site v of
       None \<Rightarrow> []
     | Some w \<Rightarrow>
         (case find (\<lambda>l. prefix (l @ '':'') (sw_error w)) FOLLOW_UP_LABELS of
            None \<Rightarrow> sw_error w
          | Some l \<Rightarrow> if l = st_follow_up s then sw_error w else []))"

definition all_done :: "rows \<Rightarrow> string list \<Rightarrow> herr + bool" where
  "all_done rs ks = rbind (rmap (row_at rs) ks) (\<lambda>rows. Inr (list_all (\<lambda>r. is_done_status (sr_status r)) rows))"

definition get_status :: "rows \<Rightarrow> request_view \<Rightarrow> step \<Rightarrow> herr + (string \<times> string)" where
  "get_status rs v s = rbind (row_at rs (st_key s)) (\<lambda>row.
    if is_done_status (sr_status row) then Inr (sr_status row, sr_detail row)
    else rbind (all_done rs (st_after s)) (\<lambda>ready.
      if \<not> ready then Inr (''Pending'', [])
      else rbind (st_skip_reason s rs v) (\<lambda>reason.
        if reason \<noteq> [] then Inr (''Skipped'', reason)
        else rbind (st_is_done s v) (\<lambda>ok.
          if ok then rbind (st_summary s v) (\<lambda>m. Inr (''Completed'', m))
          else if rv_status v = ''Failed'' then Inr (''Failed'', rv_error v)
          else if rv_status v = ''Expired'' then Inr (''Failed'', ''The signup expired before its email was confirmed.'')
          else Inr (''Running'', get_waiting_reason v s)))))"

definition save_row :: "int \<Rightarrow> string \<Rightarrow> string \<Rightarrow> step_row \<Rightarrow> step_row" where
  "save_row t status detail r =
    (let started = (case sr_started_at r of None \<Rightarrow> t | Some t0 \<Rightarrow> t0);
         r1 = r\<lparr>sr_status := status, sr_detail := detail\<rparr>;
         r2 = (if status \<in> {''Running'', ''Completed'', ''Failed''} then r1\<lparr>sr_started_at := Some started\<rparr> else r1)
     in if status \<in> {''Completed'', ''Failed''} then r2\<lparr>sr_ended_at := Some t, sr_duration := Some (t - started)\<rparr>
        else if status = ''Running'' then r2\<lparr>sr_ended_at := None, sr_duration := None\<rparr>
        else r2)"

text \<open>The row of a key is the last with that key.\<close>

definition upd_row :: "string \<Rightarrow> (step_row \<Rightarrow> step_row) \<Rightarrow> rows \<Rightarrow> rows" where
  "upd_row k f rs = map (\<lambda>r. if sr_step r = k then f r else r) rs"

definition sync_step :: "int \<Rightarrow> request_view \<Rightarrow> step \<Rightarrow> rows \<times> bool \<Rightarrow> herr + rows \<times> bool" where
  "sync_step t v s = (\<lambda>(rs, changed).
    rbind (row_at rs (st_key s)) (\<lambda>row.
    rbind (get_status rs v s) (\<lambda>(status, detail).
      Inr (if (status, detail) \<noteq> (sr_status row, sr_detail row)
           then (upd_row (st_key s) (save_row t status detail) rs, True) else (rs, changed)))))"

definition processing_time :: "rows \<Rightarrow> request_view \<Rightarrow> herr + int option" where
  "processing_time rs v =
    rbind (row_at rs ''completed'') (\<lambda>completed. rbind (row_at rs ''verified'') (\<lambda>verified.
    if sr_status completed \<noteq> ''Completed'' \<or> (rv_processing_time v \<noteq> None \<and> rv_processing_time v \<noteq> Some 0)
    then Inr (rv_processing_time v)
    else rbind (row_at rs ''created'') (\<lambda>created.
      case (sr_ended_at completed, if sr_status verified = ''Completed'' then sr_ended_at verified else sr_ended_at created) of
        (Some b, Some a) \<Rightarrow> Inr (Some (b - a))
      | _ \<Rightarrow> Inl (Other_Error ''TypeError''))))"

record progress_event =
  pe_progress :: nat
  pe_total :: nat
  pe_step :: string

definition publish :: "rows \<Rightarrow> progress_event" where
  "publish rs = \<lparr>pe_progress = length (filter (\<lambda>r. is_done_status (sr_status r)) rs), pe_total = length rs,
     pe_step = (case find (\<lambda>r. sr_status r \<in> {''Running'', ''Failed''}) rs of None \<Rightarrow> [] | Some r \<Rightarrow> sr_title r)\<rparr>"

text \<open>The rows after a sync, the processing time kept and the event the desk gets.\<close>

definition sync :: "int \<Rightarrow> request_view \<Rightarrow> rows \<Rightarrow> herr + rows \<times> int option \<times> progress_event option" where
  "sync t v rs =
    (if rs = [] then Inr (rs, rv_processing_time v, None)
     else rbind (rfold (sync_step t v) STEPS (rs, False)) (\<lambda>(rs', changed).
       if changed then rbind (processing_time rs' v) (\<lambda>p. Inr (rs', p, Some (publish rs')))
       else Inr (rs', rv_processing_time v, None)))"

definition add_steps :: "bool \<Rightarrow> rows" where
  "add_steps verify_by_otp = map (\<lambda>s.
    let r = \<lparr>sr_step = st_key s, sr_title = st_title s, sr_status = ''Pending'', sr_detail = [], sr_started_at = None,
             sr_ended_at = None, sr_duration = None\<rparr>
    in if st_key s = ''verified'' \<and> \<not> verify_by_otp
       then r\<lparr>sr_status := ''Skipped'', sr_detail := ''Made in the desk: no code is sent.''\<rparr> else r) STEPS"

section \<open>Progress only goes forward\<close>

text \<open>Rows kept for one step each.\<close>

definition rows_wf :: "rows \<Rightarrow> bool" where
  "rows_wf rs \<longleftrightarrow> distinct (map sr_step rs)"

definition advances :: "step_row \<Rightarrow> step_row \<Rightarrow> bool" where
  "advances r r' \<longleftrightarrow> sr_step r' = sr_step r \<and> sr_title r' = sr_title r \<and> (is_done_status (sr_status r) \<longrightarrow> r' = r)"

definition done_keys :: "rows \<Rightarrow> string set" where
  "done_keys rs = sr_step ` {r \<in> set rs. is_done_status (sr_status r)}"

lemma row_at_wf: "rows_wf rs \<Longrightarrow> row_at rs k = Inr r \<longleftrightarrow> r \<in> set rs \<and> sr_step r = k"
proof -
  assume wf: "rows_wf rs"
  have "find (\<lambda>r. sr_step r = k) (rev rs) = Some r \<longleftrightarrow> r \<in> set rs \<and> sr_step r = k"
    using wf find_distinct_key [of sr_step "rev rs" r] by (auto simp: rows_wf_def rev_map [symmetric] dest: find_Some_in)
  then show ?thesis by (auto simp: row_at_def split: option.splits)
qed

lemma done_keys_row_at: "rows_wf rs \<Longrightarrow> row_at rs k = Inr r \<Longrightarrow> k \<in> done_keys rs \<longleftrightarrow> is_done_status (sr_status r)"
  by (auto simp: row_at_wf done_keys_def rows_wf_def distinct_map dest: inj_onD)

lemma all_done_keys: "rows_wf rs \<Longrightarrow> all_done rs ks = Inr True \<Longrightarrow> set ks \<subseteq> done_keys rs"
proof -
  assume wf: "rows_wf rs" and "all_done rs ks = Inr True"
  then obtain rows where rows: "rmap (row_at rs) ks = Inr rows" "list_all (\<lambda>r. is_done_status (sr_status r)) rows"
    by (auto simp: all_done_def)
  show "set ks \<subseteq> done_keys rs"
  proof
    fix k assume "k \<in> set ks"
    then obtain i where i: "i < length ks" "k = ks ! i" by (auto simp: in_set_conv_nth)
    with rows(1) have "row_at rs k = Inr (rows ! i)" "rows ! i \<in> set rows"
      by (auto simp: rmap_Inr_list_all2 list_all2_conv_all_nth)
    then show "k \<in> done_keys rs" using wf rows(2) by (auto simp: done_keys_row_at list_all_iff)
  qed
qed

lemma save_row_fields [simp]:
  "sr_step (save_row t a b r) = sr_step r" "sr_title (save_row t a b r) = sr_title r" "sr_status (save_row t a b r) = a"
  "sr_detail (save_row t a b r) = b"
  by (simp_all add: save_row_def Let_def)

lemma get_status_done:
  assumes "rows_wf rs" "get_status rs v s = Inr (status, detail)" "is_done_status status"
  shows "st_key s \<in> done_keys rs \<or> set (st_after s) \<subseteq> done_keys rs"
  using assms by (auto simp: get_status_def is_done_status_def DONE_def done_keys_row_at dest: all_done_keys split: if_splits)

lemma get_status_kept:
  assumes "get_status rs v s = Inr (status, detail)" "row_at rs (st_key s) = Inr r" "is_done_status (sr_status r)"
  shows "status = sr_status r \<and> detail = sr_detail r"
  using assms by (auto simp: get_status_def)

text \<open>One step of the sync, and with it the whole sync.\<close>

definition forward :: "rows \<Rightarrow> rows \<Rightarrow> bool" where
  "forward rs rs' \<longleftrightarrow> list_all2 advances rs rs'"

lemma forward_refl: "forward rs rs"
  by (simp add: forward_def advances_def list.rel_refl)

lemma forward_trans: "forward a b \<Longrightarrow> forward b c \<Longrightarrow> forward a c"
  unfolding forward_def by (rule list_all2_trans [of advances]) (auto simp: advances_def)

lemma forward_wf: "forward rs rs' \<Longrightarrow> rows_wf rs \<Longrightarrow> rows_wf rs'"
proof -
  assume fw: "forward rs rs'" and wf: "rows_wf rs"
  have "map sr_step rs' = map sr_step rs"
    using fw unfolding forward_def by (induction rule: list_all2_induct) (auto simp: advances_def)
  then show ?thesis using wf by (simp add: rows_wf_def)
qed

lemma forward_done: "forward rs rs' \<Longrightarrow> done_keys rs \<subseteq> done_keys rs'"
  unfolding forward_def
  by (induction rule: list_all2_induct) (auto simp: done_keys_def advances_def)

lemma sync_step_forward:
  assumes wf: "rows_wf rs" and run: "sync_step t v s (rs, c) = Inr (rs', c')"
  shows "forward rs rs' \<and> (\<forall>k\<in>done_keys rs' - done_keys rs. k = st_key s \<and> set (st_after s) \<subseteq> done_keys rs)"
proof -
  obtain row status detail where row: "row_at rs (st_key s) = Inr row" and stat: "get_status rs v s = Inr (status, detail)"
    and rs': "rs' = rs \<or> rs' = upd_row (st_key s) (save_row t status detail) rs \<and> (status, detail) \<noteq> (sr_status row, sr_detail row)"
    using run by (auto simp: sync_step_def split: if_splits)
  show ?thesis
  proof (cases "rs' = rs")
    case True
    then show ?thesis by (simp add: forward_refl)
  next
    case False
    with rs' have upd: "rs' = upd_row (st_key s) (save_row t status detail) rs" and ne: "(status, detail) \<noteq> (sr_status row, sr_detail row)"
      by auto
    have open_row: "\<not> is_done_status (sr_status row)" using get_status_kept [OF stat row] ne by auto
    have here: "sr_step r = st_key s \<longleftrightarrow> r = row" if "r \<in> set rs" for r
      using row_at_wf [OF wf, of "st_key s" row] row that wf by (metis distinct_map inj_onD rows_wf_def)
    have "forward rs rs'"
      using here open_row by (auto simp: forward_def upd upd_row_def list_all2_conv_all_nth advances_def)
    moreover have "k = st_key s \<and> set (st_after s) \<subseteq> done_keys rs" if "k \<in> done_keys rs'" "k \<notin> done_keys rs" for k
    proof -
      have "k = st_key s \<and> is_done_status status"
        using that by (auto simp: upd upd_row_def done_keys_def split: if_splits)
      then show ?thesis using get_status_done [OF wf stat] that by auto
    qed
    ultimately show ?thesis by blast
  qed
qed

definition new_ready :: "rows \<Rightarrow> rows \<Rightarrow> bool" where
  "new_ready rs rs' \<longleftrightarrow> (\<forall>s\<in>set STEPS. st_key s \<in> done_keys rs' - done_keys rs \<longrightarrow> set (st_after s) \<subseteq> done_keys rs')"

lemma STEPS_keys: "distinct (map st_key STEPS)"
  by (simp add: STEPS_def)

lemma STEPS_key_inj: "s \<in> set STEPS \<Longrightarrow> s' \<in> set STEPS \<Longrightarrow> st_key s = st_key s' \<Longrightarrow> s = s'"
  using STEPS_keys by (meson distinct_map inj_onD)

lemma sync_steps_forward:
  "set ss \<subseteq> set STEPS \<Longrightarrow> rows_wf rs \<Longrightarrow> rfold (sync_step t v) ss (rs, c) = Inr (rs', c') \<Longrightarrow>
   forward rs rs' \<and> new_ready rs rs'"
proof (induction ss arbitrary: rs c)
  case Nil
  then show ?case by (simp add: forward_refl new_ready_def)
next
  case (Cons s ss)
  then obtain rs1 c1 where one: "sync_step t v s (rs, c) = Inr (rs1, c1)" and rest: "rfold (sync_step t v) ss (rs1, c1) = Inr (rs', c')"
    by auto
  note step = sync_step_forward [OF Cons.prems(2) one]
  then have wf: "rows_wf rs1" using forward_wf Cons.prems(2) by blast
  from Cons.IH [OF _ wf rest] Cons.prems(1) have tail: "forward rs1 rs'" "new_ready rs1 rs'" by auto
  have "set (st_after s') \<subseteq> done_keys rs'" if s': "s' \<in> set STEPS" "st_key s' \<in> done_keys rs'" "st_key s' \<notin> done_keys rs" for s'
  proof (cases "st_key s' \<in> done_keys rs1")
    case True
    with step s' have "st_key s' = st_key s" "set (st_after s) \<subseteq> done_keys rs" by blast+
    moreover from this(1) have "s' = s" using s'(1) Cons.prems(1) by (simp add: STEPS_key_inj)
    ultimately show ?thesis using forward_done [OF tail(1)] forward_done [OF conjunct1 [OF step]] by simp
  next
    case False
    then show ?thesis using tail(2) s' by (auto simp: new_ready_def)
  qed
  then show ?case using step tail forward_trans by (auto simp: new_ready_def)
qed

text \<open>
  C22. A sync only moves a signup forward: every row keeps its step and title, a row that is Completed or
  Skipped is never written again, and a step becomes done only when every step it comes after is done;
  so the number of done steps never falls.
\<close>

theorem sync_goes_forward:
  assumes "rows_wf rs" and "sync t v rs = Inr (rs', p, ev)"
  shows "list_all2 (\<lambda>r r'. sr_step r' = sr_step r \<and> sr_title r' = sr_title r \<and> (is_done_status (sr_status r) \<longrightarrow> r' = r)) rs rs' \<and>
    (\<forall>s\<in>set STEPS. st_key s \<in> done_keys rs' - done_keys rs \<longrightarrow> set (st_after s) \<subseteq> done_keys rs')"
proof -
  consider "rs' = rs" | c where "rfold (sync_step t v) STEPS (rs, False) = Inr (rs', c)"
    using assms(2) by (auto simp: sync_def split: if_splits)
  then have "forward rs rs' \<and> new_ready rs rs'"
  proof cases
    case 1
    then show ?thesis by (simp add: forward_refl new_ready_def)
  next
    case 2
    then show ?thesis by (rule sync_steps_forward [OF subset_refl assms(1)])
  qed
  then show ?thesis by (simp add: forward_def new_ready_def advances_def [abs_def])
qed

definition demo_view :: request_view where
  "demo_view = \<lparr>rv_name = ''r'', rv_status = ''Processing'', rv_email = ''a@b'', rv_error = [], rv_tenant = ''t'', rv_label = ''acme'',
     rv_processing_time = None, rv_site = None\<rparr>"

lemma sync_goes_forward_witness:
  "rows_wf (add_steps True) \<and> (\<exists>rs' p ev. sync 5 demo_view (add_steps True) = Inr (rs', p, ev) \<and>
    ''tenant'' \<in> done_keys rs' \<and> ''verified'' \<in> done_keys rs' \<and> ''claim'' \<notin> done_keys rs')"
proof -
  have wf: "rows_wf (add_steps True)" by code_simp
  have run: "case sync 5 demo_view (add_steps True) of Inl _ \<Rightarrow> False
     | Inr (rs', _) \<Rightarrow> ''tenant'' \<in> done_keys rs' \<and> ''claim'' \<notin> done_keys rs'" by code_simp
  have start: "''tenant'' \<notin> done_keys (add_steps True)" by code_simp
  obtain rs' p ev where r: "sync 5 demo_view (add_steps True) = Inr (rs', p, ev)"
    and d: "''tenant'' \<in> done_keys rs'" "''claim'' \<notin> done_keys rs'"
    using run by (auto split: sum.splits)
  have "\<exists>s\<in>set STEPS. st_key s = ''tenant'' \<and> st_after s = [''verified'']" by (simp add: STEPS_def)
  with sync_goes_forward [OF wf r] d start have "''verified'' \<in> done_keys rs'" by force
  with wf r d show ?thesis by blast
qed

end
