(* ===== verification/Addresses.thy ===== *)
theory Addresses
  imports Prelude
begin

text \<open>
  Address rules (src/suite_cloud/mail/tenancy/addresses.py) over the directory tables: the syntax of
  domains and addresses, who may use a domain, and the rule that an address is used once.

  The tables are lists of rows in the order a query returns them.  \<open>idna\<close> is the standard library's
  IDNA codec on names that are not ASCII; on ASCII names its fast path is modelled.
  \<open>frappe_validate_email\<close> is Frappe's address check.
\<close>

section \<open>Rows\<close>

datatype doctype = Mail_Account | Mail_Group | Mailing_List

record mail_domain =
  d_name :: string
  d_tenant :: string
  d_cluster :: string
  d_enabled :: bool
  d_is_verified :: bool
  d_hosted :: bool
  d_stalwart_id :: "string option"

record alias_row =
  al_email :: string
  al_enabled :: bool
  al_description :: string

text \<open>A row of Suite Site as far as labels and domains read it.\<close>

record site_row =
  s_name :: string
  s_tenant :: "string option"
  s_label :: string
  s_dropped :: bool

record address_book =
  domains :: "mail_domain list"
  addresses :: "(doctype \<times> string) list"
  alias_rows :: "(doctype \<times> string \<times> string) list"
  dns_zones :: "string list"
  site_rows :: "site_row list"
  tenant_mail_zone :: "string option"

section \<open>Syntax\<close>

definition label_body :: "string \<Rightarrow> bool" where
  "label_body s \<longleftrightarrow> s \<noteq> [] \<and> length s \<le> 63 \<and> list_all (\<lambda>c. is_az09 c \<or> c = CHR ''-'') s \<and>
     hd s \<noteq> CHR ''-'' \<and> last s \<noteq> CHR ''-''"

definition DOMAIN_LABEL :: "string \<Rightarrow> bool" where
  "DOMAIN_LABEL s = dollar_match label_body s"

definition is_ascii :: "string \<Rightarrow> bool" where
  "is_ascii s \<longleftrightarrow> list_all (\<lambda>c. code c < 128) s"

text \<open>\<open>domain.encode("idna").decode()\<close>; \<open>None\<close> is a \<open>UnicodeError\<close>.\<close>

definition idna_encode :: "(string \<Rightarrow> string option) \<Rightarrow> string \<Rightarrow> string option" where
  "idna_encode idna domain =
     (if domain = [] then Some []
      else if is_ascii domain then
        (let labels = split_on (CHR ''.'') domain
         in if list_all (\<lambda>l. 0 < length l \<and> length l < 64) (butlast labels) \<and> length (last labels) < 64
            then Some domain else None)
      else idna domain)"

definition clean_domain :: "string \<Rightarrow> string" where
  "clean_domain value = rstrip_dots (py_lower (py_strip value))"

definition normalize_domain :: "(string \<Rightarrow> string option) \<Rightarrow> string \<Rightarrow> string" where
  "normalize_domain idna value =
     (case idna_encode idna (clean_domain value) of None \<Rightarrow> clean_domain value | Some d \<Rightarrow> d)"

definition validate_domain_name :: "(string \<Rightarrow> string option) \<Rightarrow> string \<Rightarrow> string res" where
  "validate_domain_name idna value =
     (case idna_encode idna (clean_domain value) of
        None \<Rightarrow> Inl (ValidationError value)
      | Some domain \<Rightarrow>
          let labels = split_on (CHR ''.'') domain
          in if length labels < 2 \<or> \<not> list_all DOMAIN_LABEL labels \<or> length domain > 253
             then Inl (ValidationError value) else Inr domain)"

text \<open>\<open>email.split("@", 1)\<close>: the local part and the rest.\<close>

definition local_part :: "string \<Rightarrow> string" where
  "local_part email = fst (partition_at (CHR ''@'') email)"

definition domain_part :: "string \<Rightarrow> string" where
  "domain_part email = snd (snd (partition_at (CHR ''@'') email))"

definition validate_email_address ::
  "(string \<Rightarrow> string option) \<Rightarrow> (string \<Rightarrow> bool) \<Rightarrow> string \<Rightarrow> string res" where
  "validate_email_address idna frappe_validate_email value =
     (let email = py_lower (py_strip value) in
      if \<not> frappe_validate_email email \<or> count_list email (CHR ''@'') \<noteq> 1 then Inl (ValidationError value)
      else if CHR ''%'' \<in> set (local_part email) \<or> CHR ''/'' \<in> set (local_part email) then Inl (ValidationError value)
      else rbind (validate_domain_name idna (domain_part email)) (\<lambda>domain. Inr (local_part email @ ''@'' @ domain)))"

section \<open>Domains\<close>

definition find_domain :: "string \<Rightarrow> mail_domain list \<Rightarrow> mail_domain option" where
  "find_domain name ds = find (\<lambda>d. d_name d = name) ds"

definition get_tenant_domain ::
  "(string \<Rightarrow> string option) \<Rightarrow> address_book \<Rightarrow> string \<Rightarrow> string \<Rightarrow> mail_domain res" where
  "get_tenant_domain idna b tenant domain_name =
     (let domain_name = normalize_domain idna domain_name in
      case find_domain domain_name (domains b) of
        None \<Rightarrow> Inl (DoesNotExistError domain_name)
      | Some d \<Rightarrow> if d_tenant d \<noteq> tenant then Inl (DoesNotExistError domain_name) else Inr d)"

definition is_live :: "mail_domain \<Rightarrow> bool" where
  "is_live d \<longleftrightarrow> d_enabled d \<and> d_is_verified d"

definition assert_domain_live :: "mail_domain \<Rightarrow> unit res" where
  "assert_domain_live d = require (is_live d) (ValidationError (d_name d))"

text \<open>\<open>domain_name == zone or domain_name.endswith(f".{zone}")\<close>.\<close>

definition under_zone :: "string \<Rightarrow> string \<Rightarrow> bool" where
  "under_zone domain_name zone \<longleftrightarrow> domain_name = zone \<or> suffix (''.'' @ zone) domain_name"

definition assert_domain_not_reserved :: "address_book \<Rightarrow> string \<Rightarrow> unit res" where
  "assert_domain_not_reserved b domain_name =
     require (\<not> list_ex (under_zone domain_name) (dns_zones b)) (ValidationError domain_name)"

definition assert_domain_available :: "address_book \<Rightarrow> string \<Rightarrow> string \<Rightarrow> unit res" where
  "assert_domain_available b domain_name tenant =
     (case find_domain domain_name (domains b) of
        Some d \<Rightarrow>
          if d_tenant d = tenant then Inl (DuplicateEntryError domain_name)
          else if d_tenant d \<noteq> [] then Inl (DuplicateEntryError domain_name)
          else assert_domain_not_reserved b domain_name
      | None \<Rightarrow> assert_domain_not_reserved b domain_name)"

definition removesuffix :: "string \<Rightarrow> string \<Rightarrow> string" where
  "removesuffix suf s = (if suffix suf s then drop_suffix (length suf) s else s)"

definition assert_hosted_domain :: "address_book \<Rightarrow> string \<Rightarrow> string \<Rightarrow> unit res" where
  "assert_hosted_domain b domain_name tenant =
     (case tenant_mail_zone b of
        None \<Rightarrow> Inl (ValidationError domain_name)
      | Some zone \<Rightarrow>
          let label = removesuffix (''.'' @ zone) domain_name in
          if zone = [] \<or> label = domain_name \<or> CHR ''.'' \<in> set label then Inl (ValidationError domain_name)
          else if (case find_domain domain_name (domains b) of None \<Rightarrow> False | Some d \<Rightarrow> d_tenant d \<noteq> [])
          then Inl (DuplicateEntryError domain_name)
          else require (list_ex (\<lambda>s. s_tenant s = Some tenant \<and> s_label s = label \<and> \<not> s_dropped s) (site_rows b))
                 (ValidationError tenant))"

section \<open>Addresses\<close>

definition assert_addresses_deliverable :: "address_book \<Rightarrow> string \<Rightarrow> string list \<Rightarrow> unit res" where
  "assert_addresses_deliverable b tenant emails =
     (let wanted = map domain_part (filter (\<lambda>e. CHR ''@'' \<in> set e) emails);
          foreign = map d_name (filter (\<lambda>d. d_name d \<in> set wanted \<and> d_tenant d \<noteq> tenant) (domains b))
      in if wanted = [] \<or> foreign = [] then Inr ()
         else if list_ex (\<lambda>e. CHR ''@'' \<notin> set e) emails then Inl (PyValueError ''IndexError'')
         else Inl (DoesNotExistError (hd (sort (filter (\<lambda>e. domain_part e \<in> set foreign) emails)))))"

definition ADDRESS_DOCTYPES :: "doctype list" where
  "ADDRESS_DOCTYPES = [Mail_Account, Mail_Group, Mailing_List]"

definition assert_address_available :: "address_book \<Rightarrow> string \<Rightarrow> (doctype \<times> string) option \<Rightarrow> unit res" where
  "assert_address_available b email exclude =
     rbind (rfold (\<lambda>doctype _.
              if exclude = Some (doctype, email) then Inr ()
              else require ((doctype, email) \<notin> set (addresses b)) (DuplicateEntryError email))
            ADDRESS_DOCTYPES ())
       (\<lambda>_. case find (\<lambda>(_, _, a). a = email) (alias_rows b) of
              None \<Rightarrow> Inr ()
            | Some (parenttype, parent, _) \<Rightarrow>
                require (Some (parenttype, parent) = exclude) (DuplicateEntryError email))"

section \<open>Laws of the syntax\<close>

lemma is_az09_ascii: "is_az09 c \<or> c = CHR ''-'' \<or> c = CHR ''.'' \<Longrightarrow> code c < 128"
  by (auto simp: is_az09_def code_def)

lemma is_az09_lower: "is_az09 c \<or> c = CHR ''-'' \<or> c = CHR ''.'' \<Longrightarrow> lower_char c = c"
  by (auto simp: is_az09_def lower_char_def Let_def code_def)

lemma is_az09_not_space: "is_az09 c \<or> c = CHR ''-'' \<Longrightarrow> \<not> py_isspace c"
  by (auto simp: is_az09_def py_isspace_def Let_def code_def)

lemma set_split_on: "p \<in> set (split_on c s) \<Longrightarrow> set p \<subseteq> set s"
proof (induction s arbitrary: p)
  case (Cons x s)
  then show ?case by (auto split: list.splits if_splits) blast+
qed simp

lemma set_via_split: "x \<in> set s \<Longrightarrow> x = c \<or> (\<exists>p\<in>set (split_on c s). x \<in> set p)"
  using set_join_with [of c "split_on c s"] by auto

text \<open>A domain as the rules mean it: at least two labels of letters, digits and inner dashes.\<close>

definition proper_domain :: "string \<Rightarrow> bool" where
  "proper_domain d \<longleftrightarrow> 2 \<le> length (split_on (CHR ''.'') d) \<and> list_all label_body (split_on (CHR ''.'') d) \<and>
     length d \<le> 253"

lemma proper_domain_chars: "proper_domain d \<Longrightarrow> x \<in> set d \<Longrightarrow> is_az09 x \<or> x = CHR ''-'' \<or> x = CHR ''.''"
  using set_via_split [of x d "CHR ''.''"] by (fastforce simp: proper_domain_def label_body_def list_all_iff)

lemma split_on_last: "last (split_on c s) = [] \<longleftrightarrow> s = [] \<or> last s = c"
proof (induction s)
  case (Cons x s)
  have "split_on c s = [[]] \<Longrightarrow> s = []" using join_split_on [of c s] by simp
  with Cons show ?case by (cases "split_on c s") (auto split: list.splits if_splits)
qed simp

lemma hd_split_on: "hd (split_on c s) = [] \<longleftrightarrow> s = [] \<or> hd s = c"
  by (cases s) (auto split: list.splits)

lemma proper_domain_ends:
  assumes "proper_domain d"
  shows "d \<noteq> [] \<and> (is_az09 (hd d) \<or> hd d = CHR ''-'') \<and> (is_az09 (last d) \<or> last d = CHR ''-'')"
proof -
  have bodies: "label_body p" if "p \<in> set (split_on (CHR ''.'') d)" for p
    using assms that by (simp add: proper_domain_def list_all_iff)
  have "hd (split_on (CHR ''.'') d) \<noteq> []" "last (split_on (CHR ''.'') d) \<noteq> []"
    using bodies [OF hd_in_set [OF split_on_not_Nil]] bodies [OF last_in_set [OF split_on_not_Nil]]
    by (simp_all add: label_body_def)
  then have "d \<noteq> []" "hd d \<noteq> CHR ''.''" "last d \<noteq> CHR ''.''"
    by (auto simp: hd_split_on split_on_last)
  then show ?thesis
    using proper_domain_chars [OF assms, of "hd d"] proper_domain_chars [OF assms, of "last d"] by auto
qed

lemma proper_domain_clean:
  assumes "proper_domain d"
  shows "clean_domain d = d"
proof -
  have "py_strip d = d"
    using proper_domain_ends [OF assms] is_az09_not_space by (intro py_strip_id) blast
  moreover have "py_lower d = d"
    unfolding py_lower_def using proper_domain_chars [OF assms] is_az09_lower by (intro map_idI) blast
  moreover have "rstrip_dots d = d"
    unfolding rstrip_dots_def using proper_domain_ends [OF assms] is_az09_not by (intro rstrip_by_id) auto
  ultimately show ?thesis by (simp add: clean_domain_def)
qed

lemma proper_domain_idna: "proper_domain d \<Longrightarrow> idna_encode idna d = Some d"
proof -
  assume d: "proper_domain d"
  have "is_ascii d"
    unfolding is_ascii_def list_all_iff using proper_domain_chars [OF d] is_az09_ascii by blast
  moreover have "\<forall>p\<in>set (split_on (CHR ''.'') d). 0 < length p \<and> length p < 64"
  proof
    fix p assume "p \<in> set (split_on (CHR ''.'') d)"
    with d have "label_body p" by (simp add: proper_domain_def list_all_iff)
    then show "0 < length p \<and> length p < 64" by (simp add: label_body_def)
  qed
  moreover have "last (split_on (CHR ''.'') d) \<in> set (split_on (CHR ''.'') d)" by simp
  ultimately show ?thesis by (auto simp: idna_encode_def Let_def list_all_iff dest: in_set_butlastD)
qed

lemma proper_domain_validates: "proper_domain d \<Longrightarrow> validate_domain_name idna d = Inr d"
  unfolding validate_domain_name_def
  by (simp add: proper_domain_clean proper_domain_idna)
    (auto simp: proper_domain_def list_all_iff DOMAIN_LABEL_def Let_def intro: dollar_matchI)

lemma validate_domain_name_proper:
  assumes "validate_domain_name idna v = Inr d" "newline \<notin> set d"
  shows "proper_domain d"
proof -
  from assms(1) have len: "2 \<le> length (split_on (CHR ''.'') d)" "length d \<le> 253"
    and labels: "list_all DOMAIN_LABEL (split_on (CHR ''.'') d)"
    by (auto simp: validate_domain_name_def Let_def split: option.splits if_splits)
  have "newline \<notin> set p" if "p \<in> set (split_on (CHR ''.'') d)" for p
    using set_split_on [OF that] assms(2) by blast
  with labels have "list_all label_body (split_on (CHR ''.'') d)"
    by (auto simp: list_all_iff DOMAIN_LABEL_def dollar_match_no_newline)
  with len show ?thesis by (simp add: proper_domain_def)
qed

lemma lower_char_idem [simp]: "lower_char (lower_char c) = lower_char c"
proof (cases "(65 \<le> code c \<and> code c \<le> 90) \<or> (192 \<le> code c \<and> code c \<le> 222 \<and> code c \<noteq> 215)")
  case True
  then have "lower_char c = char_of (code c + 32)" by (simp add: lower_char_def Let_def)
  moreover from True have "code (char_of (code c + 32) :: char) = code c + 32"
    unfolding code_def by (subst of_char_of) auto
  ultimately show ?thesis using True by (auto simp: lower_char_def Let_def)
next
  case False
  then show ?thesis by (auto simp: lower_char_def Let_def)
qed

lemma lower_char_space [simp]: "py_isspace (lower_char c) = py_isspace c"
proof (cases "(65 \<le> code c \<and> code c \<le> 90) \<or> (192 \<le> code c \<and> code c \<le> 222 \<and> code c \<noteq> 215)")
  case True
  moreover from True have "code (char_of (code c + 32) :: char) = code c + 32"
    unfolding code_def by (subst of_char_of) auto
  ultimately show ?thesis by (auto simp: lower_char_def py_isspace_def Let_def)
next
  case False
  then show ?thesis by (auto simp: lower_char_def Let_def)
qed

lemma count_list_one: "count_list xs x = 1 \<Longrightarrow> \<exists>a b. xs = a @ x # b \<and> x \<notin> set a \<and> x \<notin> set b"
proof -
  assume one: "count_list xs x = 1"
  then have "x \<in> set xs" by (metis count_notin zero_neq_one)
  then obtain a b where ab: "xs = a @ x # b" "x \<notin> set a" by (metis split_list_first)
  with one have "count_list b x = 0" by (simp add: count_notin)
  with ab show ?thesis by (metis count_list_0_iff)
qed

lemma local_domain_parts [simp]:
  assumes "CHR ''@'' \<notin> set l"
  shows "local_part (l @ CHR ''@'' # d) = l" "domain_part (l @ CHR ''@'' # d) = d"
  using partition_at_append [OF assms] by (simp_all add: local_part_def domain_part_def)

text \<open>What an accepted address looks like: a cleaned local part and a domain the domain rules accept.\<close>

lemma validate_email_shape:
  assumes "validate_email_address idna fv value = Inr e"
  obtains l d rest where "e = l @ ''@'' @ d" "CHR ''@'' \<notin> set l" "CHR ''%'' \<notin> set l" "CHR ''/'' \<notin> set l"
    "py_lower l = l" "l = [] \<or> \<not> py_isspace (hd l)" "validate_domain_name idna rest = Inr d"
proof -
  let ?m = "py_lower (py_strip value)"
  from assms have one: "count_list ?m (CHR ''@'') = 1"
    and clean: "CHR ''%'' \<notin> set (local_part ?m)" "CHR ''/'' \<notin> set (local_part ?m)"
    and dom: "rbind (validate_domain_name idna (domain_part ?m)) (\<lambda>d. Inr (local_part ?m @ ''@'' @ d)) = Inr e"
    by (auto simp: validate_email_address_def Let_def split: if_splits)
  from count_list_one [OF one] obtain l r where m: "?m = l @ CHR ''@'' # r" "CHR ''@'' \<notin> set l" by blast
  from dom obtain d where d: "validate_domain_name idna r = Inr d" "e = l @ ''@'' @ d" by (auto simp: m)
  have "py_lower ?m = ?m" by (simp add: py_lower_def)
  then have "map lower_char l @ map lower_char (CHR ''@'' # r) = l @ CHR ''@'' # r"
    unfolding m unfolding py_lower_def map_append .
  then have low_l: "py_lower l = l" by (simp add: py_lower_def append_eq_append_conv del: list.map)
  have space: "l = [] \<or> \<not> py_isspace (hd l)"
  proof (cases "l = []")
    case False
    have ne: "py_strip value \<noteq> []" using m by (auto simp: py_lower_def)
    then have "\<not> py_isspace (hd (py_strip value))" by (rule py_strip_hd)
    moreover have "hd l = lower_char (hd (py_strip value))"
      using m False ne by (metis hd_append2 hd_map py_lower_def)
    ultimately show ?thesis by simp
  qed simp
  have "CHR ''%'' \<notin> set l" "CHR ''/'' \<notin> set l" using clean by (simp_all add: m)
  then show ?thesis by (rule that [OF d(2) m(2) _ _ low_l space d(1)])
qed

lemma assert_address_available_Inr:
  "assert_address_available b email exclude = Inr () \<longleftrightarrow>
     (\<forall>dt. (dt, email) \<in> set (addresses b) \<longrightarrow> exclude = Some (dt, email)) \<and>
     (\<forall>dt p a. find (\<lambda>(_, _, a). a = email) (alias_rows b) = Some (dt, p, a) \<longrightarrow> exclude = Some (dt, p))"
proof -
  have all: "(\<forall>dt. P dt) \<longleftrightarrow> P Mail_Account \<and> P Mail_Group \<and> P Mailing_List" for P
    by (metis doctype.exhaust)
  show ?thesis
    unfolding assert_address_available_def ADDRESS_DOCTYPES_def all [of "\<lambda>dt. (dt, email) \<in> set (addresses b) \<longrightarrow> exclude = Some (dt, email)"]
    by (auto simp: require_def split: if_splits option.splits prod.splits)
qed

section \<open>Properties\<close>

text \<open>
  A domain name the rules accept, free of newlines, is in canonical form: two or more labels of
  lowercase letters, digits and inner dashes, at most 63 characters each and 253 in all, and
  validating it again returns it unchanged.
\<close>

theorem validate_domain_name_canonical:
  assumes "validate_domain_name idna value = Inr d" and "newline \<notin> set d"
  shows "proper_domain d \<and> normalize_domain idna d = d \<and> validate_domain_name idna d = Inr d"
  using validate_domain_name_proper [OF assms] proper_domain_validates
  by (simp add: normalize_domain_def proper_domain_clean proper_domain_idna)

theorem validate_domain_name_canonical_witness:
  "validate_domain_name (\<lambda>_. None) '' Acme.COM. '' = Inr ''acme.com'' \<and> proper_domain ''acme.com''"
proof -
  have v: "validate_domain_name (\<lambda>_. None) '' Acme.COM. '' = Inr ''acme.com''" by code_simp
  moreover have "newline \<notin> set ''acme.com''" by (simp add: newline_def)
  ultimately show ?thesis using validate_domain_name_canonical by blast
qed

text \<open>
  The label pattern ends in \<open>$\<close>, which also matches before a final newline, so a domain whose
  inner label ends in a newline is accepted, and the same domain with a trailing dot is accepted
  with a newline at its end.
\<close>

theorem domain_name_accepts_newline:
  "validate_domain_name idna (''exam'' @ [newline] @ ''.com'') = Inr (''exam'' @ [newline] @ ''.com'') \<and>
   validate_domain_name idna (''exam.com'' @ [newline] @ ''.'') = Inr (''exam.com'' @ [newline])"
  by (simp add: validate_domain_name_def clean_domain_def idna_encode_def is_ascii_def code_def newline_def
      py_strip_def lstrip_by_def rstrip_by_def rstrip_dots_def py_isspace_def py_lower_def lower_char_def
      DOMAIN_LABEL_def dollar_match_def label_body_def is_az09_def Let_def)

text \<open>
  Validating an accepted address again returns it unchanged, when its domain is free of
  newlines and Frappe's own check accepts what was returned: addresses are stored in one form, so
  comparing them as text compares mailboxes.
\<close>

theorem validate_email_address_idempotent:
  assumes "validate_email_address idna fv value = Inr e" and "fv e" and "newline \<notin> set (domain_part e)"
  shows "validate_email_address idna fv e = Inr e \<and> proper_domain (domain_part e)"
proof -
  obtain l d rest where e: "e = l @ ''@'' @ d" and l: "CHR ''@'' \<notin> set l" "CHR ''%'' \<notin> set l" "CHR ''/'' \<notin> set l"
    "py_lower l = l" "l = [] \<or> \<not> py_isspace (hd l)" and d: "validate_domain_name idna rest = Inr d"
    by (rule validate_email_shape [OF assms(1)])
  have parts: "local_part e = l" "domain_part e = d" using l(1) by (simp_all add: e)
  have proper: "proper_domain d" using validate_domain_name_proper [OF d] assms(3) by (simp add: parts)
  have chars: "is_az09 x \<or> x = CHR ''-'' \<or> x = CHR ''.''" if "x \<in> set d" for x
    using proper_domain_chars [OF proper that] .
  have at: "CHR ''@'' \<notin> set d" using chars [of "CHR ''@''"] by (auto simp: is_az09_def code_def)
  have "py_strip e = e"
  proof (rule py_strip_id, rule disjI2, rule conjI)
    have "\<not> py_isspace (CHR ''@'')" by (simp add: py_isspace_def code_def)
    then show "\<not> py_isspace (hd e)" using l(5) by (cases l) (simp_all add: e)
    show "\<not> py_isspace (last e)"
      using proper_domain_ends [OF proper] is_az09_not_space by (auto simp: e)
  qed
  moreover have "py_lower d = d"
    unfolding py_lower_def using chars is_az09_lower by (intro map_idI) blast
  then have "py_lower e = e" using l(4) by (simp add: e py_lower_def lower_char_def code_def)
  moreover have "count_list e (CHR ''@'') = 1" using l(1) at by (simp add: e count_notin)
  ultimately show ?thesis
    using assms(2) l parts proper_domain_validates [OF proper] proper
    by (simp add: validate_email_address_def e)
qed

theorem validate_email_address_idempotent_witness:
  "validate_email_address (\<lambda>_. None) (\<lambda>_. True) ''bob@acme.com'' = Inr ''bob@acme.com''"
proof -
  have v: "validate_email_address (\<lambda>_. None) (\<lambda>_. True) '' Bob@Acme.com.'' = Inr ''bob@acme.com''" by code_simp
  have n: "newline \<notin> set (domain_part ''bob@acme.com'')" by (simp add: domain_part_def newline_def)
  show ?thesis using validate_email_address_idempotent [OF v TrueI n] by simp
qed

text \<open>
  C23. No tenant can route mail into another tenant: addresses pass the delivery check exactly when
  none of their domains is a mail domain that another tenant holds, and an address of the refused
  kind is answered as one that does not exist.
\<close>

theorem addresses_deliverable_isolated:
  assumes "list_all (\<lambda>e. CHR ''@'' \<in> set e) emails"
  shows "(assert_addresses_deliverable b tenant emails = Inr () \<longleftrightarrow>
      \<not> (\<exists>e\<in>set emails. \<exists>d\<in>set (domains b). d_name d = domain_part e \<and> d_tenant d \<noteq> tenant)) \<and>
    (\<forall>x. assert_addresses_deliverable b tenant emails = Inl x \<longrightarrow>
      (\<exists>e\<in>set emails. \<exists>d\<in>set (domains b). d_name d = domain_part e \<and> d_tenant d \<noteq> tenant \<and> x = DoesNotExistError e))"
proof -
  let ?wanted = "map domain_part emails"
  let ?foreign = "map d_name (filter (\<lambda>d. d_name d \<in> set ?wanted \<and> d_tenant d \<noteq> tenant) (domains b))"
  let ?off = "filter (\<lambda>e. domain_part e \<in> set ?foreign) emails"
  have all: "filter (\<lambda>e. CHR ''@'' \<in> set e) emails = emails" "\<not> list_ex (\<lambda>e. CHR ''@'' \<notin> set e) emails"
    using assms by (auto simp: list_all_iff list_ex_iff filter_id_conv)
  have eq: "assert_addresses_deliverable b tenant emails =
      (if ?foreign = [] then Inr () else Inl (DoesNotExistError (hd (sort ?off))))"
    unfolding assert_addresses_deliverable_def Let_def all using all(2) by auto
  have some: "hd (sort ?off) \<in> set ?off" if "?foreign \<noteq> []"
  proof -
    from that obtain d where d: "d \<in> set (domains b)" "d_name d \<in> set ?wanted" "d_tenant d \<noteq> tenant"
      by (auto simp: filter_empty_conv)
    then obtain e where "e \<in> set emails" "domain_part e = d_name d" by auto
    with d have "e \<in> set ?off" by force
    then have "?off \<noteq> []" by (metis empty_iff empty_set)
    then show ?thesis by (rule hd_sort_in)
  qed
  define h where "h = hd (sort ?off)"
  have h: "h \<in> set emails \<and> (\<exists>d\<in>set (domains b). d_name d = domain_part h \<and> d_tenant d \<noteq> tenant)"
    if "?foreign \<noteq> []"
    using some [OF that] unfolding h_def [symmetric] by auto
  have none: "?foreign = [] \<longleftrightarrow>
      \<not> (\<exists>e\<in>set emails. \<exists>d\<in>set (domains b). d_name d = domain_part e \<and> d_tenant d \<noteq> tenant)"
    by (auto simp: filter_empty_conv)
  show ?thesis
    unfolding eq h_def [symmetric] using h none by (cases "?foreign = []") (simp_all only: if_True if_False, auto)
qed

theorem addresses_deliverable_isolated_witness:
  "let d = \<lparr>d_name = ''acme.com'', d_tenant = ''t1'', d_cluster = ''c'', d_enabled = True, d_is_verified = True,
        d_hosted = False, d_stalwart_id = None\<rparr>;
       b = \<lparr>domains = [d], addresses = [], alias_rows = [], dns_zones = [], site_rows = [], tenant_mail_zone = None\<rparr>
   in assert_addresses_deliverable b ''t1'' [''bob@acme.com''] = Inr () \<and>
      assert_addresses_deliverable b ''t2'' [''bob@acme.com''] \<noteq> Inr ()"
proof -
  let ?d = "\<lparr>d_name = ''acme.com'', d_tenant = ''t1'', d_cluster = ''c'', d_enabled = True, d_is_verified = True,
        d_hosted = False, d_stalwart_id = None\<rparr>"
  let ?b = "\<lparr>domains = [?d], addresses = [], alias_rows = [], dns_zones = [], site_rows = [], tenant_mail_zone = None\<rparr>"
  have "list_all (\<lambda>e. CHR ''@'' \<in> set e) [''bob@acme.com'']" by simp
  from addresses_deliverable_isolated [OF this, of ?b "''t1''"] addresses_deliverable_isolated [OF this, of ?b "''t2''"]
  show ?thesis by (simp add: domain_part_def)
qed

end
