(* ===== verification/Labels.thy ===== *)
theory Labels
  imports Addresses
begin

text \<open>
  The labels that name a tenant's site and mail domain (src/suite_cloud/hosting/labels.py) and the
  hostnames a cluster hands out (src/suite_cloud/mail/cluster/naming.py).

  \<open>nfkd\<close> is \<open>unicodedata.normalize("NFKD", ...)\<close>.  The tables and settings the label rules read are
  the fields of \<open>label_state\<close>; a setting that is empty is \<open>None\<close>.
\<close>

section \<open>State\<close>

datatype request_status =
    RPending | RVerified | RProcessing | RCompleted | RFailed | RExpired

record request_row =
  q_name :: string
  q_label :: "string option"
  q_status :: request_status
  q_organization :: string
  q_tenant :: "string option"

record label_state =
  cluster_labels :: "string list"
  sites_tab :: "site_row list"
  requests_tab :: "request_row list"
  mail_domains :: "mail_domain list"
  record_hosts :: "(string \<times> string) list"
  site_dns_zone :: "string option"
  mail_zone :: "string option"

definition GENERATED_LENGTH :: nat where "GENERATED_LENGTH = 30"
definition SHARED_ZONE_LABEL :: string where "SHARED_ZONE_LABEL = ''sites''"

definition RESERVED :: "string list" where
  "RESERVED = [''admin'', ''atlas'', ''cargo'', ''proxy'', ''site'', ''www'', ''mail'', ''spf'', ''out'', SHARED_ZONE_LABEL]"

definition OPEN_STATUSES :: "request_status list" where
  "OPEN_STATUSES = [RPending, RVerified, RProcessing]"

definition LEGAL_SUFFIXES :: "string list" where
  "LEGAL_SUFFIXES = [''inc'', ''llc'', ''llp'', ''ltd'', ''limited'', ''pvt'', ''private'', ''corp'', ''co'',
     ''gmbh'', ''plc'', ''ag'', ''bv'', ''sa'']"

section \<open>Names\<close>

definition validate_label :: "string option \<Rightarrow> string res" where
  "validate_label label =
     (let label = py_lower (py_strip (case label of None \<Rightarrow> '''' | Some l \<Rightarrow> l))
      in if DOMAIN_LABEL label then Inr label else Inl (ValidationError label))"

definition site_domain :: "label_state \<Rightarrow> string \<Rightarrow> string option" where
  "site_domain st label =
     (case site_dns_zone st of None \<Rightarrow> None
      | Some zone \<Rightarrow> Some (if mail_zone st = Some zone then label @ ''.'' @ SHARED_ZONE_LABEL @ ''.'' @ zone
                          else label @ ''.'' @ zone))"

definition mail_domain :: "label_state \<Rightarrow> string \<Rightarrow> string option" where
  "mail_domain st label = (case mail_zone st of None \<Rightarrow> None | Some zone \<Rightarrow> Some (label @ ''.'' @ zone))"

definition login_local_part :: "string \<Rightarrow> string" where
  "login_local_part email = fst (partition_at (CHR ''+'') (fst (partition_at (CHR ''@'') email)))"

text \<open>\<open>.\<close> matches any character but a newline.\<close>

definition reserved_body :: "string \<Rightarrow> bool" where
  "reserved_body s \<longleftrightarrow>
     (prefix ''spf'' s \<and> drop 3 s \<noteq> [] \<and> list_all py_isdigit (drop 3 s)) \<or>
     (newline \<notin> set s \<and> (prefix ''proxy-'' s \<or> prefix ''site-'' s \<or> sublist ''-vm-'' s))"

definition is_reserved :: "string \<Rightarrow> bool" where
  "is_reserved label \<longleftrightarrow> label \<in> set RESERVED \<or> dollar_match reserved_body label"

text \<open>\<open>re.findall(r"[a-z0-9]+", text)\<close>.\<close>

fun find_words :: "string \<Rightarrow> string \<Rightarrow> string list" where
  "find_words acc [] = (if acc = [] then [] else [acc])"
| "find_words acc (c # cs) =
     (if is_az09 c then find_words (acc @ [c]) cs
      else if acc = [] then find_words [] cs else acc # find_words [] cs)"

text \<open>The \<open>while\<close> loop that pops legal suffixes, on the reversed list of words.\<close>

fun pop_legal :: "string list \<Rightarrow> string list" where
  "pop_legal (w # v # ws) = (if w \<in> set LEGAL_SUFFIXES then pop_legal (v # ws) else w # v # ws)"
| "pop_legal ws = ws"

fun join_rest :: "nat \<Rightarrow> string \<Rightarrow> string list \<Rightarrow> string" where
  "join_rest n label [] = label"
| "join_rest n label (w # ws) =
     (if length label + 1 + length w > n then label else join_rest n (label @ ''-'' @ w) ws)"

definition join_within :: "string list \<Rightarrow> nat \<Rightarrow> string" where
  "join_within ws n = join_rest n (take n (hd ws)) (tl ws)"

definition label_words :: "(string \<Rightarrow> string) \<Rightarrow> string \<Rightarrow> string list" where
  "label_words nfkd organization =
     (let text = py_lower (filter (\<lambda>c. code c < 128) (nfkd organization));
          words = (case find_words [] text of [] \<Rightarrow> [''workspace''] | ws \<Rightarrow> ws);
          words = rev (pop_legal (rev words))
      in if length words > 1
         then (case filter (\<lambda>w. w \<noteq> ''vm'') words of [] \<Rightarrow> [''vm''] | ws \<Rightarrow> ws)
         else words)"

definition label_from :: "(string \<Rightarrow> string) \<Rightarrow> string \<Rightarrow> string" where
  "label_from nfkd organization =
     (let words = label_words nfkd organization; label = join_within words GENERATED_LENGTH
      in if is_reserved label then join_within (''team'' # words) GENERATED_LENGTH else label)"

section \<open>Availability\<close>

definition relative_host :: "string \<Rightarrow> string \<Rightarrow> string res" where
  "relative_host fqdn zone =
     (if suffix (''.'' @ zone) fqdn then Inr (drop_suffix (length (''.'' @ zone)) fqdn)
      else Inl (ValidationError fqdn))"

definition has_records :: "label_state \<Rightarrow> string \<Rightarrow> string \<Rightarrow> bool" where
  "has_records st zone host \<longleftrightarrow>
     list_ex (\<lambda>(z, h). z = zone \<and> (h = host \<or> suffix (''.'' @ host) h)) (record_hosts st)"

definition is_domain_held :: "label_state \<Rightarrow> string \<Rightarrow> string \<Rightarrow> string option \<Rightarrow> bool res" where
  "is_domain_held st domain zone tenant =
     (if list_ex (\<lambda>d. d_name d = domain \<and> Some (d_tenant d) = tenant \<and> d_hosted d) (mail_domains st)
      then Inr False
      else if list_ex (\<lambda>d. d_name d = domain) (mail_domains st) then Inr True
      else rbind (relative_host domain zone) (\<lambda>host. Inr (has_records st zone host)))"

definition domain_taken :: "label_state \<Rightarrow> string option \<Rightarrow> string option \<Rightarrow> string option \<Rightarrow> bool res" where
  "domain_taken st domain zone tenant =
     (case (domain, zone) of (Some d, Some z) \<Rightarrow> is_domain_held st d z tenant | _ \<Rightarrow> Inr False)"

definition is_taken ::
  "label_state \<Rightarrow> string \<Rightarrow> string option \<Rightarrow> string option \<Rightarrow> request_status list \<Rightarrow> bool res" where
  "is_taken st label request tenant holders =
     (if label \<in> set (cluster_labels st) then Inr True
      else if list_ex (\<lambda>s. s_label s = label \<and> \<not> s_dropped s) (sites_tab st) then Inr True
      else if list_ex (\<lambda>q. q_label q = Some label \<and> q_status q \<in> set holders \<and> Some (q_name q) \<noteq> request)
                (requests_tab st) then Inr True
      else rbind (domain_taken st (site_domain st label) (site_dns_zone st) tenant)
             (\<lambda>held. if held then Inr True
                     else domain_taken st (mail_domain st label) (mail_zone st) tenant))"

definition assert_label_available ::
  "label_state \<Rightarrow> string \<Rightarrow> string option \<Rightarrow> string option \<Rightarrow> request_status list \<Rightarrow> unit res" where
  "assert_label_available st label request tenant holders =
     (if is_reserved label then Inl (LabelNotAvailableError label)
      else rbind (is_taken st label request tenant holders)
             (\<lambda>taken. require (\<not> taken) (LabelNotAvailableError label)))"

definition candidate :: "string \<Rightarrow> nat \<Rightarrow> string" where
  "candidate base number =
     (if number = 1 then base
      else let suf = ''-'' @ show_nat number
           in join_within (split_on (CHR ''-'') base) (GENERATED_LENGTH - length suf) @ suf)"

fun first_free :: "label_state \<Rightarrow> string option \<Rightarrow> string \<Rightarrow> nat list \<Rightarrow> string option res" where
  "first_free st request base [] = Inr None"
| "first_free st request base (n # ns) =
     (let label = candidate base n in
      if is_reserved label then first_free st request base ns
      else rbind (is_taken st label request None OPEN_STATUSES)
             (\<lambda>taken. if taken then first_free st request base ns else Inr (Some label)))"

definition generate_label ::
  "(string \<Rightarrow> string) \<Rightarrow> label_state \<Rightarrow> string \<Rightarrow> string option \<Rightarrow> string res" where
  "generate_label nfkd st organization request =
     rbind (first_free st request (label_from nfkd organization) [1..<100])
       (\<lambda>found. case found of Some label \<Rightarrow> Inr label | None \<Rightarrow> Inl (LabelNotAvailableError organization))"

definition hold_label :: "string \<Rightarrow> string \<Rightarrow> request_row list \<Rightarrow> request_row list" where
  "hold_label name label qs =
     map (\<lambda>q. if q_name q = name then q\<lparr>q_label := Some label, q_status := RProcessing\<rparr> else q) qs"

text \<open>
  \<open>reserve_label\<close> under its lock: one request at a time, committed before the next, so the whole of
  it is one step.  An empty label is no label.
\<close>

definition reserve_label ::
  "(string \<Rightarrow> string) \<Rightarrow> request_row \<Rightarrow> label_state \<Rightarrow> (string \<times> label_state) res" where
  "reserve_label nfkd request st =
     rbind (case q_label request of
              Some label \<Rightarrow>
                if label = [] then generate_label nfkd st (q_organization request) (Some (q_name request))
                else rbind (assert_label_available st label (Some (q_name request)) (q_tenant request) [RProcessing])
                       (\<lambda>_. Inr label)
            | None \<Rightarrow> generate_label nfkd st (q_organization request) (Some (q_name request)))
       (\<lambda>label. Inr (label, st\<lparr>requests_tab := hold_label (q_name request) label (requests_tab st)\<rparr>))"

section \<open>Hostnames of a cluster\<close>

definition label_number :: "string \<Rightarrow> string \<Rightarrow> nat option" where
  "label_number pre label =
     (if dollar_match (\<lambda>s. prefix pre s \<and> drop (length pre) s \<noteq> [] \<and> list_all py_isdigit (drop (length pre) s)) label
      then Some (read_nat (filter py_isdigit (drop (length pre) label))) else None)"

definition next_label :: "string \<Rightarrow> string list \<Rightarrow> string" where
  "next_label pre taken = pre @ show_nat (foldr max (List.map_filter (label_number pre) taken) 0 + 1)"

definition first_label :: "string \<Rightarrow> string" where
  "first_label hostname = fst (partition_at (CHR ''.'') hostname)"

definition next_hostname :: "string \<Rightarrow> string list \<Rightarrow> string \<Rightarrow> string" where
  "next_hostname default_domain hostnames pre =
     next_label pre (map first_label hostnames) @ ''.'' @ default_domain"

definition next_pool_name :: "string list \<Rightarrow> string" where
  "next_pool_name pool_names = next_label ''p'' pool_names"

text \<open>The rows of a pool: each address's EHLO host name, empty until it is named.\<close>

fun name_rows :: "string \<Rightarrow> string \<Rightarrow> string list \<Rightarrow> string list \<Rightarrow> string list" where
  "name_rows pre default_domain taken [] = []"
| "name_rows pre default_domain taken (h # hs) =
     (if h \<noteq> [] then h # name_rows pre default_domain taken hs
      else let label = next_label pre taken
           in (label @ ''.'' @ default_domain) # name_rows pre default_domain (taken @ [label]) hs)"

definition assign_ehlo_hostnames :: "string \<Rightarrow> string \<Rightarrow> string list \<Rightarrow> string list" where
  "assign_ehlo_hostnames pool_name default_domain hostnames =
     name_rows (pool_name @ ''-'') default_domain (map first_label (filter (\<lambda>h. h \<noteq> []) hostnames)) hostnames"

definition next_cluster_label :: "string list \<Rightarrow> string \<Rightarrow> string" where
  "next_cluster_label taken region =
     (if taken = [] then region
      else next_label (region @ ''-'') (map (\<lambda>l. if l = region then region @ ''-1'' else l) taken))"

section \<open>Laws of the names\<close>

lemma split_on_append_gen: "split_on c (a @ c # s) = split_on c a @ split_on c s"
proof (induction a)
  case (Cons x a)
  obtain p ps where "split_on c a = p # ps" by (meson split_on_not_Nil neq_Nil_conv)
  with Cons show ?case by auto
qed simp

lemma vm_part: "sublist ''-vm-'' s \<Longrightarrow> ''vm'' \<in> set (split_on (CHR ''-'') s)"
proof -
  assume "sublist ''-vm-'' s"
  then obtain a b where "s = a @ ''-vm-'' @ b" by (auto simp: sublist_def)
  then have "s = a @ CHR ''-'' # (''vm'' @ CHR ''-'' # b)" by simp
  then show ?thesis by (simp only: split_on_append_gen) (simp add: split_on_append_gen)
qed

text \<open>A word: letters and digits, at least one.\<close>

definition is_word :: "string \<Rightarrow> bool" where
  "is_word w \<longleftrightarrow> w \<noteq> [] \<and> list_all is_az09 w"

lemma is_word_no_dash: "is_word w \<Longrightarrow> CHR ''-'' \<notin> set w"
  by (auto simp: is_word_def list_all_iff dest!: is_az09_not)

lemma find_words_words: "list_all is_az09 acc \<Longrightarrow> list_all is_word (find_words acc s)"
  by (induction acc s rule: find_words.induct) (auto simp: is_word_def)

lemma pop_legal_nonempty: "ws \<noteq> [] \<Longrightarrow> pop_legal ws \<noteq> []"
  by (induction ws rule: pop_legal.induct) auto

lemma set_pop_legal: "set (pop_legal ws) \<subseteq> set ws"
  by (induction ws rule: pop_legal.induct) auto

lemma join_rest_split:
  "\<exists>k. join_rest n label ws = join_with (CHR ''-'') (label # take k ws) \<and>
       (length label \<le> n \<longrightarrow> length (join_rest n label ws) \<le> n)"
proof (induction ws arbitrary: label)
  case Nil
  then show ?case by simp
next
  case (Cons w ws)
  show ?case
  proof (cases "length label + 1 + length w > n")
    case True
    then show ?thesis by (intro exI [of _ 0]) simp
  next
    case False
    then obtain k where k: "join_rest n (label @ ''-'' @ w) ws = join_with (CHR ''-'') ((label @ ''-'' @ w) # take k ws)"
      "length (join_rest n (label @ ''-'' @ w) ws) \<le> n"
      using Cons.IH [of "label @ ''-'' @ w"] by auto
    have "join_with (CHR ''-'') ((label @ ''-'' @ w) # vs) = join_with (CHR ''-'') (label # w # vs)" for vs
      by (cases vs) simp_all
    with k False show ?thesis by (intro exI [of _ "Suc k"]) auto
  qed
qed

lemma join_within_split:
  "\<exists>k. join_within ws n = join_with (CHR ''-'') (take n (hd ws) # take k (tl ws)) \<and> length (join_within ws n) \<le> n"
  using join_rest_split [of n "take n (hd ws)" "tl ws"] by (auto simp: join_within_def)

lemma join_words_body:
  assumes "list_all is_word ws" "ws \<noteq> []" "length (join_with (CHR ''-'') ws) \<le> 63"
  shows "label_body (join_with (CHR ''-'') ws)"
proof -
  have ends: "join_with (CHR ''-'') vs \<noteq> [] \<and> is_az09 (hd (join_with (CHR ''-'') vs)) \<and>
      is_az09 (last (join_with (CHR ''-'') vs))"
    if "list_all is_word vs" "vs \<noteq> []" for vs
    using that
  proof (induction vs)
    case (Cons v vs)
    then show ?case
      by (cases "vs = []") (auto simp: join_with_Cons is_word_def list_all_iff hd_append)
  qed simp
  have "list_all (\<lambda>c. is_az09 c \<or> c = CHR ''-'') (join_with (CHR ''-'') ws)"
    using set_join_with [of "CHR ''-''" ws] assms(1) by (fastforce simp: list_all_iff is_word_def)
  then show ?thesis
    using ends [OF assms(1,2)] assms(3) is_az09_not by (auto simp: label_body_def)
qed

lemma join_within_body:
  assumes "list_all is_word ws" "ws \<noteq> []" "0 < n" "n \<le> 63"
  shows "label_body (join_within ws n) \<and> length (join_within ws n) \<le> n"
proof -
  obtain k where k: "join_within ws n = join_with (CHR ''-'') (take n (hd ws) # take k (tl ws))"
    and len: "length (join_within ws n) \<le> n"
    using join_within_split by blast
  have "is_word (take n (hd ws))"
    using assms by (cases ws) (auto simp: is_word_def list_all_iff dest: in_set_takeD)
  moreover have "list_all is_word (take k (tl ws))"
    using assms by (cases ws) (auto simp: list_all_iff dest: in_set_takeD)
  ultimately show ?thesis using k len assms(4) by (simp add: join_words_body)
qed

lemma join_within_parts:
  assumes "list_all is_word ws" "ws \<noteq> []"
  shows "\<exists>k. split_on (CHR ''-'') (join_within ws n) = take n (hd ws) # take k (tl ws)"
proof -
  obtain k where k: "join_within ws n = join_with (CHR ''-'') (take n (hd ws) # take k (tl ws))"
    using join_within_split by blast
  have "CHR ''-'' \<notin> set p" if "p \<in> set (take n (hd ws) # take k (tl ws))" for p
    using that assms is_word_no_dash
    by (cases ws) (auto simp: list_all_iff dest!: in_set_takeD)
  with k show ?thesis by (metis split_join_with list.distinct(1))
qed

lemma label_words_ok:
  "label_words nfkd org \<noteq> [] \<and> list_all is_word (label_words nfkd org) \<and>
     (''vm'' \<in> set (label_words nfkd org) \<longrightarrow> label_words nfkd org = [''vm''])"
proof -
  let ?text = "py_lower (filter (\<lambda>c. code c < 128) (nfkd org))"
  define ws where "ws = (case find_words [] ?text of [] \<Rightarrow> [''workspace''] | ws \<Rightarrow> ws)"
  have "list_all is_word (find_words [] ?text)" by (rule find_words_words) simp
  then have ws: "ws \<noteq> []" "list_all is_word ws"
    by (auto simp: ws_def is_word_def is_az09_def code_def split: list.splits)
  let ?vs = "rev (pop_legal (rev ws))"
  have vs: "?vs \<noteq> []" "list_all is_word ?vs"
    using ws pop_legal_nonempty [of "rev ws"] set_pop_legal [of "rev ws"] by (auto simp: list_all_iff)
  have eq: "label_words nfkd org = (if length ?vs > 1
      then (case filter (\<lambda>w. w \<noteq> ''vm'') ?vs of [] \<Rightarrow> [''vm''] | ws \<Rightarrow> ws) else ?vs)"
    by (simp add: label_words_def Let_def ws_def)
  have vm: "is_word ''vm''" by (simp add: is_word_def is_az09_def code_def)
  show ?thesis
  proof (cases "length ?vs > 1")
    case True
    let ?fs = "filter (\<lambda>w. w \<noteq> ''vm'') ?vs"
    have fs: "list_all is_word ?fs" "''vm'' \<notin> set ?fs" using vs(2) by (auto simp: list_all_iff)
    from True have eq': "label_words nfkd org = (case ?fs of [] \<Rightarrow> [''vm''] | ws \<Rightarrow> ws)" by (simp only: eq if_True)
    show ?thesis
    proof (cases ?fs)
      case Nil
      then show ?thesis unfolding eq' using vm by simp
    next
      case (Cons a as)
      then show ?thesis unfolding eq' using fs unfolding Cons by simp
    qed
  next
    case False
    then obtain v where "?vs = [v]" using vs(1) by (cases ?vs) auto
    then show ?thesis using vs(2) False by (simp add: eq)
  qed
qed

lemma label_body_no_newline: "label_body s \<Longrightarrow> newline \<notin> set s"
  by (auto simp: label_body_def list_all_iff newline_def is_az09_def code_def)

lemma team_not_reserved:
  assumes "list_all is_word ws" "ws \<noteq> []" "''vm'' \<notin> set ws"
  shows "\<not> is_reserved (join_within (''team'' # ws) GENERATED_LENGTH)" (is "\<not> is_reserved ?l")
proof -
  have team: "is_word ''team''" by (simp add: is_word_def is_az09_def code_def)
  have words: "list_all is_word (''team'' # ws)" using team assms(1) by simp
  have body: "label_body ?l" using join_within_body [OF words] by (simp add: GENERATED_LENGTH_def)
  obtain k where k: "?l = join_with (CHR ''-'') (''team'' # take k ws)"
    using join_within_split [of "''team'' # ws" GENERATED_LENGTH] by (auto simp: GENERATED_LENGTH_def)
  then have pre: "take 4 ?l = ''team''" by (cases "take k ws") simp_all
  have "''vm'' \<notin> set (split_on (CHR ''-'') ?l)"
    using join_within_parts [OF words, of GENERATED_LENGTH] assms(3)
    by (auto simp: GENERATED_LENGTH_def dest: in_set_takeD)
  then have vm: "\<not> sublist ''-vm-'' ?l" using vm_part by blast
  have "\<not> prefix q ?l" if "take 4 q \<noteq> ''team''" "4 \<le> length q" for q
  proof
    assume "prefix q ?l"
    then obtain r where "?l = q @ r" by (auto simp: prefix_def)
    then have "take 4 ?l = take 4 q" using that(2) by simp
    with pre that(1) show False by simp
  qed
  from this [of "''proxy-''"] this [of "''site-''"] have "\<not> prefix ''proxy-'' ?l" "\<not> prefix ''site-'' ?l" by simp_all
  moreover have "\<not> prefix ''spf'' ?l" using pre by (cases ?l) (auto simp: prefix_def)
  moreover have "?l \<notin> set RESERVED"
    using pre by (auto simp: RESERVED_def SHARED_ZONE_LABEL_def)
  ultimately show ?thesis
    using vm dollar_match_no_newline [OF label_body_no_newline [OF body]]
    by (simp add: is_reserved_def reserved_body_def)
qed

lemma vm_not_reserved: "\<not> is_reserved (join_within [''vm''] GENERATED_LENGTH)"
  by (simp add: join_within_def GENERATED_LENGTH_def is_reserved_def RESERVED_def SHARED_ZONE_LABEL_def
      dollar_match_def reserved_body_def newline_def sublist_def)

lemma label_from_ok:
  "label_body (label_from nfkd org) \<and> length (label_from nfkd org) \<le> GENERATED_LENGTH \<and>
     \<not> is_reserved (label_from nfkd org) \<and>
     (\<exists>ws. ws \<noteq> [] \<and> list_all is_word ws \<and> label_from nfkd org = join_with (CHR ''-'') ws)"
proof -
  let ?ws = "label_words nfkd org"
  note ok = label_words_ok [of nfkd org]
  have len: "0 < GENERATED_LENGTH" "GENERATED_LENGTH \<le> 63" by (simp_all add: GENERATED_LENGTH_def)
  have shape: "label_body (join_within ws GENERATED_LENGTH) \<and> length (join_within ws GENERATED_LENGTH) \<le> GENERATED_LENGTH \<and>
      (\<exists>vs. vs \<noteq> [] \<and> list_all is_word vs \<and> join_within ws GENERATED_LENGTH = join_with (CHR ''-'') vs)"
    if ws: "list_all is_word ws" "ws \<noteq> []" for ws
  proof -
    obtain k where k: "join_within ws GENERATED_LENGTH = join_with (CHR ''-'') (take GENERATED_LENGTH (hd ws) # take k (tl ws))"
      using join_within_split by blast
    have "list_all is_word (take GENERATED_LENGTH (hd ws) # take k (tl ws))"
      using ws len by (cases ws) (auto simp: is_word_def list_all_iff dest: in_set_takeD)
    with k join_within_body [OF ws len] show ?thesis by blast
  qed
  have team: "is_word ''team''" by (simp add: is_word_def is_az09_def code_def)
  show ?thesis
  proof (cases "is_reserved (join_within ?ws GENERATED_LENGTH)")
    case True
    with vm_not_reserved ok have "''vm'' \<notin> set ?ws" by auto
    with True ok team_not_reserved [of ?ws] shape [of "''team'' # ?ws"] team show ?thesis
      by (simp add: label_from_def Let_def)
  next
    case False
    with ok shape [of ?ws] show ?thesis by (simp add: label_from_def Let_def)
  qed
qed

section \<open>Laws of the generated labels\<close>

lemma candidate_ok:
  assumes "label_body base" "length base \<le> GENERATED_LENGTH"
    and "base = join_with (CHR ''-'') ws" "ws \<noteq> []" "list_all is_word ws" "1 \<le> n" "n < 100"
  shows "label_body (candidate base n) \<and> length (candidate base n) \<le> GENERATED_LENGTH"
proof (cases "n = 1")
  case True
  with assms show ?thesis by (simp add: candidate_def)
next
  case False
  let ?d = "show_nat n"
  have parts: "split_on (CHR ''-'') base = ws"
    unfolding assms(3) using assms(4,5) is_word_no_dash by (intro split_join_with) (auto simp: list_all_iff)
  have dlen: "1 \<le> length ?d" "length ?d \<le> 2"
    using assms(7) by (auto simp: show_nat.simps [of n] show_nat.simps [of "n div 10"])
  have dword: "is_word ?d"
    using show_nat_digits by (auto simp: is_word_def list_all_iff is_az09_def py_isdigit_def)
  let ?m = "GENERATED_LENGTH - length (''-'' @ ?d)"
  have m: "0 < ?m" "?m \<le> 63" "?m + 1 + length ?d = GENERATED_LENGTH" using dlen by (auto simp: GENERATED_LENGTH_def)
  obtain k where k: "join_within ws ?m = join_with (CHR ''-'') (take ?m (hd ws) # take k (tl ws))"
    and len: "length (join_within ws ?m) \<le> ?m"
    using join_within_split by blast
  let ?vs = "take ?m (hd ws) # take k (tl ws)"
  have vs: "list_all is_word ?vs"
    using assms(4,5) m by (cases ws) (auto simp: is_word_def list_all_iff dest: in_set_takeD)
  have app: "join_with (CHR ''-'') xs @ ''-'' @ y = join_with (CHR ''-'') (xs @ [y])" if "xs \<noteq> []" for xs y
    using that
  proof (induction xs)
    case (Cons x xs)
    then show ?case by (cases "xs = []") (auto simp: join_with_Cons)
  qed simp
  have cand: "candidate base n = join_with (CHR ''-'') (?vs @ [?d])"
    using False k app [of ?vs ?d] by (simp add: candidate_def parts Let_def)
  have "length (candidate base n) \<le> GENERATED_LENGTH"
    using False len m(3) by (simp add: candidate_def parts Let_def)
  then show ?thesis
    using join_words_body [of "?vs @ [?d]"] vs dword unfolding cand by (simp add: GENERATED_LENGTH_def)
qed

lemma first_free_Some:
  "first_free st request base ns = Inr (Some label) \<Longrightarrow>
     \<exists>n\<in>set ns. label = candidate base n \<and> \<not> is_reserved label \<and> is_taken st label request None OPEN_STATUSES = Inr False"
  by (induction ns) (auto simp: Let_def split: if_splits)

lemma first_free_first:
  "first_free st request base ns = Inr (Some label) \<Longrightarrow>
     \<exists>ms n ks. ns = ms @ n # ks \<and> label = candidate base n \<and>
       (\<forall>m\<in>set ms. is_reserved (candidate base m) \<or> is_taken st (candidate base m) request None OPEN_STATUSES = Inr True)"
proof (induction ns)
  case (Cons n ns)
  let ?busy = "\<lambda>m. is_reserved (candidate base m) \<or> is_taken st (candidate base m) request None OPEN_STATUSES = Inr True"
  show ?case
  proof (cases "?busy n")
    case True
    with Cons.prems have "first_free st request base ns = Inr (Some label)"
      by (auto simp: Let_def split: if_splits)
    from Cons.IH [OF this] obtain ms k ks where "ns = ms @ k # ks" "label = candidate base k" "\<forall>m\<in>set ms. ?busy m"
      by blast
    with True show ?thesis by (intro exI [of _ "n # ms"]) auto
  next
    case False
    with Cons.prems have "label = candidate base n"
      by (auto simp: Let_def split: if_splits)
    then show ?thesis by (intro exI [of _ "[]"]) auto
  qed
qed simp

section \<open>Laws of the numbers\<close>

lemma label_number_own: "label_number pre (pre @ show_nat n) = Some n"
proof -
  have "list_all py_isdigit (show_nat n)" using show_nat_digits by (auto simp: list_all_iff)
  moreover from this have "filter py_isdigit (show_nat n) = show_nat n" by (simp add: filter_id_conv list_all_iff)
  ultimately show ?thesis by (simp add: label_number_def dollar_matchI)
qed

lemma foldr_max_upper: "x \<in> set xs \<Longrightarrow> x \<le> foldr max xs (0::nat)"
  by (induction xs) auto

lemma next_label_fresh: "next_label pre taken \<notin> set taken"
proof
  let ?ns = "List.map_filter (label_number pre) taken"
  assume "next_label pre taken \<in> set taken"
  moreover have "label_number pre (next_label pre taken) = Some (foldr max ?ns 0 + 1)"
    unfolding next_label_def by (rule label_number_own)
  ultimately have "foldr max ?ns 0 + 1 \<in> set ?ns"
    by (force simp: List.map_filter_def)
  from foldr_max_upper [OF this] show False by simp
qed

lemma show_nat_no_dot: "CHR ''.'' \<notin> set (show_nat n)"
  using show_nat_digits by (fastforce simp: py_isdigit_def code_def)

lemma first_label_own: "CHR ''.'' \<notin> set pre \<Longrightarrow> first_label (next_label pre taken @ ''.'' @ zn) = next_label pre taken"
proof -
  assume "CHR ''.'' \<notin> set pre"
  then have "CHR ''.'' \<notin> set (next_label pre taken)" using show_nat_no_dot by (simp add: next_label_def)
  then show ?thesis by (simp add: first_label_def partition_at_append)
qed

lemma name_rows_labels:
  assumes "CHR ''.'' \<notin> set pre"
  shows "l \<in> first_label ` set (name_rows pre zn taken hs) \<Longrightarrow>
    l \<in> first_label ` set (filter (\<lambda>h. h \<noteq> []) hs) \<or> l \<notin> set taken"
proof (induction hs arbitrary: taken)
  case (Cons h hs)
  show ?case
  proof (cases "h = []")
    case True
    let ?n = "next_label pre taken"
    from Cons.prems True consider "l = ?n" | "l \<in> first_label ` set (name_rows pre zn (taken @ [?n]) hs)"
      using first_label_own [OF assms, of taken zn] by (auto simp: Let_def)
    then show ?thesis
    proof cases
      case 1
      then show ?thesis using next_label_fresh by blast
    next
      case 2
      then show ?thesis using Cons.IH [of "taken @ [?n]"] True by auto
    qed
  next
    case False
    with Cons show ?thesis by auto
  qed
qed simp

lemma name_rows_distinct:
  assumes "CHR ''.'' \<notin> set pre"
  shows "first_label ` set (filter (\<lambda>h. h \<noteq> []) hs) \<subseteq> set taken \<Longrightarrow>
    distinct (map first_label (filter (\<lambda>h. h \<noteq> []) hs)) \<Longrightarrow>
    distinct (map first_label (name_rows pre zn taken hs))"
proof (induction hs arbitrary: taken)
  case (Cons h hs)
  show ?case
  proof (cases "h = []")
    case True
    let ?n = "next_label pre taken"
    have "?n \<notin> first_label ` set (name_rows pre zn (taken @ [?n]) hs)"
      using name_rows_labels [OF assms, of ?n zn "taken @ [?n]" hs] next_label_fresh [of pre taken] Cons.prems(1) True
      by auto
    then show ?thesis
      using Cons.IH [of "taken @ [?n]"] Cons.prems True first_label_own [OF assms, of taken zn] by (auto simp: Let_def)
  next
    case False
    have "first_label h \<notin> first_label ` set (name_rows pre zn taken hs)"
      using name_rows_labels [OF assms, of "first_label h" zn taken hs] Cons.prems False by auto
    then show ?thesis using Cons False by auto
  qed
qed simp

definition labels_unique :: "label_state \<Rightarrow> bool" where
  "labels_unique st \<longleftrightarrow>
     (\<forall>p\<in>set (requests_tab st). \<forall>q\<in>set (requests_tab st).
        q_status p = RProcessing \<and> q_status q = RProcessing \<and> q_label p \<noteq> None \<and> q_label p = q_label q \<longrightarrow>
        q_name p = q_name q)"

lemma is_taken_False:
  assumes "is_taken st label request tenant holders = Inr False"
  shows "label \<notin> set (cluster_labels st)"
    and "\<And>s. s \<in> set (sites_tab st) \<Longrightarrow> s_label s = label \<Longrightarrow> s_dropped s"
    and "\<And>q. q \<in> set (requests_tab st) \<Longrightarrow> q_label q = Some label \<Longrightarrow> q_status q \<in> set holders \<Longrightarrow>
      Some (q_name q) = request"
  using assms by (auto simp: is_taken_def list_ex_iff split: if_splits)

lemma reserve_label_checks:
  assumes "reserve_label nfkd request st = Inr (label, st')"
  shows "\<not> is_reserved label \<and> st' = st\<lparr>requests_tab := hold_label (q_name request) label (requests_tab st)\<rparr> \<and>
    (\<exists>tenant holders. RProcessing \<in> set holders \<and>
       is_taken st label (Some (q_name request)) tenant holders = Inr False)"
proof -
  have gen: "\<not> is_reserved l \<and> is_taken st l req None OPEN_STATUSES = Inr False"
    if "generate_label nfkd st org req = Inr l" for l org req
    using that first_free_Some by (auto simp: generate_label_def split: option.splits)
  have "RProcessing \<in> set OPEN_STATUSES" by (simp add: OPEN_STATUSES_def)
  then show ?thesis
    using assms gen unfolding reserve_label_def
    by (auto simp: assert_label_available_def split: option.splits if_splits)
      (fastforce intro: exI [of _ "[RProcessing]"])+
qed

section \<open>Properties\<close>

text \<open>
  The label made from an organization's name is always usable: a valid domain label of at most
  30 characters, never reserved, whatever the name and however Unicode normalisation maps it.
\<close>

theorem label_from_usable:
  "DOMAIN_LABEL (label_from nfkd organization) \<and> newline \<notin> set (label_from nfkd organization) \<and>
   length (label_from nfkd organization) \<le> 30 \<and> \<not> is_reserved (label_from nfkd organization)"
  using label_from_ok [of nfkd organization] label_body_no_newline
  by (auto simp: DOMAIN_LABEL_def GENERATED_LENGTH_def intro: dollar_matchI)

text \<open>
  A generated label is the first free one of the series acme, acme-2, acme-3 and so on: it is a
  valid label of at most 30 characters, neither reserved nor taken, and every earlier number of the
  series was.
\<close>

theorem generate_label_first_free:
  assumes "generate_label nfkd st organization request = Inr label"
  shows "\<exists>n. 1 \<le> n \<and> n < 100 \<and> label = candidate (label_from nfkd organization) n \<and>
      DOMAIN_LABEL label \<and> length label \<le> 30 \<and> \<not> is_reserved label \<and>
      is_taken st label request None OPEN_STATUSES = Inr False \<and>
      (\<forall>m. 1 \<le> m \<and> m < n \<longrightarrow> is_reserved (candidate (label_from nfkd organization) m) \<or>
         is_taken st (candidate (label_from nfkd organization) m) request None OPEN_STATUSES = Inr True)"
proof -
  let ?base = "label_from nfkd organization"
  from assms have free: "first_free st request ?base [1..<100] = Inr (Some label)"
    by (auto simp: generate_label_def split: option.splits)
  from first_free_first [OF free] obtain ms n ks where ns: "[1..<100] = ms @ n # ks" and n: "label = candidate ?base n"
    and busy: "\<forall>m\<in>set ms. is_reserved (candidate ?base m) \<or> is_taken st (candidate ?base m) request None OPEN_STATUSES = Inr True"
    by blast
  have n_def: "n = length ms + 1"
  proof -
    have "length ms < 99" using arg_cong [OF ns, of length] by simp
    then show ?thesis using nth_upt [of 1 "length ms" 100] arg_cong [OF ns, of "\<lambda>xs. xs ! length ms"] by simp
  qed
  have ms: "ms = [1..<n]"
  proof -
    have "ms = take (length ms) [1..<100]" using ns by simp
    also have "\<dots> = [1..<n]" using arg_cong [OF ns, of length] by (simp add: n_def take_upt)
    finally show ?thesis .
  qed
  have bound: "n \<in> set [1..<100]" using ns by (metis in_set_conv_decomp)
  obtain ws where "ws \<noteq> []" "list_all is_word ws" "?base = join_with (CHR ''-'') ws" "label_body ?base"
    "length ?base \<le> GENERATED_LENGTH" using label_from_ok [of nfkd organization] by blast
  then have "label_body label \<and> length label \<le> GENERATED_LENGTH"
    unfolding n using bound by (intro candidate_ok) auto
  moreover from first_free_Some [OF free] have "\<not> is_reserved label" "is_taken st label request None OPEN_STATUSES = Inr False"
    by auto
  ultimately show ?thesis
    using n bound busy ms
    by (intro exI [of _ n]) (auto simp: DOMAIN_LABEL_def GENERATED_LENGTH_def intro: dollar_matchI)
qed

theorem generate_label_first_free_witness:
  "let st = \<lparr>cluster_labels = [''acme''], sites_tab = [], requests_tab = [], mail_domains = [], record_hosts = [],
       site_dns_zone = Some ''suite.dev'', mail_zone = None\<rparr>
   in generate_label id st ''Acme Inc.'' None = Inr ''acme-2'' \<and> length ''acme-2'' \<le> 30"
proof -
  let ?st = "\<lparr>cluster_labels = [''acme''], sites_tab = [], requests_tab = [], mail_domains = [], record_hosts = [],
       site_dns_zone = Some ''suite.dev'', mail_zone = None\<rparr>"
  have g: "generate_label id ?st ''Acme Inc.'' None = Inr ''acme-2''" by code_simp
  show ?thesis unfolding Let_def using g generate_label_first_free [OF g] by blast
qed

text \<open>
  C21. No two requests ever hold one label: reserving, one request at a time, keeps the labels of the
  requests in processing distinct, and the label it returns is neither reserved nor the label of a
  cluster or of a site that has not been dropped.
\<close>

theorem reserve_label_unique:
  assumes "labels_unique st" and "reserve_label nfkd request st = Inr (label, st')"
  shows "labels_unique st' \<and> \<not> is_reserved label \<and> label \<notin> set (cluster_labels st) \<and>
    (\<forall>s\<in>set (sites_tab st). s_label s = label \<longrightarrow> s_dropped s) \<and>
    (\<forall>q\<in>set (requests_tab st'). q_name q = q_name request \<longrightarrow> q_label q = Some label \<and> q_status q = RProcessing)"
proof -
  from reserve_label_checks [OF assms(2)] obtain tenant holders
    where st': "st' = st\<lparr>requests_tab := hold_label (q_name request) label (requests_tab st)\<rparr>"
      and res: "\<not> is_reserved label" and proc: "RProcessing \<in> set holders"
      and free: "is_taken st label (Some (q_name request)) tenant holders = Inr False"
    by blast
  note f = is_taken_False [OF free]
  have "labels_unique st'"
    using assms(1) f(3) proc by (auto simp: labels_unique_def st' hold_label_def)
  then show ?thesis using f(1,2) res by (auto simp: st' hold_label_def)
qed

theorem reserve_label_unique_witness:
  "let q = \<lparr>q_name = ''r2'', q_label = None, q_status = RVerified, q_organization = ''Acme'', q_tenant = None\<rparr>;
       p = \<lparr>q_name = ''r1'', q_label = Some ''acme'', q_status = RProcessing, q_organization = ''Acme'', q_tenant = None\<rparr>;
       st = \<lparr>cluster_labels = [], sites_tab = [], requests_tab = [p, q], mail_domains = [], record_hosts = [],
         site_dns_zone = Some ''suite.dev'', mail_zone = None\<rparr>
   in (case reserve_label id q st of Inl _ \<Rightarrow> False | Inr (label, st') \<Rightarrow> label = ''acme-2'' \<and> labels_unique st')"
proof -
  let ?q = "\<lparr>q_name = ''r2'', q_label = None, q_status = RVerified, q_organization = ''Acme'', q_tenant = None\<rparr>"
  let ?p = "\<lparr>q_name = ''r1'', q_label = Some ''acme'', q_status = RProcessing, q_organization = ''Acme'', q_tenant = None\<rparr>"
  let ?st = "\<lparr>cluster_labels = [], sites_tab = [], requests_tab = [?p, ?q], mail_domains = [], record_hosts = [],
         site_dns_zone = Some ''suite.dev'', mail_zone = None\<rparr>"
  have g: "generate_label id ?st ''Acme'' (Some ''r2'') = Inr ''acme-2''" by code_simp
  obtain st' where r: "reserve_label id ?q ?st = Inr (''acme-2'', st')" by (simp add: reserve_label_def g)
  have "labels_unique ?st" by (simp add: labels_unique_def)
  from reserve_label_unique [OF this r] show ?thesis by (simp add: r)
qed

text \<open>
  Handed-out hostnames are never reused: the next label is none of those taken, its number is one
  past the highest in use, and naming a pool's addresses keeps every name already given and ends
  with all first labels distinct.
\<close>

theorem handed_out_names_fresh:
  assumes "CHR ''.'' \<notin> set pool_name" and "distinct (map first_label (filter (\<lambda>h. h \<noteq> []) hostnames))"
  shows "next_label pre taken \<notin> set taken \<and>
    (\<exists>n. label_number pre (next_label pre taken) = Some n \<and>
       (\<forall>l\<in>set taken. \<forall>m. label_number pre l = Some m \<longrightarrow> m < n)) \<and>
    distinct (map first_label (assign_ehlo_hostnames pool_name default_domain hostnames)) \<and>
    (\<forall>i<length hostnames. hostnames ! i \<noteq> [] \<longrightarrow>
       assign_ehlo_hostnames pool_name default_domain hostnames ! i = hostnames ! i)"
proof -
  have num: "label_number pre (next_label pre taken) = Some (foldr max (List.map_filter (label_number pre) taken) 0 + 1)"
    unfolding next_label_def by (rule label_number_own)
  have below: "m < foldr max (List.map_filter (label_number pre) taken) 0 + 1"
    if "l \<in> set taken" "label_number pre l = Some m" for l m
    using foldr_max_upper [of m "List.map_filter (label_number pre) taken"] that
    by (force simp: List.map_filter_def)
  have dot: "CHR ''.'' \<notin> set (pool_name @ ''-'')" using assms(1) by simp
  have dist: "distinct (map first_label (assign_ehlo_hostnames pool_name default_domain hostnames))"
    unfolding assign_ehlo_hostnames_def by (rule name_rows_distinct [OF dot]) (use assms(2) in auto)
  have keep: "hs ! i \<noteq> [] \<Longrightarrow> i < length hs \<Longrightarrow> name_rows p zn t hs ! i = hs ! i" for hs i p zn t
    by (induction hs arbitrary: i t) (auto simp: nth_Cons Let_def split: nat.splits)
  show ?thesis
    using next_label_fresh num below dist keep by (auto simp: assign_ehlo_hostnames_def)
qed

theorem handed_out_names_fresh_witness:
  "assign_ehlo_hostnames ''p1'' ''d.io'' [''p1-2.d.io'', '''', ''''] = [''p1-2.d.io'', ''p1-3.d.io'', ''p1-4.d.io''] \<and>
   distinct (map first_label [''p1-2.d.io'', ''p1-3.d.io'', ''p1-4.d.io''])"
proof -
  have e: "assign_ehlo_hostnames ''p1'' ''d.io'' [''p1-2.d.io'', '''', ''''] = [''p1-2.d.io'', ''p1-3.d.io'', ''p1-4.d.io'']"
    by code_simp
  have "CHR ''.'' \<notin> set ''p1''" "distinct (map first_label (filter (\<lambda>h. h \<noteq> []) [''p1-2.d.io'', '''', '''']))"
    by simp_all
  from handed_out_names_fresh [OF this, of "''n''" "[]" "''d.io''"] show ?thesis by (simp only: e)
qed

end
