(* ===== verification/Capacity.thy ===== *)
theory Capacity
  imports Machines Progress Labels
begin

text \<open>
  Where sites go (src/suite_cloud/hosting/capacity.py): the Suite Site and Suite Tenant Request rows, the
  slots of a server, a pool of ready sites per region and enough servers to hold them.

  The random part of a host name is drawn from \<open>tokens\<close>, the values the generator gives; drawing past
  its end is an error of its own, which a generator that gives a fresh value never reaches.  Rows
  are in order of creation.
\<close>

section \<open>Rows\<close>

record dns_need =
  dn_type :: string
  dn_fqdn :: string
  dn_value :: string

record domain_row =
  dr_domain :: string
  dr_status :: string
  dr_managed :: bool
  dr_is_primary :: bool
  dr_primary_skipped :: bool
  dr_records :: "dns_need list option"
  dr_fetched_at :: "int option"
  dr_task :: string
  dr_failure_reason :: string

record suite_site =
  ss_name :: string
  ss_creation :: int
  ss_region :: string
  ss_tenant :: string
  ss_label :: string
  ss_status :: string
  ss_virtual_machine :: string
  ss_hostname :: string
  ss_pilot_task :: string
  ss_attempts :: nat
  ss_site_created :: bool
  ss_suite_configured :: bool
  ss_activated_at :: "int option"
  ss_dropped_at :: "int option"
  ss_error :: string
  ss_assign_site_domain :: bool
  ss_domains :: "domain_row list"
  ss_primary_domain :: string
  ss_mail_domain :: string
  ss_mail_domain_verified :: bool
  ss_owner_invite :: string
  ss_owner_invited_at :: "int option"

record tenant_request =
  tr_name :: string
  tr_email :: string
  tr_full_name :: string
  tr_organization :: string
  tr_label :: string
  tr_timezone :: string
  tr_status :: string
  tr_error :: string
  tr_tenant :: string
  tr_suite_site :: string
  tr_request_key :: string
  tr_expires_at :: int
  tr_steps :: rows
  tr_processing_time :: "int option"
  tr_modified :: int

record hosting = fleet +
  sites :: "suite_site list"
  requests :: "tenant_request list"

definition new_site :: "string \<Rightarrow> int \<Rightarrow> string \<Rightarrow> string \<Rightarrow> string \<Rightarrow> string \<Rightarrow> suite_site" where
  "new_site n t region tenant label vm =
    \<lparr>ss_name = n, ss_creation = t, ss_region = region, ss_tenant = tenant, ss_label = label, ss_status = ''Pending'',
     ss_virtual_machine = vm, ss_hostname = [], ss_pilot_task = [], ss_attempts = 0, ss_site_created = False,
     ss_suite_configured = False, ss_activated_at = None, ss_dropped_at = None, ss_error = [], ss_assign_site_domain = True,
     ss_domains = [], ss_primary_domain = [], ss_mail_domain = [], ss_mail_domain_verified = False, ss_owner_invite = [],
     ss_owner_invited_at = None\<rparr>"

section \<open>Slots\<close>

definition site_count :: "hosting \<Rightarrow> string \<Rightarrow> nat" where
  "site_count d n = length (filter (\<lambda>s. ss_virtual_machine s = n \<and> ss_status s \<noteq> ''Dropped'') (sites d))"

definition vm_free_slots :: "hosting \<Rightarrow> vm \<Rightarrow> int" where
  "vm_free_slots d v = vm_max_sites v - int (site_count d (vm_name v)) - vm_foreign_site_count v"

definition has_free_slot :: "hosting \<Rightarrow> vm \<Rightarrow> bool" where
  "has_free_slot d v \<longleftrightarrow> vm_enabled v \<and> is_ready v \<and> vm_free_slots d v > 0"

definition candidates :: "hosting \<Rightarrow> string \<Rightarrow> vm list" where
  "candidates d region =
    sort_key vm_name (filter (\<lambda>v. vm_region v = region \<and> vm_enabled v \<and> vm_status v = ''Running'') (vms d))"

fun best_vm :: "hosting \<Rightarrow> string option \<Rightarrow> int \<Rightarrow> vm list \<Rightarrow> string option" where
  "best_vm d best most [] = best"
| "best_vm d best most (v # vs) =
    (if has_free_slot d v \<and> vm_free_slots d v > most then best_vm d (Some (vm_name v)) (vm_free_slots d v) vs
     else best_vm d best most vs)"

definition pick_virtual_machine :: "hosting \<Rightarrow> string \<Rightarrow> string option" where
  "pick_virtual_machine d region = best_vm d None 0 (candidates d region)"

section \<open>New sites\<close>

text \<open>\<open>suite-<hex>.<zone>\<close>; the token is drawn again while a site has the host name.\<close>

fun new_hostname :: "string list \<Rightarrow> string list \<Rightarrow> string \<Rightarrow> herr + string" where
  "new_hostname used [] zone = Inl (Other_Error ''no token left'')"
| "new_hostname used (t # ts) zone =
    (let h = ''suite-'' @ t @ ''.'' @ zone in if h \<in> set used then new_hostname used ts zone else Inr h)"

definition used_hostnames :: "hosting \<Rightarrow> string list" where
  "used_hostnames d = map ss_hostname (sites d)"

definition hostname_on :: "string list \<Rightarrow> hosting \<Rightarrow> string \<Rightarrow> herr + string" where
  "hostname_on tokens d n =
    (case get_vm n d of None \<Rightarrow> Inl (Other_Error ''DoesNotExistError'')
     | Some v \<Rightarrow> new_hostname (used_hostnames d) tokens (vm_wildcard_zone v))"

text \<open>Picks the server and host name; nothing is saved.  \<open>None\<close> when no server has room.\<close>

definition place :: "string list \<Rightarrow> hosting \<Rightarrow> string \<Rightarrow> herr + (string \<times> string) option" where
  "place tokens d region =
    (case pick_virtual_machine d region of
       None \<Rightarrow> Inr None
     | Some n \<Rightarrow> rbind (hostname_on tokens d n) (\<lambda>h. Inr (Some (n, h))))"

text \<open>\<open>before_insert\<close>: given a server, a host name there; else a server with room, if there is one.\<close>

definition site_before_insert :: "string list \<Rightarrow> hosting \<Rightarrow> suite_site \<Rightarrow> herr + suite_site" where
  "site_before_insert tokens d s =
    (let s = s\<lparr>ss_status := ''Pending''\<rparr> in
     if ss_virtual_machine s \<noteq> [] then
       rbind (hostname_on tokens d (ss_virtual_machine s)) (\<lambda>h. Inr (s\<lparr>ss_hostname := h\<rparr>))
     else rbind (place tokens d (ss_region s)) (\<lambda>p.
       Inr (case p of None \<Rightarrow> s | Some (n, h) \<Rightarrow> s\<lparr>ss_virtual_machine := n, ss_hostname := h\<rparr>)))"

definition insert_site :: "string list \<Rightarrow> suite_site \<Rightarrow> hosting \<Rightarrow> herr + hosting" where
  "insert_site tokens s d = rbind (site_before_insert tokens d s) (\<lambda>s. Inr (d\<lparr>sites := sites d @ [s]\<rparr>))"

definition POOLED_STATUSES :: "string list" where
  "POOLED_STATUSES = [''Pending'', ''Creating'', ''Ready'']"

definition pooled :: "hosting \<Rightarrow> string \<Rightarrow> nat" where
  "pooled d region = length (filter (\<lambda>s. ss_region s = region \<and> ss_tenant s = [] \<and> ss_status s \<in> set POOLED_STATUSES) (sites d))"

text \<open>
  One site per missing place, until no server has room.  \<open>fresh\<close> names the new rows: the name and
  tokens of the i-th insert.
\<close>

fun fill_slots :: "(nat \<Rightarrow> string \<times> string list) \<Rightarrow> int \<Rightarrow> string \<Rightarrow> nat \<Rightarrow> hosting \<Rightarrow> herr + hosting" where
  "fill_slots fresh t region 0 d = Inr d"
| "fill_slots fresh t region (Suc k) d =
    (case pick_virtual_machine d region of
       None \<Rightarrow> Inr d
     | Some n \<Rightarrow> rbind (insert_site (snd (fresh (length (sites d)))) (new_site (fst (fresh (length (sites d)))) t region [] [] n) d)
         (fill_slots fresh t region k))"

definition fill_pool :: "(nat \<Rightarrow> string \<times> string list) \<Rightarrow> int \<Rightarrow> string \<Rightarrow> int \<Rightarrow> hosting \<Rightarrow> herr + hosting" where
  "fill_pool fresh t region target d = fill_slots fresh t region (nat (target - int (pooled d region))) d"

section \<open>Servers for a region\<close>

definition free_slots :: "hosting \<Rightarrow> string \<Rightarrow> int" where
  "free_slots d region =
    sum_list (map (\<lambda>v. if is_ready v then max (vm_free_slots d v) 0 else if is_building v then vm_max_sites v else 0)
      (filter (\<lambda>v. vm_region v = region \<and> vm_enabled v) (vms d)))
    - int (length (filter (\<lambda>s. ss_region s = region \<and> ss_virtual_machine s = [] \<and> ss_status s = ''Pending'') (sites d)))"

definition assert_plan_fits_a_site :: "hosting \<Rightarrow> string \<Rightarrow> string \<Rightarrow> herr + unit" where
  "assert_plan_fits_a_site d region plan =
    (case find (\<lambda>v. vm_region v = region \<and> vm_plan v = plan \<and> vm_enabled v \<and> vm_memory_mb v > 0 \<and> vm_max_sites v = 0) (vms d) of
       Some v \<Rightarrow> Inl (Other_Error (''Server '' @ vm_name v @ '' of plan '' @ plan @ '' fits no site under the Server Sizing allowances''))
     | None \<Rightarrow> Inr ())"

definition building_vms :: "hosting \<Rightarrow> string \<Rightarrow> string list" where
  "building_vms d region = map vm_name (filter (\<lambda>v. vm_region v = region \<and> vm_enabled v \<and> is_building v) (vms d))"

definition enabled_regions :: "hosting \<Rightarrow> string list" where
  "enabled_regions d = sort (map rg_region (filter rg_enabled (regions d)))"

definition assert_region_enabled :: "hosting \<Rightarrow> string \<Rightarrow> herr + string" where
  "assert_region_enabled d region =
    (if region = [] \<or> \<not> (case get_region region d of None \<Rightarrow> False | Some r \<Rightarrow> rg_enabled r)
     then Inl (Other_Error (''Region '' @ (if region = [] then ''(none)'' else region) @ '' does not take sites.''))
     else Inr region)"

text \<open>A region short of free slots gets one more server; \<open>n\<close> is its name.\<close>

definition ensure_region_capacity :: "'w env \<Rightarrow> string \<Rightarrow> string \<Rightarrow> (hosting, 'w, string option) op" where
  "ensure_region_capacity e n region = seq get_doc (\<lambda>d.
    if free_slots d region \<ge> min_free_site_slots (cfg e) then ret None
    else seq (resolve_server_arguments e (new_vm n region)) (\<lambda>v.
      seq (lift (assert_plan_fits_a_site d region (vm_plan v))) (\<lambda>_.
      seq (vm_before_insert e v) (\<lambda>v.
      seq (db_set (\<lambda>d. d\<lparr>vms := vms d @ [vm_validate_new v]\<rparr>)) (\<lambda>_. ret (Some n))))))"

definition ensure_region :: "'w env \<Rightarrow> string \<Rightarrow> string \<Rightarrow> (hosting, 'w, unit) op" where
  "ensure_region e n region = seq begin_step (\<lambda>_.
    except (seq (ensure_region_capacity e n region) (\<lambda>_. ret ())) (\<lambda>_. undo_step))"

definition ensure_capacity :: "'w env \<Rightarrow> (string \<Rightarrow> string) \<Rightarrow> (hosting, 'w, unit) op" where
  "ensure_capacity e name_for = seq get_doc (\<lambda>d.
    if \<not> auto_create_vms (cfg e) then ret ()
    else run_all (\<lambda>region. ensure_region e (name_for region) region) (enabled_regions d))"

definition ensure_site_pool :: "'w env \<Rightarrow> (string \<Rightarrow> nat \<Rightarrow> string \<times> string list) \<Rightarrow> (hosting, 'w, unit) op" where
  "ensure_site_pool e fresh = seq get_doc (\<lambda>d.
    run_all (\<lambda>region. seq begin_step (\<lambda>_.
      except (seq get_doc (\<lambda>d. seq (lift (fill_pool (fresh region) (now_at e) region (ready_sites_per_region (cfg e)) d)) (\<lambda>d'.
          db_set (\<lambda>_. d')))) (\<lambda>_. undo_step))) (enabled_regions d))"

section \<open>Claiming a site\<close>

definition upd_site :: "string \<Rightarrow> (suite_site \<Rightarrow> suite_site) \<Rightarrow> hosting \<Rightarrow> hosting" where
  "upd_site n f d = d\<lparr>sites := map (\<lambda>s. if ss_name s = n then f s else s) (sites d)\<rparr>"

definition get_site :: "string \<Rightarrow> hosting \<Rightarrow> suite_site option" where
  "get_site n d = find (\<lambda>s. ss_name s = n) (sites d)"

definition is_claimable :: "string \<Rightarrow> suite_site \<Rightarrow> bool" where
  "is_claimable region s \<longleftrightarrow> ss_region s = region \<and> ss_status s = ''Ready'' \<and> ss_tenant s = []"

definition claim_site ::
  "'w env \<Rightarrow> string \<Rightarrow> string \<times> string list \<Rightarrow> string \<Rightarrow> string \<Rightarrow> string \<Rightarrow> (hosting, 'w, string) op" where
  "claim_site e vm_nm fresh tenant label region = seq get_doc (\<lambda>d.
    case find (is_claimable region) (sites d) of
      Some s \<Rightarrow> seq (db_set (upd_site (ss_name s) (\<lambda>s. s\<lparr>ss_tenant := tenant, ss_label := label, ss_status := ''Assigned''\<rparr>)))
                  (\<lambda>_. ret (ss_name s))
    | None \<Rightarrow>
        seq (lift (insert_site (snd fresh) (new_site (fst fresh) (now_at e) region tenant label []) d)) (\<lambda>d'.
        seq (db_set (\<lambda>_. d')) (\<lambda>_.
        seq (if (case get_site (fst fresh) d' of None \<Rightarrow> False | Some s \<Rightarrow> ss_virtual_machine s = [])
                \<and> auto_create_vms (cfg e) \<and> building_vms d' region = []
             then seq (ensure_region_capacity e vm_nm region) (\<lambda>_. ret ()) else ret ()) (\<lambda>_.
        ret (fst fresh)))))"

section \<open>The pick\<close>

lemma best_vm_None: "best_vm d None most vs = None \<longleftrightarrow> (\<forall>v\<in>set vs. \<not> (has_free_slot d v \<and> vm_free_slots d v > most))"
proof -
  have keep: "best_vm d (Some b) m vs \<noteq> None" for b m vs
    by (induction vs arbitrary: b m) auto
  show ?thesis by (induction vs) (auto simp: keep)
qed

lemma best_vm_Some:
  "best_vm d best most vs = Some n \<Longrightarrow>
   (best = Some n \<and> (\<forall>v\<in>set vs. has_free_slot d v \<longrightarrow> vm_free_slots d v \<le> most)) \<or>
   (\<exists>v\<in>set vs. vm_name v = n \<and> has_free_slot d v \<and> most < vm_free_slots d v \<and>
      (\<forall>u\<in>set vs. has_free_slot d u \<longrightarrow> vm_free_slots d u \<le> vm_free_slots d v))"
proof (induction vs arbitrary: best most)
  case (Cons v vs)
  show ?case
  proof (cases "has_free_slot d v \<and> vm_free_slots d v > most")
    case True
    with Cons.prems have "best_vm d (Some (vm_name v)) (vm_free_slots d v) vs = Some n" by simp
    from Cons.IH [OF this] True show ?thesis by fastforce
  next
    case False
    with Cons.prems have "best_vm d best most vs = Some n" by auto
    from Cons.IH [OF this] False show ?thesis by fastforce
  qed
qed simp

lemma has_free_slot_Running: "has_free_slot d v \<Longrightarrow> vm_enabled v \<and> vm_status v = ''Running'' \<and> 0 < vm_free_slots d v"
  by (simp add: has_free_slot_def is_ready_def PLACEABLE_STATUS_def)

lemma set_candidates: "set (candidates d region) = {v \<in> set (vms d). vm_region v = region \<and> vm_enabled v \<and> vm_status v = ''Running''}"
  by (auto simp: candidates_def)

lemma pick_Some:
  assumes "pick_virtual_machine d region = Some n"
  obtains v where "v \<in> set (vms d)" "vm_name v = n" "vm_region v = region" "has_free_slot d v"
    "\<forall>u\<in>set (vms d). vm_region u = region \<longrightarrow> has_free_slot d u \<longrightarrow> vm_free_slots d u \<le> vm_free_slots d v"
  using best_vm_Some [OF assms [unfolded pick_virtual_machine_def]] has_free_slot_Running
  by (auto simp: set_candidates)

lemma pick_None: "pick_virtual_machine d region = None \<longleftrightarrow> (\<forall>v\<in>set (vms d). vm_region v = region \<longrightarrow> \<not> has_free_slot d v)"
  using has_free_slot_Running by (auto simp: pick_virtual_machine_def best_vm_None set_candidates)

text \<open>
  The server picked for a site is one of the region that is enabled, set up and has a free slot, and
  none of the region's servers that could take the site has more free slots; none is picked only when
  no server of the region has room.
\<close>

theorem pick_virtual_machine_most_room:
  "case pick_virtual_machine d region of
     None \<Rightarrow> \<not> (\<exists>v\<in>set (vms d). vm_region v = region \<and> has_free_slot d v)
   | Some n \<Rightarrow> \<exists>v\<in>set (vms d). vm_name v = n \<and> vm_region v = region \<and> has_free_slot d v \<and>
       \<not> (\<exists>u\<in>set (vms d). vm_region u = region \<and> has_free_slot d u \<and> vm_free_slots d v < vm_free_slots d u)"
proof (cases "pick_virtual_machine d region")
  case None
  then show ?thesis using pick_None [of d region] by simp
next
  case (Some n)
  then obtain v where "v \<in> set (vms d)" "vm_name v = n" "vm_region v = region" "has_free_slot d v"
    "\<forall>u\<in>set (vms d). vm_region u = region \<longrightarrow> has_free_slot d u \<longrightarrow> vm_free_slots d u \<le> vm_free_slots d v"
    by (rule pick_Some)
  with Some show ?thesis by (auto intro!: bexI [of _ v])
qed

section \<open>The pool\<close>

text \<open>No server holds more sites than it takes.\<close>

definition within_slots :: "hosting \<Rightarrow> bool" where
  "within_slots d \<longleftrightarrow> (\<forall>v\<in>set (vms d). 0 \<le> vm_free_slots d v)"

lemma site_count_snoc:
  "site_count (d\<lparr>sites := sites d @ [s]\<rparr>) n =
   site_count d n + (if ss_virtual_machine s = n \<and> ss_status s \<noteq> ''Dropped'' then 1 else 0)"
  by (simp add: site_count_def)

lemma vm_free_slots_snoc:
  "vm_free_slots (d\<lparr>sites := sites d @ [s]\<rparr>) v =
   vm_free_slots d v - (if ss_virtual_machine s = vm_name v \<and> ss_status s \<noteq> ''Dropped'' then 1 else 0)"
  by (simp add: vm_free_slots_def site_count_snoc)

lemma within_slots_placed:
  assumes "within_slots d" "distinct (map vm_name (vms d))"
    and "ss_virtual_machine s = [] \<longrightarrow> (\<forall>v\<in>set (vms d). vm_name v \<noteq> [])"
    and "ss_virtual_machine s \<noteq> [] \<Longrightarrow> \<exists>v\<in>set (vms d). vm_name v = ss_virtual_machine s \<and> has_free_slot d v"
  shows "within_slots (d\<lparr>sites := sites d @ [s]\<rparr>)"
  unfolding within_slots_def
proof (intro ballI)
  fix v assume "v \<in> set (vms (d\<lparr>sites := sites d @ [s]\<rparr>))"
  then have v: "v \<in> set (vms d)" by simp
  then have nonneg: "0 \<le> vm_free_slots d v" using assms(1) by (simp add: within_slots_def)
  show "0 \<le> vm_free_slots (d\<lparr>sites := sites d @ [s]\<rparr>) v"
  proof (cases "ss_virtual_machine s = vm_name v")
    case True
    with assms(3,4) v obtain u where u: "u \<in> set (vms d)" "vm_name u = vm_name v" "has_free_slot d u" by fastforce
    have "u = v" using inj_onD [of vm_name "set (vms d)" u v] assms(2) u v by (simp add: distinct_map)
    then have "has_free_slot d v" using u by simp
    then show ?thesis by (simp add: vm_free_slots_snoc has_free_slot_def)
  qed (use nonneg in \<open>simp add: vm_free_slots_snoc\<close>)
qed

lemma insert_site_given:
  assumes "insert_site tokens (new_site n t region tenant label vm) d = Inr d'" "vm \<noteq> []"
  shows "\<exists>h. d' = d\<lparr>sites := sites d @ [(new_site n t region tenant label vm)\<lparr>ss_hostname := h\<rparr>]\<rparr> \<and> h \<notin> set (used_hostnames d)"
proof -
  have fresh: "h \<notin> set used" if "new_hostname used ts zone = Inr h" for used ts zone h
    using that by (induction used ts zone rule: new_hostname.induct) (auto simp: Let_def split: if_splits)
  have status: "(new_site n t region tenant label vm)\<lparr>ss_status := ''Pending''\<rparr> = new_site n t region tenant label vm"
    by (simp add: new_site_def)
  have vm: "ss_virtual_machine (new_site n t region tenant label vm) = vm" by (simp add: new_site_def)
  obtain h where "hostname_on tokens d vm = Inr h" "d' = d\<lparr>sites := sites d @ [(new_site n t region tenant label vm)\<lparr>ss_hostname := h\<rparr>]\<rparr>"
    using assms by (auto simp: insert_site_def site_before_insert_def status vm Let_def)
  then show ?thesis using fresh by (auto simp: hostname_on_def split: option.splits)
qed

lemma pooled_snoc:
  "pooled (d\<lparr>sites := sites d @ [(new_site n t region [] [] vm)\<lparr>ss_hostname := h\<rparr>]\<rparr>) region = Suc (pooled d region)"
  by (simp add: pooled_def new_site_def POOLED_STATUSES_def)

text \<open>What holds of the rows while the pool is filled.\<close>

definition fill_post :: "string \<Rightarrow> nat \<Rightarrow> hosting \<Rightarrow> hosting \<Rightarrow> bool" where
  "fill_post region k d d' \<longleftrightarrow> vms d' = vms d \<and> (\<exists>new. sites d' = sites d @ new) \<and> (within_slots d \<longrightarrow> within_slots d') \<and>
     (pooled d' region = pooled d region + k \<or>
      pooled d' region < pooled d region + k \<and> pick_virtual_machine d' region = None)"

lemma fill_slots_post:
  assumes "distinct (map vm_name (vms d))" "[] \<notin> vm_name ` set (vms d)" "fill_slots fresh t region k d = Inr d'"
  shows "fill_post region k d d'"
  using assms
proof (induction k arbitrary: d)
  case 0
  then show ?case by (simp add: fill_post_def)
next
  case (Suc k)
  show ?case
  proof (cases "pick_virtual_machine d region")
    case None
    then show ?thesis using Suc.prems by (simp add: fill_post_def)
  next
    case (Some vm)
    then obtain v where v: "v \<in> set (vms d)" "vm_name v = vm" "has_free_slot d v" by (elim pick_Some)
    have vm: "vm \<noteq> []" using v(1,2) Suc.prems(2) by (metis image_eqI)
    let ?f = "fresh (length (sites d))"
    obtain d1 where d1: "insert_site (snd ?f) (new_site (fst ?f) t region [] [] vm) d = Inr d1"
      and rest: "fill_slots fresh t region k d1 = Inr d'"
      using Suc.prems(3) Some by auto
    obtain h where h: "d1 = d\<lparr>sites := sites d @ [(new_site (fst ?f) t region [] [] vm)\<lparr>ss_hostname := h\<rparr>]\<rparr>"
      using insert_site_given [OF d1 vm] by blast
    have "within_slots d1" if "within_slots d"
      unfolding h by (rule within_slots_placed [OF that Suc.prems(1)]) (use v vm in \<open>auto simp: new_site_def\<close>)
    moreover have "fill_post region k d1 d'"
      using Suc.IH [OF _ _ rest] Suc.prems(1,2) h by simp
    moreover have "pooled d1 region = Suc (pooled d region)" unfolding h by (rule pooled_snoc)
    moreover have "vms d1 = vms d" "\<exists>new. sites d1 = sites d @ new" using h by auto
    ultimately show ?thesis unfolding fill_post_def by auto
  qed
qed


section \<open>A claim\<close>

lemma get_site_snoc: "ss_name s \<notin> ss_name ` set (sites d) \<Longrightarrow> get_site (ss_name s) (d\<lparr>sites := sites d @ [s]\<rparr>) = Some s"
proof -
  have "find (\<lambda>r. ss_name r = n) (xs @ [s]) = Some s" if "n = ss_name s" "n \<notin> ss_name ` set xs" for n xs
    using that by (induction xs) auto
  then show "ss_name s \<notin> ss_name ` set (sites d) \<Longrightarrow> ?thesis" by (simp add: get_site_def)
qed

lemma site_before_insert_fields:
  "site_before_insert tokens d s = Inr s' \<Longrightarrow> ss_name s' = ss_name s \<and> ss_region s' = ss_region s \<and> ss_tenant s' = ss_tenant s \<and> ss_label s' = ss_label s"
  by (auto simp: site_before_insert_def Let_def split: if_splits option.splits)

lemma holds_lift [holds_intros]: "holds I (lift r)"
  by (simp add: holds_def lift_def ret_def raise_def split: sum.splits)

lemma holds_resolve [holds_intros]: "holds I (resolve_server_arguments e v)"
  unfolding resolve_server_arguments_def Let_def by (intro holds_intros)

lemma ensure_region_capacity_frame:
  "ensure_region_capacity e n region s = (r, s') \<Longrightarrow> sites (doc s') = sites (doc s)"
proof -
  have "holds (\<lambda>d. sites d = sites (doc s)) (ensure_region_capacity e n region)"
    unfolding ensure_region_capacity_def vm_before_insert_def by (intro holds_intros holds_db_set) simp
  then show "ensure_region_capacity e n region s = (r, s') \<Longrightarrow> ?thesis" by (rule holdsD) simp_all
qed

lemma claim_site_result:
  assumes "distinct (map ss_name (sites (doc s)))" "fst fresh \<notin> ss_name ` set (sites (doc s))"
    and "claim_site e vm_nm fresh tenant label region s = (Inr n, s')"
  shows "(\<exists>c. get_site n (doc s') = Some c \<and> ss_tenant c = tenant \<and> ss_label c = label \<and> ss_region c = region) \<and>
    {c \<in> set (sites (doc s)). ss_tenant c \<noteq> []} \<subseteq> set (sites (doc s')) \<and>
    (case find (is_claimable region) (sites (doc s)) of Some c \<Rightarrow> n = ss_name c | None \<Rightarrow> n = fst fresh)"
proof (cases "find (is_claimable region) (sites (doc s))")
  case (Some c)
  then have c: "c \<in> set (sites (doc s))" "is_claimable region c" by (auto dest: find_Some_in)
  have found: "get_site (ss_name c) (doc s) = Some c"
    using find_distinct_key [OF assms(1) c(1)] by (simp add: get_site_def)
  let ?f = "\<lambda>s. s\<lparr>ss_tenant := tenant, ss_label := label, ss_status := ''Assigned''\<rparr>"
  have s': "n = ss_name c" "doc s' = upd_site (ss_name c) ?f (doc s)" using assms(3) Some by (auto simp: claim_site_def)
  have "get_site n (doc s') = Some (?f c)"
    using found s' find_upd_key [of ss_name ?f "ss_name c" "ss_name c" "sites (doc s)"] by (simp add: upd_site_def get_site_def)
  moreover have "o' \<in> set (sites (doc s'))" if "o' \<in> set (sites (doc s))" "ss_tenant o' \<noteq> []" for o'
  proof -
    have "ss_name o' \<noteq> ss_name c"
      using that c inj_onD [of ss_name "set (sites (doc s))" o' c] assms(1) by (auto simp: distinct_map is_claimable_def)
    then show ?thesis using that s' by (force simp: upd_site_def)
  qed
  ultimately show ?thesis using Some s' c by (auto simp: is_claimable_def)
next
  case None
  let ?n = "new_site (fst fresh) (now_at e) region tenant label []"
  obtain d1 where d1: "insert_site (snd fresh) ?n (doc s) = Inr d1" and s': "n = fst fresh" "sites (doc s') = sites d1"
    using assms(3) None by (auto simp: claim_site_def split: if_splits dest!: ensure_region_capacity_frame)
  obtain c where c: "site_before_insert (snd fresh) (doc s) ?n = Inr c" "d1 = (doc s)\<lparr>sites := sites (doc s) @ [c]\<rparr>"
    using d1 by (auto simp: insert_site_def)
  have fields: "ss_name c = fst fresh" "ss_region c = region" "ss_tenant c = tenant" "ss_label c = label"
    using site_before_insert_fields [OF c(1)] by (simp_all add: new_site_def)
  have "get_site n (doc s') = Some c"
    using get_site_snoc [of c "doc s"] assms(2) s' c(2) fields by (simp add: get_site_def)
  then show ?thesis using None s' c(2) fields by auto
qed

text \<open>
  C20. A claim gives the tenant a site of the region under its label and touches no site that already has
  a tenant; a ready site of the pool is taken before a new one is made, the oldest first.
\<close>

theorem claim_site_keeps_tenants:
  assumes "distinct (map ss_name (sites (doc s)))" "fst fresh \<notin> ss_name ` set (sites (doc s))"
    and "claim_site e vm_nm fresh tenant label region s = (Inr n, s')"
  shows "(\<exists>c. get_site n (doc s') = Some c \<and> ss_tenant c = tenant \<and> ss_label c = label \<and> ss_region c = region) \<and>
    {c \<in> set (sites (doc s)). ss_tenant c \<noteq> []} \<subseteq> set (sites (doc s')) \<and>
    (case find (is_claimable region) (sites (doc s)) of Some c \<Rightarrow> n = ss_name c | None \<Rightarrow> n = fst fresh)"
  using assms by (rule claim_site_result)

section \<open>A region with one server\<close>

definition demo_vm :: vm where
  "demo_vm = (new_vm ''v1'' ''blr1'')\<lparr>vm_status := ''Running'', vm_host_verified := True, vm_suite_app_status := ''Installed'',
     vm_wildcard_zone := ''blr1.example.com'', vm_max_sites := 2\<rparr>"

definition demo_ready_site :: suite_site where
  "demo_ready_site = (new_site ''s0'' 1 ''blr1'' [] [] ''v1'')\<lparr>ss_status := ''Ready'', ss_hostname := ''suite-00.blr1.example.com''\<rparr>"

definition demo_hosting :: hosting where
  "demo_hosting = \<lparr>vms = [demo_vm], regions = [(new_region ''blr1'')\<lparr>rg_enabled := True\<rparr>], sites = [demo_ready_site], requests = []\<rparr>"

definition demo_fresh :: "nat \<Rightarrow> string \<times> string list" where
  "demo_fresh i = (''s'' @ show_nat i, [''00'', ''0'' @ show_nat i])"


definition demo_hosting_start :: "(hosting, unit) st" where
  "demo_hosting_start = \<lparr>doc = demo_hosting, saved = demo_hosting, world = ()\<rparr>"

lemma claim_site_keeps_tenants_witness:
  "\<exists>c. get_site ''s0'' (doc (snd (claim_site demo_env ''v2'' (''s9'', [''aa'']) ''t1'' ''acme'' ''blr1'' demo_hosting_start))) = Some c
     \<and> ss_tenant c = ''t1''"
proof -
  have hyps: "distinct (map ss_name (sites (doc demo_hosting_start)))" "fst (''s9'', [''aa'']) \<notin> ss_name ` set (sites (doc demo_hosting_start))"
    by code_simp+
  have "fst (claim_site demo_env ''v2'' (''s9'', [''aa'']) ''t1'' ''acme'' ''blr1'' demo_hosting_start) = Inr ''s0''"
    by code_simp
  then have "claim_site demo_env ''v2'' (''s9'', [''aa'']) ''t1'' ''acme'' ''blr1'' demo_hosting_start =
     (Inr ''s0'', snd (claim_site demo_env ''v2'' (''s9'', [''aa'']) ''t1'' ''acme'' ''blr1'' demo_hosting_start))"
    by (simp add: prod_eq_iff)
  from claim_site_keeps_tenants [OF hyps this] show ?thesis by blast
qed

end
