(* ===== verification/Site_Domains.thy ===== *)
theory Site_Domains
  imports Capacity
begin

text \<open>
  Custom domains of a hosted site (src/suite_cloud/hosting/domains.py, and the domain side of the Suite
  Site document and of hosting/central/site.py).  Pilot names the records a domain needs and attaches
  it once they resolve; for the site's own domain the records are published here.

  What a step asks of others is a call on the world: Pilot, HTTPS, the resolver, and the DNS Record
  table, whose reconciliation is the operation of the theory \<open>Dns_Records\<close>.
\<close>

section \<open>Surroundings\<close>

record pilot_record =
  pr_type :: string
  pr_host :: string
  pr_value :: string

text \<open>Pilot's answer: groups of records; a group that is not a list is \<open>None\<close>.\<close>

type_synonym dns_answer = "(string \<times> pilot_record list option) list"

record published =
  pb_zone :: string
  pb_host :: string
  pb_type :: string
  pb_value :: string
  pb_priority :: int
  pb_ttl :: int
  pb_category :: string

record 'w site_env =
  base :: "'w env"
  tokens :: "string list"
  label_st :: label_state
  pc_create_site :: "vm \<Rightarrow> string \<Rightarrow> string \<Rightarrow> ('w, task) call"
  pc_drop_site :: "vm \<Rightarrow> string \<Rightarrow> ('w, task) call"
  pc_dns_records :: "vm \<Rightarrow> string \<Rightarrow> string \<Rightarrow> ('w, dns_answer) call"
  pc_add_domain :: "vm \<Rightarrow> string \<Rightarrow> string \<Rightarrow> ('w, task) call"
  pc_set_primary :: "vm \<Rightarrow> string \<Rightarrow> string \<Rightarrow> ('w, task) call"
  pc_remove_domain :: "vm \<Rightarrow> string \<Rightarrow> string \<Rightarrow> ('w, task) call"
  https_problem :: "string \<Rightarrow> ('w, string option) call"
  resolves :: "string \<Rightarrow> string \<Rightarrow> string \<Rightarrow> ('w, bool) call"
  reconcile :: "string \<Rightarrow> string \<Rightarrow> published list \<Rightarrow> ('w, unit) call"
  confirm :: "string \<Rightarrow> string \<Rightarrow> ('w, bool) call"

section \<open>The site document\<close>

definition throw :: "string \<Rightarrow> (hosting, 'w, 'a) op" where
  "throw m = raise (Other_Error m)"

definition site_row :: "string \<Rightarrow> (hosting, 'w, suite_site) op" where
  "site_row n = seq get_doc (\<lambda>d. case get_site n d of None \<Rightarrow> throw ''DoesNotExistError'' | Some s \<Rightarrow> ret s)"

definition set_site :: "string \<Rightarrow> (suite_site \<Rightarrow> suite_site) \<Rightarrow> (hosting, 'w, unit) op" where
  "set_site n f = db_set (upd_site n f)"

definition site_vm :: "suite_site \<Rightarrow> (hosting, 'w, vm) op" where
  "site_vm s = (if ss_virtual_machine s = [] then throw (''Site '' @ ss_name s @ '' has no server yet.'') else row_of (ss_virtual_machine s))"

text \<open>\<open>labels.site_domain(self.label) if self.label else None\<close>, empty for None.\<close>

definition own_domain :: "'w site_env \<Rightarrow> suite_site \<Rightarrow> string" where
  "own_domain e s = (if ss_label s = [] then [] else case site_domain (label_st e) (ss_label s) of None \<Rightarrow> [] | Some d \<Rightarrow> d)"

definition get_domain :: "suite_site \<Rightarrow> string \<Rightarrow> domain_row option" where
  "get_domain s domain = find (\<lambda>r. dr_domain r = py_lower (py_strip domain)) (ss_domains s)"

definition has_site_domain :: "'w site_env \<Rightarrow> suite_site \<Rightarrow> bool" where
  "has_site_domain e s =
    (case get_domain s (own_domain e s) of None \<Rightarrow> False
     | Some r \<Rightarrow> dr_status r = ''Active'' \<and> (ss_primary_domain s \<noteq> [] \<or> dr_primary_skipped r))"

definition validate_assignments :: "suite_site \<Rightarrow> suite_site \<Rightarrow> herr + unit" where
  "validate_assignments before s =
    require (\<not> (list_ex dr_managed (ss_domains before) \<and> ss_assign_site_domain s \<noteq> ss_assign_site_domain before))
      (Other_Error ''Assign Site Domain cannot change: the domain is already assigned.'')"

definition site_on_trash :: "suite_site \<Rightarrow> herr + unit" where
  "site_on_trash s = require (\<not> ((ss_site_created s \<or> ss_pilot_task s \<noteq> []) \<and> ss_status s \<noteq> ''Dropped''))
    (Other_Error ''Drop the site before deleting it.'')"

definition assert_created :: "suite_site \<Rightarrow> herr + unit" where
  "assert_created s = require (ss_site_created s \<and> ss_status s \<noteq> ''Dropped'')
    (Other_Error (''Site '' @ ss_name s @ '' does not exist on its server.''))"

definition assert_takes_domains :: "suite_site \<Rightarrow> (hosting, 'w, unit) op" where
  "assert_takes_domains s = seq (lift (assert_created s)) (\<lambda>_. seq (site_vm s) (\<lambda>v.
    if vm_letsencrypt_email_set v then ret ()
    else throw ''The server has no Let's Encrypt email, so it cannot take custom domains.''))"

text \<open>
  The host the site's Administrator session is sent to: its own host name, or its primary domain when
  the records of that domain are published here.
\<close>

definition get_api_host :: "suite_site \<Rightarrow> herr + string" where
  "get_api_host s =
    (if ss_primary_domain s = [] then Inr (ss_hostname s)
     else case get_domain s (ss_primary_domain s) of
       Some r \<Rightarrow> if dr_managed r then Inr (ss_primary_domain s)
         else Inl (Other_Error (ss_primary_domain s @ '' is the primary domain, and its tenant controls its DNS''))
     | None \<Rightarrow> Inl (Other_Error (ss_primary_domain s @ '' is the primary domain, and its tenant controls its DNS'')))"

section \<open>Records of a domain\<close>

definition PUBLISHED_TYPES :: "string list" where
  "PUBLISHED_TYPES = [''CNAME'', ''TXT'']"

definition absolute :: "string \<Rightarrow> string \<Rightarrow> string" where
  "absolute host domain =
    (let h = py_lower (rstrip_dots (str_or host ''@'')) in
     if h = ''@'' \<or> h = domain then domain
     else if suffix (''.'' @ domain) h then h else h @ ''.'' @ domain)"

definition flatten_records :: "dns_answer \<Rightarrow> string \<Rightarrow> dns_need list" where
  "flatten_records answer domain =
    concat (map (\<lambda>(_, group). map (\<lambda>r. \<lparr>dn_type = pr_type r, dn_fqdn = absolute (pr_host r) domain, dn_value = rstrip_dots (pr_value r)\<rparr>)
      (filter (\<lambda>r. pr_type r \<in> set PUBLISHED_TYPES) (case group of None \<Rightarrow> [] | Some rs \<Rightarrow> rs))) answer)"

definition records_of :: "domain_row \<Rightarrow> dns_need list" where
  "records_of r = (case dr_records r of None \<Rightarrow> [] | Some rs \<Rightarrow> rs)"

text \<open>\<open>row.update(...)\<close> on the row of a domain, and \<open>site.remove(row)\<close>.\<close>

fun upd_first :: "('a \<Rightarrow> bool) \<Rightarrow> ('a \<Rightarrow> 'a) \<Rightarrow> 'a list \<Rightarrow> 'a list" where
  "upd_first p f [] = []"
| "upd_first p f (x # xs) = (if p x then f x # xs else x # upd_first p f xs)"

fun remove_first :: "('a \<Rightarrow> bool) \<Rightarrow> 'a list \<Rightarrow> 'a list" where
  "remove_first p [] = []"
| "remove_first p (x # xs) = (if p x then xs else x # remove_first p xs)"

definition set_row :: "string \<Rightarrow> string \<Rightarrow> (domain_row \<Rightarrow> domain_row) \<Rightarrow> (hosting, 'w, bool) op" where
  "set_row n domain f = seq (set_site n (\<lambda>s. s\<lparr>ss_domains := upd_first (\<lambda>r. dr_domain r = py_lower (py_strip domain)) f (ss_domains s)\<rparr>))
    (\<lambda>_. ret True)"

definition get_row :: "string \<Rightarrow> string \<Rightarrow> (hosting, 'w, domain_row) op" where
  "get_row n domain = seq (site_row n) (\<lambda>s.
    case get_domain s domain of None \<Rightarrow> throw (domain @ '' is not a domain of this site.'') | Some r \<Rightarrow> ret r)"

definition add_row :: "string \<Rightarrow> string \<Rightarrow> bool \<Rightarrow> (hosting, 'w, unit) op" where
  "add_row n domain managed = set_site n (\<lambda>s. s\<lparr>ss_domains := ss_domains s @
    [\<lparr>dr_domain = py_lower (py_strip domain), dr_status = ''Pending'', dr_managed = managed, dr_is_primary = False, dr_primary_skipped = False,
      dr_records = None, dr_fetched_at = None, dr_task = [], dr_failure_reason = []\<rparr>]\<rparr>)"

definition RECORDS_MAX_AGE_HOURS :: int where "RECORDS_MAX_AGE_HOURS = 23"

definition records_fresh :: "int \<Rightarrow> domain_row \<Rightarrow> bool" where
  "records_fresh t r \<longleftrightarrow> dr_records r \<noteq> None \<and> (case dr_fetched_at r of None \<Rightarrow> False | Some f \<Rightarrow> f > t - RECORDS_MAX_AGE_HOURS * 3600)"

definition fetch_records :: "'w site_env \<Rightarrow> string \<Rightarrow> string \<Rightarrow> (hosting, 'w, bool) op" where
  "fetch_records e n domain = seq (get_row n domain) (\<lambda>r.
    if records_fresh (now_at (base e)) r then ret False
    else seq (site_row n) (\<lambda>s. seq (site_vm s) (\<lambda>v.
      seq (ask (pc_dns_records e v (ss_hostname s) (dr_domain r))) (\<lambda>answer.
        set_row n domain (\<lambda>r. r\<lparr>dr_records := Some (flatten_records answer (dr_domain r)), dr_fetched_at := Some (now_at (base e))\<rparr>)))))"

text \<open>Every managed domain's records in the site zone.\<close>

definition managed_rows :: "string option \<Rightarrow> suite_site \<Rightarrow> herr + published list" where
  "managed_rows zone s =
    (case zone of None \<Rightarrow> Inr []
     | Some z \<Rightarrow> rmap (\<lambda>need. case relative_host (dn_fqdn need) z of
           Inl _ \<Rightarrow> Inl (Other_Error (dn_fqdn need))
         | Inr h \<Rightarrow> Inr \<lparr>pb_zone = z, pb_host = h, pb_type = dn_type need, pb_value = dn_value need, pb_priority = 0, pb_ttl = 0,
                        pb_category = ''Other''\<rparr>)
         (concat (map records_of (filter dr_managed (ss_domains s)))))"

definition publish_managed_records :: "'w site_env \<Rightarrow> string \<Rightarrow> (hosting, 'w, unit) op" where
  "publish_managed_records e n = seq (site_row n) (\<lambda>s.
    seq (lift (managed_rows (site_dns_zone (label_st e)) s)) (\<lambda>rows. ask (reconcile e ''Suite Site'' (ss_name s) rows)))"

fun all_resolve :: "'w site_env \<Rightarrow> dns_need list \<Rightarrow> (hosting, 'w, bool) op" where
  "all_resolve e [] = ret True"
| "all_resolve e (r # rs) = seq (ask (resolves e (dn_fqdn r) (dn_type r) (dn_value r))) (\<lambda>ok. if ok then all_resolve e rs else ret False)"

definition records_visible :: "'w site_env \<Rightarrow> domain_row \<Rightarrow> (hosting, 'w, bool) op" where
  "records_visible e r = (if records_of r = [] then ret False else all_resolve e (records_of r))"

section \<open>Attaching a domain\<close>

definition contains :: "string \<Rightarrow> string \<Rightarrow> bool" where
  "contains needle text \<longleftrightarrow> sublist needle text"

definition attach_task :: "'w site_env \<Rightarrow> string \<Rightarrow> string \<Rightarrow> (hosting, 'w, bool) op" where
  "attach_task e n domain = seq (site_row n) (\<lambda>s. seq (site_vm s) (\<lambda>v. seq (get_row n domain) (\<lambda>r.
    seq (wait_for_task (polls (base e)) (pc_get_task (pilot (base e)) v (dr_task r))) (\<lambda>t.
    if \<not> is_finished t then ret False
    else if t_status t \<noteq> ''success'' then
      seq (output_tail (pc_task_output (pilot (base e)) v (dr_task r))) (\<lambda>out.
        seq (set_row n domain (\<lambda>r. r\<lparr>dr_status := ''Failed'', dr_task := [], dr_failure_reason := out\<rparr>)) (\<lambda>_. ret False))
    else set_row n domain (\<lambda>r. r\<lparr>dr_status := ''Active'', dr_task := [], dr_failure_reason := []\<rparr>)))))"

text \<open>\<open>pilot.add_domain\<close>, its conflict handled: the answer of \<open>attach\<close>, or \<open>None\<close> when a task runs.\<close>

definition start_attach :: "'w site_env \<Rightarrow> string \<Rightarrow> string \<Rightarrow> (hosting, 'w, bool option) op" where
  "start_attach e n domain = seq (site_row n) (\<lambda>s. seq (site_vm s) (\<lambda>v. seq (get_row n domain) (\<lambda>r.
    except (seq (ask (pc_add_domain e v (ss_hostname s) (dr_domain r))) (\<lambda>t.
        seq (set_row n domain (\<lambda>r. r\<lparr>dr_task := t_id t\<rparr>)) (\<lambda>_. ret None)))
      (\<lambda>x. if is_Pilot_Conflict x then
          (if contains ''already attached'' (py_lower (error_text x)) then
             seq (set_row n domain (\<lambda>r. r\<lparr>dr_status := ''Active'', dr_failure_reason := []\<rparr>)) (\<lambda>_. ret (Some True))
           else seq (set_row n domain (\<lambda>r. r\<lparr>dr_failure_reason := error_text x\<rparr>)) (\<lambda>_. ret (Some False)))
        else raise x))))"

definition attach :: "'w site_env \<Rightarrow> string \<Rightarrow> string \<Rightarrow> (hosting, 'w, bool) op" where
  "attach e n domain = seq (get_row n domain) (\<lambda>r.
    seq (if dr_task r = [] then start_attach e n domain else ret None) (\<lambda>early.
      case early of Some b \<Rightarrow> ret b | None \<Rightarrow> attach_task e n domain))"

definition run_task :: "'w site_env \<Rightarrow> vm \<Rightarrow> task \<Rightarrow> (hosting, 'w, unit) op" where
  "run_task e v t = seq (wait_for_task (polls (base e)) (pc_get_task (pilot (base e)) v (t_id t))) (\<lambda>t'.
    if \<not> is_finished t' then throw ''Pilot is still working on it; try again in a few minutes.''
    else if t_status t' \<noteq> ''success'' then
      seq (output_tail (pc_task_output (pilot (base e)) v (t_id t'))) (\<lambda>out. throw (''Pilot could not finish: '' @ out))
    else ret ())"

section \<open>The primary domain\<close>

definition make_primary :: "'w site_env \<Rightarrow> string \<Rightarrow> string \<Rightarrow> (hosting, 'w, unit) op" where
  "make_primary e n domain = seq (get_row n domain) (\<lambda>r.
    if dr_status r \<noteq> ''Active'' then throw (domain @ '' is not attached yet.'')
    else seq (ask (https_problem e domain)) (\<lambda>problem. case problem of
      Some p \<Rightarrow> throw p
    | None \<Rightarrow> seq (site_row n) (\<lambda>s. seq (site_vm s) (\<lambda>v.
        seq (ask (pc_set_primary e v (ss_hostname s) domain)) (\<lambda>t. seq (run_task e v t) (\<lambda>_.
        seq (set_site n (\<lambda>s. s\<lparr>ss_domains :=
              upd_first (\<lambda>r. dr_domain r = py_lower (py_strip domain)) (\<lambda>r. r\<lparr>dr_primary_skipped := False, dr_failure_reason := []\<rparr>)
                (map (\<lambda>r. r\<lparr>dr_is_primary := (dr_domain r = domain)\<rparr>) (ss_domains s)),
              ss_primary_domain := domain\<rparr>)) (\<lambda>_. ret ())))))))"

definition HTTPS_WAIT_MINUTES :: nat where "HTTPS_WAIT_MINUTES = 5"
definition HTTPS_POLL_SECONDS :: nat where "HTTPS_POLL_SECONDS = 15"

definition MAX_HTTPS_POLLS :: nat where "MAX_HTTPS_POLLS = HTTPS_WAIT_MINUTES * 60 div HTTPS_POLL_SECONDS"

fun poll_https :: "nat \<Rightarrow> ('w, string option) call \<Rightarrow> (hosting, 'w, string option) op" where
  "poll_https 0 check = ask check"
| "poll_https (Suc k) check = seq (ask check) (\<lambda>p. case p of None \<Rightarrow> ret None | Some _ \<Rightarrow> poll_https k check)"

definition wait_for_https :: "'w site_env \<Rightarrow> string \<Rightarrow> (hosting, 'w, string option) op" where
  "wait_for_https e domain = seq checkpoint (\<lambda>_. poll_https (min (polls (base e)) MAX_HTTPS_POLLS) (https_problem e domain))"

definition skip_primary :: "string \<Rightarrow> string \<Rightarrow> string \<Rightarrow> (hosting, 'w, unit) op" where
  "skip_primary n domain problem = seq (set_row n domain (\<lambda>r. r\<lparr>dr_primary_skipped := True,
     dr_failure_reason := ''Not made primary: no HTTPS within '' @ show_nat HTTPS_WAIT_MINUTES @ '' minutes of attaching. '' @ problem\<rparr>)) (\<lambda>_. ret ())"

section \<open>Operations\<close>

text \<open>The part of \<open>ensure_site_domain\<close> for a domain that is not attached yet.\<close>

definition publish_and_attach :: "'w site_env \<Rightarrow> string \<Rightarrow> string \<Rightarrow> (hosting, 'w, bool) op" where
  "publish_and_attach e n domain =
    seq (fetch_records e n domain) (\<lambda>_.
    seq (publish_managed_records e n) (\<lambda>_.
    seq (ask (confirm e ''Suite Site'' n)) (\<lambda>ok.
    if \<not> ok then ret False
    else seq (get_row n domain) (\<lambda>r. seq (records_visible e r) (\<lambda>visible.
      if \<not> visible then ret False else attach e n domain)))))"

definition ensure_site_domain :: "'w site_env \<Rightarrow> string \<Rightarrow> (hosting, 'w, bool) op" where
  "ensure_site_domain e n = seq (site_row n) (\<lambda>s. let domain = own_domain e s in
    seq (case get_domain s domain of None \<Rightarrow> add_row n domain True | Some _ \<Rightarrow> ret ()) (\<lambda>_.
    seq (get_row n domain) (\<lambda>r.
    seq (if dr_status r \<noteq> ''Active'' then publish_and_attach e n domain else ret True) (\<lambda>attached.
    if \<not> attached then ret False
    else seq (site_row n) (\<lambda>s.
      if ss_primary_domain s \<noteq> [] then ret True
      else seq (wait_for_https e domain) (\<lambda>problem. case problem of
        Some p \<Rightarrow> seq (skip_primary n domain p) (\<lambda>_. ret True)
      | None \<Rightarrow> seq (make_primary e n domain) (\<lambda>_. ret True)))))))"

definition add_domain :: "'w site_env \<Rightarrow> string \<Rightarrow> string \<Rightarrow> (hosting, 'w, dns_need list) op" where
  "add_domain e n domain = seq (site_row n) (\<lambda>s.
    case get_domain s domain of
      Some _ \<Rightarrow> throw (domain @ '' is already a domain of this site.'')
    | None \<Rightarrow> seq (add_row n domain False) (\<lambda>_. seq (fetch_records e n domain) (\<lambda>_.
        seq (get_row n domain) (\<lambda>r. ret (records_of r)))))"

definition verify_domain :: "'w site_env \<Rightarrow> string \<Rightarrow> string \<Rightarrow> (hosting, 'w, bool) op" where
  "verify_domain e n domain = seq (get_row n domain) (\<lambda>before.
    seq (fetch_records e n domain) (\<lambda>fetched. seq (get_row n domain) (\<lambda>r.
    if fetched \<and> records_of r \<noteq> records_of before then
      throw (''The verification token of '' @ domain @ '' changed; publish the new records.'')
    else seq (records_visible e r) (\<lambda>visible.
      if \<not> visible then throw (''The DNS records of '' @ domain @ '' do not resolve yet.'') else attach e n domain))))"

definition remove_domain :: "'w site_env \<Rightarrow> string \<Rightarrow> string \<Rightarrow> (hosting, 'w, unit) op" where
  "remove_domain e n domain = seq (get_row n domain) (\<lambda>r.
    if dr_is_primary r then throw (domain @ '' is the primary domain; make another one primary first.'')
    else seq (if dr_status r = ''Active'' then
          seq (site_row n) (\<lambda>s. seq (site_vm s) (\<lambda>v.
            seq (ask (pc_remove_domain e v (ss_hostname s) domain)) (\<lambda>t. run_task e v t)))
        else ret ()) (\<lambda>_.
      seq (set_site n (\<lambda>s. s\<lparr>ss_domains := remove_first (\<lambda>r. dr_domain r = py_lower (py_strip domain)) (ss_domains s)\<rparr>)) (\<lambda>_.
      publish_managed_records e n)))"

end
