(* ===== verification/Sites.thy ===== *)
theory Sites
  imports Site_Domains
begin

text \<open>
  A Suite Site from creation to a tenant's working site (src/suite_cloud/hosting/sites.py, the Suite Site
  document's follow-ups and mail/tenancy/hosted_domain.py), one re-entrant step at a time:
  Pending, Creating, Ready or Assigned, Configuring, Active, and Dropping, Dropped.

  The site's own REST API, the Mail Domain document and \<open>ipaddress\<close> are calls and functions of the
  environment.
\<close>

section \<open>Surroundings\<close>

datatype site_request =
    Set_Single string "(string \<times> string) list"
  | Call_Method string "(string \<times> string) list"
  | Run_Doc_Method string string string
  | Create_Doc string "(string \<times> string) list"
  | Get_Doc string string

record site_answer =
  sd_name :: string
  sd_is_verified :: bool
  sd_expires_at :: int

record tenant_info =
  ti_name :: string
  ti_title :: string
  ti_contact_email :: string
  ti_secret :: string
  ti_cluster_url :: "string option"
  ti_user_email :: string

record mail_info =
  mi_name :: string
  mi_tenant :: string
  mi_hosted :: bool

record dns_row =
  dw_fqdn :: string
  dw_type :: string
  dw_value :: string
  dw_priority :: int
  dw_ttl :: int
  dw_category :: string

record 'w sites_env =
  sd :: "'w site_env"
  client :: "string \<Rightarrow> site_request \<Rightarrow> ('w, site_answer option) call"
  tenants :: "string \<Rightarrow> tenant_info option"
  idna :: "string \<Rightarrow> string option"
  is_email :: "string \<Rightarrow> bool"
  suite_cloud_url :: string
  url_host :: "string \<Rightarrow> string"
  ip_is_global :: "string \<Rightarrow> bool option"
  md_get :: "string \<Rightarrow> ('w, mail_info option) call"
  md_insert :: "string \<Rightarrow> string \<Rightarrow> ('w, mail_info) call"
  md_rows :: "string \<Rightarrow> ('w, dns_row list) call"
  md_is_live :: "string \<Rightarrow> 'w \<Rightarrow> bool"
  md_records_published :: "string \<Rightarrow> 'w \<Rightarrow> bool"
  md_verify :: "string \<Rightarrow> ('w, unit) call"
  is_provisioning :: "string \<Rightarrow> bool"

definition peek :: "('w \<Rightarrow> 'a) \<Rightarrow> ('d, 'w, 'a) op" where
  "peek f s = (Inr (f (world s)), s)"

definition se :: "'w sites_env \<Rightarrow> 'w env" where
  "se e = base (sd e)"

section \<open>The tenant's signup\<close>

definition get_request :: "hosting \<Rightarrow> string \<Rightarrow> tenant_request option" where
  "get_request d tenant = (if tenant = [] then None else find (\<lambda>r. tr_tenant r = tenant) (rev (requests d)))"

definition upd_request :: "string \<Rightarrow> (tenant_request \<Rightarrow> tenant_request) \<Rightarrow> hosting \<Rightarrow> hosting" where
  "upd_request n f d = d\<lparr>requests := map (\<lambda>r. if tr_name r = n then f r else r) (requests d)\<rparr>"

definition owner_email :: "'w sites_env \<Rightarrow> hosting \<Rightarrow> suite_site \<Rightarrow> string" where
  "owner_email e d s =
    (case get_request d (ss_tenant s) of
       Some r \<Rightarrow> tr_email r
     | None \<Rightarrow> (case tenants e (ss_tenant s) of None \<Rightarrow> [] | Some t \<Rightarrow> ti_user_email t))"

definition login_email :: "'w sites_env \<Rightarrow> hosting \<Rightarrow> suite_site \<Rightarrow> herr + string" where
  "login_email e d s =
    (let domain = str_or (ss_mail_domain s) (case mail_domain (label_st (sd e)) (ss_label s) of None \<Rightarrow> [] | Some m \<Rightarrow> m) in
     if domain = [] then Inl (Other_Error ''Set the Tenant Mail Zone in Suite Cloud Settings.'')
     else case validate_email_address (idna e) (is_email e) (login_local_part (owner_email e d s) @ ''@'' @ domain) of
       Inl _ \<Rightarrow> Inl (Other_Error ''ValidationError'') | Inr a \<Rightarrow> Inr a)"

definition NO_LETSENCRYPT_EMAIL :: string where
  "NO_LETSENCRYPT_EMAIL = ''The server has no Let's Encrypt email, so the site domain is skipped.''"

text \<open>Empty for None; reading the server of a site that has none raises.\<close>

definition follow_up_skip_reason :: "'w sites_env \<Rightarrow> hosting \<Rightarrow> suite_site \<Rightarrow> herr + string" where
  "follow_up_skip_reason e d s =
    (if ss_assign_site_domain s \<and> own_domain (sd e) s \<noteq> [] then
       (if ss_virtual_machine s = [] then Inl (Other_Error (''Site '' @ ss_name s @ '' has no server yet.''))
        else case get_vm (ss_virtual_machine s) d of
          None \<Rightarrow> Inl (Other_Error ''DoesNotExistError'')
        | Some v \<Rightarrow> Inr (if vm_letsencrypt_email_set v then [] else NO_LETSENCRYPT_EMAIL))
     else Inr [])"

definition get_site_domain_summary :: "'w sites_env \<Rightarrow> suite_site \<Rightarrow> string" where
  "get_site_domain_summary e s =
    (case get_domain s (own_domain (sd e) s) of
       Some r \<Rightarrow> if dr_primary_skipped r then dr_failure_reason r else own_domain (sd e) s
     | None \<Rightarrow> [])"

definition site_view_of :: "'w sites_env \<Rightarrow> hosting \<Rightarrow> 'w \<Rightarrow> suite_site \<Rightarrow> site_view" where
  "site_view_of e d w s =
    \<lparr>sw_name = ss_name s, sw_creation = ss_creation s, sw_error = ss_error s, sw_virtual_machine = ss_virtual_machine s,
     sw_site_created = ss_site_created s, sw_hostname = ss_hostname s, sw_activated_at = ss_activated_at s,
     sw_assign_site_domain = ss_assign_site_domain s, sw_site_domain = own_domain (sd e) s,
     sw_has_site_domain = has_site_domain (sd e) s,
     sw_skip_reason = (case follow_up_skip_reason e d s of Inl _ \<Rightarrow> [] | Inr r \<Rightarrow> r),
     sw_domain_summary = get_site_domain_summary e s, sw_mail_domain = ss_mail_domain s,
     sw_mail_published = md_records_published e (ss_mail_domain s) w, sw_mail_live = md_is_live e (ss_mail_domain s) w,
     sw_owner_invite = ss_owner_invite s, sw_login_email = login_email e d s\<rparr>"

text \<open>The request's site: the one saved with it, else the newest of its tenant that is not dropped.\<close>

definition request_site :: "hosting \<Rightarrow> tenant_request \<Rightarrow> suite_site option" where
  "request_site d r =
    (if tr_suite_site r \<noteq> [] then get_site (tr_suite_site r) d
     else if tr_tenant r \<noteq> [] then find (\<lambda>s. ss_tenant s = tr_tenant r \<and> ss_status s \<noteq> ''Dropped'') (rev (sites d))
     else None)"

definition request_view_of :: "'w sites_env \<Rightarrow> hosting \<Rightarrow> 'w \<Rightarrow> tenant_request \<Rightarrow> request_view" where
  "request_view_of e d w r =
    \<lparr>rv_name = tr_name r, rv_status = tr_status r, rv_email = tr_email r, rv_error = tr_error r, rv_tenant = tr_tenant r,
     rv_label = tr_label r, rv_processing_time = tr_processing_time r,
     rv_site = map_option (site_view_of e d w) (request_site d r)\<rparr>"

definition sync_request :: "'w sites_env \<Rightarrow> tenant_request \<Rightarrow> (hosting, 'w, unit) op" where
  "sync_request e r = seq get_doc (\<lambda>d. seq (peek id) (\<lambda>w.
    seq (lift (sync (now_at (se e)) (request_view_of e d w r) (tr_steps r))) (\<lambda>(rows, p, _).
      db_set (upd_request (tr_name r) (\<lambda>r. r\<lparr>tr_steps := rows, tr_processing_time := p\<rparr>)))))"

definition sync_site :: "'w sites_env \<Rightarrow> string \<Rightarrow> (hosting, 'w, unit) op" where
  "sync_site e n = seq (site_row n) (\<lambda>s. seq get_doc (\<lambda>d.
    case get_request d (ss_tenant s) of None \<Rightarrow> ret () | Some r \<Rightarrow> sync_request e r))"

section \<open>Creating the site\<close>

definition MAX_HOSTNAME_ATTEMPTS :: nat where "MAX_HOSTNAME_ATTEMPTS = 5"

definition mark_created :: "string \<Rightarrow> (hosting, 'w, bool) op" where
  "mark_created n = seq (set_site n (\<lambda>s. s\<lparr>ss_site_created := True, ss_pilot_task := [], ss_error := [],
     ss_status := (if ss_tenant s \<noteq> [] then ''Assigned'' else ''Ready'')\<rparr>)) (\<lambda>_. ret True)"

definition reroll_hostname :: "'w sites_env \<Rightarrow> string \<Rightarrow> string \<Rightarrow> (hosting, 'w, bool) op" where
  "reroll_hostname e n output = seq (site_row n) (\<lambda>s.
    if \<not> contains ''already taken'' (py_lower output) \<or> ss_attempts s + 1 \<ge> MAX_HOSTNAME_ATTEMPTS
    then raise (Setup_Error (str_or output ''Pilot could not create the site.''))
    else seq (site_vm s) (\<lambda>v. seq get_doc (\<lambda>d.
      seq (lift (new_hostname (used_hostnames d) (tokens (sd e)) (vm_wildcard_zone v))) (\<lambda>h.
      seq (set_site n (\<lambda>s. s\<lparr>ss_hostname := h, ss_attempts := ss_attempts s + 1, ss_pilot_task := [], ss_status := ''Pending''\<rparr>)) (\<lambda>_.
      ret True)))))"

definition wait_created :: "'w sites_env \<Rightarrow> string \<Rightarrow> (hosting, 'w, bool) op" where
  "wait_created e n = seq (site_row n) (\<lambda>s. seq (site_vm s) (\<lambda>v.
    seq (wait_for_task (polls (se e)) (pc_get_task (pilot (se e)) v (ss_pilot_task s))) (\<lambda>t.
    if \<not> is_finished t then ret False
    else if t_status t = ''success'' then mark_created n
    else seq (output_tail (pc_task_output (pilot (se e)) v (ss_pilot_task s))) (reroll_hostname e n))))"

text \<open>The create task is asked for, unless it runs already: \<open>Some\<close> is the answer of the step.\<close>

definition start_create :: "'w sites_env \<Rightarrow> string \<Rightarrow> (hosting, 'w, bool option) op" where
  "start_create e n = seq (site_row n) (\<lambda>s. seq (site_vm s) (\<lambda>v.
    if ss_pilot_task s \<noteq> [] then ret None
    else seq (ask (pc_list_sites (pilot (se e)) v)) (\<lambda>names.
      if ss_hostname s \<in> set names then seq (mark_created n) (\<lambda>b. ret (Some b))
      else seq (except (seq (ask (pc_create_site (sd e) v (ss_hostname s) (ss_name s @ '':'' @ show_nat (ss_attempts s)))) (\<lambda>t. ret (Some t)))
            (\<lambda>x. if is_Pilot_Conflict x \<and> conflict_code x = ''task_conflict'' then ret None else raise x))
        (\<lambda>found. case found of
           None \<Rightarrow> ret (Some False)
         | Some t \<Rightarrow> seq (set_site n (\<lambda>s. s\<lparr>ss_pilot_task := t_id t, ss_status := ''Creating''\<rparr>)) (\<lambda>_. ret None)))))"

definition place_site :: "'w sites_env \<Rightarrow> string \<Rightarrow> (hosting, 'w, bool) op" where
  "place_site e n = seq (site_row n) (\<lambda>s.
    if ss_virtual_machine s \<noteq> [] then ret True
    else seq get_doc (\<lambda>d. seq (lift (place (tokens (sd e)) d (ss_region s))) (\<lambda>p. case p of
      None \<Rightarrow> seq (set_site n (\<lambda>s. s\<lparr>ss_error := ''Waiting: no server in '' @ ss_region s @ '' has a free site slot.''\<rparr>)) (\<lambda>_. ret False)
    | Some (v, h) \<Rightarrow> seq (set_site n (\<lambda>s. s\<lparr>ss_virtual_machine := v, ss_hostname := h, ss_error := []\<rparr>)) (\<lambda>_.
        seq (sync_site e n) (\<lambda>_. ret True)))))"

definition create_site :: "'w sites_env \<Rightarrow> string \<Rightarrow> (hosting, 'w, bool) op" where
  "create_site e n = seq (place_site e n) (\<lambda>placed.
    if \<not> placed then ret False
    else seq (start_create e n) (\<lambda>early. case early of Some b \<Rightarrow> ret b | None \<Rightarrow> wait_created e n))"

section \<open>Configuring the site\<close>

text \<open>The host of the site's API, and a call there as its Administrator.\<close>

definition get_site_client :: "suite_site \<Rightarrow> (hosting, 'w, string) op" where
  "get_site_client s = seq (site_vm s) (\<lambda>_. lift (get_api_host s))"

definition site_call :: "'w sites_env \<Rightarrow> string \<Rightarrow> site_request \<Rightarrow> (hosting, 'w, site_answer option) op" where
  "site_call e host req = ask (client e host req)"

text \<open>\<open>host\<close> is the name in the address, in lower case.\<close>

definition is_reachable_url :: "'w sites_env \<Rightarrow> string \<Rightarrow> bool" where
  "is_reachable_url e url =
    (let host = py_lower (url_host e url) in
     case ip_is_global e host of
       Some b \<Rightarrow> b
     | None \<Rightarrow> CHR ''.'' \<in> set host \<and> \<not> suffix ''.localhost'' host \<and> \<not> suffix ''.local'' host \<and> host \<noteq> ''localhost'')"

definition push_tenant_credentials :: "'w sites_env \<Rightarrow> string \<Rightarrow> tenant_info \<Rightarrow> (hosting, 'w, unit) op" where
  "push_tenant_credentials e host t =
    (if \<not> is_reachable_url e (suite_cloud_url e) then
       raise (Setup_Error (''A hosted site cannot reach Suite Cloud at '' @ suite_cloud_url e @ ''.''))
     else seq (site_call e host (Set_Single ''Suite Settings''
        [(''suite_cloud_url'', suite_cloud_url e), (''suite_cloud_tenant'', ti_name t), (''suite_cloud_secret'', ti_secret t),
         (''workspace_name'', ti_title t), (''contact_email'', ti_contact_email t)])) (\<lambda>_. ret ()))"

definition configure_suite :: "'w sites_env \<Rightarrow> suite_site \<Rightarrow> string \<Rightarrow> (hosting, 'w, unit) op" where
  "configure_suite e s host =
    (case tenants e (ss_tenant s) of
       None \<Rightarrow> throw ''DoesNotExistError''
     | Some t \<Rightarrow>
        seq (push_tenant_credentials e host t) (\<lambda>_.
        seq (case ti_cluster_url t of None \<Rightarrow> ret ()
             | Some u \<Rightarrow> seq (site_call e host (Set_Single ''Mail Settings'' [(''server_url'', u)])) (\<lambda>_. ret ())) (\<lambda>_.
        seq get_doc (\<lambda>d.
        seq (site_call e host (Call_Method ''suite.api.account.mark_onboarded''
          [(''timezone'', case get_request d (ss_tenant s) of None \<Rightarrow> [] | Some r \<Rightarrow> tr_timezone r)])) (\<lambda>_.
        seq (site_call e host (Run_Doc_Method ''Suite Settings'' ''Suite Settings'' ''validate_suite_cloud_credentials'')) (\<lambda>_. ret ()))))))"

definition activate :: "'w sites_env \<Rightarrow> string \<Rightarrow> (hosting, 'w, unit) op" where
  "activate e n = seq (site_row n) (\<lambda>s. seq get_doc (\<lambda>d. seq (lift (follow_up_skip_reason e d s)) (\<lambda>reason.
    set_site n (\<lambda>s. s\<lparr>ss_status := ''Active'', ss_activated_at := Some (now_at (se e)), ss_error := reason\<rparr>))))"

definition configure_once :: "'w sites_env \<Rightarrow> string \<Rightarrow> (hosting, 'w, unit) op" where
  "configure_once e n = seq (site_row n) (\<lambda>s.
    if ss_suite_configured s then ret ()
    else seq (get_site_client s) (\<lambda>host. seq (configure_suite e s host) (\<lambda>_.
      seq (set_site n (\<lambda>s. s\<lparr>ss_suite_configured := True\<rparr>)) (\<lambda>_. checkpoint))))"

definition configure :: "'w sites_env \<Rightarrow> string \<Rightarrow> (hosting, 'w, bool) op" where
  "configure e n = seq (set_site n (\<lambda>s. s\<lparr>ss_status := ''Configuring''\<rparr>)) (\<lambda>_.
    seq (configure_once e n) (\<lambda>_. seq (activate e n) (\<lambda>_. ret True)))"

section \<open>The owner's invite\<close>

definition INVITE_DAYS :: int where "INVITE_DAYS = 7"

text \<open>The request is completed with the invite.\<close>

definition complete :: "string \<Rightarrow> (hosting, 'w, unit) op" where
  "complete r = db_set (upd_request r (\<lambda>r. r\<lparr>tr_status := ''Completed'', tr_error := []\<rparr>))"

definition show_int :: "int \<Rightarrow> string" where
  "show_int i = (if i < 0 then ''-'' @ show_nat (nat (- i)) else show_nat (nat i))"

definition invite_owner :: "'w sites_env \<Rightarrow> string \<Rightarrow> (hosting, 'w, bool) op" where
  "invite_owner e n = seq (site_row n) (\<lambda>s. seq get_doc (\<lambda>d.
    seq (get_site_client s) (\<lambda>host. seq (lift (login_email e d s)) (\<lambda>login.
    seq (site_call e host (Create_Doc ''Mail Account Request''
      [(''account'', login), (''backup_email'', owner_email e d s), (''is_admin'', ''1''), (''send_invite'', ''1''),
       (''expires_at'', show_int (now_at (se e) + INVITE_DAYS * 86400))])) (\<lambda>found. case found of
      None \<Rightarrow> throw ''TypeError''
    | Some invite \<Rightarrow>
        seq (set_site n (\<lambda>s. s\<lparr>ss_owner_invite := sd_name invite, ss_owner_invited_at := Some (now_at (se e))\<rparr>)) (\<lambda>_.
        seq (case get_request d (ss_tenant s) of None \<Rightarrow> ret () | Some r \<Rightarrow> complete (tr_name r)) (\<lambda>_. ret True)))))))"

definition resend_owner_invite :: "'w sites_env \<Rightarrow> string \<Rightarrow> (hosting, 'w, unit) op" where
  "resend_owner_invite e n = seq (site_row n) (\<lambda>s. seq (get_site_client s) (\<lambda>host.
    seq (if ss_owner_invite s = [] then ret None else site_call e host (Get_Doc ''Mail Account Request'' (ss_owner_invite s))) (\<lambda>found.
    case found of
      None \<Rightarrow> seq (invite_owner e n) (\<lambda>_. ret ())
    | Some invite \<Rightarrow>
        if sd_is_verified invite then throw ''The owner already accepted the invite.''
        else if sd_expires_at invite > now_at (se e) then
          seq (site_call e host (Run_Doc_Method ''Mail Account Request'' (ss_owner_invite s) ''send_verification_email'')) (\<lambda>_.
            set_site n (\<lambda>s. s\<lparr>ss_owner_invited_at := Some (now_at (se e))\<rparr>))
        else seq (invite_owner e n) (\<lambda>_. ret ()))))"

section \<open>The tenant's mail domain\<close>

definition MAIL_PUBLISHED_TYPES :: "string list" where
  "MAIL_PUBLISHED_TYPES = [''MX'', ''TXT'', ''CNAME'']"

text \<open>\<open>domain_name.split(".", 1)[1]\<close>: a name without a dot raises.\<close>

definition parent_zone :: "string \<Rightarrow> herr + string" where
  "parent_zone name = (case partition_at (CHR ''.'') name of (_, found, rest) \<Rightarrow> if found then Inr rest else Inl (Other_Error ''IndexError''))"

definition record_rows :: "dns_row list \<Rightarrow> string \<Rightarrow> herr + published list" where
  "record_rows rows zone =
    rmap (\<lambda>r. case relative_host (dw_fqdn r) zone of
        Inl _ \<Rightarrow> Inl (Other_Error (dw_fqdn r))
      | Inr h \<Rightarrow> Inr \<lparr>pb_zone = zone, pb_host = h, pb_type = dw_type r, pb_value = dw_value r, pb_priority = dw_priority r, pb_ttl = dw_ttl r,
                     pb_category = (if dw_category r = ''SPF'' then ''SPF'' else ''Other'')\<rparr>)
      (filter (\<lambda>r. dw_type r \<in> set MAIL_PUBLISHED_TYPES) rows)"

definition publish_records :: "'w sites_env \<Rightarrow> string \<Rightarrow> (hosting, 'w, unit) op" where
  "publish_records e domain = seq (lift (parent_zone domain)) (\<lambda>zone.
    seq (ask (md_rows e domain)) (\<lambda>rows. seq (lift (record_rows rows zone)) (\<lambda>pub. ask (reconcile (sd e) ''Mail Domain'' domain pub))))"

definition ensure_domain :: "'w sites_env \<Rightarrow> string \<Rightarrow> (hosting, 'w, string) op" where
  "ensure_domain e n = seq (site_row n) (\<lambda>s.
    if ss_mail_domain s \<noteq> [] then
      seq (ask (md_get e (ss_mail_domain s))) (\<lambda>found. case found of None \<Rightarrow> throw ''DoesNotExistError'' | Some m \<Rightarrow> ret (mi_name m))
    else case mail_domain (label_st (sd e)) (ss_label s) of
      None \<Rightarrow> throw ''Set the Tenant Mail Zone in Suite Cloud Settings.''
    | Some name \<Rightarrow>
        seq (ask (md_get e name)) (\<lambda>found.
        seq (case found of Some m \<Rightarrow> ret m | None \<Rightarrow> ask (md_insert e name (ss_tenant s))) (\<lambda>m.
        if mi_tenant m \<noteq> ss_tenant s \<or> \<not> mi_hosted m then throw (''Mail Domain '' @ name @ '' belongs to someone else.'')
        else seq (set_site n (\<lambda>s. s\<lparr>ss_mail_domain := mi_name m\<rparr>)) (\<lambda>_. ret (mi_name m)))))"

definition ensure_live :: "'w sites_env \<Rightarrow> string \<Rightarrow> (hosting, 'w, bool) op" where
  "ensure_live e domain = seq (peek (md_is_live e domain)) (\<lambda>live.
    if live then ret True else seq (ask (md_verify e domain)) (\<lambda>_. peek (md_is_live e domain)))"

definition ensure_mail :: "'w sites_env \<Rightarrow> string \<Rightarrow> (hosting, 'w, bool) op" where
  "ensure_mail e n = seq (site_row n) (\<lambda>s.
    case tenants e (ss_tenant s) of
      None \<Rightarrow> throw ''DoesNotExistError''
    | Some t \<Rightarrow>
      if ti_cluster_url t = None then
        seq (set_site n (\<lambda>s. s\<lparr>ss_error := ''Tenant '' @ ti_name t @ '' has no Stalwart cluster; mail is skipped.''\<rparr>)) (\<lambda>_. ret False)
      else seq (ensure_domain e n) (\<lambda>domain. seq (publish_records e domain) (\<lambda>_. seq checkpoint (\<lambda>_.
        seq (ask (confirm (sd e) ''Mail Domain'' domain)) (\<lambda>ok.
        if \<not> ok then ret False
        else seq (ensure_live e domain) (\<lambda>live.
          if \<not> live then ret False
          else seq (set_site n (\<lambda>s. s\<lparr>ss_mail_domain_verified := True\<rparr>)) (\<lambda>_. ret True)))))))"

definition detach :: "string \<Rightarrow> (hosting, 'w, unit) op" where
  "detach n = set_site n (\<lambda>s. s\<lparr>ss_mail_domain := [], ss_mail_domain_verified := False\<rparr>)"

definition assert_not_hosted :: "mail_info \<Rightarrow> herr + unit" where
  "assert_not_hosted m = require (\<not> mi_hosted m) (Other_Error (mi_name m @ '' is managed by Suite Cloud and cannot be changed.''))"

section \<open>Follow-ups of an active site\<close>

text \<open>Labels of the follow-ups that are left, in order.\<close>

definition pending_follow_ups :: "'w sites_env \<Rightarrow> hosting \<Rightarrow> suite_site \<Rightarrow> herr + string list" where
  "pending_follow_ups e d s =
    (let first = (if \<not> ss_mail_domain_verified s then [''Mail''] else if ss_owner_invite s = [] then [''Owner invite''] else []) in
     if ss_assign_site_domain s \<and> own_domain (sd e) s \<noteq> [] \<and> \<not> has_site_domain (sd e) s
     then rbind (follow_up_skip_reason e d s) (\<lambda>reason. Inr (if reason = [] then first @ [''Site domain''] else first))
     else Inr first)"

definition run_follow_up :: "'w sites_env \<Rightarrow> string \<Rightarrow> string \<Rightarrow> (hosting, 'w, bool) op" where
  "run_follow_up e n label =
    (if label = ''Mail'' then ensure_mail e n
     else if label = ''Owner invite'' then invite_owner e n
     else ensure_site_domain (sd e) n)"

definition is_waiting :: "herr \<Rightarrow> bool" where
  "is_waiting x \<longleftrightarrow> is_Pilot_Not_Ready x \<or> is_Site_Unavailable x \<or> is_Central_Unavailable x"

definition set_error :: "string \<Rightarrow> string \<Rightarrow> (hosting, 'w, unit) op" where
  "set_error n m = set_site n (\<lambda>s. s\<lparr>ss_error := m\<rparr>)"

definition attempt_follow_up :: "'w sites_env \<Rightarrow> string \<Rightarrow> string \<Rightarrow> (hosting, 'w, unit) op" where
  "attempt_follow_up e n label = seq begin_step (\<lambda>_.
    seq (except (seq (run_follow_up e n label) (\<lambda>ok.
          if ok then set_site n (\<lambda>s. if prefix (label @ '':'') (ss_error s) then s\<lparr>ss_error := []\<rparr> else s) else ret ()))
        (\<lambda>x. if is_waiting x then set_error n (label @ '': waiting: '' @ error_text x)
             else seq undo_step (\<lambda>_. set_error n (label @ '': '' @ error_text x)))) (\<lambda>_.
    sync_site e n))"

text \<open>
  Each follow-up is attempted once and there are three labels, so the loop ends with its fourth reading
  of the follow-ups that are left at the latest (\<open>follow_up_rounds_enough\<close>).
\<close>

definition FOLLOW_UPS :: "string list" where
  "FOLLOW_UPS = [''Mail'', ''Owner invite'', ''Site domain'']"

fun follow_up_loop :: "nat \<Rightarrow> 'w sites_env \<Rightarrow> string \<Rightarrow> string list \<Rightarrow> (hosting, 'w, string list) op" where
  "follow_up_loop 0 e n attempted = ret attempted"
| "follow_up_loop (Suc k) e n attempted = seq (site_row n) (\<lambda>s. seq get_doc (\<lambda>d.
    seq (lift (pending_follow_ups e d s)) (\<lambda>pending.
    case filter (\<lambda>l. l \<notin> set attempted) pending of
      [] \<Rightarrow> ret attempted
    | label # _ \<Rightarrow> seq (attempt_follow_up e n label) (\<lambda>_. follow_up_loop k e n (label # attempted)))))"

lemma pending_follow_ups_known: "pending_follow_ups e d s = Inr p \<Longrightarrow> set p \<subseteq> set FOLLOW_UPS"
  by (auto simp: pending_follow_ups_def FOLLOW_UPS_def Let_def split: if_splits sum.splits)

lemma seq_cong_run: "m st = m' st \<Longrightarrow> (\<And>x t. m st = (Inr x, t) \<Longrightarrow> f x t = g x t) \<Longrightarrow> seq m f st = seq m' g st"
  by (auto simp: seq_def split: prod.splits sum.splits)

lemma follow_up_loop_settled:
  assumes "card (set FOLLOW_UPS - set attempted) \<le> k"
  shows "follow_up_loop (Suc k + j) e n attempted st = follow_up_loop (Suc k) e n attempted st"
  using assms
proof (induction k arbitrary: attempted st)
  case (0 attempted)
  then have all: "set FOLLOW_UPS \<subseteq> set attempted" by simp
  have none: "filter (\<lambda>l. l \<notin> set attempted) p = []" if "pending_follow_ups e d s = Inr p" for d s p
    using pending_follow_ups_known [OF that] all by (auto simp: filter_empty_conv)
  show ?case by (auto intro!: seq_cong_run simp: lift_def none split: sum.splits)
next
  case (Suc k attempted)
  have rest: "follow_up_loop (Suc k + j) e n (l # attempted) t = follow_up_loop (Suc k) e n (l # attempted) t"
    if known: "pending_follow_ups e d s = Inr p" and new: "filter (\<lambda>l. l \<notin> set attempted) p = l # ls" for d s p l ls t
  proof (rule Suc.IH)
    have "l \<in> set (filter (\<lambda>l. l \<notin> set attempted) p)" using new by simp
    then have "l \<in> set FOLLOW_UPS - set attempted" using pending_follow_ups_known [OF known] by auto
    then have "set FOLLOW_UPS - set (l # attempted) \<subset> set FOLLOW_UPS - set attempted" by auto
    from psubset_card_mono [OF _ this] show "card (set FOLLOW_UPS - set (l # attempted)) \<le> k" using Suc.prems by simp
  qed
  show ?case
    by (simp only: add_Suc follow_up_loop.simps, intro seq_cong_run refl)
      (auto simp: lift_def intro!: seq_cong_run rest [simplified] split: sum.splits list.splits)
qed

lemma follow_up_rounds_enough:
  assumes "length FOLLOW_UPS < k"
  shows "follow_up_loop k e n [] = follow_up_loop (Suc (length FOLLOW_UPS)) e n []"
proof -
  obtain j where k: "k = Suc (length FOLLOW_UPS) + j" using assms less_eqE Suc_leI by blast
  have "card (set FOLLOW_UPS - set []) \<le> length FOLLOW_UPS" by (simp add: card_length)
  from follow_up_loop_settled [OF this] show ?thesis unfolding k by (intro ext)
qed

definition follow_up :: "'w sites_env \<Rightarrow> string \<Rightarrow> (hosting, 'w, bool) op" where
  "follow_up e n = seq (site_row n) (\<lambda>s. seq get_doc (\<lambda>d.
    seq (if ss_error s = NO_LETSENCRYPT_EMAIL then
          seq (lift (follow_up_skip_reason e d s)) (\<lambda>reason. if reason = [] then set_error n [] else ret ())
        else ret ()) (\<lambda>_.
    seq (follow_up_loop (Suc (length FOLLOW_UPS)) e n []) (\<lambda>_. ret False))))"

section \<open>Running the steps\<close>

definition error_class :: "herr \<Rightarrow> string" where
  "error_class x = (if is_Pilot_Conflict x then ''PilotConflict'' else if is_Pilot_Error x then ''PilotError''
     else if is_Central_Rejected x then ''CentralRejectedError'' else if is_Setup_Error x then ''SiteSetupError'' else ''Exception'')"

definition fail :: "string \<Rightarrow> string \<Rightarrow> (hosting, 'w, unit) op" where
  "fail n m = seq (site_row n) (\<lambda>s. seq (set_site n (\<lambda>s. s\<lparr>ss_status := ''Failed'', ss_error := m\<rparr>)) (\<lambda>_. seq get_doc (\<lambda>d.
    case get_request d (ss_tenant s) of
      None \<Rightarrow> ret ()
    | Some r \<Rightarrow> if tr_status r = ''Processing''
        then db_set (upd_request (tr_name r) (\<lambda>r. r\<lparr>tr_status := ''Failed'', tr_error := m\<rparr>)) else ret ())))"

definition run_site_step :: "'w sites_env \<Rightarrow> string \<Rightarrow> (hosting, 'w, bool) op \<Rightarrow> (hosting, 'w, bool) op" where
  "run_site_step e n step = seq begin_step (\<lambda>_.
    seq (except step (\<lambda>x.
      if is_waiting x then seq (set_error n (''Waiting: '' @ error_text x)) (\<lambda>_. ret False)
      else seq undo_step (\<lambda>_. seq (fail n (str_or (error_text x) (error_class x))) (\<lambda>_. ret False)))) (\<lambda>advanced.
    seq (sync_site e n) (\<lambda>_. ret advanced)))"

definition step_for :: "'w sites_env \<Rightarrow> string \<Rightarrow> string \<Rightarrow> (hosting, 'w, bool) op option" where
  "step_for e n status =
    (if status \<in> {''Pending'', ''Creating''} then Some (create_site e n)
     else if status \<in> {''Assigned'', ''Configuring''} then Some (configure e n)
     else if status = ''Active'' then Some (follow_up e n)
     else None)"

text \<open>The loop with fuel: \<open>False\<close> when it runs out.\<close>

fun provision_site :: "nat \<Rightarrow> 'w sites_env \<Rightarrow> string \<Rightarrow> (hosting, 'w, bool) op" where
  "provision_site 0 e n = ret False"
| "provision_site (Suc k) e n = seq (site_row n) (\<lambda>s.
    case step_for e n (ss_status s) of
      None \<Rightarrow> ret True
    | Some step \<Rightarrow> seq (run_site_step e n step) (\<lambda>advanced. if advanced then provision_site k e n else ret True))"

section \<open>Operator actions\<close>

definition resume_status :: "suite_site \<Rightarrow> string" where
  "resume_status s =
    (if \<not> ss_site_created s then ''Pending''
     else if ss_tenant s = [] then ''Ready''
     else if ss_suite_configured s then ''Active'' else ''Assigned'')"

definition retry_site :: "'w sites_env \<Rightarrow> string \<Rightarrow> (hosting, 'w, unit) op" where
  "retry_site e n = seq (site_row n) (\<lambda>s.
    seq (if ss_status s = ''Failed'' then set_site n (\<lambda>s. s\<lparr>ss_status := resume_status s, ss_error := [], ss_pilot_task := []\<rparr>) else ret ()) (\<lambda>_.
    seq get_doc (\<lambda>d. case get_request d (ss_tenant s) of
      None \<Rightarrow> ret ()
    | Some r \<Rightarrow> if tr_status r = ''Failed'' then
        seq (db_set (upd_request (tr_name r) (\<lambda>r. r\<lparr>tr_status := ''Processing'', tr_error := []\<rparr>))) (\<lambda>_.
          sync_request e (r\<lparr>tr_status := ''Processing'', tr_error := []\<rparr>))
      else ret ())))"

definition drop_from_server :: "'w sites_env \<Rightarrow> string \<Rightarrow> (hosting, 'w, unit) op" where
  "drop_from_server e n = seq (site_row n) (\<lambda>s.
    if ss_virtual_machine s = [] \<or> ss_hostname s = [] then ret ()
    else seq (site_vm s) (\<lambda>v. seq (ask (pc_list_sites (pilot (se e)) v)) (\<lambda>names.
      if ss_hostname s \<notin> set names then ret ()
      else seq (ask (pc_drop_site (sd e) v (ss_hostname s))) (\<lambda>t.
        seq (wait_for_task (polls (se e)) (pc_get_task (pilot (se e)) v (t_id t))) (\<lambda>t.
        if \<not> is_finished t then raise (Setup_Error ''Pilot is still dropping the site; run Drop Site again shortly.'')
        else if t_status t \<noteq> ''success'' then
          seq (output_tail (pc_task_output (pilot (se e)) v (t_id t))) (\<lambda>out. raise (Setup_Error out))
        else ret ())))))"

text \<open>\<open>delete_managed_records\<close> is a reconciliation with no rows left.\<close>

definition drop_site :: "'w sites_env \<Rightarrow> string \<Rightarrow> (hosting, 'w, unit) op" where
  "drop_site e n = seq (site_row n) (\<lambda>s.
    if ss_status s = ''Dropped'' then ret ()
    else if is_provisioning e n then set_error n ''The site's setup job is running; run Drop Site again once it finishes.''
    else seq (set_site n (\<lambda>s. s\<lparr>ss_status := ''Dropping''\<rparr>)) (\<lambda>_. seq checkpoint (\<lambda>_.
      seq (except (seq (drop_from_server e n) (\<lambda>_. seq (detach n) (\<lambda>_. seq (ask (reconcile (sd e) ''Suite Site'' n [])) (\<lambda>_. ret True))))
            (\<lambda>x. seq undo_step (\<lambda>_. seq (set_error n (''Drop failed: '' @ error_text x)) (\<lambda>_. ret False)))) (\<lambda>ok.
      if ok then set_site n (\<lambda>s. s\<lparr>ss_status := ''Dropped'', ss_dropped_at := Some (now_at (se e)), ss_error := [], ss_label := []\<rparr>)
      else ret ()))))"

text \<open>The sites the cron job comes back to.\<close>

definition poll_pending_sites :: "'w sites_env \<Rightarrow> hosting \<Rightarrow> herr + string list" where
  "poll_pending_sites e d =
    (let mid = map ss_name (filter (\<lambda>s. ss_status s \<in> {''Pending'', ''Creating'', ''Assigned'', ''Configuring''}) (sites d)) in
     rbind (rmap (\<lambda>s. rbind (pending_follow_ups e d s) (\<lambda>p. Inr (if p = [] then [] else [ss_name s])))
       (filter (\<lambda>s. ss_status s = ''Active'') (sites d))) (\<lambda>active. Inr (mid @ concat active)))"

end
