(* ===== verification/Site_Lifecycle.thy ===== *)
theory Site_Lifecycle
  imports Sites
begin

text \<open>
  The life of a Suite Site as a state machine, and that the operations of the theory \<open>Sites\<close> implement
  it: whatever a job does to a site's row is a run of the machine's moves, also when the job fails half-way
  and is undone.  Jobs on one site do not interleave.
\<close>

section \<open>The machine\<close>

text \<open>What two rows of a site must share to be at the same point of its life.\<close>

definition same_life :: "suite_site \<Rightarrow> suite_site \<Rightarrow> bool" where
  "same_life r r' \<longleftrightarrow> ss_name r' = ss_name r \<and> ss_region r' = ss_region r \<and> ss_tenant r' = ss_tenant r \<and> ss_label r' = ss_label r
     \<and> ss_status r' = ss_status r \<and> ss_virtual_machine r' = ss_virtual_machine r \<and> ss_hostname r' = ss_hostname r
     \<and> ss_attempts r' = ss_attempts r \<and> ss_site_created r' = ss_site_created r \<and> ss_suite_configured r' = ss_suite_configured r"

definition PIPELINE :: "string list" where
  "PIPELINE = [''Pending'', ''Creating'', ''Ready'', ''Assigned'', ''Configuring'', ''Active'']"

inductive site_move :: "suite_site \<Rightarrow> suite_site \<Rightarrow> bool" where
  quiet: "same_life r r' \<Longrightarrow> site_move r r'"
| placed: "ss_virtual_machine r = [] \<Longrightarrow> site_move r (r\<lparr>ss_virtual_machine := v, ss_hostname := h\<rparr>)"
| creating: "ss_status r \<in> {''Pending'', ''Creating''} \<Longrightarrow> site_move r (r\<lparr>ss_status := ''Creating''\<rparr>)"
| created: "ss_status r \<in> {''Pending'', ''Creating''} \<Longrightarrow> ss_virtual_machine r \<noteq> [] \<Longrightarrow>
    site_move r (r\<lparr>ss_site_created := True, ss_status := (if ss_tenant r \<noteq> [] then ''Assigned'' else ''Ready'')\<rparr>)"
| rerolled: "ss_status r \<in> {''Pending'', ''Creating''} \<Longrightarrow> ss_attempts r + 1 < MAX_HOSTNAME_ATTEMPTS \<Longrightarrow>
    site_move r (r\<lparr>ss_hostname := h, ss_attempts := ss_attempts r + 1, ss_status := ''Pending''\<rparr>)"
| configuring: "ss_status r \<in> {''Assigned'', ''Configuring''} \<Longrightarrow> site_move r (r\<lparr>ss_status := ''Configuring''\<rparr>)"
| configured: "ss_status r = ''Configuring'' \<Longrightarrow> site_move r (r\<lparr>ss_suite_configured := True\<rparr>)"
| activated: "ss_status r = ''Configuring'' \<Longrightarrow> ss_suite_configured r \<Longrightarrow> site_move r (r\<lparr>ss_status := ''Active''\<rparr>)"
| failed: "ss_status r \<in> set PIPELINE \<Longrightarrow> site_move r (r\<lparr>ss_status := ''Failed''\<rparr>)"
| resumed: "ss_status r = ''Failed'' \<Longrightarrow> site_move r (r\<lparr>ss_status := resume_status r\<rparr>)"
| claimed: "ss_status r = ''Ready'' \<Longrightarrow> ss_tenant r = [] \<Longrightarrow> tenant \<noteq> [] \<Longrightarrow>
    site_move r (r\<lparr>ss_tenant := tenant, ss_label := label, ss_status := ''Assigned''\<rparr>)"
| dropping: "ss_status r \<noteq> ''Dropped'' \<Longrightarrow> site_move r (r\<lparr>ss_status := ''Dropping''\<rparr>)"
| dropped: "ss_status r = ''Dropping'' \<Longrightarrow> site_move r (r\<lparr>ss_status := ''Dropped'', ss_label := []\<rparr>)"

inductive_cases site_moveE: "site_move r r'"

abbreviation moves :: "suite_site \<Rightarrow> suite_site \<Rightarrow> bool" where
  "moves \<equiv> site_move\<^sup>*\<^sup>*"

lemma move_name: "site_move r r' \<Longrightarrow> ss_name r' = ss_name r"
  by (induction rule: site_move.induct) (simp_all add: same_life_def)

lemma same_life_refl [simp]: "same_life r r"
  by (simp add: same_life_def)

lemma moves_quiet: "same_life r r' \<Longrightarrow> moves r r'"
  by (simp add: site_move.quiet r_into_rtranclp)

text \<open>A write that does one move and notes something beside it.\<close>

lemma moves_then: "site_move r r1 \<Longrightarrow> same_life r1 r' \<Longrightarrow> moves r r'"
  by (meson converse_rtranclp_into_rtranclp moves_quiet)

section \<open>Rows that moved\<close>

definition moved :: "hosting \<Rightarrow> hosting \<Rightarrow> bool" where
  "moved d0 d \<longleftrightarrow> distinct (map ss_name (sites d)) \<and> list_all2 moves (sites d0) (sites d)"

definition row_is :: "string \<Rightarrow> (suite_site \<Rightarrow> bool) \<Rightarrow> hosting \<Rightarrow> bool" where
  "row_is n P d \<longleftrightarrow> (\<exists>r. get_site n d = Some r \<and> P r)"

lemma get_upd_site [simp]:
  "(\<And>r. ss_name (f r) = ss_name r) \<Longrightarrow> get_site m (upd_site n f d) = (if m = n then map_option f (get_site n d) else get_site m d)"
  by (simp add: get_site_def upd_site_def find_upd_key)

lemma moved_refl: "distinct (map ss_name (sites d)) \<Longrightarrow> moved d d"
  by (simp add: moved_def list.rel_refl)

lemma moved_upd:
  assumes "moved d0 d" "\<And>r. get_site n d = Some r \<Longrightarrow> moves r (f r)" "\<And>r. ss_name (f r) = ss_name r"
  shows "moved d0 (upd_site n f d)"
proof -
  have found: "get_site n d = Some r" if "r \<in> set (sites d)" "ss_name r = n" for r
    using find_distinct_key [of ss_name "sites d" r] that assms(1) by (simp add: moved_def get_site_def)
  have "list_all2 moves (sites d) (sites (upd_site n f d))"
    using assms(2) found by (auto simp: upd_site_def list_all2_map2 intro!: list.rel_refl_strong)
  then have "list_all2 moves (sites d0) (sites (upd_site n f d))"
    using assms(1) list_all2_trans [of moves moves moves] unfolding moved_def by (metis rtranclp_trans)
  moreover have "map ss_name (sites (upd_site n f d)) = map ss_name (sites d)"
    using assms(3) by (simp add: upd_site_def)
  ultimately show ?thesis using assms(1) by (simp add: moved_def)
qed

text \<open>The rows' part of the pre- and postconditions: site \<open>n\<close> is in the pipeline and satisfies \<open>P\<close>.\<close>

definition in_step :: "hosting \<Rightarrow> string \<Rightarrow> (suite_site \<Rightarrow> bool) \<Rightarrow> hosting \<Rightarrow> bool" where
  "in_step d0 n P d \<longleftrightarrow> moved d0 d \<and> row_is n (\<lambda>r. ss_status r \<in> set PIPELINE \<and> P r) d"

abbreviation any_step :: "hosting \<Rightarrow> string \<Rightarrow> hosting \<Rightarrow> bool" where
  "any_step d0 n \<equiv> in_step d0 n (\<lambda>_. True)"

lemma in_step_any: "in_step d0 n P d \<Longrightarrow> any_step d0 n d"
  by (auto simp: in_step_def row_is_def)

lemma in_step_upd:
  assumes "in_step d0 n P d" "\<And>r. ss_status r \<in> set PIPELINE \<Longrightarrow> P r \<Longrightarrow> moves r (f r) \<and> ss_status (f r) \<in> set PIPELINE \<and> Q (f r)"
    "\<And>r. ss_name (f r) = ss_name r"
  shows "in_step d0 n Q (upd_site n f d)"
proof -
  obtain r where r: "get_site n d = Some r" "ss_status r \<in> set PIPELINE" "P r" and moved: "moved d0 d"
    using assms(1) by (auto simp: in_step_def row_is_def)
  have "moved d0 (upd_site n f d)"
    by (rule moved_upd [OF moved]) (use assms(2,3) r in simp_all)
  then show ?thesis using r assms(2,3) by (simp add: in_step_def row_is_def)
qed

lemma triple_set_site:
  assumes "\<And>r. ss_status r \<in> set PIPELINE \<Longrightarrow> P r \<Longrightarrow> moves r (f r) \<and> ss_status (f r) \<in> set PIPELINE \<and> Q (f r)"
    "\<And>r. ss_name (f r) = ss_name r"
  shows "triple (in_step d0 n P) (set_site n f) (\<lambda>_. in_step d0 n Q) (any_step d0 n)"
  unfolding set_site_def by (rule triple_db_set) (rule in_step_upd [OF _ assms])

lemma triple_site_row:
  "triple (in_step d0 n P) (site_row n) (\<lambda>r. in_step d0 n (\<lambda>r'. r' = r \<and> P r')) (any_step d0 n)"
  unfolding triple_def site_row_def throw_def
  by (auto simp: in_step_def row_is_def step_defs split: option.splits)

lemma triple_still:
  assumes "holds (in_step d0 n P) m" "keeps (any_step d0 n) m"
  shows "triple (in_step d0 n P) m (\<lambda>_. in_step d0 n P) (any_step d0 n)"
  by (rule triple_frame [OF assms]) (rule in_step_any)

text \<open>The signup's rows are no part of a site.\<close>

lemma in_step_requests [simp]: "in_step d0 n P (upd_request m f d) = in_step d0 n P d"
  by (simp add: in_step_def moved_def row_is_def get_site_def upd_request_def)

lemma keeps_site_row [keeps_intros]: "keeps I (site_row n)"
  unfolding site_row_def throw_def by (intro keeps_intros)

lemma keeps_site_vm [keeps_intros]: "keeps I (site_vm s)"
  unfolding site_vm_def throw_def by (intro keeps_intros)

lemma keeps_peek [keeps_intros]: "keeps I (peek f)"
  by (simp add: keeps_def peek_def)

lemma holds_site_row [holds_intros]: "holds I (site_row n)"
  unfolding site_row_def throw_def by (intro holds_intros)

lemma holds_row_of [holds_intros]: "holds I (row_of n)"
  unfolding row_of_def by (intro holds_intros)

lemma holds_site_vm [holds_intros]: "holds I (site_vm s)"
  unfolding site_vm_def throw_def by (intro holds_intros)

lemma holds_peek [holds_intros]: "holds I (peek f)"
  by (simp add: holds_def peek_def)

lemma sync_request_keeps: "(\<And>f d. I d \<Longrightarrow> I (upd_request (tr_name r) f d)) \<Longrightarrow> keeps I (sync_request e r) \<and> holds I (sync_request e r)"
  unfolding sync_request_def case_prod_beta
  by (intro conjI keeps_intros holds_intros keeps_db_set holds_db_set) simp_all

lemma sync_site_keeps:
  assumes "\<And>m f d. I d \<Longrightarrow> I (upd_request m f d)"
  shows "keeps I (sync_site e n)" "holds I (sync_site e n)"
proof -
  have req: "keeps I (sync_request e r)" "holds I (sync_request e r)" for r
    using sync_request_keeps [of I r e] assms by blast+
  show "keeps I (sync_site e n)" unfolding sync_site_def by (intro keeps_intros req)
  show "holds I (sync_site e n)" unfolding sync_site_def by (intro holds_intros req)
qed

lemma triple_sync: "triple (in_step d0 n P) (sync_site e n) (\<lambda>_. in_step d0 n P) (any_step d0 n)"
  by (rule triple_still) (rule sync_site_keeps; simp)+

section \<open>Creating a site\<close>

text \<open>How many passes of the loop a site has left.\<close>

definition rank :: "suite_site \<Rightarrow> nat" where
  "rank r = (if ss_status r \<in> {''Pending'', ''Creating''} then 3 + (MAX_HOSTNAME_ATTEMPTS - ss_attempts r)
     else if ss_status r \<in> {''Assigned'', ''Configuring''} then 2 else if ss_status r = ''Active'' then 1 else 0)"

definition unborn :: "nat \<Rightarrow> suite_site \<Rightarrow> bool" where
  "unborn a r \<longleftrightarrow> ss_status r \<in> {''Pending'', ''Creating''} \<and> ss_attempts r = a"

lemmas triple_pure = triple_still [OF holds_basic(1) keeps_ret]

lemma triple_done: "(\<And>r. P r \<Longrightarrow> Q r) \<Longrightarrow> triple (in_step d0 n P) (ret x) (\<lambda>_. in_step d0 n Q) (any_step d0 n)"
  by (rule triple_ret) (auto simp: in_step_def row_is_def)

lemma triple_answer:
  "(\<And>r. P r \<Longrightarrow> Q x r) \<Longrightarrow> triple (in_step d0 n P) (ret x) (\<lambda>y. in_step d0 n (Q y)) (any_step d0 n)"
  by (rule triple_ret) (auto simp: in_step_def row_is_def)

lemma triple_error: "triple (in_step d0 n P) (raise x) Q (any_step d0 n)"
  by (rule triple_raise) (rule in_step_any)

lemma in_step_mono: "in_step d0 n P d \<Longrightarrow> (\<And>r. P r \<Longrightarrow> Q r) \<Longrightarrow> in_step d0 n Q d"
  by (auto simp: in_step_def row_is_def)

lemma mark_created_step:
  assumes "\<And>r. P r \<Longrightarrow> unborn a r \<and> ss_virtual_machine r \<noteq> []"
  shows "triple (in_step d0 n P) (mark_created n) (\<lambda>_. in_step d0 n (\<lambda>r. rank r < 3)) (any_step d0 n)"
proof -
  let ?f = "\<lambda>s. s\<lparr>ss_site_created := True, ss_pilot_task := [], ss_error := [], ss_status := (if ss_tenant s \<noteq> [] then ''Assigned'' else ''Ready'')\<rparr>"
  have move: "moves r (?f r)" if "unborn a r" "ss_virtual_machine r \<noteq> []" for r
    using site_move.created [of r] that by (auto simp: unborn_def same_life_def intro!: moves_then)
  show ?thesis
    unfolding mark_created_def
    by (rule triple_seq [OF triple_set_site triple_done]) (use assms move in \<open>auto simp: PIPELINE_def rank_def\<close>)
qed

lemma triple_site_vm:
  "triple (in_step d0 n P) (site_vm s) (\<lambda>_. in_step d0 n (\<lambda>r. P r \<and> ss_virtual_machine s \<noteq> [])) (any_step d0 n)"
proof (cases "ss_virtual_machine s = []")
  case True
  then show ?thesis by (simp add: site_vm_def throw_def triple_error)
next
  case False
  have "triple (in_step d0 n P) (site_vm s) (\<lambda>_. in_step d0 n P) (any_step d0 n)"
    by (rule triple_still) (intro holds_intros keeps_intros)+
  with False show ?thesis by simp
qed

lemmas triple_ask = triple_still [OF holds_basic(4) keeps_ask]
lemmas triple_read = triple_still [OF holds_basic(3) keeps_get_doc]
lemmas triple_lifted = triple_still [OF holds_lift keeps_lift]
lemmas triple_wait = triple_still [OF holds_wait_for_task keeps_wait_for_task]
lemmas triple_tail = triple_still [OF holds_output_tail keeps_output_tail]

lemma reroll_step:
  assumes "\<And>r. P r \<Longrightarrow> unborn a r"
  shows "triple (in_step d0 n P) (reroll_hostname e n output) (\<lambda>b. in_step d0 n (\<lambda>r. rank r < 3 + (MAX_HOSTNAME_ATTEMPTS - a))) (any_step d0 n)"
proof -
  let ?f = "\<lambda>h s. s\<lparr>ss_hostname := h, ss_attempts := ss_attempts s + 1, ss_pilot_task := [], ss_status := ''Pending''\<rparr>"
  have move: "moves r (?f h r)" if "unborn a r" "Suc a < MAX_HOSTNAME_ATTEMPTS" for h r
    using site_move.rerolled [of r h] that by (auto simp: unborn_def same_life_def intro!: moves_then)
  have wr: "triple (in_step d0 n (\<lambda>r. unborn a r \<and> Suc a < MAX_HOSTNAME_ATTEMPTS)) (set_site n (?f h))
      (\<lambda>_. in_step d0 n (\<lambda>r. rank r < 3 + (MAX_HOSTNAME_ATTEMPTS - a))) (any_step d0 n)" for h
    by (rule triple_set_site) (use move in \<open>auto simp: unborn_def PIPELINE_def rank_def\<close>)
  have "triple (in_step d0 n (\<lambda>r'. r' = s \<and> P r'))
     (if \<not> contains ''already taken'' (py_lower output) \<or> ss_attempts s + 1 \<ge> MAX_HOSTNAME_ATTEMPTS
      then raise (Setup_Error (str_or output ''Pilot could not create the site.''))
      else seq (site_vm s) (\<lambda>v. seq get_doc (\<lambda>d. seq (lift (new_hostname (used_hostnames d) (tokens (sd e)) (vm_wildcard_zone v))) (\<lambda>h.
        seq (set_site n (?f h)) (\<lambda>_. ret True)))))
     (\<lambda>b. in_step d0 n (\<lambda>r. rank r < 3 + (MAX_HOSTNAME_ATTEMPTS - a))) (any_step d0 n)" for s
  proof (rule triple_if [OF triple_error], rule triple_pre [where P' = "in_step d0 n (\<lambda>r. unborn a r \<and> Suc a < MAX_HOSTNAME_ATTEMPTS)"])
    show "triple (in_step d0 n (\<lambda>r. unborn a r \<and> Suc a < MAX_HOSTNAME_ATTEMPTS))
       (seq (site_vm s) (\<lambda>v. seq get_doc (\<lambda>d. seq (lift (new_hostname (used_hostnames d) (tokens (sd e)) (vm_wildcard_zone v))) (\<lambda>h.
          seq (set_site n (?f h)) (\<lambda>_. ret True))))) (\<lambda>b. in_step d0 n (\<lambda>r. rank r < 3 + (MAX_HOSTNAME_ATTEMPTS - a))) (any_step d0 n)"
      by (rule triple_seq [OF triple_still [OF holds_site_vm keeps_site_vm]] triple_seq [OF triple_read] triple_seq [OF triple_lifted]
          triple_seq [OF wr triple_done])+ simp_all
  qed (use assms in \<open>auto simp: in_step_def row_is_def unborn_def\<close>)
  then show ?thesis unfolding reroll_hostname_def by (rule triple_seq [OF triple_site_row])
qed

lemma wait_created_step:
  assumes "\<And>r. P r \<Longrightarrow> unborn a r"
  shows "triple (in_step d0 n P) (wait_created e n) (\<lambda>b. in_step d0 n (\<lambda>r. b \<longrightarrow> rank r < 3 + (MAX_HOSTNAME_ATTEMPTS - a))) (any_step d0 n)"
proof -
  have "triple (in_step d0 n (\<lambda>r. (r = s \<and> P r) \<and> ss_virtual_machine s \<noteq> []))
     (if \<not> is_finished t then ret False else if t_status t = ''success'' then mark_created n
      else seq (output_tail (pc_task_output (pilot (se e)) v (ss_pilot_task s))) (reroll_hostname e n))
     (\<lambda>b. in_step d0 n (\<lambda>r. b \<longrightarrow> rank r < 3 + (MAX_HOSTNAME_ATTEMPTS - a))) (any_step d0 n)" for s t v
  proof (intro triple_if)
    show "triple (in_step d0 n (\<lambda>r. (r = s \<and> P r) \<and> ss_virtual_machine s \<noteq> [])) (mark_created n)
      (\<lambda>b. in_step d0 n (\<lambda>r. b \<longrightarrow> rank r < 3 + (MAX_HOSTNAME_ATTEMPTS - a))) (any_step d0 n)"
      by (rule triple_post [OF mark_created_step]) (use assms in \<open>auto elim!: in_step_mono\<close>)
    show "triple (in_step d0 n (\<lambda>r. (r = s \<and> P r) \<and> ss_virtual_machine s \<noteq> []))
      (seq (output_tail (pc_task_output (pilot (se e)) v (ss_pilot_task s))) (reroll_hostname e n))
      (\<lambda>b. in_step d0 n (\<lambda>r. b \<longrightarrow> rank r < 3 + (MAX_HOSTNAME_ATTEMPTS - a))) (any_step d0 n)"
      by (rule triple_seq [OF triple_tail], rule triple_post [OF reroll_step]) (use assms in \<open>auto elim!: in_step_mono\<close>)
  qed (rule triple_answer, simp)
  then show ?thesis unfolding wait_created_def
    by (intro triple_seq [OF triple_site_row] triple_seq [OF triple_site_vm] triple_seq [OF triple_wait])
qed

definition created_or_unborn :: "nat \<Rightarrow> bool option \<Rightarrow> suite_site \<Rightarrow> bool" where
  "created_or_unborn a early r \<longleftrightarrow> (case early of None \<Rightarrow> unborn a r | Some b \<Rightarrow> b \<longrightarrow> rank r < 3)"

lemma start_create_step:
  "triple (in_step d0 n (unborn a)) (start_create e n) (\<lambda>early. in_step d0 n (created_or_unborn a early)) (any_step d0 n)"
proof -
  let ?P = "\<lambda>s r. (r = s \<and> unborn a r) \<and> ss_virtual_machine s \<noteq> []"
  have begin_task: "triple (in_step d0 n (?P s)) (set_site n (\<lambda>s. s\<lparr>ss_pilot_task := t_id t, ss_status := ''Creating''\<rparr>))
      (\<lambda>_. in_step d0 n (unborn a)) (any_step d0 n)" for s t
  proof (rule triple_set_site)
    fix r assume "?P s r"
    then show "moves r (r\<lparr>ss_pilot_task := t_id t, ss_status := ''Creating''\<rparr>) \<and> ss_status (r\<lparr>ss_pilot_task := t_id t, ss_status := ''Creating''\<rparr>) \<in> set PIPELINE
      \<and> unborn a (r\<lparr>ss_pilot_task := t_id t, ss_status := ''Creating''\<rparr>)"
      using site_move.creating [of r] by (auto simp: unborn_def same_life_def PIPELINE_def intro!: moves_then)
  qed simp
  have asked: "triple (in_step d0 n (?P s)) (except (seq (ask (pc_create_site (sd e) v (ss_hostname s) k)) (\<lambda>t. ret (Some t)))
      (\<lambda>x. if is_Pilot_Conflict x \<and> conflict_code x = ''task_conflict'' then ret None else raise x)) (\<lambda>_. in_step d0 n (?P s)) (any_step d0 n)" for s v k
    by (rule triple_still) (intro holds_intros keeps_intros)+
  have created: "triple (in_step d0 n (?P s)) (seq (mark_created n) (\<lambda>b. ret (Some b))) (\<lambda>early. in_step d0 n (created_or_unborn a early)) (any_step d0 n)" for s
    by (rule triple_seq [OF mark_created_step triple_answer]) (auto simp: created_or_unborn_def)
  have body: "triple (in_step d0 n (?P s))
    (if ss_pilot_task s \<noteq> [] then ret None
     else seq (ask (pc_list_sites (pilot (se e)) v)) (\<lambda>names.
      if ss_hostname s \<in> set names then seq (mark_created n) (\<lambda>b. ret (Some b))
      else seq (except (seq (ask (pc_create_site (sd e) v (ss_hostname s) k)) (\<lambda>t. ret (Some t)))
            (\<lambda>x. if is_Pilot_Conflict x \<and> conflict_code x = ''task_conflict'' then ret None else raise x))
        (\<lambda>found. case found of None \<Rightarrow> ret (Some False)
         | Some t \<Rightarrow> seq (set_site n (\<lambda>s. s\<lparr>ss_pilot_task := t_id t, ss_status := ''Creating''\<rparr>)) (\<lambda>_. ret None))))
    (\<lambda>early. in_step d0 n (created_or_unborn a early)) (any_step d0 n)" for s v k
    by (intro triple_if triple_seq [OF triple_ask] created triple_seq [OF asked] triple_option triple_seq [OF begin_task] triple_answer)
      (auto simp: created_or_unborn_def)
  show ?thesis unfolding start_create_def
    by (intro triple_seq [OF triple_site_row] triple_seq [OF triple_site_vm] body)
qed

lemma place_site_step:
  "triple (in_step d0 n (unborn a)) (place_site e n) (\<lambda>_. in_step d0 n (unborn a)) (any_step d0 n)"
proof -
  have note_error: "triple (in_step d0 n (\<lambda>r. r = s \<and> unborn a r)) (set_site n (\<lambda>s. s\<lparr>ss_error := m s\<rparr>))
      (\<lambda>_. in_step d0 n (unborn a)) (any_step d0 n)" for s m
    by (rule triple_set_site) (auto simp: unborn_def same_life_def intro!: moves_quiet)
  have put: "triple (in_step d0 n (\<lambda>r. r = s \<and> unborn a r))
      (set_site n (\<lambda>s. s\<lparr>ss_virtual_machine := v, ss_hostname := h, ss_error := []\<rparr>)) (\<lambda>_. in_step d0 n (unborn a)) (any_step d0 n)"
    if "ss_virtual_machine s = []" for s v h
  proof (rule triple_set_site)
    fix r assume "r = s \<and> unborn a r" "ss_status r \<in> set PIPELINE"
    with that show "moves r (r\<lparr>ss_virtual_machine := v, ss_hostname := h, ss_error := []\<rparr>) \<and>
      ss_status (r\<lparr>ss_virtual_machine := v, ss_hostname := h, ss_error := []\<rparr>) \<in> set PIPELINE \<and>
      unborn a (r\<lparr>ss_virtual_machine := v, ss_hostname := h, ss_error := []\<rparr>)"
      using site_move.placed [of r h v] by (auto simp: unborn_def same_life_def intro!: moves_then)
  qed simp
  have body: "triple (in_step d0 n (\<lambda>r. r = s \<and> unborn a r))
    (if ss_virtual_machine s \<noteq> [] then ret True
     else seq get_doc (\<lambda>d. seq (lift (place (tokens (sd e)) d (ss_region s))) (\<lambda>p. case p of
      None \<Rightarrow> seq (set_site n (\<lambda>s. s\<lparr>ss_error := ''Waiting: no server in '' @ ss_region s @ '' has a free site slot.''\<rparr>)) (\<lambda>_. ret False)
    | Some (v, h) \<Rightarrow> seq (set_site n (\<lambda>s. s\<lparr>ss_virtual_machine := v, ss_hostname := h, ss_error := []\<rparr>)) (\<lambda>_.
        seq (sync_site e n) (\<lambda>_. ret True))))) (\<lambda>_. in_step d0 n (unborn a)) (any_step d0 n)" for s
    by (intro triple_if triple_seq [OF triple_read] triple_seq [OF triple_lifted] triple_option triple_seq [OF note_error] triple_done)
      (auto intro!: triple_seq [OF put] triple_seq [OF triple_sync] triple_done)
  show ?thesis unfolding place_site_def by (rule triple_seq [OF triple_site_row body])
qed

lemma create_site_step:
  "triple (in_step d0 n (unborn a)) (create_site e n)
     (\<lambda>b. in_step d0 n (\<lambda>r. b \<longrightarrow> rank r < 3 + (MAX_HOSTNAME_ATTEMPTS - a))) (any_step d0 n)"
proof -
  have wait: "triple (in_step d0 n (created_or_unborn a None)) (wait_created e n)
     (\<lambda>b. in_step d0 n (\<lambda>r. b \<longrightarrow> rank r < 3 + (MAX_HOSTNAME_ATTEMPTS - a))) (any_step d0 n)"
    by (rule wait_created_step) (simp add: created_or_unborn_def)
  have early: "triple (in_step d0 n (created_or_unborn a (Some b))) (ret b)
     (\<lambda>b. in_step d0 n (\<lambda>r. b \<longrightarrow> rank r < 3 + (MAX_HOSTNAME_ATTEMPTS - a))) (any_step d0 n)" for b
    by (rule triple_answer) (auto simp: created_or_unborn_def)
  have rest: "triple (in_step d0 n (created_or_unborn a early)) (case early of Some b \<Rightarrow> ret b | None \<Rightarrow> wait_created e n)
     (\<lambda>b. in_step d0 n (\<lambda>r. b \<longrightarrow> rank r < 3 + (MAX_HOSTNAME_ATTEMPTS - a))) (any_step d0 n)" for early
    by (cases early) (simp_all add: wait early)
  show ?thesis unfolding create_site_def
    by (intro triple_seq [OF place_site_step] triple_if triple_seq [OF start_create_step rest] triple_answer) simp
qed

section \<open>Configuring a site\<close>

lemma holds_get_site_client [holds_intros]: "holds I (get_site_client s)"
  unfolding get_site_client_def by (intro holds_intros)

lemma keeps_get_site_client [keeps_intros]: "keeps I (get_site_client s)"
  unfolding get_site_client_def by (intro keeps_intros)

lemma configure_suite_still: "holds I (configure_suite e s host)" "keeps I (configure_suite e s host)"
proof -
  show "holds I (configure_suite e s host)"
    unfolding configure_suite_def push_tenant_credentials_def site_call_def throw_def by (intro holds_intros)
  show "keeps I (configure_suite e s host)"
    unfolding configure_suite_def push_tenant_credentials_def site_call_def throw_def by (intro keeps_intros)
qed

definition at_configuring :: "suite_site \<Rightarrow> bool" where
  "at_configuring r \<longleftrightarrow> ss_status r = ''Configuring''"

lemma configure_once_step:
  "triple (in_step d0 n at_configuring) (configure_once e n)
     (\<lambda>_. in_step d0 n (\<lambda>r. at_configuring r \<and> ss_suite_configured r)) (any_step d0 n)"
proof -
  have mark: "triple (in_step d0 n (\<lambda>r. r = s \<and> at_configuring r)) (set_site n (\<lambda>s. s\<lparr>ss_suite_configured := True\<rparr>))
      (\<lambda>_. in_step d0 n (\<lambda>r. at_configuring r \<and> ss_suite_configured r)) (any_step d0 n)" for s
    by (rule triple_set_site) (auto simp: at_configuring_def intro: site_move.configured)
  have keep: "triple (in_step d0 n P) checkpoint (\<lambda>_. in_step d0 n P) (any_step d0 n)" for P
    by (rule triple_still [OF holds_basic(6) keeps_checkpoint])
  have body: "triple (in_step d0 n (\<lambda>r. r = s \<and> at_configuring r))
    (if ss_suite_configured s then ret () else seq (get_site_client s) (\<lambda>host. seq (configure_suite e s host) (\<lambda>_.
      seq (set_site n (\<lambda>s. s\<lparr>ss_suite_configured := True\<rparr>)) (\<lambda>_. checkpoint))))
    (\<lambda>_. in_step d0 n (\<lambda>r. at_configuring r \<and> ss_suite_configured r)) (any_step d0 n)" for s
    by (intro triple_if triple_done triple_seq [OF triple_still [OF holds_get_site_client keeps_get_site_client]]
        triple_seq [OF triple_still [OF configure_suite_still]] triple_seq [OF mark keep]) auto
  show ?thesis unfolding configure_once_def by (rule triple_seq [OF triple_site_row body])
qed

lemma configure_step:
  "triple (in_step d0 n (\<lambda>r. ss_status r \<in> {''Assigned'', ''Configuring''})) (configure e n)
     (\<lambda>_. in_step d0 n (\<lambda>r. rank r < 2)) (any_step d0 n)"
proof -
  have start: "triple (in_step d0 n (\<lambda>r. ss_status r \<in> {''Assigned'', ''Configuring''})) (set_site n (\<lambda>s. s\<lparr>ss_status := ''Configuring''\<rparr>))
      (\<lambda>_. in_step d0 n at_configuring) (any_step d0 n)"
    by (rule triple_set_site) (auto simp: at_configuring_def PIPELINE_def intro!: r_into_rtranclp site_move.configuring)
  have finish: "triple (in_step d0 n (\<lambda>r. at_configuring r \<and> ss_suite_configured r)) (activate e n) (\<lambda>_. in_step d0 n (\<lambda>r. rank r < 2)) (any_step d0 n)"
  proof -
    have "triple (in_step d0 n (\<lambda>r. r = s \<and> at_configuring r \<and> ss_suite_configured r))
        (set_site n (\<lambda>s. s\<lparr>ss_status := ''Active'', ss_activated_at := t, ss_error := m\<rparr>)) (\<lambda>_. in_step d0 n (\<lambda>r. rank r < 2)) (any_step d0 n)" for s t m
    proof (rule triple_set_site)
      fix r assume "r = s \<and> at_configuring r \<and> ss_suite_configured r"
      then show "moves r (r\<lparr>ss_status := ''Active'', ss_activated_at := t, ss_error := m\<rparr>) \<and>
        ss_status (r\<lparr>ss_status := ''Active'', ss_activated_at := t, ss_error := m\<rparr>) \<in> set PIPELINE \<and> rank (r\<lparr>ss_status := ''Active'', ss_activated_at := t, ss_error := m\<rparr>) < 2"
        using site_move.activated [of r] by (auto simp: at_configuring_def same_life_def PIPELINE_def rank_def intro!: moves_then)
    qed simp
    then show ?thesis unfolding activate_def
      by (intro triple_seq [OF triple_site_row] triple_seq [OF triple_read] triple_seq [OF triple_lifted])
  qed
  show ?thesis unfolding configure_def
    by (intro triple_seq [OF start] triple_seq [OF configure_once_step] triple_seq [OF finish] triple_done)
qed

section \<open>Follow-ups\<close>

text \<open>Everything a follow-up writes leaves the site where it is in its life.\<close>

lemma moved_requests [simp]: "moved d0 (upd_request m f d) = moved d0 d"
  by (simp add: moved_def upd_request_def)

lemma in_step_quiet: "in_step d0 n P d \<Longrightarrow> (\<And>r. same_life r (f r)) \<Longrightarrow> any_step d0 n (upd_site n f d)"
  by (erule in_step_upd) (auto simp: same_life_def intro!: moves_quiet)

lemma keeps_get_row [keeps_intros]: "keeps I (get_row n domain)"
  unfolding get_row_def throw_def by (intro keeps_intros)

lemma keeps_publish_managed [keeps_intros]: "keeps I (publish_managed_records e n)"
  unfolding publish_managed_records_def by (intro keeps_intros)

lemma keeps_all_resolve [keeps_intros]: "keeps I (all_resolve e rs)"
  by (induction e rs rule: all_resolve.induct) (auto intro!: keeps_intros)

lemma keeps_records_visible [keeps_intros]: "keeps I (records_visible e r)"
  unfolding records_visible_def by (intro keeps_intros)

lemma keeps_run_task [keeps_intros]: "keeps I (run_task e v t)"
  unfolding run_task_def throw_def by (intro keeps_intros)

lemma keeps_poll_https [keeps_intros]: "keeps I (poll_https k c)"
  by (induction k c rule: poll_https.induct) (auto intro!: keeps_intros)


text \<open>
  What the follow-ups and the operations on a site's domains rely on to keep an invariant: that it
  survives a write that leaves the site where it is in its life, and one to a signup.
\<close>

locale site_rows =
  fixes I :: "hosting \<Rightarrow> bool" and n :: string
  assumes quiet_write: "I d \<Longrightarrow> (\<And>r. same_life r (f r)) \<Longrightarrow> I (upd_site n f d)"
    and other_write: "I d \<Longrightarrow> I (upd_request m g d)"
begin

lemma keeps_quiet: "(\<And>r. same_life r (f r)) \<Longrightarrow> keeps I (set_site n f)"
  unfolding set_site_def by (rule keeps_db_set) (rule quiet_write)

lemma keeps_set_row [keeps_intros]: "keeps I (set_row n domain f)"
  unfolding set_row_def by (intro keeps_intros keeps_quiet) (simp add: same_life_def)

lemma keeps_set_error [keeps_intros]: "keeps I (set_error n m)"
  unfolding set_error_def by (intro keeps_quiet) (simp add: same_life_def)

lemma keeps_fetch_records [keeps_intros]: "keeps I (fetch_records e n domain)"
  unfolding fetch_records_def by (intro keeps_intros)

lemma keeps_attach [keeps_intros]: "keeps I (attach e n domain)"
  unfolding attach_def start_attach_def attach_task_def by (intro keeps_intros)

lemma keeps_make_primary [keeps_intros]: "keeps I (make_primary e n domain)"
  unfolding make_primary_def throw_def by (intro keeps_intros keeps_quiet) (simp add: same_life_def)

lemma keeps_ensure_site_domain [keeps_intros]: "keeps I (ensure_site_domain e n)"
proof -
  have "keeps I (add_row n domain m)" for domain m
    unfolding add_row_def by (intro keeps_quiet) (simp add: same_life_def)
  then show ?thesis
    unfolding ensure_site_domain_def publish_and_attach_def wait_for_https_def skip_primary_def Let_def by (intro keeps_intros)
qed

lemma keeps_invite_owner [keeps_intros]: "keeps I (invite_owner e n)"
proof -
  have "keeps I (complete r)" for r
    unfolding complete_def by (rule keeps_db_set) (rule other_write)
  then show ?thesis unfolding invite_owner_def site_call_def throw_def
    by (intro keeps_intros keeps_quiet) (simp_all add: same_life_def)
qed

lemma keeps_ensure_mail [keeps_intros]: "keeps I (ensure_mail e n)"
  unfolding ensure_mail_def ensure_domain_def publish_records_def ensure_live_def throw_def
  by (intro keeps_intros keeps_quiet) (simp_all add: same_life_def)

lemma keeps_sync_site [keeps_intros]: "keeps I (sync_site e n)"
  by (rule sync_site_keeps) (rule other_write)

lemma keeps_follow_up_loop: "keeps I (follow_up_loop k e n attempted)"
proof (induction k arbitrary: attempted)
  case (Suc k)
  have "keeps I (attempt_follow_up e n label)" for label
    unfolding attempt_follow_up_def run_follow_up_def
    by (intro keeps_intros keeps_quiet) (simp add: same_life_def)
  then have "keeps I (case ls of [] \<Rightarrow> ret attempted
      | label # _ \<Rightarrow> seq (attempt_follow_up e n label) (\<lambda>_. follow_up_loop k e n (label # attempted)))" for ls
    using Suc.IH by (cases ls) (auto intro!: keeps_intros)
  then show ?case by (simp add: keeps_intros)
qed (simp add: keeps_ret)

lemma keeps_domain_operations:
  "keeps I (add_domain e n domain)" "keeps I (verify_domain e n domain)" "keeps I (remove_domain e n domain)"
proof -
  have add: "keeps I (add_row n domain m)" for m
    unfolding add_row_def by (intro keeps_quiet) (simp add: same_life_def)
  show "keeps I (add_domain e n domain)" unfolding add_domain_def throw_def by (intro keeps_intros add)
  show "keeps I (verify_domain e n domain)" unfolding verify_domain_def throw_def by (intro keeps_intros)
  show "keeps I (remove_domain e n domain)" unfolding remove_domain_def throw_def
    by (intro keeps_intros keeps_quiet) (simp add: same_life_def)
qed

lemma keeps_resend: "keeps I (resend_owner_invite e n)"
  unfolding resend_owner_invite_def site_call_def throw_def by (intro keeps_intros keeps_quiet) (simp add: same_life_def)

end

interpretation pipeline: site_rows "any_step d0 n" n for d0 n
  by unfold_locales (auto intro: in_step_quiet)

interpretation life: site_rows "moved d0" n for d0 n
  by unfold_locales (auto simp: same_life_def intro!: moved_upd moves_quiet)

lemma follow_up_step: "triple (any_step d0 n) (follow_up e n) (\<lambda>b d. any_step d0 n d \<and> \<not> b) (any_step d0 n)"
proof -
  have first: "keeps (any_step d0 n) (if ss_error s = NO_LETSENCRYPT_EMAIL then
          seq (lift (follow_up_skip_reason e d s)) (\<lambda>reason. if reason = [] then set_error n [] else ret ()) else ret ())" for s d
    by (intro keeps_intros)
  have steps: "triple (any_step d0 n) m (\<lambda>_. any_step d0 n) (any_step d0 n)" if "keeps (any_step d0 n) m" for m
    by (rule triple_keeps [OF that])
  show ?thesis unfolding follow_up_def
    by (rule triple_seq [OF steps [OF keeps_site_row]] triple_seq [OF steps [OF keeps_get_doc]]
        triple_seq [OF steps [OF first]] triple_seq [OF steps [OF pipeline.keeps_follow_up_loop]] triple_ret)+ simp
qed

section \<open>One pass of the loop\<close>

lemma step_for_step:
  assumes "step_for e n (ss_status r0) = Some step"
  shows "triple (in_step d0 n (\<lambda>r. r = r0)) step (\<lambda>b. in_step d0 n (\<lambda>r. b \<longrightarrow> rank r < rank r0)) (any_step d0 n)"
proof -
  consider "ss_status r0 \<in> {''Pending'', ''Creating''}" "step = create_site e n"
    | "ss_status r0 \<in> {''Assigned'', ''Configuring''}" "step = configure e n"
    | "ss_status r0 = ''Active''" "step = follow_up e n"
    using assms by (auto simp: step_for_def split: if_splits)
  then show ?thesis
  proof cases
    case 1
    then have rank: "rank r0 = 3 + (MAX_HOSTNAME_ATTEMPTS - ss_attempts r0)" by (auto simp: rank_def)
    show ?thesis unfolding 1(2) rank
      by (rule triple_pre [OF create_site_step]) (use 1(1) in \<open>auto simp: unborn_def elim!: in_step_mono\<close>)
  next
    case 2
    then have "rank r0 = 2" by (auto simp: rank_def)
    then show ?thesis unfolding 2(2)
      by (intro triple_post [OF triple_pre [OF configure_step]]) (use 2(1) in \<open>auto elim!: in_step_mono\<close>)
  next
    case 3
    show ?thesis unfolding 3(2)
      by (rule triple_post [OF triple_pre [OF follow_up_step]]) (auto elim!: in_step_mono)
  qed
qed

lemma triple_undo: "triple P undo_step (\<lambda>_. I) I"
  by (auto simp: triple_def undo_step_def)

lemma row_is_requests: "row_is n P (upd_request m f d) = row_is n P d"
  by (simp add: row_is_def get_site_def upd_request_def)

lemma fail_step: "triple (any_step d0 n) (fail n m) (\<lambda>_. moved d0) (any_step d0 n)"
proof -
  have mark: "triple (in_step d0 n P) (set_site n (\<lambda>s. s\<lparr>ss_status := ''Failed'', ss_error := m\<rparr>)) (\<lambda>_. moved d0) (any_step d0 n)" for P
    unfolding set_site_def
  proof (rule triple_db_set)
    fix d assume d: "in_step d0 n P d"
    then obtain r where r: "get_site n d = Some r" "ss_status r \<in> set PIPELINE" and "moved d0 d"
      by (auto simp: in_step_def row_is_def)
    then show "moved d0 (upd_site n (\<lambda>s. s\<lparr>ss_status := ''Failed'', ss_error := m\<rparr>) d)"
      using site_move.failed [OF r(2)] by (intro moved_upd) (auto simp: same_life_def intro!: moves_then)
  qed
  have rest: "triple (moved d0) (seq get_doc (\<lambda>d. case get_request d t of None \<Rightarrow> ret ()
    | Some r \<Rightarrow> if tr_status r = ''Processing'' then db_set (upd_request (tr_name r) (\<lambda>r. r\<lparr>tr_status := ''Failed'', tr_error := m\<rparr>)) else ret ()))
    (\<lambda>_. moved d0) (any_step d0 n)" for t
    by (intro triple_seq [OF triple_get_doc] triple_option triple_if triple_ret triple_db_set) auto
  show ?thesis unfolding fail_def by (intro triple_seq [OF triple_site_row] triple_seq [OF mark] rest)
qed

lemma handled_step:
  assumes "triple P step Q (any_step d0 n)" "\<And>b d. Q b d \<Longrightarrow> R b d" "\<And>d. moved d0 d \<Longrightarrow> R False d"
  shows "triple P (except step (\<lambda>x.
      if is_waiting x then seq (set_error n (''Waiting: '' @ error_text x)) (\<lambda>_. ret False)
      else seq undo_step (\<lambda>_. seq (fail n (str_or (error_text x) (error_class x))) (\<lambda>_. ret False)))) R (any_step d0 n)"
proof (rule triple_except [OF triple_post [OF assms(1,2)]])
  have note_error: "triple (any_step d0 n) (set_error n m) (\<lambda>_. any_step d0 n) (any_step d0 n)" for m
    by (rule triple_keeps [OF pipeline.keeps_set_error])
  show "triple (any_step d0 n) (if is_waiting x then seq (set_error n (''Waiting: '' @ error_text x)) (\<lambda>_. ret False)
      else seq undo_step (\<lambda>_. seq (fail n (str_or (error_text x) (error_class x))) (\<lambda>_. ret False))) R (any_step d0 n)" for x
    by (intro triple_if triple_seq [OF note_error] triple_seq [OF triple_undo] triple_seq [OF fail_step] triple_ret assms(3))
      (auto simp: in_step_def)
qed

lemma run_site_step_moves:
  assumes step: "step_for e n (ss_status r0) = Some step" and start: "in_step d0 n (\<lambda>r. r = r0) (doc s)"
    and run: "run_site_step e n step s = (res, s')"
  shows "moved d0 (doc s') \<and> (res = Inr True \<longrightarrow> row_is n (\<lambda>r. rank r < rank r0) (doc s'))"
proof -
  let ?R = "\<lambda>b d. moved d0 d \<and> (b \<longrightarrow> row_is n (\<lambda>r. rank r < rank r0) d)"
  let ?h = "\<lambda>x. if is_waiting x then seq (set_error n (''Waiting: '' @ error_text x)) (\<lambda>_. ret False)
      else seq undo_step (\<lambda>_. seq (fail n (str_or (error_text x) (error_class x))) (\<lambda>_. ret False))"
  obtain r1 s1 where one: "except step ?h (s\<lparr>saved := doc s\<rparr>) = (r1, s1)" by fastforce
  have "triple (in_step d0 n (\<lambda>r. r = r0)) (except step ?h) ?R (any_step d0 n)"
    by (rule handled_step [OF step_for_step [OF step]]) (auto simp: in_step_def row_is_def)
  from tripleD [OF this _ _ one] start have done_step: "case r1 of Inr b \<Rightarrow> ?R b (doc s1) | Inl x \<Rightarrow> any_step d0 n (doc s1)"
    using in_step_any [OF start] by simp
  have sync: "?R b (doc s2)" if "sync_site e n s1 = (r2, s2)" "?R b (doc s1)" for b r2 s2
  proof -
    have "holds (?R b) (sync_site e n)"
      by (rule sync_site_keeps) (simp add: row_is_requests)
    from holdsD [OF this that] show ?thesis .
  qed
  show ?thesis
  proof (cases r1)
    case (Inl x)
    then show ?thesis using run one done_step by (auto simp: run_site_step_def seq_def begin_step_def in_step_def)
  next
    case (Inr b)
    then show ?thesis using run one done_step sync [of _ _ b]
      by (auto simp: run_site_step_def seq_def begin_step_def ret_def split: prod.splits sum.splits)
  qed
qed

section \<open>The loop\<close>

lemma step_for_pipeline: "step_for e n status = Some step \<Longrightarrow> status \<in> set PIPELINE"
  by (auto simp: step_for_def PIPELINE_def split: if_splits)

lemma provision_site_moves:
  "moved d0 (doc s) \<Longrightarrow> provision_site k e n s = (res, s') \<Longrightarrow>
   moved d0 (doc s') \<and> (row_is n (\<lambda>r. rank r < k) (doc s) \<longrightarrow> res \<noteq> Inr False)"
proof (induction k arbitrary: s)
  case 0
  then show ?case by (simp add: ret_def row_is_def)
next
  case (Suc k)
  show ?case
  proof (cases "get_site n (doc s)")
    case None
    then show ?thesis using Suc.prems by (auto simp: site_row_def throw_def step_defs)
  next
    case (Some r0)
    show ?thesis
    proof (cases "step_for e n (ss_status r0)")
      case None
      then show ?thesis using Suc.prems Some by (auto simp: site_row_def step_defs)
    next
      case step: (Some step)
      obtain r1 s1 where one: "run_site_step e n step s = (r1, s1)" by fastforce
      have "in_step d0 n (\<lambda>r. r = r0) (doc s)"
        using Suc.prems(1) Some step_for_pipeline [OF step] by (simp add: in_step_def row_is_def)
      from run_site_step_moves [OF step this one]
      have moved: "moved d0 (doc s1)" and rank: "r1 = Inr True \<Longrightarrow> row_is n (\<lambda>r. rank r < rank r0) (doc s1)" by auto
      have run: "(res, s') = (case r1 of Inl x \<Rightarrow> (Inl x, s1) | Inr b \<Rightarrow> (if b then provision_site k e n else ret True) s1)"
        using Suc.prems(2) Some step one by (simp add: site_row_def seq_def get_doc_def ret_def)
      show ?thesis
      proof (cases "r1 = Inr True")
        case True
        then have "provision_site k e n s1 = (res, s')" using run by simp
        from Suc.IH [OF moved this] show ?thesis using rank [OF True] Some by (auto simp: row_is_def)
      next
        case False
        then show ?thesis using run moved by (auto simp: ret_def split: sum.splits if_splits)
      qed
    qed
  qed
qed

lemma rank_bound: "rank r < 9"
  by (auto simp: rank_def MAX_HOSTNAME_ATTEMPTS_def intro: le_less_trans [OF diff_le_self])

text \<open>
  C15. The job that sets a site up always ends: nine passes through its steps are enough from any state of
  the row, because a pass that asks for another one brings the site nearer to the end of its
  pipeline or uses up one of its five host name attempts.
\<close>

theorem provision_site_ends:
  assumes "distinct (map ss_name (sites (doc s)))"
  shows "fst (provision_site 9 e n s) \<noteq> Inr False"
proof (cases "get_site n (doc s)")
  case None
  then show ?thesis by (simp add: eval_nat_numeral site_row_def throw_def step_defs)
next
  case (Some r)
  then have "row_is n (\<lambda>r. rank r < 9) (doc s)" by (simp add: row_is_def rank_bound)
  then show ?thesis using provision_site_moves [OF moved_refl [OF assms] prod.collapse [symmetric]] by blast
qed

text \<open>
  C7. Whatever the set-up job of a site does, ending well, waiting or failing half-way and being undone, it
  takes the rows of the sites along moves of the site's state machine only, and adds or removes no row.
\<close>

theorem provision_site_refines_machine:
  assumes "distinct (map ss_name (sites (doc s)))" "provision_site k e n s = (res, s')"
  shows "list_all2 site_move\<^sup>*\<^sup>* (sites (doc s)) (sites (doc s'))"
  using provision_site_moves [OF moved_refl [OF assms(1)] assms(2)] by (simp add: moved_def)

section \<open>What every site's row satisfies\<close>

definition site_ok :: "suite_site \<Rightarrow> bool" where
  "site_ok r \<longleftrightarrow>
     (ss_status r \<in> {''Ready'', ''Assigned'', ''Configuring'', ''Active''} \<longrightarrow> ss_site_created r) \<and>
     (ss_status r = ''Ready'' \<longrightarrow> ss_tenant r = []) \<and>
     (ss_status r \<in> {''Assigned'', ''Configuring'', ''Active''} \<longrightarrow> ss_tenant r \<noteq> []) \<and>
     (ss_status r = ''Active'' \<longrightarrow> ss_suite_configured r) \<and>
     (ss_suite_configured r \<longrightarrow> ss_site_created r \<and> ss_tenant r \<noteq> []) \<and>
     (ss_site_created r \<longrightarrow> ss_virtual_machine r \<noteq> []) \<and>
     (ss_status r = ''Dropped'' \<longrightarrow> ss_label r = []) \<and>
     ss_attempts r < MAX_HOSTNAME_ATTEMPTS"

lemma site_ok_move: "site_move r r' \<Longrightarrow> site_ok r \<Longrightarrow> site_ok r'"
proof (induction rule: site_move.induct)
  case (quiet r r')
  then show ?case by (simp add: same_life_def site_ok_def)
next
  case (resumed r)
  then show ?case by (auto simp: site_ok_def resume_status_def)
qed (auto simp: site_ok_def)

lemma site_ok_moves: "moves r r' \<Longrightarrow> site_ok r \<Longrightarrow> site_ok r'"
  by (induction rule: rtranclp_induct) (auto intro: site_ok_move)

definition sites_ok :: "hosting \<Rightarrow> bool" where
  "sites_ok d \<longleftrightarrow> distinct (map ss_name (sites d)) \<and> (\<forall>r\<in>set (sites d). site_ok r)"

lemma sites_ok_moved:
  assumes "sites_ok d" "moved d d'"
  shows "sites_ok d'"
proof -
  have "\<forall>r\<in>set ys. site_ok r" if "list_all2 moves xs ys" "\<forall>r\<in>set xs. site_ok r" for xs ys
    using that by (induction rule: list_all2_induct) (auto intro: site_ok_moves)
  from this [of "sites d" "sites d'"] show ?thesis using assms by (simp add: sites_ok_def moved_def)
qed

lemma retry_site_moved:
  assumes "distinct (map ss_name (sites (doc s)))" "retry_site e n s = (res, s')"
  shows "moved (doc s) (doc s')"
proof (cases "get_site n (doc s)")
  case None
  then show ?thesis using assms by (auto simp: retry_site_def site_row_def throw_def step_defs moved_refl)
next
  case (Some r)
  let ?f = "\<lambda>s. s\<lparr>ss_status := resume_status s, ss_error := [], ss_pilot_task := []\<rparr>"
  let ?rest = "seq get_doc (\<lambda>d. case get_request d (ss_tenant r) of None \<Rightarrow> ret ()
    | Some q \<Rightarrow> if tr_status q = ''Failed'' then
        seq (db_set (upd_request (tr_name q) (\<lambda>r. r\<lparr>tr_status := ''Processing'', tr_error := []\<rparr>))) (\<lambda>_.
          sync_request e (q\<lparr>tr_status := ''Processing'', tr_error := []\<rparr>)) else ret ())"
  have sync: "holds (moved (doc s)) (sync_request e q)" for q
    using sync_request_keeps [of "moved (doc s)" q e] by simp
  have rest: "holds (moved (doc s)) ?rest"
    by (intro holds_intros holds_db_set sync) simp
  define d1 where "d1 = (if ss_status r = ''Failed'' then upd_site n ?f (doc s) else doc s)"
  have "moves r (?f r)" if "ss_status r = ''Failed''"
    using site_move.resumed [OF that] by (rule moves_then) (simp add: same_life_def resume_status_def)
  then have "moved (doc s) d1"
    unfolding d1_def using Some moved_refl [OF assms(1)] by (auto intro!: moved_upd)
  moreover have "?rest (s\<lparr>doc := d1\<rparr>) = (res, s')"
    using assms(2) Some by (simp add: retry_site_def site_row_def d1_def set_site_def seq_def get_doc_def ret_def db_set_def split: if_splits)
  ultimately show ?thesis using holdsD [OF rest] by fastforce
qed

text \<open>A site that is being dropped stays so until its server confirmed.\<close>

definition being_dropped :: "hosting \<Rightarrow> string \<Rightarrow> hosting \<Rightarrow> bool" where
  "being_dropped d0 n d \<longleftrightarrow> moved d0 d \<and> row_is n (\<lambda>r. ss_status r = ''Dropping'') d"

interpretation drop: site_rows "being_dropped d0 n" n for d0 n
proof
  fix d and f :: "suite_site \<Rightarrow> suite_site"
  assume "being_dropped d0 n d" "\<And>r. same_life r (f r)"
  then show "being_dropped d0 n (upd_site n f d)"
    by (auto simp: being_dropped_def row_is_def same_life_def intro!: moved_upd moves_quiet)
qed (simp add: being_dropped_def row_is_requests)

lemma drop_attempt_keeps:
  "keeps (being_dropped d0 n) (except (seq (drop_from_server e n) (\<lambda>_. seq (detach n) (\<lambda>_. seq (ask c) (\<lambda>_. ret True))))
     (\<lambda>x. seq undo_step (\<lambda>_. seq (set_error n (m x)) (\<lambda>_. ret False))))"
  unfolding drop_from_server_def detach_def
  by (intro keeps_intros drop.keeps_quiet) (simp add: same_life_def)

lemma drop_site_moved:
  assumes "distinct (map ss_name (sites (doc s)))" "drop_site e n s = (res, s')"
  shows "moved (doc s) (doc s')"
proof (cases "get_site n (doc s)")
  case None
  then show ?thesis using assms by (auto simp: drop_site_def site_row_def throw_def step_defs moved_refl)
next
  case (Some r)
  consider "doc s' = doc s" | m where "doc s' = upd_site n (\<lambda>s. s\<lparr>ss_error := m\<rparr>) (doc s)" | "ss_status r \<noteq> ''Dropped''" "\<not> is_provisioning e n"
    using assms(2) Some by (auto simp: drop_site_def site_row_def set_error_def set_site_def step_defs split: if_splits)
  then show ?thesis
  proof cases
    case 1
    then show ?thesis using moved_refl [OF assms(1)] by simp
  next
    case 2
    then show ?thesis using life.quiet_write [OF moved_refl [OF assms(1)]] by (simp add: same_life_def)
  next
    case 3
    define d1 where "d1 = upd_site n (\<lambda>s. s\<lparr>ss_status := ''Dropping''\<rparr>) (doc s)"
    let ?attempt = "except (seq (drop_from_server e n) (\<lambda>_. seq (detach n) (\<lambda>_. seq (ask (reconcile (sd e) ''Suite Site'' n [])) (\<lambda>_. ret True))))
      (\<lambda>x. seq undo_step (\<lambda>_. seq (set_error n (''Drop failed: '' @ error_text x)) (\<lambda>_. ret False)))"
    obtain r1 s1 where one: "?attempt (s\<lparr>doc := d1, saved := d1\<rparr>) = (r1, s1)" by fastforce
    have "moved (doc s) d1" unfolding d1_def
      by (rule moved_upd [OF moved_refl [OF assms(1)]]) (use 3 Some in \<open>auto intro: site_move.dropping\<close>)
    then have "being_dropped (doc s) n d1" using Some by (simp add: being_dropped_def row_is_def d1_def)
    then have ok: "being_dropped (doc s) n (doc s1)"
      using keepsD [OF drop_attempt_keeps _ one] by (simp add: rows_ok_def)
    let ?g = "\<lambda>s. s\<lparr>ss_status := ''Dropped'', ss_dropped_at := Some (now_at (se e)), ss_error := [], ss_label := []\<rparr>"
    have "moved (doc s) (upd_site n ?g (doc s1))"
    proof (rule moved_upd)
      fix r assume "get_site n (doc s1) = Some r"
      then have "ss_status r = ''Dropping''" using ok by (auto simp: being_dropped_def row_is_def)
      from site_move.dropped [OF this] show "moves r (?g r)" by (rule moves_then) (simp add: same_life_def)
    qed (use ok in \<open>auto simp: being_dropped_def\<close>)
    moreover have "doc s' = doc s1 \<or> doc s' = upd_site n ?g (doc s1)"
      using assms(2) Some 3 one
      by (auto simp: drop_site_def site_row_def set_site_def seq_def get_doc_def ret_def db_set_def checkpoint_def begin_step_def d1_def
          split: if_splits sum.splits prod.splits)
    ultimately show ?thesis using ok by (auto simp: being_dropped_def)
  qed
qed

text \<open>
  What may happen to the sites.  A job or action starts from committed rows; one that raises is rolled back.
  A new row has a name of its own.  \<open>elsewhere\<close> stands for everything that writes other tables.
\<close>

inductive sites_step :: "'w sites_env \<Rightarrow> hosting \<Rightarrow> hosting \<Rightarrow> bool" for e :: "'w sites_env" where
  set_up: "provision_site k e n \<lparr>doc = d, saved = d, world = w\<rparr> = (res, s') \<Longrightarrow> sites_step e d (doc s')"
| retried: "retry_site e n \<lparr>doc = d, saved = d, world = w\<rparr> = (Inr u, s') \<Longrightarrow> sites_step e d (doc s')"
| dropped: "drop_site e n \<lparr>doc = d, saved = d, world = w\<rparr> = (Inr u, s') \<Longrightarrow> sites_step e d (doc s')"
| claimed: "claim_site (se e) vm fresh tenant label region \<lparr>doc = d, saved = d, world = w\<rparr> = (Inr n, s') \<Longrightarrow> tenant \<noteq> [] \<Longrightarrow>
    fst fresh \<notin> ss_name ` set (sites d) \<Longrightarrow> sites_step e d (doc s')"
| added: "insert_site ts (new_site n t region tenant label vm) d = Inr d' \<Longrightarrow> n \<notin> ss_name ` set (sites d) \<Longrightarrow> sites_step e d d'"
| domain_added: "add_domain (sd e) n domain \<lparr>doc = d, saved = d, world = w\<rparr> = (Inr rs, s') \<Longrightarrow> sites_step e d (doc s')"
| domain_verified: "verify_domain (sd e) n domain \<lparr>doc = d, saved = d, world = w\<rparr> = (Inr b, s') \<Longrightarrow> sites_step e d (doc s')"
| domain_primary: "make_primary (sd e) n domain \<lparr>doc = d, saved = d, world = w\<rparr> = (Inr u, s') \<Longrightarrow> sites_step e d (doc s')"
| domain_removed: "remove_domain (sd e) n domain \<lparr>doc = d, saved = d, world = w\<rparr> = (Inr u, s') \<Longrightarrow> sites_step e d (doc s')"
| invited: "resend_owner_invite e n \<lparr>doc = d, saved = d, world = w\<rparr> = (Inr u, s') \<Longrightarrow> sites_step e d (doc s')"
| elsewhere: "sites d' = sites d \<Longrightarrow> sites_step e d d'"

lemma sites_ok_new:
  assumes "sites_ok d" "insert_site ts (new_site n t region tenant label vm) d = Inr d'" "n \<notin> ss_name ` set (sites d)"
  shows "sites_ok d'"
proof -
  obtain r where r: "site_before_insert ts d (new_site n t region tenant label vm) = Inr r" and d': "d' = d\<lparr>sites := sites d @ [r]\<rparr>"
    using assms(2) by (auto simp: insert_site_def)
  have "ss_status r = ''Pending'' \<and> \<not> ss_site_created r \<and> \<not> ss_suite_configured r \<and> ss_attempts r = 0 \<and> ss_name r = n"
    using r by (auto simp: site_before_insert_def new_site_def Let_def split: if_splits option.splits)
  then show ?thesis using assms(1,3) d' by (auto simp: sites_ok_def site_ok_def MAX_HOSTNAME_ATTEMPTS_def)
qed

lemma sites_ok_claim:
  assumes ok: "sites_ok (doc s)" and run: "claim_site env vm fresh tenant label region s = (Inr n, s')"
    and new: "tenant \<noteq> []" "fst fresh \<notin> ss_name ` set (sites (doc s))"
  shows "sites_ok (doc s')"
proof (cases "find (is_claimable region) (sites (doc s))")
  case (Some c)
  then have c: "c \<in> set (sites (doc s))" "ss_status c = ''Ready''" "ss_tenant c = []" by (auto simp: is_claimable_def dest!: find_Some_in)
  have found: "get_site (ss_name c) (doc s) = Some c"
    using find_distinct_key [of ss_name, OF _ c(1)] ok by (simp add: get_site_def sites_ok_def)
  have "doc s' = upd_site (ss_name c) (\<lambda>s. s\<lparr>ss_tenant := tenant, ss_label := label, ss_status := ''Assigned''\<rparr>) (doc s)"
    using run Some by (auto simp: claim_site_def)
  moreover have "moved (doc s) \<dots>"
    by (rule moved_upd [OF moved_refl]) (use ok found c new site_move.claimed [OF c(2,3) new(1), of label] in \<open>auto simp: sites_ok_def\<close>)
  ultimately show ?thesis using sites_ok_moved [OF ok] by simp
next
  case None
  obtain d1 where d1: "insert_site (snd fresh) (new_site (fst fresh) (now_at env) region tenant label []) (doc s) = Inr d1"
    and s': "sites (doc s') = sites d1"
    using run None by (auto simp: claim_site_def split: if_splits dest!: ensure_region_capacity_frame)
  show ?thesis using sites_ok_new [OF ok d1 new(2)] s' by (simp add: sites_ok_def)
qed

lemma sites_ok_step:
  assumes "sites_step e d d'" "sites_ok d"
  shows "sites_ok d'"
  using assms
proof (induction rule: sites_step.induct)
  case (set_up k n d w res s')
  then have "moved d (doc s')"
    using provision_site_moves [of d "\<lparr>doc = d, saved = d, world = w\<rparr>"] moved_refl by (simp add: sites_ok_def)
  with set_up show ?case by (simp add: sites_ok_moved)
next
  case (retried n d w u s')
  then have "moved d (doc s')" using retry_site_moved [of "\<lparr>doc = d, saved = d, world = w\<rparr>"] by (simp add: sites_ok_def)
  with retried show ?case by (simp add: sites_ok_moved)
next
  case (dropped n d w u s')
  then have "moved d (doc s')" using drop_site_moved [of "\<lparr>doc = d, saved = d, world = w\<rparr>"] by (simp add: sites_ok_def)
  with dropped show ?case by (simp add: sites_ok_moved)
next
  case (claimed vm fresh tenant label region d w n s')
  then show ?case using sites_ok_claim [of "\<lparr>doc = d, saved = d, world = w\<rparr>"] by simp
next
  case (added ts n t region tenant label vm d d')
  then show ?case by (simp add: sites_ok_new)
next
  case (elsewhere d' d)
  then show ?case by (simp add: sites_ok_def)
qed (metis keeps_doc life.keeps_domain_operations life.keeps_make_primary life.keeps_resend moved_refl sites_ok_def sites_ok_moved)+

text \<open>
  C4. In every state the sites can get to, a row is consistent with its place in the life of a site: a site that is
  Ready, Assigned, Configuring or Active exists on a server; a pooled Ready site has no tenant and an
  Assigned, Configuring or Active one has; an Active site was configured; a dropped site holds no
  label; and fewer than five host names were tried.
\<close>

theorem sites_consistent:
  assumes "(sites_step e)\<^sup>*\<^sup>* d0 d" "sites d0 = []" "r \<in> set (sites d)"
  shows "(ss_status r \<in> {''Ready'', ''Assigned'', ''Configuring'', ''Active''} \<longrightarrow> ss_site_created r \<and> ss_virtual_machine r \<noteq> []) \<and>
     (ss_status r = ''Ready'' \<longrightarrow> ss_tenant r = []) \<and>
     (ss_status r \<in> {''Assigned'', ''Configuring'', ''Active''} \<longrightarrow> ss_tenant r \<noteq> []) \<and>
     (ss_status r = ''Active'' \<longrightarrow> ss_suite_configured r) \<and>
     (ss_status r = ''Dropped'' \<longrightarrow> ss_label r = []) \<and> ss_attempts r < MAX_HOSTNAME_ATTEMPTS"
proof -
  have "sites_ok d0" using assms(2) by (simp add: sites_ok_def)
  with assms(1) have "sites_ok d" by (induction rule: rtranclp_induct) (auto intro: sites_ok_step)
  then have "site_ok r" using assms(3) by (simp add: sites_ok_def)
  then show ?thesis unfolding site_ok_def by blast
qed

section \<open>A site from insert to Active\<close>

definition demo_labels :: label_state where
  "demo_labels = \<lparr>cluster_labels = [], sites_tab = [], requests_tab = [], mail_domains = [], record_hosts = [],
     site_dns_zone = None, mail_zone = Some ''mail.example''\<rparr>"

definition demo_task :: task where
  "demo_task = \<lparr>t_id = ''t1'', t_status = ''success''\<rparr>"

definition demo_site_env :: "unit site_env" where
  "demo_site_env = \<lparr>base = demo_env, tokens = [''00'', ''01'', ''02''], label_st = demo_labels,
     pc_create_site = (\<lambda>_ _ _. answers demo_task), pc_drop_site = (\<lambda>_ _. answers demo_task), pc_dns_records = (\<lambda>_ _ _. answers []),
     pc_add_domain = (\<lambda>_ _ _. answers demo_task), pc_set_primary = (\<lambda>_ _ _. answers demo_task),
     pc_remove_domain = (\<lambda>_ _ _. answers demo_task), https_problem = (\<lambda>_. answers None), resolves = (\<lambda>_ _ _. answers True),
     reconcile = (\<lambda>_ _ _. answers ()), confirm = (\<lambda>_ _. answers True)\<rparr>"

definition demo_tenant :: tenant_info where
  "demo_tenant = \<lparr>ti_name = ''t1'', ti_title = ''Acme'', ti_contact_email = ''a@b.co'', ti_secret = ''s'', ti_cluster_url = None,
     ti_user_email = ''john@b.co''\<rparr>"

definition demo_sites_env :: "unit sites_env" where
  "demo_sites_env = \<lparr>sd = demo_site_env,
     client = (\<lambda>_ _. answers (Some \<lparr>sd_name = ''i1'', sd_is_verified = False, sd_expires_at = 9\<rparr>)),
     tenants = (\<lambda>t. if t = ''t1'' then Some demo_tenant else None), idna = (\<lambda>s. Some s), is_email = (\<lambda>_. True),
     suite_cloud_url = ''https://cloud.example'', url_host = (\<lambda>_. ''cloud.example''), ip_is_global = (\<lambda>_. None),
     md_get = (\<lambda>_. answers None), md_insert = (\<lambda>d t. answers \<lparr>mi_name = d, mi_tenant = t, mi_hosted = True\<rparr>),
     md_rows = (\<lambda>_. answers []), md_is_live = (\<lambda>_ _. True), md_records_published = (\<lambda>_ _. True),
     md_verify = (\<lambda>_. answers ()), is_provisioning = (\<lambda>_. False)\<rparr>"

definition demo_empty :: hosting where
  "demo_empty = demo_hosting\<lparr>sites := []\<rparr>"

definition demo_added :: hosting where
  "demo_added = (case insert_site [''00''] (new_site ''s1'' 1 ''blr1'' ''t1'' ''acme'' []) demo_empty of Inr d \<Rightarrow> d | Inl _ \<Rightarrow> demo_empty)"

definition demo_commit :: "hosting \<Rightarrow> (hosting, unit) st" where
  "demo_commit d = \<lparr>doc = d, saved = d, world = ()\<rparr>"

definition demo_active :: hosting where
  "demo_active = doc (snd (provision_site 9 demo_sites_env ''s1'' (demo_commit demo_added)))"

lemma demo_life:
  "insert_site [''00''] (new_site ''s1'' 1 ''blr1'' ''t1'' ''acme'' []) demo_empty = Inr demo_added"
  "map ss_name (sites demo_added) = [''s1'']" "sites demo_empty = []"
  "map ss_status (sites demo_active) = [''Active'']"
proof -
  have "case insert_site [''00''] (new_site ''s1'' 1 ''blr1'' ''t1'' ''acme'' []) demo_empty of Inr _ \<Rightarrow> True | Inl _ \<Rightarrow> False" by code_simp
  then show "insert_site [''00''] (new_site ''s1'' 1 ''blr1'' ''t1'' ''acme'' []) demo_empty = Inr demo_added"
    unfolding demo_added_def by (auto split: sum.splits)
  show "map ss_name (sites demo_added) = [''s1'']" by code_simp
  show "sites demo_empty = []" by (simp add: demo_empty_def)
  show "map ss_status (sites demo_active) = [''Active'']" by code_simp
qed

lemma provision_site_ends_witness: "fst (provision_site 9 demo_sites_env ''s1'' (demo_commit demo_added)) \<noteq> Inr False"
  by (rule provision_site_ends) (simp add: demo_commit_def demo_life)

lemma provision_site_refines_machine_witness:
  "list_all2 site_move\<^sup>*\<^sup>* (sites demo_added) (sites demo_active) \<and> map ss_status (sites demo_added) = [''Pending''] \<and>
   map ss_status (sites demo_active) = [''Active'']"
proof -
  have "map ss_status (sites demo_added) = [''Pending'']" by code_simp
  moreover have "list_all2 site_move\<^sup>*\<^sup>* (sites (doc (demo_commit demo_added))) (sites demo_active)"
    unfolding demo_active_def
    by (rule provision_site_refines_machine [OF _ prod.collapse [symmetric]]) (simp add: demo_commit_def demo_life)
  ultimately show ?thesis by (simp add: demo_life demo_commit_def)
qed

lemma sites_consistent_witness: "\<exists>r\<in>set (sites demo_active). ss_status r = ''Active'' \<and> ss_tenant r \<noteq> [] \<and> ss_suite_configured r"
proof -
  have "sites_step demo_sites_env demo_empty demo_added"
    by (rule sites_step.added [OF demo_life(1)]) (simp add: demo_life)
  moreover have "sites_step demo_sites_env demo_added demo_active"
    unfolding demo_active_def demo_commit_def by (rule sites_step.set_up [OF prod.collapse [symmetric]])
  ultimately have reach: "(sites_step demo_sites_env)\<^sup>*\<^sup>* demo_empty demo_active" by (meson rtranclp.simps)
  obtain r where r: "r \<in> set (sites demo_active)" "ss_status r = ''Active''"
    using demo_life(4) by (cases "sites demo_active") auto
  with sites_consistent [OF reach demo_life(3) r(1)] show ?thesis by auto
qed

section \<open>A primary domain written in capitals\<close>

text \<open>
  \<open>make_primary\<close> finds the row whatever the case of the name it is given, but then compares the rows with the name as
  given: made primary as \<open>Acme.example\<close>, the domain is the site's primary domain while no row is marked primary, and
  \<open>remove_domain\<close>, which refuses the marked row only, takes it away.
\<close>

definition demo_domain :: domain_row where
  "demo_domain = \<lparr>dr_domain = ''acme.example'', dr_status = ''Active'', dr_managed = False, dr_is_primary = False, dr_primary_skipped = False,
     dr_records = None, dr_fetched_at = None, dr_task = [], dr_failure_reason = []\<rparr>"

definition demo_with_domain :: "(hosting, unit) st" where
  "demo_with_domain = demo_commit (upd_site ''s0'' (\<lambda>s. s\<lparr>ss_domains := [demo_domain]\<rparr>) demo_hosting)"

definition demo_capitals :: "(hosting, unit) st" where
  "demo_capitals = snd (make_primary demo_site_env ''s0'' ''Acme.example'' demo_with_domain)"

lemma primary_domain_lost:
  "fst (make_primary demo_site_env ''s0'' ''Acme.example'' demo_with_domain) = Inr () \<and>
   map (\<lambda>s. (ss_primary_domain s, map dr_is_primary (ss_domains s))) (sites (doc demo_capitals)) = [(''Acme.example'', [False])] \<and>
   fst (remove_domain demo_site_env ''s0'' ''acme.example'' demo_capitals) = Inr () \<and>
   map (\<lambda>s. (ss_primary_domain s, ss_domains s)) (sites (doc (snd (remove_domain demo_site_env ''s0'' ''acme.example'' demo_capitals)))) = [(''Acme.example'', [])]"
  by code_simp

end
