(* ===== verification/Signups.thy ===== *)
theory Signups
  imports Site_Lifecycle
begin

text \<open>
  Signups (src/suite_cloud/hosting/doctype/suite_tenant_request/suite_tenant_request.py): the one-time code that
  proves an email address, and the processing of a request into a user, a tenant and a claimed site.

  The code's cache entry is kept beside the request with the time it expires; \<open>otp_hash\<close> is SHA-256, a parameter.
  frappe.throw rolls back the rows, not the cache.
\<close>

section \<open>The one-time code\<close>

record otp_entry =
  o_hash :: string
  o_attempts :: nat
  o_expires :: int

record signup =
  su_status :: string
  su_expires_at :: int
  su_otp :: "otp_entry option"

definition OTP_TTL :: int where "OTP_TTL = 600"
definition OTP_ATTEMPTS :: nat where "OTP_ATTEMPTS = 5"
definition REQUEST_TTL_HOURS :: int where "REQUEST_TTL_HOURS = 24"

datatype otp_answer = No_Longer_Waiting | Code_Expired | Wrong_Code | Verified

definition send_otp :: "(string \<Rightarrow> string) \<Rightarrow> string \<Rightarrow> int \<Rightarrow> signup \<Rightarrow> signup" where
  "send_otp otp_hash otp t s = s\<lparr>su_otp := Some \<lparr>o_hash = otp_hash otp, o_attempts = 0, o_expires = t + OTP_TTL\<rparr>\<rparr>"

text \<open>The cache's entry while it is alive.\<close>

definition stored :: "int \<Rightarrow> signup \<Rightarrow> otp_entry option" where
  "stored t s = (case su_otp s of None \<Rightarrow> None | Some o' \<Rightarrow> if t < o_expires o' then Some o' else None)"

definition verify_otp :: "(string \<Rightarrow> string) \<Rightarrow> int \<Rightarrow> string \<Rightarrow> signup \<Rightarrow> otp_answer \<times> signup" where
  "verify_otp otp_hash t otp s =
    (if su_status s \<noteq> ''Pending'' \<or> t > su_expires_at s then (No_Longer_Waiting, s)
     else case stored t s of
       None \<Rightarrow> (Code_Expired, s)
     | Some o' \<Rightarrow>
         if o_attempts o' \<ge> OTP_ATTEMPTS then (Code_Expired, s)
         else if o_hash o' \<noteq> otp_hash (py_strip otp)
         then (Wrong_Code, s\<lparr>su_otp := Some (o'\<lparr>o_attempts := o_attempts o' + 1, o_expires := t + OTP_TTL\<rparr>)\<rparr>)
         else (Verified, s\<lparr>su_otp := None, su_status := ''Verified''\<rparr>))"

text \<open>A client's tries on one code, in order.\<close>

fun tries :: "(string \<Rightarrow> string) \<Rightarrow> (int \<times> string) list \<Rightarrow> signup \<Rightarrow> otp_answer list \<times> signup" where
  "tries h [] s = ([], s)"
| "tries h ((t, otp) # us) s = (case verify_otp h t otp s of (a, s1) \<Rightarrow> case tries h us s1 of (as, s') \<Rightarrow> (a # as, s'))"

definition guesses_left :: "signup \<Rightarrow> nat" where
  "guesses_left s = (if su_status s \<noteq> ''Pending'' then 0 else case su_otp s of None \<Rightarrow> 0 | Some o' \<Rightarrow> OTP_ATTEMPTS - o_attempts o')"

definition compared :: "otp_answer \<Rightarrow> bool" where
  "compared a \<longleftrightarrow> a = Wrong_Code \<or> a = Verified"

lemma verify_otp_cases:
  assumes "verify_otp h t otp s = (a, s')"
  shows "(\<not> compared a \<and> s' = s) \<or>
    (compared a \<and> guesses_left s' < guesses_left s \<and> (\<exists>o'. su_otp s = Some o' \<and>
       (a = Verified \<longrightarrow> h (py_strip otp) = o_hash o' \<and> su_status s' = ''Verified'' \<and> su_otp s' = None) \<and>
       (a = Wrong_Code \<longrightarrow> h (py_strip otp) \<noteq> o_hash o' \<and> su_status s' = ''Pending'' \<and> map_option o_hash (su_otp s') = Some (o_hash o'))))"
  using assms
  by (auto simp: verify_otp_def compared_def guesses_left_def stored_def split: if_splits option.splits)

lemma tries_bounded: "tries h us s = (as, s') \<Longrightarrow> length (filter compared as) \<le> guesses_left s"
proof (induction h us s arbitrary: as s' rule: tries.induct)
  case (2 h t otp us s)
  obtain a s1 where one: "verify_otp h t otp s = (a, s1)" by fastforce
  obtain as1 s2 where rest: "tries h us s1 = (as1, s2)" by fastforce
  have "length (filter compared as1) \<le> guesses_left s1" using "2.IH" [OF one [symmetric] rest] .
  then show ?case using verify_otp_cases [OF one] "2.prems" one rest by auto
qed simp

lemma tries_verified:
  "tries h us s = (as, s') \<Longrightarrow> su_status s = ''Pending'' \<Longrightarrow> su_status s' \<noteq> ''Pending'' \<Longrightarrow>
   \<exists>o'. su_otp s = Some o' \<and> o_hash o' \<in> (\<lambda>(t, otp). h (py_strip otp)) ` set us"
proof (induction h us s arbitrary: as s' rule: tries.induct)
  case (2 h t otp us s)
  obtain a s1 where one: "verify_otp h t otp s = (a, s1)" by fastforce
  obtain as1 s2 where rest: "tries h us s1 = (as1, s2)" by fastforce
  have s2: "s2 = s'" using "2.prems"(1) one rest by simp
  show ?case
  proof (cases "su_status s1 = ''Pending''")
    case True
    from "2.IH" [OF one [symmetric] rest True] "2.prems"(3) s2
    obtain o1 where "su_otp s1 = Some o1" "o_hash o1 \<in> (\<lambda>(t, otp). h (py_strip otp)) ` set us" by blast
    then show ?thesis using verify_otp_cases [OF one] True by (auto simp: compared_def)
  next
    case False
    then show ?thesis using verify_otp_cases [OF one] "2.prems"(2) by (auto simp: compared_def)
  qed
qed simp

text \<open>
  C11. After a code was sent, at most five tries are ever compared with it, whatever the times and the texts tried; and
  the signup leaves Pending only by a try whose hash is the hash of the code.
\<close>

theorem otp_guesses_bounded:
  assumes "su_status s = ''Pending''" "tries h us (send_otp h otp t s) = (as, s')"
  shows "length (filter compared as) \<le> 5 \<and>
    (su_status s' \<noteq> ''Pending'' \<longrightarrow> h otp \<in> (\<lambda>(t, guess). h (py_strip guess)) ` set us)"
proof -
  have "guesses_left (send_otp h otp t s) \<le> 5" by (simp add: guesses_left_def send_otp_def OTP_ATTEMPTS_def)
  moreover have "su_status (send_otp h otp t s) = ''Pending''" "su_otp (send_otp h otp t s) = Some \<lparr>o_hash = h otp, o_attempts = 0, o_expires = t + OTP_TTL\<rparr>"
    using assms(1) by (simp_all add: send_otp_def)
  ultimately show ?thesis using tries_bounded [OF assms(2)] tries_verified [OF assms(2)] by fastforce
qed

definition demo_signup :: signup where
  "demo_signup = \<lparr>su_status = ''Pending'', su_expires_at = 86400, su_otp = None\<rparr>"

lemma otp_guesses_bounded_witness:
  "\<exists>as s'. tries id [(5, ''111111''), (6, ''123456'')] (send_otp id ''123456'' 0 demo_signup) = (as, s') \<and>
     as = [Wrong_Code, Verified] \<and> length (filter compared as) \<le> 5"
proof -
  have run: "fst (tries id [(5, ''111111''), (6, ''123456'')] (send_otp id ''123456'' 0 demo_signup)) = [Wrong_Code, Verified]" by code_simp
  obtain as s' where r: "tries id [(5, ''111111''), (6, ''123456'')] (send_otp id ''123456'' 0 demo_signup) = (as, s')" by fastforce
  have "su_status demo_signup = ''Pending''" by (simp add: demo_signup_def)
  from otp_guesses_bounded [OF this r] r run show ?thesis by auto
qed

text \<open>
  Every wrong try stores the entry anew with its full life, so a code can be accepted long after the ten minutes its mail
  names: here at second 1190.
\<close>

lemma wrong_try_extends_code:
  "fst (tries id [(595, ''000000''), (1190, ''123456'')] (send_otp id ''123456'' 0 demo_signup)) = [Wrong_Code, Verified]"
  by code_simp

section \<open>A request\<close>

record new_user =
  nu_email :: string
  nu_first_name :: string
  nu_last_name :: string
  nu_user_type :: string
  nu_roles :: "string list"

record new_tenant =
  nt_title :: string
  nt_type :: string
  nt_user :: string
  nt_region :: string

record 'w signup_env =
  sg :: "'w sites_env"
  nfkd :: "string \<Rightarrow> string"
  default_region :: string
  allow_subaddressed_signups :: bool
  get_user_roles :: "string \<Rightarrow> ('w, string list option) call"
  append_role :: "string \<Rightarrow> string \<Rightarrow> ('w, unit) call"
  insert_user :: "new_user \<Rightarrow> ('w, string) call"
  insert_tenant :: "new_tenant \<Rightarrow> ('w, string) call"
  fresh_site :: "string \<times> string list"
  fresh_vm :: string
  fresh_key :: string

definition get_req :: "string \<Rightarrow> hosting \<Rightarrow> tenant_request option" where
  "get_req n d = find (\<lambda>r. tr_name r = n) (requests d)"

definition req_row :: "string \<Rightarrow> (hosting, 'w, tenant_request) op" where
  "req_row n = seq get_doc (\<lambda>d. case get_req n d of None \<Rightarrow> throw ''DoesNotExistError'' | Some r \<Rightarrow> ret r)"

definition set_req :: "string \<Rightarrow> (tenant_request \<Rightarrow> tenant_request) \<Rightarrow> (hosting, 'w, unit) op" where
  "set_req n f = db_set (upd_request n f)"

definition request_before_insert :: "'w signup_env \<Rightarrow> bool \<Rightarrow> tenant_request \<Rightarrow> tenant_request" where
  "request_before_insert e verify_by_otp r = r\<lparr>tr_status := ''Pending'', tr_request_key := fresh_key e,
     tr_expires_at := now_at (se (sg e)) + REQUEST_TTL_HOURS * 3600, tr_steps := add_steps verify_by_otp\<rparr>"

text \<open>The rows the label rules read, as they stand.\<close>

definition label_status :: "string \<Rightarrow> request_status" where
  "label_status s = (if s = ''Pending'' then RPending else if s = ''Verified'' then RVerified else if s = ''Processing'' then RProcessing
     else if s = ''Completed'' then RCompleted else if s = ''Failed'' then RFailed else RExpired)"

definition label_row :: "tenant_request \<Rightarrow> request_row" where
  "label_row r = \<lparr>q_name = tr_name r, q_label = (if tr_label r = [] then None else Some (tr_label r)), q_status = label_status (tr_status r),
     q_organization = tr_organization r, q_tenant = (if tr_tenant r = [] then None else Some (tr_tenant r))\<rparr>"

definition label_state_of :: "'w sites_env \<Rightarrow> hosting \<Rightarrow> label_state" where
  "label_state_of e d = (label_st (sd e))\<lparr>
     sites_tab := map (\<lambda>s. \<lparr>s_name = ss_name s, s_tenant = (if ss_tenant s = [] then None else Some (ss_tenant s)), s_label = ss_label s,
                            s_dropped = (ss_status s = ''Dropped'')\<rparr>) (sites d),
     requests_tab := map label_row (requests d)\<rparr>"

definition of_res :: "'a res \<Rightarrow> herr + 'a" where
  "of_res r = (case r of Inl _ \<Rightarrow> Inl (Other_Error ''ValidationError'') | Inr x \<Rightarrow> Inr x)"

definition validate_request :: "'w signup_env \<Rightarrow> hosting \<Rightarrow> tenant_request \<Rightarrow> herr + tenant_request" where
  "validate_request e d r =
    rbind (of_res (validate_email_address (idna (sg e)) (is_email (sg e)) (tr_email r))) (\<lambda>email.
    rbind (require (py_strip (tr_full_name r) \<noteq> []) (Other_Error ''Enter the name of the person signing up.'')) (\<lambda>_.
    rbind (require (py_strip (tr_organization r) \<noteq> []) (Other_Error ''Enter the name of the organization, e.g. the company or team.'')) (\<lambda>_.
    rbind (if tr_label r = [] then Inr [] else rbind (of_res (validate_label (Some (tr_label r)))) (\<lambda>l.
        rbind (of_res (assert_label_available (label_state_of (sg e) d) l None None OPEN_STATUSES)) (\<lambda>_. Inr l))) (\<lambda>label.
    rbind (require (\<not> (CHR ''+'' \<in> set (fst (partition_at (CHR ''@'') email)) \<and> \<not> allow_subaddressed_signups e))
        (Other_Error (email @ '' is a sub-address; sign up with the address itself.''))) (\<lambda>_.
    Inr (r\<lparr>tr_email := email, tr_full_name := py_strip (tr_full_name r), tr_organization := py_strip (tr_organization r), tr_label := label,
           tr_timezone := py_strip (tr_timezone r)\<rparr>))))))"

definition sync_req :: "'w sites_env \<Rightarrow> string \<Rightarrow> (hosting, 'w, unit) op" where
  "sync_req e n = seq (req_row n) (sync_request e)"

text \<open>Answers whether processing was enqueued.\<close>

definition request_after_insert :: "'w signup_env \<Rightarrow> bool \<Rightarrow> string \<Rightarrow> (hosting, 'w, bool) op" where
  "request_after_insert e verify_by_otp n =
    seq (if verify_by_otp then ret () else set_req n (\<lambda>r. r\<lparr>tr_status := ''Verified''\<rparr>)) (\<lambda>_.
    seq (sync_req (sg e) n) (\<lambda>_. seq (req_row n) (\<lambda>r. ret (tr_status r = ''Verified''))))"

definition retry_request :: "'w signup_env \<Rightarrow> string \<Rightarrow> (hosting, 'w, unit) op" where
  "retry_request e n = seq (req_row n) (\<lambda>r.
    if tr_status r \<noteq> ''Failed'' then throw ''Only a failed request can be retried.''
    else if tr_suite_site r \<noteq> [] then retry_site (sg e) (tr_suite_site r)
    else seq (set_req n (\<lambda>r. r\<lparr>tr_status := ''Verified'', tr_error := []\<rparr>)) (\<lambda>_. sync_req (sg e) n))"

definition resend_invite :: "'w signup_env \<Rightarrow> string \<Rightarrow> (hosting, 'w, unit) op" where
  "resend_invite e n = seq (req_row n) (\<lambda>r.
    if tr_status r \<noteq> ''Completed'' \<or> tr_suite_site r = [] then throw ''The site of this request has not invited its owner yet.''
    else resend_owner_invite (sg e) (tr_suite_site r))"

section \<open>Processing\<close>

definition TENANT_ROLE :: string where "TENANT_ROLE = ''Suite Tenant''"

definition ensure_user :: "'w signup_env \<Rightarrow> tenant_request \<Rightarrow> (hosting, 'w, string) op" where
  "ensure_user e r = seq (ask (get_user_roles e (tr_email r))) (\<lambda>found. case found of
      Some roles \<Rightarrow> seq (if TENANT_ROLE \<in> set roles then ret () else ask (append_role e (tr_email r) TENANT_ROLE)) (\<lambda>_. ret (tr_email r))
    | None \<Rightarrow> (case partition_at (CHR '' '') (py_strip (tr_full_name r)) of (first, _, rest) \<Rightarrow>
        ask (insert_user e \<lparr>nu_email = tr_email r, nu_first_name = first, nu_last_name = rest, nu_user_type = ''Website User'',
                            nu_roles = [TENANT_ROLE]\<rparr>)))"

definition ensure_tenant :: "'w signup_env \<Rightarrow> tenant_request \<Rightarrow> string \<Rightarrow> string \<Rightarrow> (hosting, 'w, string) op" where
  "ensure_tenant e r user region = ask (insert_tenant e \<lparr>nt_title = tr_organization r, nt_type = ''Suite Site'', nt_user = user, nt_region = region\<rparr>)"

text \<open>\<open>labels.reserve_label\<close> on the request's row, under its lock, and kept.\<close>

definition reserve_for :: "'w signup_env \<Rightarrow> string \<Rightarrow> (hosting, 'w, string) op" where
  "reserve_for e n = seq (req_row n) (\<lambda>r. seq get_doc (\<lambda>d.
    seq (lift (of_res (reserve_label (nfkd e) (label_row r) (label_state_of (sg e) d)))) (\<lambda>(label, _).
    seq (set_req n (\<lambda>r. r\<lparr>tr_label := label, tr_status := ''Processing''\<rparr>)) (\<lambda>_. seq checkpoint (\<lambda>_. ret label)))))"

definition claim_for :: "'w signup_env \<Rightarrow> string \<Rightarrow> (hosting, 'w, unit) op" where
  "claim_for e n = seq get_doc (\<lambda>d. seq (lift (assert_region_enabled d (default_region e))) (\<lambda>region.
    seq (reserve_for e n) (\<lambda>label.
    seq (req_row n) (\<lambda>r.
    seq (if tr_tenant r \<noteq> [] then ret (tr_tenant r) else seq (ensure_user e r) (\<lambda>user. ensure_tenant e r user region)) (\<lambda>tenant.
    seq (set_req n (\<lambda>r. r\<lparr>tr_tenant := tenant, tr_status := ''Processing''\<rparr>)) (\<lambda>_.
    seq (sync_req (sg e) n) (\<lambda>_.
    seq (claim_site (se (sg e)) (fresh_vm e) (fresh_site e) tenant label region) (\<lambda>site.
    set_req n (\<lambda>r. r\<lparr>tr_suite_site := site\<rparr>)))))))))"

definition process_request :: "'w signup_env \<Rightarrow> string \<Rightarrow> (hosting, 'w, unit) op" where
  "process_request e n = seq (req_row n) (\<lambda>r.
    if tr_status r \<notin> {''Verified'', ''Processing''} \<or> tr_suite_site r \<noteq> [] then ret ()
    else seq begin_step (\<lambda>_.
      seq (except (claim_for e n) (\<lambda>x. seq undo_step (\<lambda>_. set_req n (\<lambda>r. r\<lparr>tr_status := ''Failed'', tr_error := error_text x\<rparr>)))) (\<lambda>_.
      sync_req (sg e) n)))"

definition RESUME_AFTER_MINUTES :: int where "RESUME_AFTER_MINUTES = 10"

text \<open>The requests whose processing the cron job starts again.\<close>

definition resume_requests :: "int \<Rightarrow> hosting \<Rightarrow> string list" where
  "resume_requests t d = map tr_name (filter (\<lambda>r. tr_status r \<in> {''Verified'', ''Processing''} \<and> tr_suite_site r = []
     \<and> tr_modified r < t - RESUME_AFTER_MINUTES * 60) (requests d))"

definition expire_requests :: "'w signup_env \<Rightarrow> (hosting, 'w, unit) op" where
  "expire_requests e = seq get_doc (\<lambda>d.
    run_all (\<lambda>n. seq (set_req n (\<lambda>r. r\<lparr>tr_status := ''Expired''\<rparr>)) (\<lambda>_. sync_req (sg e) n))
      (map tr_name (filter (\<lambda>r. tr_status r = ''Pending'' \<and> tr_expires_at r < now_at (se (sg e))) (requests d))))"

section \<open>A processed request is settled\<close>

text \<open>The request's row, and the site names a claim relies on.\<close>

definition req_is :: "string \<Rightarrow> (tenant_request \<Rightarrow> bool) \<Rightarrow> hosting \<Rightarrow> bool" where
  "req_is n Q d \<longleftrightarrow> (\<exists>r. get_req n d = Some r \<and> Q r)"

definition claimable :: "'w signup_env \<Rightarrow> hosting \<Rightarrow> bool" where
  "claimable e d \<longleftrightarrow> distinct (map ss_name (sites d)) \<and> fst (fresh_site e) \<notin> ss_name ` set (sites d)"

abbreviation has_req :: "string \<Rightarrow> hosting \<Rightarrow> bool" where
  "has_req n \<equiv> req_is n (\<lambda>_. True)"

definition held :: "'w signup_env \<Rightarrow> string \<Rightarrow> (tenant_request \<Rightarrow> bool) \<Rightarrow> hosting \<Rightarrow> bool" where
  "held e n Q d \<longleftrightarrow> claimable e d \<and> req_is n Q d"

lemma held_has: "held e n Q d \<Longrightarrow> has_req n d"
  by (auto simp: held_def req_is_def)

lemma get_upd_request [simp]:
  "(\<And>r. tr_name (f r) = tr_name r) \<Longrightarrow> get_req m (upd_request n f d) = (if m = n then map_option f (get_req n d) else get_req m d)"
  by (simp add: get_req_def upd_request_def find_upd_key)

lemma claimable_request [simp]: "claimable e (upd_request m f d) = claimable e d"
  by (simp add: claimable_def upd_request_def)

lemma triple_set_req:
  assumes "\<And>r. Q r \<Longrightarrow> R (f r)" "\<And>r. tr_name (f r) = tr_name r"
  shows "triple (held e n Q) (set_req n f) (\<lambda>_. held e n R) I"
  unfolding set_req_def by (rule triple_db_set) (use assms in \<open>auto simp: held_def req_is_def\<close>)

lemma triple_req_row: "triple (held e n Q) (req_row n) (\<lambda>r. held e n (\<lambda>r'. r' = r \<and> Q r')) (has_req n)"
  unfolding triple_def req_row_def throw_def
  by (auto simp: held_def req_is_def step_defs split: option.splits)

lemma triple_held_still:
  "holds (held e n Q) m \<Longrightarrow> keeps (has_req n) m \<Longrightarrow> triple (held e n Q) m (\<lambda>_. held e n Q) (has_req n)"
  by (rule triple_frame) (auto intro: held_has)

lemmas held_read = triple_held_still [OF holds_basic(3) keeps_get_doc]
lemmas held_lift = triple_held_still [OF holds_lift keeps_lift]
lemmas held_checkpoint = triple_held_still [OF holds_basic(6) keeps_checkpoint]
lemmas held_ret = triple_held_still [OF holds_basic(1) keeps_ret]

text \<open>A sync writes the steps and the processing time.\<close>

lemma sync_request_effect:
  "sync_request e r s = (res, s') \<Longrightarrow> s' = s \<or> (\<exists>rows p. s' = s\<lparr>doc := upd_request (tr_name r) (\<lambda>r. r\<lparr>tr_steps := rows, tr_processing_time := p\<rparr>) (doc s)\<rparr>)"
  by (auto simp: sync_request_def step_defs peek_def lift_def split: prod.splits sum.splits)

lemma sync_req_effect:
  assumes "sync_req e n s = (res, s')"
  shows "s' = s \<or> (\<exists>rows p. s' = s\<lparr>doc := upd_request n (\<lambda>r. r\<lparr>tr_steps := rows, tr_processing_time := p\<rparr>) (doc s)\<rparr>)"
proof (cases "get_req n (doc s)")
  case None
  then show ?thesis using assms by (auto simp: sync_req_def req_row_def throw_def step_defs)
next
  case (Some r)
  then have "tr_name r = n" by (auto simp: get_req_def dest: find_Some_in)
  then show ?thesis using assms Some sync_request_effect [of e r s res s']
    by (auto simp: sync_req_def req_row_def seq_def get_doc_def ret_def)
qed

lemma held_sync:
  assumes "\<And>r rows p. Q r \<Longrightarrow> Q (r\<lparr>tr_steps := rows, tr_processing_time := p\<rparr>)"
  shows "triple (held e n Q) (sync_req e' n) (\<lambda>_. held e n Q) (has_req n)"
proof (rule tripleI)
  fix s res s' assume pre: "held e n Q (doc s)" "has_req n (saved s)" and run: "sync_req e' n s = (res, s')"
  have "held e n Q (doc s')" "saved s' = saved s"
    using sync_req_effect [OF run] pre(1) assms by (auto simp: held_def req_is_def)
  then show "has_req n (saved s') \<and> (case res of Inr x \<Rightarrow> held e n Q (doc s') | Inl x \<Rightarrow> has_req n (doc s'))"
    using pre(2) held_has by (auto split: sum.splits)
qed

lemma held_ask: "triple (held e n Q) (ask c) (\<lambda>_. held e n Q) (has_req n)"
  by (rule triple_held_still [OF holds_basic(4) keeps_ask])

lemma reserve_for_step:
  "triple (held e n (\<lambda>_. True)) (reserve_for e n) (\<lambda>label. held e n (\<lambda>r. tr_label r = label)) (has_req n)"
proof -
  have note_label: "triple (held e n (\<lambda>r. r = q \<and> True)) (set_req n (\<lambda>r. r\<lparr>tr_label := label, tr_status := ''Processing''\<rparr>))
     (\<lambda>_. held e n (\<lambda>r. tr_label r = label)) (has_req n)" for q label
    by (rule triple_set_req) simp_all
  have ret_label: "triple (held e n (\<lambda>r. tr_label r = label)) (ret label) (\<lambda>label. held e n (\<lambda>r. tr_label r = label)) (has_req n)" for label
    by (rule triple_ret)
  show ?thesis unfolding reserve_for_def case_prod_beta
    by (intro triple_seq [OF triple_req_row] triple_seq [OF held_read] triple_seq [OF held_lift] triple_seq [OF note_label]
        triple_seq [OF held_checkpoint] ret_label)
qed

lemma ensure_region_capacity_requests:
  assumes "ensure_region_capacity env n region s = (res, s')"
  shows "requests (doc s') = requests (doc s)"
proof -
  have "holds (\<lambda>d. requests d = requests (doc s)) (ensure_region_capacity env n region)"
    unfolding ensure_region_capacity_def vm_before_insert_def by (intro holds_intros holds_db_set) simp
  from holdsD [OF this assms] show ?thesis by simp
qed

lemma claim_site_requests:
  assumes "claim_site env vm fresh tenant label region s = (res, s')"
  shows "requests (doc s') = requests (doc s)"
proof (cases "find (is_claimable region) (sites (doc s))")
  case (Some c)
  then show ?thesis using assms by (auto simp: claim_site_def step_defs upd_site_def)
next
  case None
  let ?new = "new_site (fst fresh) (now_at env) region tenant label []"
  show ?thesis
  proof (cases "insert_site (snd fresh) ?new (doc s)")
    case (Inl x)
    then show ?thesis using assms None by (auto simp: claim_site_def step_defs lift_def)
  next
    case (Inr d1)
    then have "requests d1 = requests (doc s)" by (auto simp: insert_site_def)
    then show ?thesis using assms None Inr ensure_region_capacity_requests [of env vm region "s\<lparr>doc := d1\<rparr>"]
      by (auto simp: claim_site_def seq_def get_doc_def lift_def ret_def db_set_def split: if_splits prod.splits sum.splits)
  qed
qed

lemma unsaved_lift [unsaved_intros]: "unsaved (lift r)"
  by (simp add: unsaved_def lift_def ret_def raise_def split: sum.splits)

lemma claim_site_unsaved: "unsaved (claim_site env vm fresh tenant label region)"
  unfolding claim_site_def ensure_region_capacity_def vm_before_insert_def resolve_server_arguments_def Let_def
  by (intro unsaved_intros)

definition has_claim :: "string \<Rightarrow> string \<Rightarrow> string \<Rightarrow> hosting \<Rightarrow> bool" where
  "has_claim site tenant label d \<longleftrightarrow> (\<exists>c. get_site site d = Some c \<and> ss_tenant c = tenant \<and> ss_label c = label)"

lemma claim_step:
  "triple (held e n Q) (claim_site env vm (fresh_site e) tenant label region)
     (\<lambda>site d. req_is n Q d \<and> has_claim site tenant label d) (has_req n)"
proof (rule tripleI)
  fix s res s' assume pre: "held e n Q (doc s)" "has_req n (saved s)"
    and run: "claim_site env vm (fresh_site e) tenant label region s = (res, s')"
  have req: "req_is n P (doc s') = req_is n P (doc s)" for P
    using claim_site_requests [OF run] by (simp add: req_is_def get_req_def)
  have saved: "saved s' = saved s" by (rule unsavedD [OF claim_site_unsaved run])
  show "has_req n (saved s') \<and> (case res of Inr site \<Rightarrow> req_is n Q (doc s') \<and> has_claim site tenant label (doc s') | Inl x \<Rightarrow> has_req n (doc s'))"
  proof (cases res)
    case (Inl x)
    then show ?thesis using saved pre held_has [OF pre(1)] req by simp
  next
    case (Inr site)
    have "has_claim site tenant label (doc s')"
      using claim_site_result [OF _ _ run [unfolded Inr]] pre(1) by (auto simp: held_def claimable_def has_claim_def)
    then show ?thesis using Inr saved pre req by (simp add: held_def)
  qed
qed

text \<open>What a processed request's row says.\<close>

definition settled :: "hosting \<Rightarrow> tenant_request \<Rightarrow> bool" where
  "settled d r \<longleftrightarrow> tr_status r = ''Failed'' \<or> tr_status r = ''Processing'' \<and> has_claim (tr_suite_site r) (tr_tenant r) (tr_label r) d"

definition request_settled :: "string \<Rightarrow> hosting \<Rightarrow> bool" where
  "request_settled n d \<longleftrightarrow> (\<exists>r. get_req n d = Some r \<and> settled d r)"

lemma claim_for_step: "triple (held e n (\<lambda>_. True)) (claim_for e n) (\<lambda>_. request_settled n) (has_req n)"
proof -
  let ?L = "\<lambda>label r. tr_label r = label"
  let ?T = "\<lambda>tenant label r. tr_tenant r = tenant \<and> tr_label r = label \<and> tr_status r = ''Processing''"
  have user: "triple (held e n (\<lambda>r'. r' = r \<and> ?L label r')) (if tr_tenant r \<noteq> [] then ret (tr_tenant r)
      else seq (ensure_user e r) (\<lambda>user. ensure_tenant e r user region)) (\<lambda>_. held e n (\<lambda>r'. r' = r \<and> ?L label r')) (has_req n)" for r label region
    unfolding ensure_user_def ensure_tenant_def case_prod_beta
    by (rule triple_held_still) (intro holds_intros keeps_intros)+
  have tenant: "triple (held e n (\<lambda>r'. r' = r \<and> ?L label r')) (set_req n (\<lambda>r. r\<lparr>tr_tenant := tenant, tr_status := ''Processing''\<rparr>))
      (\<lambda>_. held e n (?T tenant label)) (has_req n)" for r label tenant
    by (rule triple_set_req) simp_all
  have sync: "triple (held e n (?T tenant label)) (sync_req e' n) (\<lambda>_. held e n (?T tenant label)) (has_req n)" for tenant label e'
    by (rule held_sync) simp
  have claimed: "triple (\<lambda>d. req_is n (?T tenant label) d \<and> has_claim site tenant label d) (set_req n (\<lambda>r. r\<lparr>tr_suite_site := site\<rparr>))
      (\<lambda>_. request_settled n) (has_req n)" for site tenant label
    unfolding set_req_def
    by (rule triple_db_set) (auto simp: req_is_def request_settled_def settled_def has_claim_def get_site_def upd_request_def get_req_def find_upd_key)
  show ?thesis unfolding claim_for_def
    by (intro triple_seq [OF held_read] triple_seq [OF held_lift] triple_seq [OF reserve_for_step] triple_seq [OF triple_req_row]
        triple_seq [OF user] triple_seq [OF tenant] triple_seq [OF sync] triple_seq [OF claim_step] claimed)
qed

lemma request_settled_sync:
  assumes "request_settled n (doc s)" "sync_req e n s = (res, s')"
  shows "request_settled n (doc s')"
  using sync_req_effect [OF assms(2)] assms(1)
  by (auto simp: request_settled_def settled_def has_claim_def get_site_def upd_request_def get_req_def find_upd_key)


definition demo_request :: tenant_request where
  "demo_request = \<lparr>tr_name = ''q1'', tr_email = ''john@b.co'', tr_full_name = ''John Doe'', tr_organization = ''Acme Inc'', tr_label = [], tr_timezone = [],
     tr_status = ''Verified'', tr_error = [], tr_tenant = [], tr_suite_site = [], tr_request_key = [], tr_expires_at = 9, tr_steps = add_steps False,
     tr_processing_time = None, tr_modified = 0\<rparr>"

definition demo_signup_env :: "unit signup_env" where
  "demo_signup_env = \<lparr>sg = demo_sites_env, nfkd = id, default_region = ''blr1'', allow_subaddressed_signups = False,
     get_user_roles = (\<lambda>_. answers None), append_role = (\<lambda>_ _. answers ()), insert_user = (\<lambda>u. answers (nu_email u)),
     insert_tenant = (\<lambda>_. answers ''t1''), fresh_site = (''s9'', [''aa'']), fresh_vm = ''v9'', fresh_key = ''k''\<rparr>"

definition demo_waiting :: "(hosting, unit) st" where
  "demo_waiting = demo_commit (demo_hosting\<lparr>requests := [demo_request]\<rparr>)"


end
