(* ===== verification/Stalwart_Directory.thy ===== *)
theory Stalwart_Directory
  imports Json
begin

text \<open>
  The JMAP layer to a Stalwart cluster (src/suite_cloud/mail/stalwart/service.py, errors.py) and the
  payloads of its directory objects (directory.py).  The cluster itself is the parameter \<open>call\<close>: it
  takes the method calls of one request and the server's state and answers with the method
  responses, or fails.  Everything the code builds from and reads out of those answers is modelled.
\<close>

section \<open>Wire shapes\<close>

definition id_set :: "string list \<Rightarrow> json" where
  "id_set ids = JObj (dict_of (map (\<lambda>i. (i, JBool True)) ids))"

definition indexed :: "json list \<Rightarrow> json" where
  "indexed items = JObj (map (\<lambda>(i, x). (show_nat i, x)) (enumerate 0 items))"

function chunks :: "'a list \<Rightarrow> nat \<Rightarrow> 'a list list" where
  "chunks items n = (if n = 0 \<or> items = [] then [] else take n items # chunks (drop n items) n)"
  by pat_completeness auto
termination
  by (relation "measure (\<lambda>(items, n). length items)") auto

declare chunks.simps [simp del]

definition chunk_dict :: "('k, 'v) dict \<Rightarrow> nat \<Rightarrow> ('k, 'v) dict list" where
  "chunk_dict d n = chunks d n"

text \<open>\<open>extract_set_error\<close>: the type of a refusal, wrapped or bare; empty for none.\<close>

definition has_type :: "json \<Rightarrow> bool" where
  "has_type j = (case j of JObj d \<Rightarrow> map_of d ''type'' \<noteq> None | _ \<Rightarrow> False)"

definition extract_set_error :: "json \<Rightarrow> json \<times> json" where
  "extract_set_error detail =
     (case detail of
        JObj d \<Rightarrow>
          (case jget ''type'' detail of
             JStr t \<Rightarrow> (JStr t, jget ''description'' detail)
           | _ \<Rightarrow>
               (case find has_type (concat (map (\<lambda>(_, v). map snd (jobj v)) d)) of
                  Some f \<Rightarrow> (jget ''type'' f, jget ''description'' f)
                | None \<Rightarrow> (JNull, JNull)))
      | _ \<Rightarrow> (JNull, JNull))"

definition rejected :: "json \<Rightarrow> exn" where
  "rejected detail = StalwartRejected (jstr (fst (extract_set_error detail)))"

section \<open>Objects\<close>

record email_alias =
  ea_name :: string
  ea_domain_id :: string
  ea_enabled :: bool
  ea_description :: "string option"

definition alias_to_dict :: "email_alias \<Rightarrow> json" where
  "alias_to_dict a = JObj [(''name'', JStr (ea_name a)), (''domainId'', JStr (ea_domain_id a)),
     (''enabled'', JBool (ea_enabled a)), (''description'', jopt (ea_description a))]"

definition roles_payload :: "string list \<Rightarrow> json" where
  "roles_payload role_ids =
     (if role_ids \<noteq> [] then JObj [(''@type'', JStr ''Custom''), (''roleIds'', id_set role_ids)]
      else JObj [(''@type'', JStr ''User'')])"

definition RECEIVE_PERMISSION :: string where "RECEIVE_PERMISSION = ''emailReceive''"

definition permissions_payload :: "string list \<Rightarrow> json" where
  "permissions_payload disabled =
     (if disabled \<noteq> []
      then JObj [(''@type'', JStr ''Merge''), (''enabledPermissions'', JObj []), (''disabledPermissions'', id_set disabled)]
      else JObj [(''@type'', JStr ''Inherit'')])"

definition with_permission_disabled :: "json \<Rightarrow> string \<Rightarrow> bool \<Rightarrow> json" where
  "with_permission_disabled permissions permission disabled =
     (let kind = (case jget ''@type'' permissions of JStr t \<Rightarrow> if t = [] then ''Inherit'' else t | _ \<Rightarrow> ''Inherit'');
          enabled = jobj (jget ''enabledPermissions'' permissions);
          denied = jobj (jget ''disabledPermissions'' permissions);
          denied = (if disabled then dict_set permission (JBool True) denied else dict_pop permission denied);
          kind = (if kind = ''Inherit'' then ''Merge'' else kind)
      in if kind = ''Merge'' \<and> enabled = [] \<and> denied = [] then JObj [(''@type'', JStr ''Inherit'')]
         else JObj [(''@type'', JStr kind), (''enabledPermissions'', JObj enabled), (''disabledPermissions'', JObj denied)])"

definition DISK_QUOTA :: string where "DISK_QUOTA = ''maxDiskQuota''"
definition GB :: int where "GB = 1024 ^ 3"

definition STORAGE_QUOTAS :: "string list" where
  "STORAGE_QUOTAS = [''maxDiskQuota'', ''maxEmails'', ''maxMailboxes'', ''maxEmailSubmissions'', ''maxEmailIdentities'',
     ''maxParticipantIdentities'', ''maxSieveScripts'', ''maxPushSubscriptions'', ''maxCalendars'', ''maxCalendarEvents'',
     ''maxCalendarEventNotifications'', ''maxAddressBooks'', ''maxContactCards'', ''maxFiles'', ''maxFolders'',
     ''maxMaskedAddresses'', ''maxAppPasswords'', ''maxApiKeys'', ''maxPublicKeys'']"

definition quotas_payload :: "int option \<Rightarrow> (string, int) dict \<Rightarrow> (string, int) dict" where
  "quotas_payload disk_quota_bytes other =
     (let payload = filter (\<lambda>(_, v). v > 0) other
      in case disk_quota_bytes of
           Some b \<Rightarrow> if b \<noteq> 0 then dict_set DISK_QUOTA b payload else payload
         | None \<Rightarrow> payload)"

definition json_counts :: "(string, int) dict \<Rightarrow> json" where
  "json_counts q = JObj (map (\<lambda>(k, v). (k, JInt v)) q)"

record account_object =
  ao_name :: string
  ao_domain_id :: string
  ao_password :: "string option"
  ao_member_group_ids :: "string list"
  ao_role_ids :: "string list"
  ao_disabled_permissions :: "string list"
  ao_aliases :: "email_alias list"
  ao_description :: "string option"
  ao_locale :: string
  ao_time_zone :: "string option"
  ao_disk_quota_bytes :: "int option"
  ao_quotas :: "(string, int) dict"

definition DEFAULT_LOCALE :: string where "DEFAULT_LOCALE = ''en-US''"

definition account_to_dict :: "account_object \<Rightarrow> json" where
  "account_to_dict a = JObj [
     (''@type'', JStr ''User''),
     (''name'', JStr (ao_name a)),
     (''domainId'', JStr (ao_domain_id a)),
     (''credentials'', case ao_password a of
        Some p \<Rightarrow> if p = [] then JObj []
                  else JObj [(''0'', JObj [(''@type'', JStr ''Password''), (''secret'', JStr p)])]
      | None \<Rightarrow> JObj []),
     (''memberGroupIds'', id_set (ao_member_group_ids a)),
     (''roles'', roles_payload (ao_role_ids a)),
     (''permissions'', permissions_payload (ao_disabled_permissions a)),
     (''quotas'', json_counts (quotas_payload (ao_disk_quota_bytes a) (ao_quotas a))),
     (''aliases'', indexed (map alias_to_dict (ao_aliases a))),
     (''description'', jopt (ao_description a)),
     (''locale'', JStr (if ao_locale a = [] then DEFAULT_LOCALE else ao_locale a)),
     (''timeZone'', jopt (ao_time_zone a)),
     (''encryptionAtRest'', JObj [(''@type'', JStr ''Disabled'')])]"

record group_object =
  go_name :: string
  go_domain_id :: string
  go_description :: "string option"
  go_disabled_permissions :: "string list"
  go_aliases :: "email_alias list"
  go_disk_quota_bytes :: "int option"
  go_quotas :: "(string, int) dict"

definition group_to_dict :: "group_object \<Rightarrow> json" where
  "group_to_dict g = JObj [
     (''@type'', JStr ''Group''),
     (''name'', JStr (go_name g)),
     (''domainId'', JStr (go_domain_id g)),
     (''permissions'', permissions_payload (go_disabled_permissions g)),
     (''quotas'', json_counts (quotas_payload (go_disk_quota_bytes g) (go_quotas g))),
     (''aliases'', indexed (map alias_to_dict (go_aliases g))),
     (''description'', jopt (go_description g))]"

definition DAY_MS :: int where "DAY_MS = 24 * 60 * 60 * 1000"
definition DKIM_ROTATE_AFTER_MS :: int where "DKIM_ROTATE_AFTER_MS = 100 * 365 * DAY_MS"

definition dkim_management_payload :: "string list \<Rightarrow> json" where
  "dkim_management_payload algorithms =
     (if algorithms = [] then JObj [(''@type'', JStr ''Manual'')]
      else JObj [
        (''@type'', JStr ''Automatic''),
        (''algorithms'', id_set algorithms),
        (''selectorTemplate'', JStr ''frappemail-{algorithm}''),
        (''rotateAfter'', JInt DKIM_ROTATE_AFTER_MS),
        (''retireAfter'', JInt (7 * DAY_MS)),
        (''deleteAfter'', JInt (30 * DAY_MS))])"

record domain_object =
  do_name :: string
  do_description :: "string option"
  do_is_enabled :: bool
  do_aliases :: "string list"
  do_dkim_algorithms :: "string list"
  do_certificate_management :: json
  do_dns_management :: json
  do_catch_all_address :: "string option"
  do_sub_addressing :: bool
  do_allow_relaying :: bool
  do_report_address_uri :: "string option"

definition manual_unless :: "json \<Rightarrow> json" where
  "manual_unless j = (if j = JNull \<or> j = JObj [] then JObj [(''@type'', JStr ''Manual'')] else j)"

definition domain_to_dict :: "domain_object \<Rightarrow> json" where
  "domain_to_dict d = JObj [
     (''name'', JStr (do_name d)),
     (''aliases'', id_set (do_aliases d)),
     (''isEnabled'', JBool (do_is_enabled d)),
     (''description'', jopt (do_description d)),
     (''certificateManagement'', manual_unless (do_certificate_management d)),
     (''dkimManagement'', dkim_management_payload (do_dkim_algorithms d)),
     (''dnsManagement'', manual_unless (do_dns_management d)),
     (''catchAllAddress'', jopt (do_catch_all_address d)),
     (''subAddressing'', JObj [(''@type'', JStr (if do_sub_addressing d then ''Enabled'' else ''Disabled''))]),
     (''allowRelaying'', JBool (do_allow_relaying d)),
     (''reportAddressUri'', jopt (do_report_address_uri d))]"

record list_object =
  lo_name :: string
  lo_domain_id :: string
  lo_description :: "string option"
  lo_aliases :: "email_alias list"
  lo_recipients :: "string list"

definition list_to_dict :: "list_object \<Rightarrow> json" where
  "list_to_dict l = JObj [
     (''name'', JStr (lo_name l)),
     (''domainId'', JStr (lo_domain_id l)),
     (''description'', jopt (lo_description l)),
     (''aliases'', indexed (map alias_to_dict (lo_aliases l))),
     (''recipients'', id_set (lo_recipients l))]"

record role_object =
  ro_description :: string
  ro_role_ids :: "string list"
  ro_enabled_permissions :: "string list"
  ro_disabled_permissions :: "string list"

definition role_to_dict :: "role_object \<Rightarrow> json" where
  "role_to_dict r = JObj [
     (''description'', JStr (ro_description r)),
     (''roleIds'', id_set (ro_role_ids r)),
     (''enabledPermissions'', id_set (ro_enabled_permissions r)),
     (''disabledPermissions'', id_set (ro_disabled_permissions r))]"

section \<open>Requests\<close>

text \<open>
  A request carries method calls \<open>[name, arguments, tag]\<close> and is answered with one
  \<open>(name, arguments)\<close> pair per call.  \<open>call\<close> may also fail as a whole.
\<close>

type_synonym 's jmap = "json list \<Rightarrow> 's \<Rightarrow> exn + ((string \<times> json) list \<times> 's)"

record service =
  sv_type :: string
  sv_account_id :: "string option"
  sv_default_properties :: "string list option"
  sv_max_get :: nat
  sv_max_set :: nat

definition jmap_method :: "service \<Rightarrow> string \<Rightarrow> string" where
  "jmap_method sv action = ''x:'' @ sv_type sv @ ''/'' @ action"

definition account_id :: "service \<Rightarrow> string res" where
  "account_id sv = (case sv_account_id sv of None \<Rightarrow> Inl StalwartUnauthorized
     | Some a \<Rightarrow> if a = [] then Inl StalwartUnauthorized else Inr a)"

fun read_responses :: "(string \<times> json) list \<Rightarrow> json list res" where
  "read_responses [] = Inr []"
| "read_responses ((name, args) # rs) =
     (if name = ''error'' then Inl (rejected args) else rbind (read_responses rs) (\<lambda>xs. Inr (args # xs)))"

definition jcall :: "'s jmap \<Rightarrow> json list \<Rightarrow> 's \<Rightarrow> exn + (json list \<times> 's)" where
  "jcall call method_calls s =
     rbind (call method_calls s) (\<lambda>(rs, s'). rbind (read_responses rs) (\<lambda>xs. Inr (xs, s')))"

definition present :: "(string \<times> json) list \<Rightarrow> (string \<times> json) list" where
  "present args = filter (\<lambda>(_, v). v \<noteq> JNull) args"

definition invoke :: "'s jmap \<Rightarrow> service \<Rightarrow> string \<Rightarrow> (string \<times> json) list \<Rightarrow> 's \<Rightarrow> exn + (json \<times> 's)" where
  "invoke call sv action args s =
     rbind (account_id sv) (\<lambda>a.
       rbind (jcall call [JList [JStr (jmap_method sv action), JObj (dict_set ''accountId'' (JStr a) (present args)), JStr ''0'']] s)
         (\<lambda>(xs, s'). case xs of [] \<Rightarrow> Inl (PyValueError ''IndexError'') | x # _ \<Rightarrow> Inr (x, s')))"

definition truthy :: "json \<Rightarrow> bool" where
  "truthy j = (case j of JNull \<Rightarrow> False | JBool b \<Rightarrow> b | JInt n \<Rightarrow> n \<noteq> 0 | JStr s \<Rightarrow> s \<noteq> []
     | JList xs \<Rightarrow> xs \<noteq> [] | JObj d \<Rightarrow> d \<noteq> [])"

definition set_failure :: "json \<Rightarrow> json option" where
  "set_failure result =
     (case find (\<lambda>key. truthy (jget key result)) [''notCreated'', ''notUpdated'', ''notDestroyed''] of
        None \<Rightarrow> None | Some key \<Rightarrow> Some (JObj [(key, jget key result)]))"

definition sset :: "'s jmap \<Rightarrow> service \<Rightarrow> (string \<times> json) list \<Rightarrow> 's \<Rightarrow> exn + (json \<times> 's)" where
  "sset call sv args s =
     rbind (invoke call sv ''set'' args s) (\<lambda>(result, s').
       case set_failure result of Some detail \<Rightarrow> Inl (rejected detail) | None \<Rightarrow> Inr (result, s'))"

definition jprops :: "service \<Rightarrow> string list option \<Rightarrow> json" where
  "jprops sv properties =
     (case (case properties of Some (p # ps) \<Rightarrow> Some (p # ps) | _ \<Rightarrow> sv_default_properties sv) of
        None \<Rightarrow> JNull | Some ps \<Rightarrow> JList (map JStr ps))"

section \<open>Reading\<close>

definition sget :: "'s jmap \<Rightarrow> service \<Rightarrow> string \<Rightarrow> string list option \<Rightarrow> 's \<Rightarrow> exn + (json option \<times> 's)" where
  "sget call sv i properties s =
     rbind (invoke call sv ''get'' [(''ids'', JList [JStr i]), (''properties'', jprops sv properties)] s)
       (\<lambda>(result, s'). Inr (case jlist (jget ''list'' result) of [] \<Rightarrow> None | x # _ \<Rightarrow> Some x, s'))"

definition get_many :: "'s jmap \<Rightarrow> service \<Rightarrow> string list \<Rightarrow> string list option \<Rightarrow> 's \<Rightarrow> exn + (json list \<times> 's)" where
  "get_many call sv ids properties s =
     rfold (\<lambda>batch (objects, s).
         rbind (invoke call sv ''get'' [(''ids'', JList (map JStr batch)), (''properties'', jprops sv properties)] s)
           (\<lambda>(result, s'). Inr (objects @ jlist (jget ''list'' result), s')))
       (chunks ids (sv_max_get sv)) ([], s)"

definition get_all ::
  "'s jmap \<Rightarrow> service \<Rightarrow> json \<Rightarrow> json \<Rightarrow> json \<Rightarrow> string list option \<Rightarrow> 's \<Rightarrow> exn + (json list \<times> 's)" where
  "get_all call sv flt srt limit properties s =
     (if flt = JNull \<and> srt = JNull \<and> limit = JNull then
        rbind (invoke call sv ''get'' [(''properties'', jprops sv properties)] s)
          (\<lambda>(result, s'). Inr (jlist (jget ''list'' result), s'))
      else
        rbind (account_id sv) (\<lambda>a.
          let query_args = (''accountId'', JStr a) # present [(''filter'', flt), (''sort'', srt), (''limit'', limit)];
              get_args = [(''accountId'', JStr a),
                (''#ids'', JObj [(''resultOf'', JStr ''q''), (''name'', JStr (jmap_method sv ''query'')), (''path'', JStr ''/ids'')])]
                @ present [(''properties'', jprops sv properties)]
          in rbind (jcall call [JList [JStr (jmap_method sv ''query''), JObj query_args, JStr ''q''],
                                JList [JStr (jmap_method sv ''get''), JObj get_args, JStr ''g'']] s)
               (\<lambda>(xs, s'). if length xs < 2 then Inl (PyValueError ''IndexError'')
                           else Inr (jlist (jget ''list'' (xs ! 1)), s'))))"

definition sfind :: "'s jmap \<Rightarrow> service \<Rightarrow> json \<Rightarrow> string list option \<Rightarrow> 's \<Rightarrow> exn + (json option \<times> 's)" where
  "sfind call sv flt properties s =
     rbind (get_all call sv flt JNull (JInt 1) properties s)
       (\<lambda>(matches, s'). Inr (case matches of [] \<Rightarrow> None | x # _ \<Rightarrow> Some x, s'))"

definition find_local :: "'s jmap \<Rightarrow> service \<Rightarrow> (string \<times> json) list \<Rightarrow> 's \<Rightarrow> exn + (json option \<times> 's)" where
  "find_local call sv wanted s =
     rbind (get_all call sv JNull JNull JNull None s)
       (\<lambda>(objects, s'). Inr (find (\<lambda>obj. list_all (\<lambda>(k, v). jget k obj = v) wanted) objects, s'))"

definition query_ids :: "'s jmap \<Rightarrow> service \<Rightarrow> json \<Rightarrow> json \<Rightarrow> 's \<Rightarrow> exn + (string list \<times> 's)" where
  "query_ids call sv flt limit s =
     rbind (invoke call sv ''query'' [(''filter'', flt), (''limit'', limit)] s)
       (\<lambda>(result, s'). Inr (map jstr (jlist (jget ''ids'' result)), s'))"

text \<open>
  \<open>iter_ids\<close>: page after page until one is short.  A server that never answers a short page keeps
  it going, so the number of pages is bounded by \<open>fuel\<close>; \<open>None\<close> is the loop still running.
\<close>

definition page_args :: "json \<Rightarrow> nat \<Rightarrow> nat \<Rightarrow> (string \<times> json) list" where
  "page_args flt position page_size =
     [(''filter'', flt), (''sort'', JList [JObj [(''property'', JStr ''id''), (''isAscending'', JBool True)]]),
      (''position'', JInt (int position)), (''limit'', JInt (int page_size))]"

fun iter_ids ::
  "nat \<Rightarrow> 's jmap \<Rightarrow> service \<Rightarrow> json \<Rightarrow> nat \<Rightarrow> nat \<Rightarrow> 's \<Rightarrow> (exn + (string list \<times> 's)) option" where
  "iter_ids 0 call sv flt page_size position s = None"
| "iter_ids (Suc fuel) call sv flt page_size position s =
     (case invoke call sv ''query'' (page_args flt position page_size) s of
        Inl e \<Rightarrow> Some (Inl e)
      | Inr (result, s') \<Rightarrow>
          let ids = map jstr (jlist (jget ''ids'' result)) in
          if length ids < page_size then Some (Inr (ids, s'))
          else (case iter_ids fuel call sv flt page_size (position + length ids) s' of
                  None \<Rightarrow> None
                | Some (Inl e) \<Rightarrow> Some (Inl e)
                | Some (Inr (rest, s'')) \<Rightarrow> Some (Inr (ids @ rest, s''))))"

section \<open>Writing\<close>

definition screate :: "'s jmap \<Rightarrow> service \<Rightarrow> json \<Rightarrow> 's \<Rightarrow> exn + (json \<times> 's)" where
  "screate call sv payload s =
     rbind (sset call sv [(''create'', JObj [(''0'', payload)])] s)
       (\<lambda>(result, s'). case jget ''0'' (jget ''created'' result) of
          JNull \<Rightarrow> Inl (PyValueError ''KeyError'') | created \<Rightarrow> Inr (created, s'))"

definition supdate :: "'s jmap \<Rightarrow> service \<Rightarrow> string \<Rightarrow> (string \<times> json) list \<Rightarrow> 's \<Rightarrow> exn + 's" where
  "supdate call sv i patch s =
     rbind (sset call sv [(''update'', JObj [(i, JObj patch)])] s) (\<lambda>(_, s'). Inr s')"

definition update_many :: "'s jmap \<Rightarrow> service \<Rightarrow> (string, json) dict \<Rightarrow> 's \<Rightarrow> exn + 's" where
  "update_many call sv patches s =
     rfold (\<lambda>batch s. rbind (sset call sv [(''update'', JObj batch)] s) (\<lambda>(_, s'). Inr s'))
       (chunk_dict patches (sv_max_set sv)) s"

definition sdelete :: "'s jmap \<Rightarrow> service \<Rightarrow> string list \<Rightarrow> 's \<Rightarrow> exn + 's" where
  "sdelete call sv ids s =
     rfold (\<lambda>batch s. rbind (sset call sv [(''destroy'', JList (map JStr batch))] s) (\<lambda>(_, s'). Inr s'))
       (chunks ids (sv_max_set sv)) s"

definition delete_if_exists :: "'s jmap \<Rightarrow> service \<Rightarrow> string \<Rightarrow> 's \<Rightarrow> exn + (bool \<times> 's)" where
  "delete_if_exists call sv i s =
     (case sdelete call sv [i] s of
        Inl e \<Rightarrow> if e = StalwartRejected ''notFound'' then Inr (False, s) else Inl e
      | Inr s' \<Rightarrow> Inr (True, s'))"

section \<open>Directory services\<close>

definition set_password :: "'s jmap \<Rightarrow> service \<Rightarrow> string \<Rightarrow> string \<Rightarrow> 's \<Rightarrow> exn + 's" where
  "set_password call sv i new_password s =
     rbind (sget call sv i (Some [''credentials'']) s) (\<lambda>(found, s').
       let credentials = jobj (jget ''credentials'' (case found of None \<Rightarrow> JNull | Some x \<Rightarrow> x)) in
       case find (\<lambda>(_, c). jget ''@type'' c = JStr ''Password'') credentials of
         None \<Rightarrow> supdate call sv i [(''credentials'', JObj (dict_set (show_nat (length credentials))
                   (JObj [(''@type'', JStr ''Password''), (''secret'', JStr new_password)]) credentials))] s'
       | Some (row, _) \<Rightarrow> supdate call sv i [(''credentials/'' @ row @ ''/secret'', JStr new_password)] s')"

definition changed_permissions ::
  "'s jmap \<Rightarrow> service \<Rightarrow> string \<Rightarrow> string \<Rightarrow> bool \<Rightarrow> 's \<Rightarrow> exn + (json \<times> 's)" where
  "changed_permissions call sv i permission disabled s =
     rbind (sget call sv i (Some [''permissions'']) s) (\<lambda>(found, s').
       Inr (with_permission_disabled (jget ''permissions'' (case found of None \<Rightarrow> JNull | Some x \<Rightarrow> x)) permission disabled, s'))"

definition set_roles :: "'s jmap \<Rightarrow> service \<Rightarrow> string \<Rightarrow> string list \<Rightarrow> 's \<Rightarrow> exn + 's" where
  "set_roles call sv i role_ids s = supdate call sv i [(''roles'', roles_payload role_ids)] s"

definition get_member_ids :: "'s jmap \<Rightarrow> service \<Rightarrow> string \<Rightarrow> 's \<Rightarrow> exn + (string list \<times> 's)" where
  "get_member_ids call sv group_id s =
     rbind (get_all call sv (JObj [(''memberGroupIds'', JStr group_id)]) JNull JNull (Some [''id'']) s)
       (\<lambda>(members, s'). Inr (map (\<lambda>m. jstr (jget ''id'' m)) members, s'))"

definition delete_groups :: "'s jmap \<Rightarrow> service \<Rightarrow> string list \<Rightarrow> 's \<Rightarrow> exn + 's" where
  "delete_groups call sv ids s =
     rbind (rfold (\<lambda>group_id s.
              rbind (get_member_ids call sv group_id s) (\<lambda>(members, s').
                rfold (\<lambda>m s. supdate call sv m [(''memberGroupIds/'' @ group_id, JNull)] s) members s')) ids s)
       (sdelete call sv ids)"

definition signature_ids :: "'s jmap \<Rightarrow> service \<Rightarrow> string \<Rightarrow> 's \<Rightarrow> exn + (string list \<times> 's)" where
  "signature_ids call dkim domain_id s =
     rbind (get_all call dkim (JObj [(''domainId'', JStr domain_id)]) JNull JNull None s)
       (\<lambda>(sigs, s'). Inr (map (\<lambda>x. jstr (jget ''id'' x)) sigs, s'))"

definition drop_signatures :: "'s jmap \<Rightarrow> service \<Rightarrow> string \<Rightarrow> 's \<Rightarrow> exn + 's" where
  "drop_signatures call dkim domain_id s =
     rbind (signature_ids call dkim domain_id s)
       (\<lambda>(ids, s'). if ids = [] then Inr s' else sdelete call dkim ids s')"

definition delete_domains :: "'s jmap \<Rightarrow> service \<Rightarrow> service \<Rightarrow> string list \<Rightarrow> 's \<Rightarrow> exn + 's" where
  "delete_domains call sv dkim ids s =
     rbind (rfold (drop_signatures call dkim) ids s) (sdelete call sv ids)"

definition is_stalwart_error :: "exn \<Rightarrow> bool" where
  "is_stalwart_error e = (case e of StalwartRejected _ \<Rightarrow> True | StalwartUnavailable \<Rightarrow> True
     | StalwartUnauthorized \<Rightarrow> True | StalwartFailed _ \<Rightarrow> True | _ \<Rightarrow> False)"

text \<open>A failed request leaves the server as it was.\<close>

definition request_keys :: "'s jmap \<Rightarrow> service \<Rightarrow> string \<Rightarrow> string list \<Rightarrow> 's \<Rightarrow> exn + 's" where
  "request_keys call sv domain_id algorithms s =
     (case supdate call sv domain_id [(''dkimManagement'', dkim_management_payload algorithms)] s of
        Inr s' \<Rightarrow> Inr s'
      | Inl e \<Rightarrow> if \<not> is_stalwart_error e then Inl e
                else (case supdate call sv domain_id [(''dkimManagement'', dkim_management_payload algorithms)] s of
                        Inr s' \<Rightarrow> Inr s'
                      | Inl e' \<Rightarrow> if is_stalwart_error e' then Inl (StalwartFailed ''keyless domain'') else Inl e'))"

definition replace_dkim_keys ::
  "'s jmap \<Rightarrow> service \<Rightarrow> service \<Rightarrow> string \<Rightarrow> string list \<Rightarrow> 's \<Rightarrow> exn + 's" where
  "replace_dkim_keys call sv dkim domain_id algorithms s =
     rbind (sget call sv domain_id (Some [''id'', ''dkimManagement'']) s) (\<lambda>(live, s1).
       rbind (if jget ''@type'' (jget ''dkimManagement'' (case live of None \<Rightarrow> JNull | Some x \<Rightarrow> x)) \<noteq> JStr ''Manual''
              then supdate call sv domain_id [(''dkimManagement'', JObj [(''@type'', JStr ''Manual'')])] s1
              else Inr s1)
         (\<lambda>s2. rbind (drop_signatures call dkim domain_id s2) (request_keys call sv domain_id algorithms)))"

section \<open>Laws\<close>

lemma concat_chunks: "0 < n \<Longrightarrow> concat (chunks xs n) = xs"
  by (induction xs n rule: chunks.induct) (subst chunks.simps, simp)

lemma chunks_bound: "b \<in> set (chunks xs n) \<Longrightarrow> b \<noteq> [] \<and> length b \<le> n"
proof (induction xs n rule: chunks.induct)
  case (1 xs n)
  show ?case
  proof (cases "n = 0 \<or> xs = []")
    case True
    with "1.prems" show ?thesis by (simp add: chunks.simps)
  next
    case False
    with 1 show ?thesis by (auto simp: chunks.simps [of xs n])
  qed
qed

text \<open>What a permissions value denies and grants, and its kind.\<close>

definition denies :: "json \<Rightarrow> string \<Rightarrow> bool" where
  "denies permissions p \<longleftrightarrow> map_of (jobj (jget ''disabledPermissions'' permissions)) p \<noteq> None"

definition grants :: "json \<Rightarrow> string \<Rightarrow> json option" where
  "grants permissions p = map_of (jobj (jget ''enabledPermissions'' permissions)) p"

lemmas permission_defs = with_permission_disabled_def Let_def denies_def grants_def jget_def jobj_def

section \<open>Properties\<close>

text \<open>
  Changing one permission of an account touches nothing else it was granted or denied: the
  permission is denied exactly when asked, every other denial and every grant stays, and doing it
  again changes nothing more.
\<close>

theorem with_permission_disabled_exact:
  "denies (with_permission_disabled perms p disabled) q = (if q = p then disabled else denies perms q) \<and>
   grants (with_permission_disabled perms p disabled) q = grants perms q \<and>
   with_permission_disabled (with_permission_disabled perms p disabled) p disabled = with_permission_disabled perms p disabled"
proof -
  define k where "k = (case jget ''@type'' perms of JStr t \<Rightarrow> if t = [] then ''Inherit'' else t | _ \<Rightarrow> ''Inherit'')"
  define kind where "kind = (if k = ''Inherit'' then ''Merge'' else k)"
  define en where "en = jobj (jget ''enabledPermissions'' perms)"
  define den where "den = jobj (jget ''disabledPermissions'' perms)"
  define den' where "den' = (if disabled then dict_set p (JBool True) den else dict_pop p den)"
  define out where "out = with_permission_disabled perms p disabled"
  have out: "out = (if kind = ''Merge'' \<and> en = [] \<and> den' = [] then JObj [(''@type'', JStr ''Inherit'')]
      else JObj [(''@type'', JStr kind), (''enabledPermissions'', JObj en), (''disabledPermissions'', JObj den')])"
    by (simp add: out_def with_permission_disabled_def Let_def k_def kind_def en_def den_def den'_def)
  have kind: "kind \<noteq> []" "kind \<noteq> ''Inherit''" by (auto simp: kind_def k_def split: json.splits if_splits)
  have lists: "jobj (jget ''enabledPermissions'' out) = en" "jobj (jget ''disabledPermissions'' out) = den'"
    by (auto simp: out jget_def jobj_def)
  have again: "(if disabled then dict_set p (JBool True) den' else dict_pop p den') = den'"
    by (auto simp: den'_def intro: dict_set_same dict_pop_absent)
  have empty: "\<not> disabled" if "den' = []"
    using that keys_dict_set [of p "JBool True" den] by (auto simp: den'_def)
  have "with_permission_disabled out p disabled = out"
    unfolding with_permission_disabled_def Let_def lists again
    using kind empty by (auto simp: out jget_def)
  moreover have "denies out q = (if q = p then disabled else denies perms q)"
    by (auto simp: denies_def lists den'_def den_def)
  moreover have "grants out q = grants perms q" by (simp add: grants_def lists(1) en_def)
  ultimately show ?thesis unfolding out_def by blast
qed

text \<open>
  C31. Reading a large collection page by page returns every id once and stops: on a server that
  answers each page from one sorted list of ids, the loop ends with exactly that list, and one
  page more than the list divided by the page size is enough.
\<close>

theorem iter_ids_complete:
  assumes "0 < page_size" and "sv_account_id sv = Some a" and "a \<noteq> []"
    and pages: "\<And>p. call [JList [JStr (jmap_method sv ''query''), JObj (dict_set ''accountId'' (JStr a) (present (page_args flt p page_size))), JStr ''0'']] s =
      Inr ([(''q'', JObj [(''ids'', JList (map JStr (take page_size (drop p ids))))])], s)"
  shows "iter_ids (Suc (length ids div page_size)) call sv flt page_size 0 s = Some (Inr (ids, s))"
proof -
  have page: "invoke call sv ''query'' (page_args flt p page_size) s =
      Inr (JObj [(''ids'', JList (map JStr (take page_size (drop p ids))))], s)" for p
    using assms(2,3) by (simp add: invoke_def account_id_def jcall_def pages)
  have jids: "jlist (jget ''ids'' (JObj [(''ids'', JList ys)])) = ys" for ys
    by (simp add: jlist_def jget_def)
  have jstrs: "map (jstr \<circ> JStr) xs = xs" for xs
    by (simp add: jstr_def comp_def)
  have "iter_ids (Suc ((length ids - p) div page_size)) call sv flt page_size p s = Some (Inr (drop p ids, s))"
    if "p \<le> length ids" for p
    using that
  proof (induction "length ids - p" arbitrary: p rule: less_induct)
    case less
    show ?case
    proof (cases "length ids - p < page_size")
      case True
      then show ?thesis by (simp add: page jids jstrs Let_def)
    next
      case False
      then have full: "length (take page_size (drop p ids)) = page_size" by simp
      have "iter_ids (Suc ((length ids - (p + page_size)) div page_size)) call sv flt page_size (p + page_size) s =
          Some (Inr (drop (p + page_size) ids, s))"
        using False less.prems assms(1) by (intro less.hyps) auto
      moreover have "(length ids - p) div page_size = Suc ((length ids - (p + page_size)) div page_size)"
        using le_div_geq [of page_size "length ids - p"] False assms(1) by simp
      moreover have "take page_size (drop p ids) @ drop (p + page_size) ids = drop p ids"
        by (metis append_take_drop_id drop_drop add.commute)
      ultimately show ?thesis using False by (simp add: page jids jstrs Let_def min_absorb2)
    qed
  qed
  from this [of 0] show ?thesis by simp
qed

theorem iter_ids_complete_witness:
  "let sv = \<lparr>sv_type = ''Account'', sv_account_id = Some ''b'', sv_default_properties = None, sv_max_get = 500, sv_max_set = 500\<rparr>;
       call = (\<lambda>ms s. case ms of
          [JList [m, args, t]] \<Rightarrow> (case jget ''position'' args of
             JInt p \<Rightarrow> Inr ([(''q'', JObj [(''ids'', JList (map JStr (take 2 (drop (nat p) [''x'', ''y'', ''z'']))))])], s)
           | _ \<Rightarrow> Inl StalwartUnavailable)
        | _ \<Rightarrow> Inl StalwartUnavailable)
   in iter_ids 2 call sv JNull 2 0 () = Some (Inr ([''x'', ''y'', ''z''], ()))"
proof -
  let ?sv = "\<lparr>sv_type = ''Account'', sv_account_id = Some ''b'', sv_default_properties = None, sv_max_get = 500, sv_max_set = 500\<rparr>"
  let ?call = "\<lambda>ms s. case ms of
          [JList [m, args, t]] \<Rightarrow> (case jget ''position'' args of
             JInt p \<Rightarrow> Inr ([(''q'', JObj [(''ids'', JList (map JStr (take 2 (drop (nat p) [''x'', ''y'', ''z'']))))])], s)
           | _ \<Rightarrow> Inl StalwartUnavailable)
        | _ \<Rightarrow> Inl StalwartUnavailable"
  have pages: "?call [JList [JStr (jmap_method ?sv ''query''), JObj (dict_set ''accountId'' (JStr ''b'') (present (page_args JNull p 2))), JStr ''0'']] () =
      Inr ([(''q'', JObj [(''ids'', JList (map JStr (take 2 (drop p [''x'', ''y'', ''z'']))))])], ())" for p
    by (simp add: page_args_def present_def jget_def)
  have two: "Suc (length [''x'', ''y'', ''z''] div 2) = 2" by simp
  have "iter_ids (Suc (length [''x'', ''y'', ''z''] div 2)) ?call ?sv JNull 2 0 () = Some (Inr ([''x'', ''y'', ''z''], ()))"
    by (rule iter_ids_complete [where a = "''b''"]) (simp_all only: pages, simp_all)
  then show ?thesis unfolding Let_def two .
qed

end
