(* ===== verification/Quotas.thy ===== *)
theory Quotas
  imports Complex_Main Stalwart_Directory
begin

text \<open>
  What an account or group may hold (src/suite_cloud/mail/tenancy/quotas.py): Mail Quota rows as a
  list of name and value.  A size in GB is a rational number; the code's floats hold the sizes in
  use exactly.
\<close>

type_synonym quota_rows = "(string \<times> int) list"

definition disk_row :: "quota_rows \<Rightarrow> (string \<times> int) option" where
  "disk_row rows = find (\<lambda>r. fst r = DISK_QUOTA) rows"

definition disk_quota_bytes :: "quota_rows \<Rightarrow> int" where
  "disk_quota_bytes rows = (case disk_row rows of None \<Rightarrow> 0 | Some r \<Rightarrow> snd r)"

text \<open>\<open>self.remove(row)\<close> and the assignment to the row found: both act on the first disk row.\<close>

fun remove_disk :: "quota_rows \<Rightarrow> quota_rows" where
  "remove_disk [] = []"
| "remove_disk (r # rs) = (if fst r = DISK_QUOTA then rs else r # remove_disk rs)"

fun assign_disk :: "int \<Rightarrow> quota_rows \<Rightarrow> quota_rows" where
  "assign_disk v [] = [(DISK_QUOTA, v)]"
| "assign_disk v (r # rs) = (if fst r = DISK_QUOTA then (DISK_QUOTA, v) # rs else r # assign_disk v rs)"

definition set_disk_quota_gb :: "rat \<Rightarrow> quota_rows \<Rightarrow> quota_rows" where
  "set_disk_quota_gb gb rows = (if gb \<le> 0 then remove_disk rows else assign_disk \<lfloor>gb * of_int GB\<rfloor> rows)"

definition quota_map :: "quota_rows \<Rightarrow> (string, int) dict" where
  "quota_map rows = dict_of rows"

fun validate_rows :: "string list \<Rightarrow> quota_rows \<Rightarrow> unit res" where
  "validate_rows seen [] = Inr ()"
| "validate_rows seen ((quota, value) # rows) =
     (if quota \<notin> set STORAGE_QUOTAS then Inl (ValidationError quota)
      else if quota \<in> set seen then Inl (ValidationError quota)
      else if value \<le> 0 then Inl (ValidationError quota)
      else validate_rows (quota # seen) rows)"

definition validate_quotas :: "quota_rows \<Rightarrow> unit res" where
  "validate_quotas rows = validate_rows [] rows"

text \<open>Two dictionaries are equal when they map the same keys to the same values.\<close>

definition quotas_changed :: "quota_rows \<Rightarrow> quota_rows \<Rightarrow> bool" where
  "quotas_changed before after =
     (\<not> (list_all (\<lambda>(k, v). map_of (quota_map after) k = Some v) (quota_map before) \<and>
         list_all (\<lambda>(k, v). map_of (quota_map before) k = Some v) (quota_map after)))"

text \<open>The quotas an API call sends: nothing, text, a JSON object or some other value.\<close>

datatype quota_input = NoQuotas | QuotaText string | QuotaObject "(string \<times> int) list" | OtherValue

definition parsed :: "(string \<Rightarrow> quota_input) \<Rightarrow> quota_input \<Rightarrow> quota_input" where
  "parsed parse_json value =
     (case value of QuotaText t \<Rightarrow> if py_strip t = [] then QuotaObject [] else parse_json t | v \<Rightarrow> v)"

definition as_map :: "(string \<Rightarrow> quota_input) \<Rightarrow> quota_input \<Rightarrow> (string, int) dict res" where
  "as_map parse_json value =
     (case parsed parse_json value of
        NoQuotas \<Rightarrow> Inr []
      | QuotaObject d \<Rightarrow> Inr (dict_of d)
      | _ \<Rightarrow> Inl (ValidationError ''quotas''))"

definition blank :: "quota_input \<Rightarrow> bool" where
  "blank value = (case value of NoQuotas \<Rightarrow> True | QuotaText t \<Rightarrow> py_strip t = [] | _ \<Rightarrow> False)"

text \<open>\<open>apply\<close>: the new rows and the names lifted, kept on the document's flags.\<close>

definition replace_rows :: "(string, int) dict \<Rightarrow> quota_rows \<Rightarrow> quota_rows" where
  "replace_rows wanted rows =
     filter (\<lambda>(_, limit). limit > 0) wanted @
     (case disk_row rows of
        Some r \<Rightarrow> if map_of wanted DISK_QUOTA = None then [(DISK_QUOTA, snd r)] else []
      | None \<Rightarrow> [])"

definition apply_quotas ::
  "(string \<Rightarrow> quota_input) \<Rightarrow> rat option \<Rightarrow> quota_input \<Rightarrow> quota_rows \<Rightarrow> (string list \<times> quota_rows) res" where
  "apply_quotas parse_json disk_quota_gb quotas rows =
     rbind (if blank quotas then Inr ([], rows)
            else rbind (as_map parse_json quotas) (\<lambda>wanted.
                   Inr (map fst (filter (\<lambda>(_, limit). limit \<le> 0) wanted), replace_rows wanted rows)))
       (\<lambda>(lifted, rows). Inr (lifted, case disk_quota_gb of None \<Rightarrow> rows | Some gb \<Rightarrow> set_disk_quota_gb gb rows))"

text \<open>
  \<open>disk_quota_gb_by_name\<close>: of each account or group named, from all their disk rows.  Values are
  rounded to six digits.
\<close>

definition round6 :: "rat \<Rightarrow> rat" where
  "round6 x = of_int (round (x * 1000000)) / 1000000"

definition disk_quota_gb_by_name :: "(string \<times> int) list \<Rightarrow> string list \<Rightarrow> (string, rat) dict" where
  "disk_quota_gb_by_name disk_rows names =
     dict_of (map (\<lambda>n. (n, 0)) names @
       map (\<lambda>(p, v). (p, round6 (of_int v / of_int GB))) (filter (\<lambda>(p, _). p \<in> set names) disk_rows))"

section \<open>Laws\<close>

lemma validate_rows_iff:
  "validate_rows seen rows = Inr () \<longleftrightarrow>
     set (map fst rows) \<subseteq> set STORAGE_QUOTAS \<and> distinct (map fst rows) \<and>
     set (map fst rows) \<inter> set seen = {} \<and> (\<forall>r\<in>set rows. 0 < snd r)"
  by (induction seen rows rule: validate_rows.induct) auto

lemma validate_rows_Inl: "validate_rows seen rows = Inl e \<Longrightarrow> \<exists>q. e = ValidationError q"
  by (induction seen rows rule: validate_rows.induct) (auto split: if_splits)

lemma map_of_remove_disk: "distinct (map fst rows) \<Longrightarrow> map_of (remove_disk rows) = (map_of rows)(DISK_QUOTA := None)"
proof (induction rows)
  case (Cons r rows)
  then have "fst r = DISK_QUOTA \<Longrightarrow> map_of rows DISK_QUOTA = None" by (auto simp: map_of_eq_None_iff)
  with Cons show ?case by (auto simp: fun_eq_iff)
qed simp

lemma map_of_assign_disk: "map_of (assign_disk v rows) = (map_of rows)(DISK_QUOTA \<mapsto> v)"
  by (induction rows) (auto simp: fun_eq_iff)

lemma keys_remove_disk: "set (map fst (remove_disk rows)) \<subseteq> set (map fst rows)"
  by (induction rows) auto

lemma distinct_remove_disk: "distinct (map fst rows) \<Longrightarrow> distinct (map fst (remove_disk rows))"
proof (induction rows)
  case (Cons r rows)
  then show ?case using keys_remove_disk [of rows] by auto
qed simp

lemma keys_assign_disk: "set (map fst (assign_disk v rows)) = insert DISK_QUOTA (set (map fst rows))"
  by (induction rows) auto

lemma distinct_assign_disk: "distinct (map fst rows) \<Longrightarrow> distinct (map fst (assign_disk v rows))"
proof (induction rows)
  case (Cons r rows)
  then show ?case using keys_assign_disk [of v rows] by auto
qed simp

lemma map_of_filter_pos:
  "distinct (map fst d) \<Longrightarrow> map_of (filter (\<lambda>(_, v). (v::int) > 0) d) k =
     (case map_of d k of None \<Rightarrow> None | Some v \<Rightarrow> if v > 0 then Some v else None)"
proof (induction d)
  case (Cons e d)
  then show ?case by (cases e) (auto simp: map_of_eq_None_iff rev_image_eqI split: option.splits dest: map_of_SomeD)
qed simp

lemma disk_row_map_of: "map_of rows DISK_QUOTA = (case disk_row rows of None \<Rightarrow> None | Some r \<Rightarrow> Some (snd r))"
  unfolding disk_row_def by (induction rows) auto

lemma map_of_replace_rows:
  assumes "dict_ok wanted"
  shows "map_of (replace_rows wanted rows) k =
    (case map_of wanted k of
       Some v \<Rightarrow> if v > 0 then Some v else None
     | None \<Rightarrow> if k = DISK_QUOTA then map_of rows DISK_QUOTA else None)"
proof -
  have d: "map_of rows DISK_QUOTA = (case disk_row rows of None \<Rightarrow> None | Some r \<Rightarrow> Some (snd r))"
    by (rule disk_row_map_of)
  have f: "map_of (filter (\<lambda>(_, v). v > 0) wanted) k =
      (case map_of wanted k of None \<Rightarrow> None | Some v \<Rightarrow> if v > 0 then Some v else None)" for k
    using assms by (intro map_of_filter_pos) (simp add: dict_ok_def)
  show ?thesis
    by (cases "disk_row rows") (auto simp: replace_rows_def map_add_def d f split: option.splits)
qed

lemma distinct_replace_rows: "dict_ok wanted \<Longrightarrow> distinct (map fst (replace_rows wanted rows))"
  by (auto simp: replace_rows_def dict_ok_def distinct_map_filter map_of_eq_None_iff image_iff split: option.splits)

section \<open>Properties\<close>

text \<open>
  Applying quotas from an API call sets exactly what was asked: a name sent with a limit above 0
  has that limit, one sent with 0 or less has none, a name left out has none except the disk
  quota, which stays, and a size in GB, when given, decides the disk quota in bytes; nothing sent
  leaves the rows alone.  The resulting rows name each quota once.
\<close>

theorem apply_quotas_exact:
  assumes "distinct (map fst rows)"
    and "apply_quotas parse_json disk_quota_gb quotas rows = Inr (lifted, rows')"
    and "\<not> blank quotas \<Longrightarrow> as_map parse_json quotas = Inr wanted"
    and "blank quotas \<Longrightarrow> wanted = rows"
  shows "distinct (map fst rows') \<and>
    map_of rows' k =
      (case (k = DISK_QUOTA, disk_quota_gb) of
         (True, Some gb) \<Rightarrow> if gb \<le> 0 then None else Some \<lfloor>gb * of_int GB\<rfloor>
       | _ \<Rightarrow> if blank quotas then map_of rows k
             else (case map_of wanted k of
                     Some v \<Rightarrow> if v > 0 then Some v else None
                   | None \<Rightarrow> if k = DISK_QUOTA then map_of rows DISK_QUOTA else None)) \<and>
    (\<not> blank quotas \<longrightarrow> set lifted = {n. \<exists>v. map_of wanted n = Some v \<and> v \<le> 0})"
proof -
  define mid where "mid = (if blank quotas then rows else replace_rows wanted rows)"
  have ok: "dict_ok wanted" if "\<not> blank quotas"
    using assms(3) [OF that] by (auto simp: as_map_def split: quota_input.splits)
  have rows': "rows' = (case disk_quota_gb of None \<Rightarrow> mid | Some gb \<Rightarrow> set_disk_quota_gb gb mid)"
    and lifted: "\<not> blank quotas \<Longrightarrow> lifted = map fst (filter (\<lambda>(_, limit). limit \<le> 0) wanted)"
    unfolding mid_def using assms(2,3) by (auto simp: apply_quotas_def split: if_splits)
  have dmid: "distinct (map fst mid)" using assms(1) ok by (simp add: mid_def distinct_replace_rows)
  have mmid: "map_of mid k = (if blank quotas then map_of rows k
      else (case map_of wanted k of Some v \<Rightarrow> if v > 0 then Some v else None
            | None \<Rightarrow> if k = DISK_QUOTA then map_of rows DISK_QUOTA else None))"
    using ok by (simp add: mid_def map_of_replace_rows)
  have "distinct (map fst rows')"
    using dmid by (simp add: rows' set_disk_quota_gb_def distinct_remove_disk distinct_assign_disk split: option.splits)
  moreover have "set lifted = {n. \<exists>v. map_of wanted n = Some v \<and> v \<le> 0}" if "\<not> blank quotas"
    using ok [OF that] lifted [OF that] by (force simp: dict_ok_def)
  moreover have "map_of rows' k =
      (case (k = DISK_QUOTA, disk_quota_gb) of
         (True, Some gb) \<Rightarrow> if gb \<le> 0 then None else Some \<lfloor>gb * of_int GB\<rfloor>
       | _ \<Rightarrow> map_of mid k)"
    using dmid by (auto simp: rows' set_disk_quota_gb_def map_of_remove_disk map_of_assign_disk split: option.splits bool.splits)
  ultimately show ?thesis unfolding mmid by blast
qed

theorem apply_quotas_exact_witness:
  "\<exists>lifted rows'. apply_quotas (\<lambda>_. NoQuotas) (Some (1/2)) (QuotaObject [(''maxEmails'', 9), (''maxFiles'', 0)])
      [(''maxDiskQuota'', 5), (''maxFiles'', 3)] = Inr (lifted, rows') \<and>
    map_of rows' ''maxEmails'' = Some 9 \<and> map_of rows' ''maxFiles'' = None \<and>
    map_of rows' ''maxDiskQuota'' = Some 536870912"
proof -
  let ?rows = "[(''maxDiskQuota'', 5 :: int), (''maxFiles'', 3)]"
  let ?q = "QuotaObject [(''maxEmails'', 9), (''maxFiles'', 0)]"
  let ?w = "[(''maxEmails'', 9 :: int), (''maxFiles'', 0)]"
  have w: "as_map (\<lambda>_. NoQuotas) ?q = Inr ?w" by (simp add: as_map_def parsed_def dict_of_def)
  obtain l r where r: "apply_quotas (\<lambda>_. NoQuotas) (Some (1/2)) ?q ?rows = Inr (l, r)"
    by (simp add: apply_quotas_def blank_def w)
  have d: "distinct (map fst ?rows)" by simp
  note e = apply_quotas_exact [OF d r w, of ]
  have nb: "\<not> blank ?q" by (simp add: blank_def)
  show ?thesis
    using r e [of "''maxEmails''"] e [of "''maxFiles''"] e [of "''maxDiskQuota''"] nb
    by (auto simp: DISK_QUOTA_def GB_def)
qed

text \<open>
  Quota rows pass validation exactly when every name is one Stalwart knows, no name is listed
  twice and every limit is above 0; every failure is a validation error.
\<close>

theorem validate_quotas_exact:
  "(validate_quotas rows = Inr () \<longleftrightarrow>
     set (map fst rows) \<subseteq> set STORAGE_QUOTAS \<and> distinct (map fst rows) \<and> (\<forall>r\<in>set rows. 0 < snd r)) \<and>
   (\<forall>e. validate_quotas rows = Inl e \<longrightarrow> (\<exists>q. e = ValidationError q))"
  using validate_rows_iff [of "[]" rows] validate_rows_Inl [of "[]" rows] by (auto simp: validate_quotas_def)

theorem validate_quotas_exact_witness:
  "validate_quotas [(''maxEmails'', 5), (''maxEmails'', 6)] = Inl (ValidationError ''maxEmails'') \<and>
   validate_quotas [(''maxEmails'', 5)] = Inr ()"
proof -
  have "validate_quotas [(''maxEmails'', 5), (''maxEmails'', 6)] \<noteq> Inr ()"
    using validate_quotas_exact [of "[(''maxEmails'', 5), (''maxEmails'', 6)]"] by simp
  then show ?thesis by (simp add: validate_quotas_def STORAGE_QUOTAS_def)
qed

end
