(* ===== verification/Ip_Networks.thy ===== *)
theory Ip_Networks
  imports Prelude "HOL-Library.Word"
begin

text \<open>
  The part of Python's \<open>ipaddress\<close> module that the tenant's allow list, credentials and nodes use
  (\<open>ip_address\<close> and \<open>ip_network(..., strict=False)\<close> of CPython 3.14): addresses as integers,
  their text, prefixes and membership.  Where Python raises a \<open>ValueError\<close> the functions return \<open>None\<close>.
\<close>

unbundle bit_operations_syntax

section \<open>Positional numerals\<close>

text \<open>The \<open>k\<close> last digits of a number to a base, most significant first, and back.\<close>

fun digits :: "nat \<Rightarrow> nat \<Rightarrow> nat \<Rightarrow> nat list" where
  "digits b 0 n = []"
| "digits b (Suc k) n = digits b k (n div b) @ [n mod b]"

definition shift_in :: "nat \<Rightarrow> nat \<Rightarrow> nat list \<Rightarrow> nat" where
  "shift_in b acc ds = foldl (\<lambda>a d. a * b + d) acc ds"

lemma length_digits [simp]: "length (digits b k n) = k"
  by (induction k arbitrary: n) auto

lemma digits_numeral:
  "digits b (numeral k) n = digits b (pred_numeral k) (n div b) @ [n mod b]" "digits b 1 n = [n mod b]"
  by (simp_all add: numeral_eq_Suc)

lemma digits_Nil [simp]: "digits b k n = [] \<longleftrightarrow> k = 0"
  by (metis length_0_conv length_digits)

lemma shift_in_simps [simp]:
  "shift_in b acc [] = acc" "shift_in b acc (d # ds) = shift_in b (acc * b + d) ds"
  "shift_in b acc (xs @ ys) = shift_in b (shift_in b acc xs) ys"
  by (simp_all add: shift_in_def)

lemma digits_below: "0 < b \<Longrightarrow> d \<in> set (digits b k n) \<Longrightarrow> d < b"
  by (induction k arbitrary: n) auto

lemma shift_in_digits: "n < b ^ k \<Longrightarrow> shift_in b 0 (digits b k n) = n"
proof (induction k arbitrary: n)
  case (Suc k)
  then have "0 < b" by (cases b) auto
  then have "n div b < b ^ k" using Suc.prems by (simp add: div_less_iff_less_mult mult.commute)
  then show ?case using Suc.IH by simp
qed simp

lemma shift_in_less:
  assumes "\<forall>d\<in>set ds. d < b" "acc < b ^ j"
  shows "shift_in b acc ds < b ^ (j + length ds)"
  using assms
proof (induction ds arbitrary: acc j)
  case (Cons d ds)
  have "acc * b + d < (acc + 1) * b" using Cons.prems by simp
  also have "\<dots> \<le> b ^ j * b" using Cons.prems by (intro mult_le_mono1) simp
  finally have "acc * b + d < b ^ Suc j" by (simp add: mult.commute)
  from Cons.IH [OF _ this] Cons.prems show ?case by simp
qed simp

lemma shift_in_zeros: "shift_in b acc (replicate k 0) = acc * b ^ k"
  by (induction k arbitrary: acc) (auto simp: algebra_simps)

text \<open>Lower case hexadecimal, \<open>'%x' % n\<close> and \<open>int(s, 16)\<close>.\<close>

definition hex_char :: "nat \<Rightarrow> char" where
  "hex_char d = (if d < 10 then digit_char d else char_of (87 + d))"

definition hex_value :: "char \<Rightarrow> nat option" where
  "hex_value c =
    (if py_isdigit c then Some (code c - 48)
     else if 97 \<le> code c \<and> code c \<le> 102 then Some (code c - 87)
     else if 65 \<le> code c \<and> code c \<le> 70 then Some (code c - 55)
     else None)"

fun show_hex :: "nat \<Rightarrow> string" where
  "show_hex n = (if n < 16 then [hex_char n] else show_hex (n div 16) @ [hex_char (n mod 16)])"

declare show_hex.simps [simp del]

definition read_hex :: "string \<Rightarrow> nat option" where
  "read_hex s = (if s = [] then None else map_option (shift_in 16 0) (those (map hex_value s)))"

lemma code_hex_char: "d < 16 \<Longrightarrow> code (hex_char d) = (if d < 10 then 48 + d else 87 + d)"
  by (simp add: hex_char_def code_digit_char) (simp add: code_def of_char_of take_bit_nat_eq_self_iff)

lemma hex_value_char [simp]: "d < 16 \<Longrightarrow> hex_value (hex_char d) = Some d"
  by (simp add: hex_value_def py_isdigit_def code_hex_char)

lemma show_hex_not_Nil [simp]: "show_hex n \<noteq> []"
  by (subst show_hex.simps) simp

lemma those_append: "those (xs @ ys) = Option.bind (those xs) (\<lambda>as. map_option ((@) as) (those ys))"
  by (induction xs; cases "those ys") (auto split: option.splits bind_splits)

lemma those_show_hex: "\<exists>ds. those (map hex_value (show_hex n)) = Some ds \<and> shift_in 16 0 ds = n"
proof (induction n rule: show_hex.induct)
  case (1 n)
  show ?case
  proof (cases "n < 16")
    case True
    then show ?thesis by (simp add: show_hex.simps [of n])
  next
    case False
    then show ?thesis using 1 by (auto simp: show_hex.simps [of n] those_append)
  qed
qed

lemma read_show_hex [simp]: "read_hex (show_hex n) = Some n"
  using those_show_hex [of n] by (auto simp: read_hex_def)

lemma show_hex_chars: "c \<in> set (show_hex n) \<Longrightarrow> hex_value c \<noteq> None"
proof (induction n rule: show_hex.induct)
  case (1 n)
  show ?case
    by (cases "n < 16") (use 1 in \<open>auto simp: show_hex.simps [of n]\<close>)
qed

lemma length_show_hex: "n < 16 ^ k \<Longrightarrow> 0 < k \<Longrightarrow> length (show_hex n) \<le> k"
proof (induction k arbitrary: n)
  case (Suc k)
  show ?case
  proof (cases "n < 16")
    case True
    then show ?thesis by (simp add: show_hex.simps [of n])
  next
    case False
    then have "n div 16 < 16 ^ k" "0 < k" using Suc.prems by (auto simp: div_less_iff_less_mult intro!: gr0I)
    then show ?thesis using Suc.IH [of "n div 16"] False by (simp add: show_hex.simps [of n])
  qed
qed simp

section \<open>IPv4 addresses\<close>

definition parse_octet :: "string \<Rightarrow> nat option" where
  "parse_octet s =
    (if s = [] \<or> \<not> list_all py_isdigit s \<or> length s > 3 \<or> (s \<noteq> ''0'' \<and> hd s = CHR ''0'') \<or> read_nat s > 255
     then None else Some (read_nat s))"

definition v4_from_string :: "string \<Rightarrow> nat option" where
  "v4_from_string s =
    (let octets = split_on CHR ''.'' s in
     if s = [] \<or> length octets \<noteq> 4 then None
     else map_option (shift_in 256 0) (those (map parse_octet octets)))"

definition v4_string :: "nat \<Rightarrow> string" where
  "v4_string n = join_with CHR ''.'' (map show_nat (digits 256 4 n))"

lemma length_show_nat: "n < 10 ^ k \<Longrightarrow> 0 < k \<Longrightarrow> length (show_nat n) \<le> k"
proof (induction k arbitrary: n)
  case (Suc k)
  show ?case
  proof (cases "n < 10")
    case True
    then show ?thesis by (simp add: show_nat.simps [of n])
  next
    case False
    then have "n div 10 < 10 ^ k" "0 < k" using Suc.prems by (auto simp: div_less_iff_less_mult intro!: gr0I)
    then show ?thesis using Suc.IH [of "n div 10"] False by (simp add: show_nat.simps [of n])
  qed
qed simp

lemma hd_show_nat: "0 < n \<Longrightarrow> hd (show_nat n) \<noteq> CHR ''0''"
proof (induction n rule: show_nat.induct)
  case (1 n)
  have zero: "code (CHR ''0'') = 48" by (simp add: code_def)
  show ?case
    by (cases "n < 10") (use 1 zero code_digit_char [of n] in \<open>auto simp: show_nat.simps [of n] hd_append\<close>)
qed

lemma parse_octet_show [simp]: "n < 256 \<Longrightarrow> parse_octet (show_nat n) = Some n"
proof -
  assume n: "n < 256"
  have "show_nat n \<noteq> ''0'' \<longrightarrow> hd (show_nat n) \<noteq> CHR ''0''"
    using hd_show_nat [of n] by (cases n) (auto simp: show_nat.simps [of 0] digit_char_def)
  moreover have "length (show_nat n) \<le> 3" using n by (intro length_show_nat) auto
  ultimately show ?thesis using n by (auto simp: parse_octet_def list_all_iff show_nat_digits)
qed

lemma parse_octet_below: "parse_octet s = Some n \<Longrightarrow> n < 256"
  by (auto simp: parse_octet_def split: if_splits)

lemma py_isdigit_not: "py_isdigit c \<Longrightarrow> c \<notin> {CHR ''.'', CHR '':'', CHR ''/'', CHR ''%'', newline}"
  by (auto simp: py_isdigit_def code_def newline_def)

lemma those_map_Some: "(\<And>x. x \<in> set xs \<Longrightarrow> f x = Some (g x)) \<Longrightarrow> those (map f xs) = Some (map g xs)"
  by (induction xs) auto

lemma set_those: "those xs = Some ys \<Longrightarrow> y \<in> set ys \<Longrightarrow> Some y \<in> set xs"
  by (induction xs arbitrary: ys) (auto split: option.splits)

lemma length_those: "those xs = Some ys \<Longrightarrow> length ys = length xs"
  by (induction xs arbitrary: ys) (auto split: option.splits)

lemma those_defined: "those xs = Some ys \<Longrightarrow> x \<in> set xs \<Longrightarrow> x \<noteq> None"
  by (induction xs arbitrary: ys) (auto split: option.splits)

lemma v4_round_trip [simp]: "n < 2 ^ 32 \<Longrightarrow> v4_from_string (v4_string n) = Some n"
proof -
  assume n: "n < 2 ^ 32"
  let ?ds = "digits 256 4 n"
  have split: "split_on CHR ''.'' (v4_string n) = map show_nat ?ds"
    unfolding v4_string_def by (rule split_join_with) (use show_nat_digits py_isdigit_not in \<open>auto dest!: show_nat_digits\<close>)
  have "those (map (parse_octet \<circ> show_nat) ?ds) = Some (map id ?ds)"
    by (rule those_map_Some) (use digits_below [of 256] in auto)
  moreover have "v4_string n \<noteq> []" using arg_cong [OF split, of length] by auto
  ultimately show ?thesis using split shift_in_digits [of n 256 4] n by (simp add: v4_from_string_def)
qed

lemma v4_from_string_below: "v4_from_string s = Some n \<Longrightarrow> n < 2 ^ 32"
proof -
  assume "v4_from_string s = Some n"
  then obtain ds where ds: "those (map parse_octet (split_on CHR ''.'' s)) = Some ds" "n = shift_in 256 0 ds"
      and four: "length (split_on CHR ''.'' s) = 4"
    by (auto simp: v4_from_string_def Let_def split: if_splits)
  have "\<forall>d\<in>set ds. d < 256" using set_those [OF ds(1)] parse_octet_below by (metis (no_types, lifting) imageE list.set_map)
  from shift_in_less [OF this, of 0 0] show ?thesis using ds length_those [OF ds(1)] four by simp
qed

lemma v4_string_chars: "c \<in> set (v4_string n) \<Longrightarrow> py_isdigit c \<or> c = CHR ''.''"
  using set_join_with [of "CHR ''.''" "map show_nat (digits 256 4 n)"] show_nat_digits by (auto simp: v4_string_def)

lemma v4_from_string_colon: "CHR '':'' \<in> set s \<Longrightarrow> v4_from_string s = None"
proof (rule ccontr)
  assume colon: "CHR '':'' \<in> set s" and "v4_from_string s \<noteq> None"
  then obtain ds where ds: "those (map parse_octet (split_on CHR ''.'' s)) = Some ds"
    by (auto simp: v4_from_string_def Let_def split: if_splits)
  have "CHR '':'' \<in> insert CHR ''.'' (\<Union> (set ` set (split_on CHR ''.'' s)))"
    using colon set_join_with [of "CHR ''.''" "split_on CHR ''.'' s"] by auto
  then obtain p where p: "p \<in> set (split_on CHR ''.'' s)" "CHR '':'' \<in> set p" by auto
  have "parse_octet p \<noteq> None" using those_defined [OF ds] p(1) by simp
  then show False using p(2) by (auto simp: parse_octet_def list_all_iff py_isdigit_def code_def split: if_splits)
qed

section \<open>IPv6 addresses\<close>

definition parse_hextet :: "string \<Rightarrow> nat option" where
  "parse_hextet s = (if length s > 4 then None else read_hex s)"

text \<open>An IPv4 address as the last part becomes two parts.\<close>

definition with_v4_suffix :: "string list \<Rightarrow> string list option" where
  "with_v4_suffix parts =
    (if CHR ''.'' \<in> set (last parts) then
       map_option (\<lambda>n. butlast parts @ [show_hex (n div 65536), show_hex (n mod 65536)]) (v4_from_string (last parts))
     else Some parts)"

text \<open>How many parts stand before and after the \<open>::\<close>, and how many it stands for.\<close>

definition hextet_layout :: "string list \<Rightarrow> (nat \<times> nat \<times> nat) option" where
  "hextet_layout parts =
    (case filter (\<lambda>i. parts ! i = []) [1..<length parts - 1] of
       [] \<Rightarrow> if length parts \<noteq> 8 \<or> hd parts = [] \<or> last parts = [] then None else Some (8, 0, 0)
     | [i] \<Rightarrow>
         (let hi = (if hd parts = [] then i - 1 else i);
              lo = (if last parts = [] then length parts - i - 2 else length parts - i - 1)
          in if (hd parts = [] \<and> hi \<noteq> 0) \<or> (last parts = [] \<and> lo \<noteq> 0) \<or> 8 < hi + lo + 1 then None
             else Some (hi, 8 - (hi + lo), lo))
     | _ \<Rightarrow> None)"

definition hextets_value :: "string list \<Rightarrow> nat option" where
  "hextets_value parts =
    (if length parts > 9 then None
     else Option.bind (hextet_layout parts) (\<lambda>(hi, skipped, lo).
       Option.bind (those (map parse_hextet (take hi parts))) (\<lambda>high.
         Option.bind (those (map parse_hextet (drop (length parts - lo) parts))) (\<lambda>low.
           Some (shift_in 65536 (shift_in 65536 0 high * 65536 ^ skipped) low)))))"

definition v6_from_string :: "string \<Rightarrow> nat option" where
  "v6_from_string s =
    (let parts = split_on CHR '':'' s in
     if s = [] \<or> length s > 45 \<or> length parts < 3 then None
     else Option.bind (with_v4_suffix parts) hextets_value)"

text \<open>The longest run of zeros: where it starts and its length, first among equals.\<close>

fun longest_zeros :: "string list \<Rightarrow> nat \<Rightarrow> nat \<Rightarrow> nat \<Rightarrow> nat \<Rightarrow> nat \<Rightarrow> nat \<times> nat" where
  "longest_zeros [] i start len bstart blen = (bstart, blen)"
| "longest_zeros (h # hs) i start len bstart blen =
    (if h = ''0'' then
       (let start = (if len = 0 then i else start); len = len + 1 in
        if len > blen then longest_zeros hs (i + 1) start len start len
        else longest_zeros hs (i + 1) start len bstart blen)
     else longest_zeros hs (i + 1) start 0 bstart blen)"

definition compress_hextets :: "string list \<Rightarrow> string list" where
  "compress_hextets hs =
    (case longest_zeros hs 0 0 0 0 0 of (start, len) \<Rightarrow>
     if len > 1 then
       (if start = 0 then [[]] else []) @ take start hs @ [[]] @ drop (start + len) hs @
         (if start + len = length hs then [[]] else [])
     else hs)"

definition v6_hex_string :: "nat \<Rightarrow> string" where
  "v6_hex_string n = join_with CHR '':'' (compress_hextets (map show_hex (digits 65536 8 n)))"

definition v6_string :: "nat \<Rightarrow> string" where
  "v6_string n =
    (if n div 2 ^ 32 = 65535 then v6_hex_string (n div 2 ^ 32) @ '':'' @ v4_string (n mod 2 ^ 32) else v6_hex_string n)"

definition split_scope_id :: "string \<Rightarrow> (string \<times> string option) option" where
  "split_scope_id s =
    (case partition_at CHR ''%'' s of (a, found, scope) \<Rightarrow>
     if \<not> found then Some (a, None)
     else if scope = [] \<or> CHR ''%'' \<in> set scope then None
     else Some (a, Some scope))"

lemma longest_zeros_run:
  assumes "longest_zeros hs i start len bs bl = (s, l)"
    and "length pre = i" "0 < len \<longrightarrow> start + len = i \<and> (\<forall>j. start \<le> j \<and> j < i \<longrightarrow> pre ! j = ''0'')"
    and "bs + bl \<le> i" "\<forall>j. bs \<le> j \<and> j < bs + bl \<longrightarrow> pre ! j = ''0''"
  shows "s + l \<le> i + length hs \<and> (\<forall>j. s \<le> j \<and> j < s + l \<longrightarrow> (pre @ hs) ! j = ''0'')"
  using assms
proof (induction hs i start len bs bl arbitrary: pre rule: longest_zeros.induct)
  case (1 i start len bs bl)
  then show ?case by (auto simp: nth_append)
next
  case (2 h hs i start len bs bl)
  have at: "(pre @ [h]) ! j = (if j < i then pre ! j else h)" if "j \<le> i" for j
    using that "2.prems"(2) by (auto simp: nth_append)
  show ?case
  proof (cases "h = ''0''")
    case False
    have "s + l \<le> i + 1 + length hs \<and> (\<forall>j. s \<le> j \<and> j < s + l \<longrightarrow> ((pre @ [h]) @ hs) ! j = ''0'')"
      by (rule "2.IH"(3)) (use "2.prems" False at in auto)
    then show ?thesis by simp
  next
    case True
    define st where "st = (if len = 0 then i else start)"
    have run: "st + (len + 1) = i + 1" "\<forall>j. st \<le> j \<and> j < i + 1 \<longrightarrow> (pre @ [h]) ! j = ''0''"
      using "2.prems"(3) True at by (auto simp: st_def less_Suc_eq)
    have "s + l \<le> i + 1 + length hs \<and> (\<forall>j. s \<le> j \<and> j < s + l \<longrightarrow> ((pre @ [h]) @ hs) ! j = ''0'')"
    proof (cases "len + 1 > bl")
      case better: True
      show ?thesis
        by (rule "2.IH"(1) [OF True st_def refl better]) (use "2.prems" True better run in \<open>auto simp: st_def Let_def\<close>)
    next
      case worse: False
      show ?thesis
        by (rule "2.IH"(2) [OF True st_def refl worse]) (use "2.prems" True worse run at in \<open>auto simp: st_def Let_def\<close>)
    qed
    then show ?thesis by simp
  qed
qed

lemma show_hex_0 [simp]: "show_hex 0 = ''0''"
  by code_simp

lemma filter_upt_single:
  assumes "a \<le> k" "k < b" "\<And>i. a \<le> i \<Longrightarrow> i < b \<Longrightarrow> P i \<longleftrightarrow> i = k"
  shows "filter P [a..<b] = [k]"
proof -
  have "[a..<b] = [a..<k] @ k # [Suc k..<b]" using assms(1,2) by (metis le_Suc_ex less_imp_le_nat upt_add_eq_append upt_conv_Cons)
  moreover have "filter P [a..<k] = []" "filter P [Suc k..<b] = []" "P k"
    using assms by (auto simp: filter_empty_conv)
  ultimately show ?thesis by simp
qed

lemma parse_show_hextet: "x < 65536 \<Longrightarrow> parse_hextet (show_hex x) = Some x"
  using length_show_hex [of x 4] by (simp add: parse_hextet_def)

lemma those_hextets: "\<forall>x\<in>set xs. x < 65536 \<Longrightarrow> those (map (parse_hextet \<circ> show_hex) xs) = Some xs"
  using those_map_Some [of xs "parse_hextet \<circ> show_hex" id] by (simp add: parse_show_hextet)

text \<open>The parts of an address whose run of zeros between \<open>as\<close> and \<open>bs\<close> is left out.\<close>

definition squeezed :: "nat list \<Rightarrow> nat list \<Rightarrow> string list" where
  "squeezed as bs = (if as = [] then [[]] else []) @ map show_hex as @ [[]] @ map show_hex bs @ (if bs = [] then [[]] else [])"

lemma hextet_layout_squeezed:
  assumes "length as + l + length bs = 8" "1 < l"
  shows "hextet_layout (squeezed as bs) = Some (length as, l, length bs)"
proof -
  let ?p = "squeezed as bs" and ?k = "if as = [] then 1 else length as"
  have "filter (\<lambda>i. ?p ! i = []) [1..<length ?p - 1] = [?k]"
  proof (rule filter_upt_single)
    show "1 \<le> ?k" by (simp add: Suc_leI)
    show "?k < length ?p - 1" by (cases "as = []"; cases "bs = []") (auto simp: squeezed_def)
    fix i assume "1 \<le> i" "i < length ?p - 1"
    then show "?p ! i = [] \<longleftrightarrow> i = ?k"
      by (cases "as = []"; cases "bs = []") (auto simp: squeezed_def nth_append nth_Cons' split: if_splits)
  qed
  moreover have "hd ?p = [] \<longleftrightarrow> as = []" "last ?p = [] \<longleftrightarrow> bs = []"
    by (auto simp: squeezed_def hd_append hd_map last_map)
  moreover have "length ?p = length as + length bs + 1 + (if as = [] then 1 else 0) + (if bs = [] then 1 else 0)"
    by (simp add: squeezed_def)
  ultimately show ?thesis using assms by (auto simp: hextet_layout_def Let_def)
qed

lemma hextets_value_squeezed:
  assumes "length as + l + length bs = 8" "1 < l" "\<forall>x\<in>set (as @ bs). x < 65536"
  shows "hextets_value (squeezed as bs) = Some (shift_in 65536 0 (as @ replicate l 0 @ bs))"
proof -
  let ?p = "squeezed as bs"
  have "take (length as) ?p = map show_hex as" "drop (length ?p - length bs) ?p = map show_hex bs"
    by (cases "as = []"; cases "bs = []"; simp add: squeezed_def)+
  moreover have "length ?p \<le> 9" using assms(1,2) by (auto simp: squeezed_def)
  ultimately show ?thesis using assms hextet_layout_squeezed [OF assms(1,2)]
    by (auto simp: hextets_value_def those_hextets shift_in_zeros)
qed

lemma hextets_value_plain:
  assumes "length xs = 8" "\<forall>x\<in>set xs. x < 65536"
  shows "hextets_value (map show_hex xs) = Some (shift_in 65536 0 xs)"
proof -
  have "filter (\<lambda>i. map show_hex xs ! i = []) [1..<7] = []" using assms(1) by (auto simp: filter_empty_conv)
  moreover have "xs \<noteq> []" using assms(1) by auto
  ultimately have "hextet_layout (map show_hex xs) = Some (8, 0, 0)"
    using assms(1) by (auto simp: hextet_layout_def hd_map last_map)
  then show ?thesis using assms by (simp add: hextets_value_def those_hextets)
qed

lemma compress_cases:
  assumes "length xs = 8"
  shows "compress_hextets (map show_hex xs) = map show_hex xs \<or>
    (\<exists>as l bs. xs = as @ replicate l 0 @ bs \<and> 1 < l \<and> compress_hextets (map show_hex xs) = squeezed as bs)"
proof -
  let ?hs = "map show_hex xs"
  obtain s l where sl: "longest_zeros ?hs 0 0 0 0 0 = (s, l)" by fastforce
  have run: "s + l \<le> 8" "\<forall>j. s \<le> j \<and> j < s + l \<longrightarrow> ?hs ! j = ''0''"
    using longest_zeros_run [OF sl, of "[]"] assms by auto
  show ?thesis
  proof (cases "1 < l")
    case True
    have zero: "xs ! j = 0" if "s \<le> j" "j < s + l" for j
    proof -
      have "show_hex (xs ! j) = show_hex 0" using run that assms by auto
      then show ?thesis by (metis option.inject read_show_hex)
    qed
    have mid: "take l (drop s xs) = replicate l 0"
      using run(1) assms zero by (intro nth_equalityI) auto
    have "xs = take s xs @ take l (drop s xs) @ drop (s + l) xs"
      by (metis add.commute append_take_drop_id drop_drop)
    then have "xs = take s xs @ replicate l 0 @ drop (s + l) xs" using mid by simp
    moreover have "compress_hextets ?hs = squeezed (take s xs) (drop (s + l) xs)"
      using sl True run(1) assms by (auto simp: compress_hextets_def squeezed_def take_map drop_map)
    ultimately show ?thesis using True by blast
  qed (simp add: compress_hextets_def sl)
qed

lemma hextets_value_compress:
  assumes "length xs = 8" "\<forall>x\<in>set xs. x < 65536"
  shows "hextets_value (compress_hextets (map show_hex xs)) = Some (shift_in 65536 0 xs)"
  using compress_cases [OF assms(1)]
proof (elim disjE exE conjE)
  fix as l bs
  assume xs: "xs = as @ replicate l 0 @ bs" and "1 < l" "compress_hextets (map show_hex xs) = squeezed as bs"
  then show ?thesis using hextets_value_squeezed [of as l bs] assms by auto
qed (simp add: hextets_value_plain [OF assms])

lemma length_join_with: "ps \<noteq> [] \<Longrightarrow> length (join_with c ps) + 1 = sum_list (map length ps) + length ps"
  by (induction c ps rule: join_with.induct) auto

lemma hex_not_special: "hex_value c \<noteq> None \<Longrightarrow> c \<notin> {CHR ''.'', CHR '':'', CHR ''/'', CHR ''%'', newline} \<and> \<not> py_isspace c"
  by (auto simp: hex_value_def py_isdigit_def py_isspace_def code_def newline_def split: if_splits)

lemma squeezed_parts: "p \<in> set (squeezed as bs) \<Longrightarrow> c \<in> set p \<Longrightarrow> hex_value c \<noteq> None"
  using show_hex_chars by (auto simp: squeezed_def split: if_splits)

lemma sum_show_hex: "\<forall>x\<in>set xs. x < 65536 \<Longrightarrow> (\<Sum>x\<leftarrow>xs. length (show_hex x)) \<le> 4 * length xs"
  using length_show_hex [of _ 4] by (induction xs) (auto intro: add_mono)

lemma length_squeezed_join:
  assumes "length as + length bs \<le> 6" "\<forall>x\<in>set (as @ bs). x < 65536"
  shows "length (join_with c (squeezed as bs)) \<le> 40"
proof -
  show ?thesis
    using sum_show_hex [of as] sum_show_hex [of bs] length_join_with [of "squeezed as bs" c] assms
    by (auto simp: squeezed_def comp_def split: if_splits)
qed

lemma compress_join:
  assumes "length xs = 8" "\<forall>x\<in>set xs. x < 65536"
  defines "ps \<equiv> compress_hextets (map show_hex xs)"
  shows "3 \<le> length ps" "\<forall>p\<in>set ps. \<forall>c\<in>set p. hex_value c \<noteq> None" "length (join_with CHR '':'' ps) \<le> 45"
proof -
  have "3 \<le> length ps \<and> (\<forall>p\<in>set ps. \<forall>c\<in>set p. hex_value c \<noteq> None) \<and> length (join_with CHR '':'' ps) \<le> 45"
    using compress_cases [OF assms(1)] unfolding ps_def
  proof (elim disjE exE conjE)
    assume same: "compress_hextets (map show_hex xs) = map show_hex xs"
    have "length (join_with CHR '':'' (map show_hex xs)) \<le> 45"
      using length_join_with [of "map show_hex xs" "CHR '':''"] sum_show_hex [OF assms(2)] assms(1) by (cases xs) (auto simp: comp_def)
    then show "3 \<le> length (compress_hextets (map show_hex xs)) \<and>
        (\<forall>p\<in>set (compress_hextets (map show_hex xs)). \<forall>c\<in>set p. hex_value c \<noteq> None) \<and>
        length (join_with CHR '':'' (compress_hextets (map show_hex xs))) \<le> 45"
      using same assms(1) show_hex_chars by auto
  next
    fix as l bs
    assume xs: "xs = as @ replicate l 0 @ bs" and "1 < l" and eq: "compress_hextets (map show_hex xs) = squeezed as bs"
    then have "length as + length bs \<le> 6" using assms(1) by auto
    then have "length (join_with CHR '':'' (squeezed as bs)) \<le> 40" using assms(2) xs by (intro length_squeezed_join) auto
    moreover have "3 \<le> length (squeezed as bs)" by (cases as; cases bs) (auto simp: squeezed_def)
    ultimately show "3 \<le> length (compress_hextets (map show_hex xs)) \<and>
        (\<forall>p\<in>set (compress_hextets (map show_hex xs)). \<forall>c\<in>set p. hex_value c \<noteq> None) \<and>
        length (join_with CHR '':'' (compress_hextets (map show_hex xs))) \<le> 45"
      unfolding eq using squeezed_parts by fastforce
  qed
  then show "3 \<le> length ps" "\<forall>p\<in>set ps. \<forall>c\<in>set p. hex_value c \<noteq> None" "length (join_with CHR '':'' ps) \<le> 45" by auto
qed

lemma v6_hex_round_trip:
  assumes "n < 2 ^ 128"
  shows "v6_from_string (v6_hex_string n) = Some n"
proof -
  let ?xs = "digits 65536 8 n"
  have xs: "length ?xs = 8" "\<forall>x\<in>set ?xs. x < 65536" using digits_below [of 65536] by auto
  let ?ps = "compress_hextets (map show_hex ?xs)"
  note ps = compress_join [OF xs]
  have split: "split_on CHR '':'' (v6_hex_string n) = ?ps" unfolding v6_hex_string_def
    by (rule split_join_with) (use ps hex_not_special in fastforce)+
  have "last ?ps \<in> set ?ps" using ps(1) by (intro last_in_set) auto
  then have "with_v4_suffix ?ps = Some ?ps" using ps(2) hex_not_special by (fastforce simp: with_v4_suffix_def)
  moreover have "v6_hex_string n \<noteq> []" using arg_cong [OF split, of length] ps(1) by auto
  ultimately show ?thesis
    using ps(1,3) hextets_value_compress [OF xs] shift_in_digits [of n 65536 8] assms
    by (simp add: v6_from_string_def split v6_hex_string_def [symmetric])
qed

lemma show_hex_65535 [simp]: "show_hex 65535 = ''ffff''"
proof -
  have "hex_char 15 = CHR ''f''" by code_simp
  then show ?thesis by (simp add: show_hex.simps [of 65535] show_hex.simps [of 4095] show_hex.simps [of 255] show_hex.simps [of 15])
qed

lemma v6_hex_string_mapped: "v6_hex_string 65535 = ''::ffff''"
  by (simp add: v6_hex_string_def compress_hextets_def digits_numeral Let_def)

lemma dot_in_v4_string: "CHR ''.'' \<in> set (v4_string n)"
  by (simp add: v4_string_def digits_numeral)

lemma v6_mapped_round_trip:
  assumes "m < 2 ^ 32"
  shows "v6_from_string (''::ffff:'' @ v4_string m) = Some (65535 * 2 ^ 32 + m)"
proof -
  have "CHR '':'' \<notin> set (v4_string m)" using v4_string_chars py_isdigit_not by blast
  then have split: "split_on CHR '':'' (v4_string m) = [v4_string m]" by (rule split_on_id)
  have "length (v4_string m) \<le> 15"
  proof -
    have "(\<Sum>x\<leftarrow>xs. length (show_nat x)) \<le> 3 * length xs" if "\<forall>x\<in>set xs. x < 256" for xs
      using that length_show_nat [of _ 3] by (induction xs) (auto intro: add_mono)
    from this [of "digits 256 4 m"] show ?thesis
      using length_join_with [of "map show_nat (digits 256 4 m)" "CHR ''.''"] digits_below [of 256]
      by (force simp: v4_string_def comp_def)
  qed
  moreover have "with_v4_suffix [[], [], ''ffff'', v4_string m] = Some (squeezed [] [65535, m div 65536, m mod 65536])"
    using assms dot_in_v4_string by (simp add: with_v4_suffix_def squeezed_def)
  moreover have "hextets_value (squeezed [] [65535, m div 65536, m mod 65536]) =
      Some (shift_in 65536 0 ([] @ replicate 5 0 @ [65535, m div 65536, m mod 65536]))"
    using assms by (intro hextets_value_squeezed) (auto simp: div_less_iff_less_mult)
  moreover have "shift_in 65536 0 (replicate 5 0 @ [65535, m div 65536, m mod 65536]) = 65535 * 2 ^ 32 + m"
    by (simp add: shift_in_zeros)
  ultimately show ?thesis by (simp add: v6_from_string_def split)
qed

lemma v6_round_trip:
  assumes "n < 2 ^ 128"
  shows "v6_from_string (v6_string n) = Some n"
proof (cases "n div 2 ^ 32 = 65535")
  case True
  then have "v6_from_string (v6_string n) = Some (65535 * 2 ^ 32 + n mod 2 ^ 32)"
    using v6_mapped_round_trip [of "n mod 2 ^ 32"] by (simp add: v6_string_def v6_hex_string_mapped)
  then show ?thesis using True div_mult_mod_eq [of n "2 ^ 32"] by simp
qed (use v6_hex_round_trip [OF assms] in \<open>simp add: v6_string_def\<close>)

lemma v6_hex_string_chars: "c \<in> set (v6_hex_string n) \<Longrightarrow> hex_value c \<noteq> None \<or> c = CHR '':''"
  using compress_join(2) [of "digits 65536 8 n"] digits_below [of 65536]
    set_join_with [of "CHR '':''" "compress_hextets (map show_hex (digits 65536 8 n))"]
  by (fastforce simp: v6_hex_string_def)

lemma v6_string_chars: "c \<in> set (v6_string n) \<Longrightarrow> hex_value c \<noteq> None \<or> c \<in> {CHR '':'', CHR ''.''}"
  using v6_hex_string_chars v4_string_chars by (fastforce simp: v6_string_def hex_value_def split: if_splits)

lemma colon_in_v6: "v6_from_string s = Some n \<Longrightarrow> CHR '':'' \<in> set s"
  by (rule ccontr) (auto simp: v6_from_string_def split_on_id split: if_splits)

lemma v6_string_not_Nil [simp]: "n < 2 ^ 128 \<Longrightarrow> v6_string n \<noteq> []"
  using v6_round_trip [of n] by (auto simp: v6_from_string_def)

section \<open>Addresses and networks\<close>

datatype ip_addr = IPv4Address nat | IPv6Address nat "string option"

record ip_net =
  network_address :: ip_addr
  prefixlen :: nat

definition v6_address :: "string \<Rightarrow> ip_addr option" where
  "v6_address s =
    (if CHR ''/'' \<in> set s then None
     else Option.bind (split_scope_id s) (\<lambda>(a, scope). map_option (\<lambda>n. IPv6Address n scope) (v6_from_string a)))"

definition ip_address :: "string \<Rightarrow> ip_addr option" where
  "ip_address s = (case v4_from_string s of Some n \<Rightarrow> Some (IPv4Address n) | None \<Rightarrow> v6_address s)"

fun address_str :: "ip_addr \<Rightarrow> string" where
  "address_str (IPv4Address n) = v4_string n"
| "address_str (IPv6Address n None) = v6_string n"
| "address_str (IPv6Address n (Some scope)) = v6_string n @ ''%'' @ scope"

fun ip_version :: "ip_addr \<Rightarrow> nat" where
  "ip_version (IPv4Address n) = 4"
| "ip_version (IPv6Address n scope) = 6"

fun ip_int :: "ip_addr \<Rightarrow> nat" where
  "ip_int (IPv4Address n) = n"
| "ip_int (IPv6Address n scope) = n"

fun max_prefixlen :: "ip_addr \<Rightarrow> nat" where
  "max_prefixlen (IPv4Address n) = 32"
| "max_prefixlen (IPv6Address n scope) = 128"

definition all_ones :: "nat \<Rightarrow> nat" where
  "all_ones bits = 2 ^ bits - 1"

definition int_from_prefix :: "nat \<Rightarrow> nat \<Rightarrow> nat" where
  "int_from_prefix bits p = all_ones bits XOR drop_bit p (all_ones bits)"

definition netmask :: "ip_net \<Rightarrow> nat" where
  "netmask n = int_from_prefix (max_prefixlen (network_address n)) (prefixlen n)"

definition prefix_from_string :: "nat \<Rightarrow> string \<Rightarrow> nat option" where
  "prefix_from_string bits s =
    (if s = [] \<or> \<not> list_all py_isdigit s \<or> read_nat s > bits then None else Some (read_nat s))"

fun righthand_zeros :: "nat \<Rightarrow> nat \<Rightarrow> nat" where
  "righthand_zeros 0 n = 0"
| "righthand_zeros (Suc bits) n = (if even n then Suc (righthand_zeros bits (n div 2)) else 0)"

definition prefix_from_int :: "nat \<Rightarrow> nat option" where
  "prefix_from_int n =
    (let zeros = righthand_zeros 32 n; p = 32 - zeros in
     if drop_bit zeros n = all_ones p then Some p else None)"

text \<open>A dotted mask: a netmask, or a hostmask with the bits the other way round.\<close>

definition prefix_from_mask :: "string \<Rightarrow> nat option" where
  "prefix_from_mask s = Option.bind (v4_from_string s) (\<lambda>n.
     case prefix_from_int n of Some p \<Rightarrow> Some p | None \<Rightarrow> prefix_from_int (n XOR all_ones 32))"

definition v4_network :: "string \<Rightarrow> string option \<Rightarrow> ip_net option" where
  "v4_network addr m = Option.bind (v4_from_string addr) (\<lambda>n.
     map_option (\<lambda>p. \<lparr>network_address = IPv4Address (n AND int_from_prefix 32 p), prefixlen = p\<rparr>)
       (case m of None \<Rightarrow> Some 32
        | Some s \<Rightarrow> (case prefix_from_string 32 s of Some p \<Rightarrow> Some p | None \<Rightarrow> prefix_from_mask s)))"

text \<open>The scope of an address is kept only when no host bit has to be cleared.\<close>

fun clear_host_bits :: "nat \<Rightarrow> ip_addr \<Rightarrow> ip_addr" where
  "clear_host_bits m (IPv4Address n) = IPv4Address (n AND m)"
| "clear_host_bits m (IPv6Address n scope) = (if n AND m = n then IPv6Address n scope else IPv6Address (n AND m) None)"

definition v6_network :: "string \<Rightarrow> string option \<Rightarrow> ip_net option" where
  "v6_network addr m = Option.bind (v6_address addr) (\<lambda>a.
     map_option (\<lambda>p. \<lparr>network_address = clear_host_bits (int_from_prefix 128 p) a, prefixlen = p\<rparr>)
       (case m of None \<Rightarrow> Some 128 | Some s \<Rightarrow> prefix_from_string 128 s))"

definition ip_network :: "string \<Rightarrow> ip_net option" where
  "ip_network s =
    (let (addr, m) = (case split_on CHR ''/'' s of [a] \<Rightarrow> (Some a, None) | [a, b] \<Rightarrow> (Some a, Some b) | _ \<Rightarrow> (None, None)) in
     Option.bind addr (\<lambda>a. case v4_network a m of Some n \<Rightarrow> Some n | None \<Rightarrow> v6_network a m))"

definition network_str :: "ip_net \<Rightarrow> string" where
  "network_str n = address_str (network_address n) @ ''/'' @ show_nat (prefixlen n)"

text \<open>\<open>address in network\<close>.\<close>

definition in_network :: "ip_addr \<Rightarrow> ip_net \<Rightarrow> bool" where
  "in_network a n \<longleftrightarrow> ip_version a = ip_version (network_address n) \<and> ip_int a AND netmask n = ip_int (network_address n)"

section \<open>Text and value\<close>

text \<open>
  A text form: \<open>read\<close> accepts several spellings of a value, \<open>text_of\<close> writes one.  Reading what was written gives the
  value back, so the written form is canonical.
\<close>

locale text_form =
  fixes read :: "string \<Rightarrow> 'a option" and text_of :: "'a \<Rightarrow> string" and ok :: "'a \<Rightarrow> bool"
  assumes read_show: "ok x \<Longrightarrow> read (text_of x) = Some x"
    and read_ok: "read s = Some x \<Longrightarrow> ok x"
begin

lemma canonical: "read s = Some x \<Longrightarrow> read (text_of x) = Some x"
  using read_show read_ok by blast

lemma text_of_inj: "ok x \<Longrightarrow> ok y \<Longrightarrow> text_of x = text_of y \<Longrightarrow> x = y"
  by (metis option.inject read_show)

end

fun address_ok :: "ip_addr \<Rightarrow> bool" where
  "address_ok (IPv4Address n) \<longleftrightarrow> n < 2 ^ 32"
| "address_ok (IPv6Address n None) \<longleftrightarrow> n < 2 ^ 128"
| "address_ok (IPv6Address n (Some scope)) \<longleftrightarrow> n < 2 ^ 128 \<and> scope \<noteq> [] \<and> CHR ''%'' \<notin> set scope \<and> CHR ''/'' \<notin> set scope"

definition network_ok :: "ip_net \<Rightarrow> bool" where
  "network_ok n \<longleftrightarrow> address_ok (network_address n) \<and> prefixlen n \<le> max_prefixlen (network_address n) \<and>
     ip_int (network_address n) AND netmask n = ip_int (network_address n)"

lemma parse_hextet_below: "parse_hextet s = Some n \<Longrightarrow> n < 65536"
proof -
  assume "parse_hextet s = Some n"
  then obtain ds where ds: "those (map hex_value s) = Some ds" "n = shift_in 16 0 ds" "length s \<le> 4"
    by (auto simp: parse_hextet_def read_hex_def split: if_splits)
  have digit: "d < 16" if "hex_value c = Some d" for c d
    using that by (auto simp: hex_value_def py_isdigit_def split: if_splits)
  have "\<forall>d\<in>set ds. d < 16" using set_those [OF ds(1)] digit by (metis (no_types, lifting) imageE list.set_map)
  from shift_in_less [OF this, of 0 0] have "n < 16 ^ length ds" using ds by simp
  also have "\<dots> \<le> 16 ^ 4" using ds(3) length_those [OF ds(1)] by (intro power_increasing) auto
  finally show ?thesis by simp
qed

lemma hextet_layout_total: "hextet_layout ps = Some (hi, skipped, lo) \<Longrightarrow> hi + skipped + lo = 8 \<and> lo \<le> length ps"
  by (auto simp: hextet_layout_def Let_def split: list.splits if_splits)

lemma v6_from_string_below: "v6_from_string s = Some n \<Longrightarrow> n < 2 ^ 128"
proof -
  assume "v6_from_string s = Some n"
  then obtain ps hi skipped lo high low where layout: "hextet_layout ps = Some (hi, skipped, lo)"
    and hs: "those (map parse_hextet (take hi ps)) = Some high" "those (map parse_hextet (drop (length ps - lo) ps)) = Some low"
    and n: "n = shift_in 65536 (shift_in 65536 0 high * 65536 ^ skipped) low"
    by (auto simp: v6_from_string_def hextets_value_def Let_def split: if_splits bind_splits)
  let ?xs = "high @ replicate skipped 0 @ low"
  have "\<forall>x\<in>set ?xs. x < 65536"
    using set_those [OF hs(1)] set_those [OF hs(2)] parse_hextet_below by (fastforce simp: image_iff)
  from shift_in_less [OF this, of 0 0] have "n < 65536 ^ length ?xs" by (simp add: n shift_in_zeros)
  also have "\<dots> \<le> 65536 ^ 8"
    using hextet_layout_total [OF layout] length_those [OF hs(1)] length_those [OF hs(2)] by (intro power_increasing) auto
  finally show ?thesis by simp
qed

lemma split_scope_id_Some:
  assumes "split_scope_id s = Some (a, Some scope)"
  shows "s = a @ CHR ''%'' # scope \<and> scope \<noteq> [] \<and> CHR ''%'' \<notin> set scope"
proof -
  have "partition_at CHR ''%'' s = (a, True, scope)" "scope \<noteq> []" "CHR ''%'' \<notin> set scope"
    using assms by (auto simp: split_scope_id_def split: prod.splits if_splits)
  then show ?thesis by (simp add: partition_at_found)
qed

lemma scope_of_address:
  "v6_address s = Some (IPv6Address n (Some scope)) \<Longrightarrow> set scope \<subseteq> set s"
  by (auto simp: v6_address_def dest!: split_scope_id_Some split: if_splits bind_splits)

lemma v6_address_ok: "v6_address s = Some a \<Longrightarrow> address_ok a \<and> ip_version a = 6"
proof -
  assume s: "v6_address s = Some a"
  then obtain h n scope where h: "CHR ''/'' \<notin> set s" "split_scope_id s = Some (h, scope)" "v6_from_string h = Some n" "a = IPv6Address n scope"
    by (auto simp: v6_address_def split: if_splits bind_splits)
  then show ?thesis using v6_from_string_below [OF h(3)] split_scope_id_Some [of s h] by (cases scope) auto
qed

lemma v6_address_str:
  assumes "address_ok a" "ip_version a = 6"
  shows "v6_address (address_str a) = Some a" "CHR '':'' \<in> set (address_str a)"
proof -
  obtain n scope where a: "a = IPv6Address n scope" using assms(2) by (cases a) auto
  have n: "n < 2 ^ 128" using assms(1) a by (cases scope) auto
  have no: "CHR ''%'' \<notin> set (v6_string n)" "CHR ''/'' \<notin> set (v6_string n)"
    using v6_string_chars hex_not_special by fastforce+
  show "v6_address (address_str a) = Some a"
  proof (cases scope)
    case None
    then show ?thesis using no n a by (simp add: v6_address_def split_scope_id_def partition_at_absent v6_round_trip del: power_numeral)
  next
    case (Some sc)
    then show ?thesis using no n a assms(1)
      by (simp add: v6_address_def split_scope_id_def partition_at_append v6_round_trip del: power_numeral)
  qed
  show "CHR '':'' \<in> set (address_str a)" using colon_in_v6 [OF v6_round_trip [OF n]] a by (cases scope) auto
qed

lemma ip_address_str: "address_ok a \<Longrightarrow> ip_address (address_str a) = Some a"
proof (cases a)
  case (IPv6Address n scope)
  assume "address_ok a"
  with IPv6Address v6_address_str [of a] show ?thesis by (simp add: ip_address_def v4_from_string_colon)
qed (simp add: ip_address_def)

interpretation addresses: text_form ip_address address_str address_ok
proof
  show "ip_address s = Some a \<Longrightarrow> address_ok a" for s a
    using v4_from_string_below [of s] v6_address_ok [of s] by (auto simp: ip_address_def split: option.splits)
qed (rule ip_address_str)

lemma and_le_nat: "m AND n \<le> (m :: nat)"
  by (simp add: and_nat_def AND_upper1 nat_le_iff)

lemma and_mask_idem [simp]: "(m AND n) AND n = m AND (n :: nat)"
  by (simp add: and.assoc)

lemma clear_host_bits_ok: "address_ok a \<Longrightarrow> address_ok (clear_host_bits m a)"
proof (cases a)
  case (IPv4Address n)
  assume "address_ok a"
  then show ?thesis using IPv4Address and_le_nat [of n m] by simp
next
  case (IPv6Address n scope)
  assume "address_ok a"
  then show ?thesis using IPv6Address and_le_nat [of n m] by (cases scope) auto
qed

lemma righthand_zeros_le: "righthand_zeros k n \<le> k"
  by (induction k n rule: righthand_zeros.induct) auto

lemma prefix_from_mask_le: "prefix_from_mask s = Some p \<Longrightarrow> p \<le> 32"
  by (auto simp: prefix_from_mask_def prefix_from_int_def Let_def split: bind_splits option.splits if_splits)

lemma prefix_from_string_le: "prefix_from_string b s = Some p \<Longrightarrow> p \<le> b"
  by (auto simp: prefix_from_string_def split: if_splits)

lemma prefix_from_show [simp]: "p \<le> b \<Longrightarrow> prefix_from_string b (show_nat p) = Some p"
  using show_nat_digits by (auto simp: prefix_from_string_def list_all_iff)

lemma v4_network_ok: "v4_network s m = Some n \<Longrightarrow> network_ok n"
proof -
  assume "v4_network s m = Some n"
  then obtain i p where i: "v4_from_string s = Some i" and p: "p \<le> 32"
    and n: "n = \<lparr>network_address = IPv4Address (i AND int_from_prefix 32 p), prefixlen = p\<rparr>"
    by (auto simp: v4_network_def dest: prefix_from_string_le prefix_from_mask_le split: bind_splits option.splits)
  show ?thesis using v4_from_string_below [OF i] and_le_nat [of i "int_from_prefix 32 p"] p
    by (simp add: network_ok_def n netmask_def)
qed

lemma v6_network_ok: "v6_network s m = Some n \<Longrightarrow> network_ok n"
proof -
  assume "v6_network s m = Some n"
  then obtain a p where a: "v6_address s = Some a" and p: "p \<le> 128"
    and n: "n = \<lparr>network_address = clear_host_bits (int_from_prefix 128 p) a, prefixlen = p\<rparr>"
    by (auto simp: v6_network_def dest: prefix_from_string_le split: bind_splits option.splits)
  obtain i scope where "a = IPv6Address i scope" using v6_address_ok [OF a] by (cases a) auto
  then show ?thesis using clear_host_bits_ok [of a "int_from_prefix 128 p"] v6_address_ok [OF a] p
    by (auto simp: network_ok_def n netmask_def split: if_splits)
qed

lemma address_str_no_slash: "address_ok a \<Longrightarrow> CHR ''/'' \<notin> set (address_str a)"
proof (cases a)
  case (IPv4Address n)
  then show ?thesis using v4_string_chars py_isdigit_not by fastforce
next
  case (IPv6Address n scope)
  assume "address_ok a"
  moreover have "CHR ''/'' \<notin> set (v6_string n)" using v6_string_chars hex_not_special by fastforce
  ultimately show ?thesis using IPv6Address by (cases scope) auto
qed

lemma ip_network_str:
  assumes "network_ok n"
  shows "ip_network (network_str n) = Some n"
proof -
  let ?a = "network_address n" and ?p = "prefixlen n"
  have ok: "address_ok ?a" "?p \<le> max_prefixlen ?a" "ip_int ?a AND netmask n = ip_int ?a"
    using assms by (auto simp: network_ok_def)
  have "CHR ''/'' \<notin> set (show_nat ?p)" using show_nat_digits py_isdigit_not by blast
  then have split: "split_on CHR ''/'' (network_str n) = [address_str ?a, show_nat ?p]"
    using address_str_no_slash [OF ok(1)] by (simp add: network_str_def split_on_append split_on_id)
  show ?thesis
  proof (cases "network_address n")
    case (IPv4Address i)
    then have "v4_network (address_str ?a) (Some (show_nat ?p)) = Some n"
      using ok by (simp add: v4_network_def netmask_def)
    then show ?thesis by (simp add: ip_network_def split)
  next
    case (IPv6Address i scope)
    have six: "ip_version ?a = 6" using IPv6Address by simp
    have "v4_network (address_str ?a) (Some (show_nat ?p)) = None"
      using v6_address_str(2) [OF ok(1) six] by (simp add: v4_network_def v4_from_string_colon)
    moreover have "v6_network (address_str ?a) (Some (show_nat ?p)) = Some n"
      using ok v6_address_str(1) [OF ok(1) six] IPv6Address by (simp add: v6_network_def netmask_def)
    ultimately show ?thesis by (simp add: ip_network_def split)
  qed
qed

interpretation networks: text_form ip_network network_str network_ok
proof
  show "ip_network s = Some n \<Longrightarrow> network_ok n" for s n
    using v4_network_ok v6_network_ok
    by (auto simp: ip_network_def Let_def split: prod.splits option.splits list.splits bind_splits)
qed (rule ip_network_str)

text \<open>An address is in a network exactly when the leading bits the prefix counts agree.\<close>

lemma bit_below: "n < 2 ^ b \<Longrightarrow> bit n i \<Longrightarrow> i < (b :: nat)" for n :: nat
  by (metis bit_take_bit_iff take_bit_nat_eq_self_iff)

lemma and_int_from_prefix:
  assumes "n < 2 ^ b" "p \<le> b"
  shows "n AND int_from_prefix b p = n div 2 ^ (b - p) * 2 ^ (b - p)"
proof -
  have "all_ones b = mask b" by (simp add: all_ones_def mask_eq_exp_minus_1)
  then have "int_from_prefix b p = mask b XOR mask (b - p)" by (simp add: int_from_prefix_def drop_bit_mask_eq)
  moreover have "n AND (mask b XOR mask (b - p)) = push_bit (b - p) (drop_bit (b - p) n)"
    by (rule bit_eqI) (auto simp: bit_simps dest: bit_below [OF assms(1)])
  ultimately show ?thesis by (simp add: push_bit_eq_mult drop_bit_eq_div)
qed

lemma in_network_prefix:
  assumes "address_ok a" "network_ok n"
  shows "in_network a n \<longleftrightarrow> ip_version a = ip_version (network_address n) \<and>
    ip_int a div 2 ^ (max_prefixlen a - prefixlen n) = ip_int (network_address n) div 2 ^ (max_prefixlen a - prefixlen n)"
proof (cases "ip_version a = ip_version (network_address n)")
  case True
  let ?b = "max_prefixlen a" and ?p = "prefixlen n" and ?m = "network_address n"
  have b: "max_prefixlen ?m = ?b" using True by (cases a; cases ?m) auto
  have below: "ip_int c < 2 ^ max_prefixlen c" if "address_ok c" for c
    using that by (cases c rule: address_ok.cases) auto
  have p: "?p \<le> ?b" "address_ok ?m" "ip_int ?m AND netmask n = ip_int ?m" using assms(2) b by (auto simp: network_ok_def)
  have mask: "i AND netmask n = i div 2 ^ (?b - ?p) * 2 ^ (?b - ?p)" if "i < 2 ^ ?b" for i
    using and_int_from_prefix [OF that p(1)] by (simp add: netmask_def b)
  have "ip_int a AND netmask n = ip_int ?m AND netmask n \<longleftrightarrow> ip_int a div 2 ^ (?b - ?p) = ip_int ?m div 2 ^ (?b - ?p)"
    using mask [OF below [OF assms(1)]] mask [OF below [OF p(2), unfolded b]] by simp
  then show ?thesis using True p(3) by (simp add: in_network_def)
qed (simp add: in_network_def)

section \<open>The characters of a network's text\<close>

definition is_plain :: "char \<Rightarrow> bool" where
  "is_plain c \<longleftrightarrow> hex_value c \<noteq> None \<or> c \<in> {CHR ''.'', CHR '':'', CHR ''/'', CHR ''%''}"

lemma is_plain_no_space: "is_plain c \<Longrightarrow> \<not> py_isspace c \<and> \<not> is_linebreak c"
  by (auto simp: is_plain_def hex_value_def py_isdigit_def py_isspace_def is_linebreak_def code_def split: if_splits)

lemma v4_string_plain: "c \<in> set (v4_string n) \<Longrightarrow> is_plain c"
  using v4_string_chars by (fastforce simp: is_plain_def hex_value_def)

lemma v6_string_plain: "c \<in> set (v6_string n) \<Longrightarrow> is_plain c"
  using v6_string_chars by (fastforce simp: is_plain_def)

lemma show_nat_plain: "c \<in> set (show_nat n) \<Longrightarrow> is_plain c"
  using show_nat_digits by (fastforce simp: is_plain_def hex_value_def)

lemma v4_string_not_Nil [simp]: "v4_string n \<noteq> []"
  using dot_in_v4_string [of n] by auto

lemma hd_address_str: "address_ok a \<Longrightarrow> address_str a \<noteq> [] \<and> is_plain (hd (address_str a))"
proof (cases a)
  case (IPv4Address n)
  then show ?thesis by (auto intro!: v4_string_plain [of _ n])
next
  case (IPv6Address n scope)
  assume "address_ok a"
  then have "n < 2 ^ 128" using IPv6Address by (cases scope) auto
  then have "v6_string n \<noteq> []" by (rule v6_string_not_Nil)
  then show ?thesis using IPv6Address by (cases scope) (auto intro!: v6_string_plain [of _ n])
qed

lemma split_on_chars: "p \<in> set (split_on d s) \<Longrightarrow> c \<in> set p \<Longrightarrow> c \<in> set s"
proof (induction s arbitrary: p)
  case (Cons x s)
  then show ?case by (fastforce split: if_splits list.splits)
qed simp

lemma address_str_chars:
  assumes "ip_network s = Some n" "c \<in> set (address_str (network_address n))"
  shows "is_plain c \<or> c \<in> set s"
proof -
  obtain p m where p: "p \<in> set (split_on CHR ''/'' s)" and n: "v4_network p m = Some n \<or> v6_network p m = Some n"
    using assms(1) by (auto simp: ip_network_def split: list.splits option.splits)
  show ?thesis
  proof (cases "network_address n")
    case (IPv4Address i)
    then show ?thesis using assms(2) v4_string_plain by auto
  next
    case (IPv6Address i scope)
    have "v6_network p m = Some n"
      using n IPv6Address by (auto simp: v4_network_def split: bind_splits option.splits)
    then obtain a q where a: "v6_address p = Some a" "network_address n = clear_host_bits (int_from_prefix 128 q) a"
      by (auto simp: v6_network_def split: bind_splits)
    obtain j sc where j: "a = IPv6Address j sc" using v6_address_ok [OF a(1)] by (cases a) auto
    have "set sc' \<subseteq> set s" if "scope = Some sc'" for sc'
      using that a j IPv6Address scope_of_address [of p j sc'] split_on_chars [OF p] by (auto split: if_splits)
    then show ?thesis using assms(2) IPv6Address v6_string_plain
      by (cases scope) (auto simp: is_plain_def)
  qed
qed

lemma network_str_text:
  assumes "ip_network s = Some n" "\<forall>c\<in>set s. \<not> is_linebreak c"
  shows "network_str n \<noteq> []" "py_strip (network_str n) = network_str n" "\<forall>c\<in>set (network_str n). \<not> is_linebreak c"
proof -
  have ok: "address_ok (network_address n)" using networks.read_ok [OF assms(1)] by (simp add: network_ok_def)
  show "network_str n \<noteq> []" by (simp add: network_str_def)
  show "py_strip (network_str n) = network_str n"
    using hd_address_str [OF ok] show_nat_plain [OF last_in_set [OF show_nat_not_Nil]] is_plain_no_space
    by (intro py_strip_id) (auto simp: network_str_def)
  show "\<forall>c\<in>set (network_str n). \<not> is_linebreak c"
    using address_str_chars [OF assms(1)] assms(2) show_nat_plain is_plain_no_space
    by (fastforce simp: network_str_def is_linebreak_def code_def)
qed

end
