(* ===== verification/Credentials.thy ===== *)
theory Credentials
  imports Quotas Ip_Networks
begin

text \<open>
  App passwords and API keys of an account (src/suite_cloud/mail/tenancy/account_credentials.py and
  src/suite_cloud/mail/stalwart/credentials.py): the rows a save accepts, the site login Suite Cloud
  keeps among them, and what a save creates, updates and revokes on the cluster.

  A row without a credential id has the id \<open>[]\<close>.  A point in time is its ISO text, so
  \<open>utc_iso\<close> and \<open>local_datetime\<close>, which change its zone back and forth, are the identity.
\<close>

section \<open>Rows\<close>

datatype kind = App_Passwords | Api_Keys

definition KINDS :: "kind list" where "KINDS = [App_Passwords, Api_Keys]"

fun kind_quota :: "kind \<Rightarrow> string" where
  "kind_quota App_Passwords = ''maxAppPasswords''"
| "kind_quota Api_Keys = ''maxApiKeys''"

fun always_present :: "kind \<Rightarrow> bool" where
  "always_present App_Passwords = True"
| "always_present Api_Keys = False"

definition SITE_LOGIN :: string where "SITE_LOGIN = ''Suite Cloud''"
definition DEFAULT_LIMIT :: int where "DEFAULT_LIMIT = 10"

record cred_row =
  cr_id :: string
  cr_description :: string
  cr_expires_at :: "string option"
  cr_allowed_ips :: string
  cr_created_at :: string
  cr_site_login :: bool

record cred_doc =
  cd_rows :: "kind \<Rightarrow> cred_row list"
  cd_baseline :: "kind \<Rightarrow> cred_row list option"
  cd_quotas :: quota_rows
  cd_lifted :: "string list"
  cd_stalwart_id :: "string option"
  cd_enabled :: bool

text \<open>A credential as the cluster lists it.\<close>

record live_cred =
  lc_id :: string
  lc_description :: string
  lc_expires_at :: "string option"
  lc_allowed_ips :: "string list"
  lc_created_at :: string

section \<open>Shapes\<close>

definition parse_ips :: "string \<Rightarrow> string list res" where
  "parse_ips text =
     (let lines = filter (\<lambda>l. l \<noteq> []) (map py_strip (splitlines (map (\<lambda>c. if c = CHR '','' then newline else c) text)))
      in rmap (\<lambda>l. if ip_network l \<noteq> None then Inr l else Inl (ValidationError l)) lines)"

text \<open>The credential a row asks for; Suite Cloud never sets its permissions.\<close>

record credential =
  c_description :: string
  c_expires_at :: "string option"
  c_allowed_ips :: "string list"

definition credential_of :: "cred_row \<Rightarrow> credential res" where
  "credential_of r =
     rbind (parse_ips (cr_allowed_ips r)) (\<lambda>ips.
       Inr \<lparr>c_description = cr_description r, c_expires_at = cr_expires_at r, c_allowed_ips = ips\<rparr>)"

definition fields_of :: "cred_row \<Rightarrow> string \<times> string \<times> string option \<times> string" where
  "fields_of r = (cr_id r, cr_description r, cr_expires_at r, cr_allowed_ips r)"

definition as_row :: "live_cred \<Rightarrow> cred_row" where
  "as_row c = \<lparr>cr_id = lc_id c, cr_description = (if lc_description c \<noteq> [] then lc_description c else lc_id c),
     cr_expires_at = lc_expires_at c, cr_allowed_ips = join_with newline (lc_allowed_ips c),
     cr_created_at = lc_created_at c, cr_site_login = False\<rparr>"

definition credential_to_dict :: "credential \<Rightarrow> json" where
  "credential_to_dict c =
     JObj ([(''description'', JStr (c_description c)), (''permissions'', JObj [(''@type'', JStr ''Inherit'')])] @
       (case c_expires_at c of None \<Rightarrow> [] | Some e \<Rightarrow> if e = [] then [] else [(''expiresAt'', JStr e)]) @
       (if c_allowed_ips c = [] then [] else [(''allowedIps'', JList (map JStr (c_allowed_ips c)))]))"

definition patch_of :: "credential \<Rightarrow> (string \<times> json) list" where
  "patch_of c =
     [(''description'', JStr (c_description c)), (''expiresAt'', jopt (c_expires_at c)),
      (''allowedIps'', JList (map JStr (c_allowed_ips c)))]"

section \<open>Rows of a document\<close>

definition quota_limit :: "cred_doc \<Rightarrow> kind \<Rightarrow> int option" where
  "quota_limit d k = map_of (quota_map (cd_quotas d)) (kind_quota k)"

definition apply_default_limits :: "cred_doc \<Rightarrow> cred_doc" where
  "apply_default_limits d =
     fold (\<lambda>k d. if map_of (quota_map (cd_quotas d)) (kind_quota k) = None \<and> kind_quota k \<notin> set (cd_lifted d)
                 then d\<lparr>cd_quotas := cd_quotas d @ [(kind_quota k, DEFAULT_LIMIT)]\<rparr> else d) KINDS d"

definition set_rows :: "kind \<Rightarrow> cred_row list \<Rightarrow> cred_doc \<Rightarrow> cred_doc" where
  "set_rows k rs d = d\<lparr>cd_rows := (cd_rows d)(k := rs)\<rparr>"

definition is_loaded :: "cred_doc \<Rightarrow> kind \<Rightarrow> bool" where
  "is_loaded d k \<longleftrightarrow> cd_baseline d k \<noteq> None"

definition baseline :: "cred_doc \<Rightarrow> cred_doc option \<Rightarrow> kind \<Rightarrow> (string, cred_row) dict" where
  "baseline d before k =
     (let loaded = (case cd_baseline d k of None \<Rightarrow> [] | Some rs \<Rightarrow> rs);
          rs = (if loaded \<noteq> [] then loaded else (case before of None \<Rightarrow> [] | Some b \<Rightarrow> cd_rows b k))
      in dict_of (map (\<lambda>r. (cr_id r, r)) (filter (\<lambda>r. cr_id r \<noteq> []) rs)))"

definition load_live :: "live_cred list \<Rightarrow> kind \<Rightarrow> cred_doc \<Rightarrow> cred_doc" where
  "load_live live k d =
     (let rs = map as_row live;
          rs = sort_key cr_created_at (filter (\<lambda>r. cr_description r = SITE_LOGIN) rs) @
               sort_key cr_created_at (filter (\<lambda>r. cr_description r \<noteq> SITE_LOGIN) rs);
          pending = filter (\<lambda>r. cr_id r = []) (cd_rows d k)
      in set_rows k (rs @ pending) (d\<lparr>cd_baseline := (cd_baseline d)(k := Some rs)\<rparr>))"

definition keep_mirror :: "cred_doc \<Rightarrow> cred_doc \<Rightarrow> kind \<Rightarrow> unit res" where
  "keep_mirror d before k =
     require (set (map fields_of (cd_rows d k)) = set (map fields_of (cd_rows before k))) (ValidationError (kind_quota k))"

definition site_login_row :: cred_row where
  "site_login_row = \<lparr>cr_id = [], cr_description = SITE_LOGIN, cr_expires_at = None, cr_allowed_ips = [],
     cr_created_at = [], cr_site_login = True\<rparr>"

definition over :: "int option \<Rightarrow> cred_row list \<Rightarrow> bool" where
  "over limit rs = (case limit of None \<Rightarrow> False | Some l \<Rightarrow> l \<noteq> 0 \<and> int (length rs) > l)"

definition replaceable :: "cred_row list \<Rightarrow> cred_row list" where
  "replaceable rs = filter (\<lambda>r. cr_id r \<noteq> [] \<and> cr_description r \<noteq> SITE_LOGIN) rs"

text \<open>\<open>min(existing, key=...)\<close>: the first of the oldest.\<close>

definition oldest :: "cred_row list \<Rightarrow> cred_row" where
  "oldest rs = hd (sort_key cr_created_at rs)"

lemma oldest_in: "rs \<noteq> [] \<Longrightarrow> oldest rs \<in> set rs"
  unfolding oldest_def by (metis hd_in_set length_greater_0_conv length_sort set_sort)

function make_room :: "int option \<Rightarrow> cred_row list \<Rightarrow> cred_row list" where
  "make_room limit rs =
     (if over limit rs \<and> replaceable rs \<noteq> [] then make_room limit (remove1 (oldest (replaceable rs)) rs) else rs)"
  by pat_completeness auto
termination
proof (relation "measure (length \<circ> snd)", goal_cases)
  case (2 limit rs)
  then have "oldest (replaceable rs) \<in> set rs" using oldest_in by (fastforce simp: replaceable_def)
  then show ?case using length_pos_if_in_set [of _ rs] by (auto simp: length_remove1)
qed simp

declare make_room.simps [simp del]

definition place_site_login :: "kind \<Rightarrow> int option \<Rightarrow> cred_row list \<Rightarrow> cred_row list res" where
  "place_site_login k limit rs =
     (let others = (\<lambda>rs. filter (\<lambda>r. cr_description r \<noteq> SITE_LOGIN) rs) in
      case filter (\<lambda>r. cr_description r = SITE_LOGIN) rs of
        [] \<Rightarrow> if always_present k then Inr (site_login_row # others (make_room limit (rs @ [site_login_row]))) else Inr rs
      | [login] \<Rightarrow> Inr (login # others rs)
      | _ \<Rightarrow> Inl (ValidationError SITE_LOGIN))"

section \<open>Validation\<close>

definition check_row :: "(string, cred_row) dict \<Rightarrow> cred_row \<Rightarrow> cred_row res" where
  "check_row previous r =
     rbind (parse_ips (cr_allowed_ips r)) (\<lambda>ips.
       let r = r\<lparr>cr_allowed_ips := join_with newline ips\<rparr>;
           was = map_of previous (cr_id r) in
       if (case was of None \<Rightarrow> False | Some w \<Rightarrow> cr_description w = SITE_LOGIN \<and> cr_description r \<noteq> SITE_LOGIN)
       then Inl (ValidationError SITE_LOGIN)
       else if cr_description r = SITE_LOGIN \<and> \<not> cr_site_login r \<and>
            ((case was of None \<Rightarrow> False | Some w \<Rightarrow> cr_description w \<noteq> SITE_LOGIN) \<or> cr_id r = [])
       then Inl (ValidationError SITE_LOGIN)
       else Inr r)"

definition validate_kind ::
  "(kind \<Rightarrow> live_cred list res) \<Rightarrow> cred_doc option \<Rightarrow> kind \<Rightarrow> cred_doc \<Rightarrow> cred_doc res" where
  "validate_kind live before k d =
     (if (case before of None \<Rightarrow> False | Some b \<Rightarrow> \<not> cd_enabled b)
      then rbind (keep_mirror d (the before) k) (\<lambda>_. Inr d)
      else
        rbind (if (case before of None \<Rightarrow> False | Some b \<Rightarrow> cd_rows b k = []) \<and> cd_stalwart_id d \<noteq> None \<and> \<not> is_loaded d k
               then rbind (live k) (\<lambda>l. Inr (load_live l k d)) else Inr d) (\<lambda>d.
        rbind (rmap (check_row (baseline d before k)) (cd_rows d k)) (\<lambda>rs.
        rbind (place_site_login k (quota_limit d k) rs) (\<lambda>rs.
          if over (quota_limit d k) rs then Inl (ValidationError (kind_quota k)) else Inr (set_rows k rs d)))))"

definition validate_credential_rows ::
  "(kind \<Rightarrow> live_cred list res) \<Rightarrow> cred_doc option \<Rightarrow> cred_doc \<Rightarrow> cred_doc res" where
  "validate_credential_rows live before d = rfold (validate_kind live before) KINDS d"

section \<open>The cluster\<close>

text \<open>
  The account's credential service: the three requests a push sends.  \<open>credential_service\<close> is what
  the code uses; the pushes below take any record of the three.
\<close>

record 's cred_service =
  create_secret :: "credential \<Rightarrow> 's \<Rightarrow> exn + (string \<times> string \<times> 's)"
  update_credential :: "string \<Rightarrow> credential \<Rightarrow> 's \<Rightarrow> exn + 's"
  delete_credentials :: "string list \<Rightarrow> 's \<Rightarrow> exn + 's"

definition create_secret_on :: "'s jmap \<Rightarrow> service \<Rightarrow> credential \<Rightarrow> 's \<Rightarrow> exn + (string \<times> string \<times> 's)" where
  "create_secret_on call sv c s =
     rbind (screate call sv (credential_to_dict c) s) (\<lambda>(created, s').
       if truthy (jget ''secret'' created) then Inr (jstr (jget ''id'' created), jstr (jget ''secret'' created), s')
       else Inl (StalwartFailed ''no secret''))"

definition credential_service :: "'s jmap \<Rightarrow> service \<Rightarrow> 's cred_service" where
  "credential_service call sv = \<lparr>create_secret = create_secret_on call sv,
     update_credential = (\<lambda>i c. supdate call sv i (patch_of c)), delete_credentials = sdelete call sv\<rparr>"

text \<open>A missing credential is fine; any other refusal is not.\<close>

definition revoke :: "'s cred_service \<Rightarrow> string list \<Rightarrow> 's \<Rightarrow> exn + 's" where
  "revoke cs ids s =
     (if ids = [] then Inr s
      else case delete_credentials cs ids s of
             Inl e \<Rightarrow> if e = StalwartRejected ''notFound'' then Inr s else Inl e
           | Inr s' \<Rightarrow> Inr s')"

text \<open>
  How a push ended: the error that stopped it, the rows with the ids they got, the ids created
  (revoked should the save roll back), the ids to revoke once it commits, the secrets to show once.
\<close>

record 's push_state =
  ps_error :: "exn option"
  ps_rows :: "cred_row list"
  ps_created :: "string list"
  ps_gone :: "string list"
  ps_secrets :: "(string \<times> string) list"
  ps_cluster :: 's

definition create_row :: "'s cred_service \<Rightarrow> string \<Rightarrow> cred_row \<Rightarrow> 's push_state \<Rightarrow> 's push_state" where
  "create_row cs stamp r p =
     (if ps_error p \<noteq> None \<or> cr_id r \<noteq> [] then p\<lparr>ps_rows := ps_rows p @ [r]\<rparr>
      else case rbind (credential_of r) (\<lambda>c. create_secret cs c (ps_cluster p)) of
             Inl e \<Rightarrow> p\<lparr>ps_error := Some e, ps_rows := ps_rows p @ [r]\<rparr>
           | Inr (i, secret, s') \<Rightarrow>
               p\<lparr>ps_rows := ps_rows p @ [r\<lparr>cr_id := i, cr_created_at := stamp\<rparr>], ps_created := ps_created p @ [i],
                 ps_secrets := ps_secrets p @ [(i, secret)], ps_cluster := s'\<rparr>)"

definition update_row :: "'s cred_service \<Rightarrow> cred_row \<Rightarrow> 's push_state \<Rightarrow> 's push_state" where
  "update_row cs r p =
     (if ps_error p \<noteq> None then p
      else case rbind (credential_of r) (\<lambda>c. update_credential cs (cr_id r) c (ps_cluster p)) of
             Inl e \<Rightarrow> p\<lparr>ps_error := Some e\<rparr>
           | Inr s' \<Rightarrow> p\<lparr>ps_cluster := s'\<rparr>)"

definition changed_rows :: "(string, cred_row) dict \<Rightarrow> cred_row list \<Rightarrow> cred_row list" where
  "changed_rows previous rs =
     filter (\<lambda>r. case map_of previous (cr_id r) of None \<Rightarrow> False | Some w \<Rightarrow> fields_of w \<noteq> fields_of r) rs"

definition gone_ids :: "(string, cred_row) dict \<Rightarrow> cred_row list \<Rightarrow> string list" where
  "gone_ids previous rs = filter (\<lambda>i. i \<notin> set (map cr_id rs)) (dict_keys previous)"

definition push_kind ::
  "'s cred_service \<Rightarrow> string \<Rightarrow> (string, cred_row) dict \<Rightarrow> cred_row list \<Rightarrow> 's \<Rightarrow> 's push_state" where
  "push_kind cs stamp previous rs s =
     (let start = \<lparr>ps_error = None, ps_rows = [], ps_created = [], ps_gone = [], ps_secrets = [], ps_cluster = s\<rparr>;
          p = fold (create_row cs stamp) rs start;
          p = fold (update_row cs) (changed_rows previous rs) p
      in p\<lparr>ps_gone := (if ps_error p = None then gone_ids previous rs else [])\<rparr>)"

text \<open>The hooks the database runs afterwards.\<close>

definition after_commit :: "'s cred_service \<Rightarrow> 's push_state \<Rightarrow> exn + 's" where
  "after_commit cs p = revoke cs (ps_gone p) (ps_cluster p)"

definition after_rollback :: "'s cred_service \<Rightarrow> 's push_state \<Rightarrow> exn + 's" where
  "after_rollback cs p = revoke cs (ps_created p) (ps_cluster p)"

text \<open>
  \<open>rotate_site_login\<close> up to its save: the site login leaves the rows; an app password is minted
  by the validation of the save, an API key is appended here.
\<close>

definition rotate_site_login :: "(kind \<Rightarrow> live_cred list res) \<Rightarrow> kind \<Rightarrow> cred_doc \<Rightarrow> cred_doc res" where
  "rotate_site_login live k d =
     (if \<not> cd_enabled d then Inl (ValidationError (kind_quota k))
      else rbind (if cd_stalwart_id d \<noteq> None \<and> cd_rows d k = [] then rbind (live k) (\<lambda>l. Inr (load_live l k d)) else Inr d)
        (\<lambda>d. let rs = filter (\<lambda>r. cr_description r \<noteq> SITE_LOGIN) (cd_rows d k)
             in Inr (set_rows k (if always_present k then rs else rs @ [site_login_row]) d)))"

definition refresh_kind :: "live_cred list \<Rightarrow> kind \<Rightarrow> cred_doc \<Rightarrow> bool \<times> cred_doc" where
  "refresh_kind live k d =
     (let d' = load_live live k d in (map fields_of (cd_rows d' k) \<noteq> map fields_of (cd_rows d k), d'))"

definition find_row :: "cred_doc \<Rightarrow> kind \<Rightarrow> string \<Rightarrow> cred_row option" where
  "find_row d k i = find (\<lambda>r. cr_id r = i) (cd_rows d k)"

definition row_by_id :: "(kind \<Rightarrow> live_cred list res) \<Rightarrow> kind \<Rightarrow> string \<Rightarrow> cred_doc \<Rightarrow> (cred_row \<times> cred_doc) res" where
  "row_by_id live k i d =
     (case find_row d k i of
        Some r \<Rightarrow> Inr (r, d)
      | None \<Rightarrow>
          rbind (if cd_stalwart_id d \<noteq> None \<and> cd_enabled d \<and> \<not> is_loaded d k
                 then rbind (live k) (\<lambda>l. Inr (load_live l k d)) else Inr d)
            (\<lambda>d. case find_row d k i of None \<Rightarrow> Inl (DoesNotExistError i) | Some r \<Rightarrow> Inr (r, d)))"

section \<open>Laws of the validation\<close>

definition site_login_first :: "kind \<Rightarrow> cred_row list \<Rightarrow> bool" where
  "site_login_first k rs =
     (case rs of
        [] \<Rightarrow> \<not> always_present k
      | r # rest \<Rightarrow> (cr_description r = SITE_LOGIN \<or> \<not> always_present k) \<and> list_all (\<lambda>x. cr_description x \<noteq> SITE_LOGIN) rest)"

lemma place_site_login_first: "place_site_login k limit rs = Inr rs' \<Longrightarrow> site_login_first k rs'"
proof -
  assume p: "place_site_login k limit rs = Inr rs'"
  let ?mine = "filter (\<lambda>r. cr_description r = SITE_LOGIN) rs"
  consider "?mine = []" | login where "?mine = [login]" | a b c where "?mine = a # b # c"
    by (metis neq_Nil_conv)
  then show ?thesis
  proof cases
    case 1
    then show ?thesis using p
      by (cases "always_present k"; cases rs')
        (auto simp: place_site_login_def site_login_first_def site_login_row_def list_all_iff filter_empty_conv split: if_splits)
  next
    case (2 login)
    then have "login \<in> set ?mine" by simp
    then have "cr_description login = SITE_LOGIN" by simp
    with 2 p show ?thesis by (auto simp: place_site_login_def site_login_first_def list_all_iff)
  next
    case (3 a b c)
    then show ?thesis using p by (simp add: place_site_login_def)
  qed
qed

definition settled :: "kind \<Rightarrow> cred_doc \<Rightarrow> bool" where
  "settled k d \<longleftrightarrow> site_login_first k (cd_rows d k) \<and> \<not> over (quota_limit d k) (cd_rows d k)"

lemma set_rows_simps [simp]:
  "cd_rows (set_rows k rs d) = (cd_rows d)(k := rs)" "cd_quotas (set_rows k rs d) = cd_quotas d"
  "cd_enabled (set_rows k rs d) = cd_enabled d" "cd_stalwart_id (set_rows k rs d) = cd_stalwart_id d"
  by (simp_all add: set_rows_def)

lemma load_live_frame [simp]:
  "cd_quotas (load_live l k d) = cd_quotas d" "k' \<noteq> k \<Longrightarrow> cd_rows (load_live l k d) k' = cd_rows d k'"
  by (simp_all add: load_live_def Let_def)

lemma quota_limit_cong: "cd_quotas d = cd_quotas d' \<Longrightarrow> quota_limit d k = quota_limit d' k"
  by (simp add: quota_limit_def)

lemma validate_kind_settled:
  assumes v: "validate_kind live before k d = Inr d'" and enabled: "\<forall>b. before = Some b \<longrightarrow> cd_enabled b"
  shows "settled k d' \<and> cd_quotas d' = cd_quotas d \<and> (\<forall>k'. k' \<noteq> k \<longrightarrow> cd_rows d' k' = cd_rows d k')"
proof -
  from enabled have on: "\<not> (case before of None \<Rightarrow> False | Some b \<Rightarrow> \<not> cd_enabled b)" by (auto split: option.splits)
  from v obtain d1 rs rs' where
      d1: "d1 = d \<or> (\<exists>l. d1 = load_live l k d)"
    and rs: "place_site_login k (quota_limit d1 k) rs = Inr rs'"
    and fit: "\<not> over (quota_limit d1 k) rs'" and d': "d' = set_rows k rs' d1"
    unfolding validate_kind_def if_not_P [OF on] by (auto split: if_splits)
  have "quota_limit d' k = quota_limit d1 k" by (simp add: d' quota_limit_def)
  then show ?thesis using place_site_login_first [OF rs] fit d1 by (auto simp: settled_def d')
qed

section \<open>Laws of the pushes\<close>

text \<open>
  What a push relies on: \<open>view s\<close> maps the id of every credential the account has on the cluster
  to it; a creation adds one under a new id, an update of a known id replaces it, a delete of known
  ids removes them, and a refused request changes nothing.
\<close>

definition lawful_service :: "'s cred_service \<Rightarrow> ('s \<Rightarrow> string \<Rightarrow> credential option) \<Rightarrow> bool" where
  "lawful_service cs view \<longleftrightarrow>
     (\<forall>c s i x s'. create_secret cs c s = Inr (i, x, s') \<longrightarrow> i \<noteq> [] \<and> view s i = None \<and> view s' = (view s)(i \<mapsto> c)) \<and>
     (\<forall>i c s s'. update_credential cs i c s = Inr s' \<longrightarrow> view s i \<noteq> None \<and> view s' = (view s)(i \<mapsto> c)) \<and>
     (\<forall>is s s'. delete_credentials cs is s = Inr s' \<longrightarrow> view s' = (\<lambda>i. if i \<in> set is then None else view s i)) \<and>
     (\<forall>is s. (\<forall>i\<in>set is. view s i \<noteq> None) \<longrightarrow> (\<exists>s'. delete_credentials cs is s = Inr s'))"

lemma lawful_create:
  "lawful_service cs view \<Longrightarrow> create_secret cs c s = Inr (i, x, s') \<Longrightarrow>
   i \<noteq> [] \<and> view s i = None \<and> view s' = (view s)(i \<mapsto> c)"
  unfolding lawful_service_def by blast

lemma lawful_update:
  "lawful_service cs view \<Longrightarrow> update_credential cs i c s = Inr s' \<Longrightarrow> view s i \<noteq> None \<and> view s' = (view s)(i \<mapsto> c)"
  unfolding lawful_service_def by blast

lemma revoke_known:
  assumes "lawful_service cs view" "\<forall>i\<in>set is. view s i \<noteq> None"
  shows "\<exists>s'. revoke cs is s = Inr s' \<and> view s' = (\<lambda>i. if i \<in> set is then None else view s i)"
proof (cases "is = []")
  case False
  obtain s' where s': "delete_credentials cs is s = Inr s'" using assms unfolding lawful_service_def by metis
  moreover have "view s' = (\<lambda>i. if i \<in> set is then None else view s i)"
    using assms(1) s' unfolding lawful_service_def by blast
  ultimately show ?thesis using False by (simp add: revoke_def)
qed (simp add: revoke_def)

text \<open>The mirror of a kind: each row is on the cluster with the row's own content.\<close>

definition mirrors :: "(string \<Rightarrow> credential option) \<Rightarrow> cred_row list \<Rightarrow> bool" where
  "mirrors view rs \<longleftrightarrow> (\<forall>r\<in>set rs. \<exists>c. credential_of r = Inr c \<and> view (cr_id r) = Some c)"

lemma credential_of_fields: "fields_of r = fields_of r' \<Longrightarrow> credential_of r = credential_of r'"
  by (simp add: fields_of_def credential_of_def)

lemma credential_of_created [simp]: "credential_of (r\<lparr>cr_id := i, cr_created_at := t\<rparr>) = credential_of r"
  by (simp add: credential_of_def)

definition fresh_ids :: "cred_row list \<Rightarrow> string list" where
  "fresh_ids rs = map cr_id (filter (\<lambda>r. cr_id r \<noteq> []) rs)"

lemma create_row_cases:
  obtains (kept) "ps_error p \<noteq> None \<or> cr_id r \<noteq> []" "create_row cs stamp r p = p\<lparr>ps_rows := ps_rows p @ [r]\<rparr>"
  | (failed) e where "ps_error p = None" "cr_id r = []"
      "create_row cs stamp r p = p\<lparr>ps_error := Some e, ps_rows := ps_rows p @ [r]\<rparr>"
  | (created) c i x s' where "ps_error p = None" "cr_id r = []" "credential_of r = Inr c"
      "create_secret cs c (ps_cluster p) = Inr (i, x, s')"
      "create_row cs stamp r p = p\<lparr>ps_rows := ps_rows p @ [r\<lparr>cr_id := i, cr_created_at := stamp\<rparr>],
         ps_created := ps_created p @ [i], ps_secrets := ps_secrets p @ [(i, x)], ps_cluster := s'\<rparr>"
proof (cases "ps_error p \<noteq> None \<or> cr_id r \<noteq> []")
  case True
  then show thesis by (intro kept) (auto simp: create_row_def)
next
  case False
  then show thesis
  proof (cases "rbind (credential_of r) (\<lambda>c. create_secret cs c (ps_cluster p))")
    case (Inl e)
    with False show thesis by (intro failed [of e]) (auto simp: create_row_def)
  next
    case (Inr t)
    obtain i x s' where t: "t = (i, x, s')" by (cases t)
    from Inr t obtain c where "credential_of r = Inr c" "create_secret cs c (ps_cluster p) = Inr (i, x, s')" by auto
    with False Inr t show thesis by (intro created [of c i x s']) (auto simp: create_row_def)
  qed
qed

lemma create_row_error: "ps_error p \<noteq> None \<Longrightarrow>
    ps_error (fold (create_row cs stamp) rs p) = ps_error p \<and>
    ps_created (fold (create_row cs stamp) rs p) = ps_created p \<and>
    ps_cluster (fold (create_row cs stamp) rs p) = ps_cluster p"
  by (induction rs arbitrary: p) (auto simp: create_row_def)

text \<open>What the creations did to the cluster, whether or not one was refused.\<close>

lemma create_rows_view:
  assumes law: "lawful_service cs view"
  shows "\<exists>cre. ps_created (fold (create_row cs stamp) rs p) = ps_created p @ cre \<and> distinct cre \<and>
    (\<forall>i\<in>set cre. i \<noteq> [] \<and> view (ps_cluster p) i = None \<and> view (ps_cluster (fold (create_row cs stamp) rs p)) i \<noteq> None) \<and>
    (\<forall>i. i \<notin> set cre \<longrightarrow> view (ps_cluster (fold (create_row cs stamp) rs p)) i = view (ps_cluster p) i)"
proof (induction rs arbitrary: p)
  case (Cons r rs)
  let ?q = "create_row cs stamp r p"
  obtain cre where IH: "ps_created (fold (create_row cs stamp) rs ?q) = ps_created ?q @ cre" "distinct cre"
      "\<forall>i\<in>set cre. i \<noteq> [] \<and> view (ps_cluster ?q) i = None \<and> view (ps_cluster (fold (create_row cs stamp) rs ?q)) i \<noteq> None"
      "\<forall>i. i \<notin> set cre \<longrightarrow> view (ps_cluster (fold (create_row cs stamp) rs ?q)) i = view (ps_cluster ?q) i"
    using Cons by blast
  consider (same) "ps_created ?q = ps_created p" "ps_cluster ?q = ps_cluster p"
    | (new) i c x s' where "create_secret cs c (ps_cluster p) = Inr (i, x, s')" "ps_created ?q = ps_created p @ [i]" "ps_cluster ?q = s'"
    by (cases rule: create_row_cases [of p r cs stamp]) auto
  then show ?case
  proof cases
    case same
    then show ?thesis using IH by (intro exI [of _ cre]) simp
  next
    case (new i c x s')
    then have "i \<noteq> []" "view (ps_cluster p) i = None" "view (ps_cluster ?q) = (view (ps_cluster p))(i \<mapsto> c)"
      using lawful_create [OF law] by blast+
    then show ?thesis using IH new(2) by (intro exI [of _ "i # cre"]) (auto simp: fun_upd_apply split: if_splits)
  qed
qed simp

lemma create_rows_keep:
  assumes "lawful_service cs view" "view (ps_cluster p) i = Some c"
  shows "view (ps_cluster (fold (create_row cs stamp) rs p)) i = Some c"
proof -
  let ?v = "view (ps_cluster (fold (create_row cs stamp) rs p))"
  obtain cre where "\<forall>i\<in>set cre. view (ps_cluster p) i = None" "\<forall>i. i \<notin> set cre \<longrightarrow> ?v i = view (ps_cluster p) i"
    using create_rows_view [OF assms(1), where rs = rs and p = p and stamp = stamp] by blast
  then show ?thesis using assms(2) by (metis option.distinct(1))
qed

text \<open>A row after the creations: itself when it had an id, else the credential created for it.\<close>

definition minted ::
  "(string \<Rightarrow> credential option) \<Rightarrow> (string \<Rightarrow> credential option) \<Rightarrow> cred_row \<Rightarrow> cred_row \<Rightarrow> bool" where
  "minted v v' r r' \<longleftrightarrow>
     (if cr_id r \<noteq> [] then r' = r
      else cr_id r' \<noteq> [] \<and> v (cr_id r') = None \<and> cr_description r' = cr_description r \<and>
           (\<exists>c. credential_of r' = Inr c \<and> v' (cr_id r') = Some c))"

lemma create_rows_ok:
  assumes law: "lawful_service cs view" and ok: "ps_error (fold (create_row cs stamp) rs p) = None"
  shows "\<exists>new. ps_rows (fold (create_row cs stamp) rs p) = ps_rows p @ new \<and>
    list_all2 (minted (view (ps_cluster p)) (view (ps_cluster (fold (create_row cs stamp) rs p)))) rs new"
  using ok
proof (induction rs arbitrary: p)
  case (Cons r rs)
  let ?q = "create_row cs stamp r p" and ?fin = "fold (create_row cs stamp) rs (create_row cs stamp r p)"
  obtain new where IH: "ps_rows ?fin = ps_rows ?q @ new"
      "list_all2 (minted (view (ps_cluster ?q)) (view (ps_cluster ?fin))) rs new"
    using Cons.IH [of ?q] Cons.prems by auto
  have p: "ps_error p = None" using Cons.prems create_row_error [of p cs stamp "r # rs"] by fastforce
  show ?case
  proof (cases rule: create_row_cases [of p r cs stamp])
    case kept
    have "minted v v' r r" for v v' using kept p by (simp add: minted_def)
    then show ?thesis using IH kept(2) by (intro exI [of _ "r # new"]) simp
  next
    case (failed e)
    then have "ps_error ?fin \<noteq> None" using create_row_error [of ?q cs stamp rs] by simp
    then show ?thesis using Cons.prems by simp
  next
    case (created c i x s')
    let ?r = "r\<lparr>cr_id := i, cr_created_at := stamp\<rparr>"
    have law': "i \<noteq> []" "view (ps_cluster p) i = None" "view s' = (view (ps_cluster p))(i \<mapsto> c)"
      using lawful_create [OF law created(4)] by auto
    have q: "ps_cluster ?q = s'" "ps_rows ?q = ps_rows p @ [?r]" using created(5) by simp_all
    have "view (ps_cluster ?fin) i = Some c"
      by (rule create_rows_keep [OF law]) (simp add: q law'(3))
    then have "minted (view (ps_cluster p)) (view (ps_cluster ?fin)) r ?r"
      using created(2,3) law'(1,2) by (simp add: minted_def)
    moreover have "list_all2 (minted (view (ps_cluster p)) (view (ps_cluster ?fin))) rs new"
      using IH(2) by (rule list_all2_mono) (auto simp: minted_def q law'(3) split: if_splits)
    ultimately show ?thesis using IH(1) q(2) by (intro exI [of _ "?r # new"]) simp
  qed
qed simp

lemma update_rows_view:
  assumes law: "lawful_service cs view"
  shows "ps_created (fold (update_row cs) rs p) = ps_created p \<and> ps_rows (fold (update_row cs) rs p) = ps_rows p \<and>
    (\<forall>i. (view (ps_cluster (fold (update_row cs) rs p)) i = None) = (view (ps_cluster p) i = None)) \<and>
    (\<forall>i. i \<notin> cr_id ` set rs \<longrightarrow> view (ps_cluster (fold (update_row cs) rs p)) i = view (ps_cluster p) i) \<and>
    (ps_error (fold (update_row cs) rs p) = None \<longrightarrow> ps_error p = None \<and>
      (distinct (map cr_id rs) \<longrightarrow>
        (\<forall>r\<in>set rs. \<exists>c. credential_of r = Inr c \<and> view (ps_cluster (fold (update_row cs) rs p)) (cr_id r) = Some c)))"
proof (induction rs arbitrary: p)
  case (Cons r rs)
  let ?q = "update_row cs r p"
  consider (same) "ps_cluster ?q = ps_cluster p" "ps_error ?q \<noteq> None"
    | (sent) c s' where "credential_of r = Inr c" "update_credential cs (cr_id r) c (ps_cluster p) = Inr s'"
        "ps_cluster ?q = s'" "ps_error ?q = None" "ps_error p = None"
    by (cases "ps_error p"; cases "credential_of r"; cases "update_credential cs (cr_id r) (projr (credential_of r)) (ps_cluster p)")
      (auto simp: update_row_def)
  moreover have "ps_created ?q = ps_created p" "ps_rows ?q = ps_rows p" by (auto simp: update_row_def split: sum.splits)
  ultimately show ?case
  proof cases
    case same
    then show ?thesis using Cons.IH [of ?q] \<open>ps_created ?q = ps_created p\<close> \<open>ps_rows ?q = ps_rows p\<close> by auto
  next
    case sent
    have v: "view (ps_cluster p) (cr_id r) \<noteq> None" "view (ps_cluster ?q) = (view (ps_cluster p))(cr_id r \<mapsto> c)"
      using lawful_update [OF law sent(2)] sent(3) by auto
    then show ?thesis
      using Cons.IH [of ?q] \<open>ps_created ?q = ps_created p\<close> \<open>ps_rows ?q = ps_rows p\<close> sent by auto
  qed
qed simp

lemma distinct_ids_inj:
  assumes "distinct (filter (\<lambda>i. i \<noteq> []) (map cr_id rs))"
  shows "inj_on cr_id {r \<in> set rs. cr_id r \<noteq> []}" "distinct (map cr_id (filter (\<lambda>r. cr_id r \<noteq> []) rs))"
proof -
  show "distinct (map cr_id (filter (\<lambda>r. cr_id r \<noteq> []) rs))" using assms by (simp add: filter_map comp_def)
  then show "inj_on cr_id {r \<in> set rs. cr_id r \<noteq> []}" by (simp add: distinct_map)
qed

lemma changed_rows_ids:
  assumes "distinct (filter (\<lambda>i. i \<noteq> []) (map cr_id rs))" "\<forall>(i, w)\<in>set previous. i \<noteq> []"
  shows "distinct (map cr_id (changed_rows previous rs))" "cr_id ` set (changed_rows previous rs) \<subseteq> fst ` set previous"
proof -
  have sub: "cr_id r \<in> fst ` set previous" if "r \<in> set (changed_rows previous rs)" for r
    using that by (auto simp: changed_rows_def split: option.splits dest: map_of_SomeD intro: rev_image_eqI)
  have "changed_rows previous rs = filter (\<lambda>r. case map_of previous (cr_id r) of None \<Rightarrow> False | Some w \<Rightarrow> fields_of w \<noteq> fields_of r) (filter (\<lambda>r. cr_id r \<noteq> []) rs)"
  proof -
    have "map_of previous [] = None" using assms(2) by (auto simp: map_of_eq_None_iff)
    then show ?thesis by (auto simp: changed_rows_def intro: filter_cong)
  qed
  then show "distinct (map cr_id (changed_rows previous rs))"
    by (simp only:) (rule distinct_map_filter [OF distinct_ids_inj(2) [OF assms(1)]])
  show "cr_id ` set (changed_rows previous rs) \<subseteq> fst ` set previous" using sub by auto
qed

lemma minted_mirrors:
  assumes "minted v0 v1 r r'" "r \<in> set rs"
    and previous: "dict_ok previous" "\<forall>(i, w)\<in>set previous. i \<noteq> [] \<and> cr_id w = i \<and> (\<exists>c. credential_of w = Inr c \<and> v0 i = Some c)"
    and rows: "cr_id r \<noteq> [] \<longrightarrow> cr_id r \<in> fst ` set previous"
    and ids: "distinct (filter (\<lambda>i. i \<noteq> []) (map cr_id rs))"
    and v1: "\<forall>i. v0 i \<noteq> None \<longrightarrow> v1 i = v0 i"
    and v2: "\<forall>i. i \<notin> cr_id ` set (changed_rows previous rs) \<longrightarrow> v2 i = v1 i"
      "\<forall>x\<in>set (changed_rows previous rs). \<exists>c. credential_of x = Inr c \<and> v2 (cr_id x) = Some c"
  shows "\<exists>c. credential_of r' = Inr c \<and> v2 (cr_id r') = Some c"
proof -
  have sub: "cr_id ` set (changed_rows previous rs) \<subseteq> fst ` set previous"
    using changed_rows_ids(2) [OF ids] previous(2) by fastforce
  have prev: "v0 i \<noteq> None" if "i \<in> fst ` set previous" for i using that previous(2) by fastforce
  show ?thesis
  proof (cases "cr_id r = []")
    case True
    then obtain c where c: "credential_of r' = Inr c" "v1 (cr_id r') = Some c" "v0 (cr_id r') = None"
      using assms(1) by (auto simp: minted_def)
    then have "cr_id r' \<notin> cr_id ` set (changed_rows previous rs)" using sub prev by blast
    then show ?thesis using c v2(1) by simp
  next
    case False
    then have r': "r' = r" and "cr_id r \<in> fst ` set previous" using assms(1) rows by (simp_all add: minted_def)
    then obtain w where w: "(cr_id r, w) \<in> set previous" by auto
    then have mo: "map_of previous (cr_id r) = Some w" using previous(1) by (simp add: dict_ok_def)
    obtain c where c: "credential_of w = Inr c" "v0 (cr_id r) = Some c" using w previous(2) by fastforce
    show ?thesis
    proof (cases "fields_of w = fields_of r")
      case True
      have "cr_id r \<notin> cr_id ` set (changed_rows previous rs)"
      proof
        assume "cr_id r \<in> cr_id ` set (changed_rows previous rs)"
        then obtain x where x: "x \<in> set (changed_rows previous rs)" "cr_id x = cr_id r" by auto
        then have "x = r"
          using inj_onD [OF distinct_ids_inj(1) [OF ids], of x r] assms(2) False by (auto simp: changed_rows_def)
        then show False using x(1) True mo by (simp add: changed_rows_def)
      qed
      then show ?thesis using c v1 v2(1) credential_of_fields [OF True] r' by simp
    next
      case False
      then have "r \<in> set (changed_rows previous rs)" using mo assms(2) by (simp add: changed_rows_def)
      then show ?thesis using v2(2) r' by blast
    qed
  qed
qed

section \<open>Properties\<close>

text \<open>
  C17. Saving an account that was enabled leaves exactly one app password of Suite Cloud's own and
  puts it first, at most one such API key, also first, and of neither kind more rows than the
  account's limit for it.
\<close>

theorem credential_rows_settled:
  assumes "validate_credential_rows live before d = Inr d'" and "\<forall>b. before = Some b \<longrightarrow> cd_enabled b"
  shows "(\<exists>login rest. cd_rows d' App_Passwords = login # rest \<and> cr_description login = SITE_LOGIN \<and>
      list_all (\<lambda>r. cr_description r \<noteq> SITE_LOGIN) rest) \<and>
    list_all (\<lambda>r. cr_description r \<noteq> SITE_LOGIN) (tl (cd_rows d' Api_Keys)) \<and>
    (\<forall>k l. map_of (quota_map (cd_quotas d)) (kind_quota k) = Some l \<and> l \<noteq> 0 \<longrightarrow> int (length (cd_rows d' k)) \<le> l)"
proof -
  from assms(1) obtain d1 where v: "validate_kind live before App_Passwords d = Inr d1"
      "validate_kind live before Api_Keys d1 = Inr d'"
    by (auto simp: validate_credential_rows_def KINDS_def)
  note s1 = validate_kind_settled [OF v(1) assms(2)] and s2 = validate_kind_settled [OF v(2) assms(2)]
  have q: "cd_quotas d1 = cd_quotas d" "cd_quotas d' = cd_quotas d" using s1 s2 by simp_all
  have rows: "cd_rows d' App_Passwords = cd_rows d1 App_Passwords" using s2 by simp
  have keys: "list_all (\<lambda>r. cr_description r \<noteq> SITE_LOGIN) (tl (cd_rows d' Api_Keys))"
    using s2 by (auto simp: settled_def site_login_first_def split: list.splits)
  have fit: "\<not> over (map_of (quota_map (cd_quotas d)) (kind_quota k)) (cd_rows d' k)" for k
    using s1 s2 q rows by (cases k) (simp_all add: settled_def quota_limit_def)
  then have "\<forall>k l. map_of (quota_map (cd_quotas d)) (kind_quota k) = Some l \<and> l \<noteq> 0 \<longrightarrow> int (length (cd_rows d' k)) \<le> l"
  proof (intro allI impI)
    fix k l
    assume "map_of (quota_map (cd_quotas d)) (kind_quota k) = Some l \<and> l \<noteq> 0"
    then show "int (length (cd_rows d' k)) \<le> l" using fit [of k] by (simp add: over_def)
  qed
  moreover have "\<exists>login rest. cd_rows d' App_Passwords = login # rest \<and> cr_description login = SITE_LOGIN \<and>
      list_all (\<lambda>r. cr_description r \<noteq> SITE_LOGIN) rest"
    using s1 unfolding rows by (auto simp: settled_def site_login_first_def split: list.splits)
  ultimately show ?thesis using keys by blast
qed

definition sample_cred_doc :: cred_doc where
  "sample_cred_doc = \<lparr>cd_rows = (\<lambda>k. if k = App_Passwords then [site_login_row\<lparr>cr_id := ''1'', cr_description := ''phone'', cr_site_login := False\<rparr>] else []),
     cd_baseline = (\<lambda>_. None), cd_quotas = [(''maxAppPasswords'', 2)], cd_lifted = [], cd_stalwart_id = None, cd_enabled = True\<rparr>"

theorem credential_rows_settled_witness:
  "\<exists>d'. validate_credential_rows (\<lambda>_. Inr []) None sample_cred_doc = Inr d' \<and>
    (\<exists>login rest. cd_rows d' App_Passwords = login # rest \<and> cr_description login = SITE_LOGIN)"
proof -
  have "case validate_credential_rows (\<lambda>_. Inr []) None sample_cred_doc of Inl _ \<Rightarrow> False | Inr _ \<Rightarrow> True"
    by code_simp
  then obtain d' where "validate_credential_rows (\<lambda>_. Inr []) None sample_cred_doc = Inr d'"
    by (auto split: sum.splits)
  then show ?thesis using credential_rows_settled [of "\<lambda>_. Inr []" None sample_cred_doc d'] by auto
qed


text \<open>A cluster that keeps credentials in an association list, for the witnesses.\<close>

definition list_service :: "(string \<times> credential) list cred_service" where
  "list_service = \<lparr>
     create_secret = (\<lambda>c s. let i = show_nat (length s) @ concat (map fst s) @ ''x'' in Inr (i, ''secret'', (i, c) # s)),
     update_credential = (\<lambda>i c s. if map_of s i = None then Inl (StalwartRejected ''notFound'') else Inr ((i, c) # s)),
     delete_credentials = (\<lambda>is s. Inr (filter (\<lambda>(i, _). i \<notin> set is) s))\<rparr>"

lemma length_concat_member: "x \<in> set xs \<Longrightarrow> length x \<le> length (concat xs)"
  by (induction xs) auto

lemma list_service_lawful: "lawful_service list_service map_of"
proof -
  have fresh: "map_of s (show_nat (length s) @ concat (map fst s) @ ''x'') = None" for s :: "(string \<times> credential) list"
  proof -
    have "i \<noteq> show_nat (length s) @ concat (map fst s) @ ''x''" if "i \<in> fst ` set s" for i
      using length_concat_member [of i "map fst s"] that by auto
    then show ?thesis unfolding map_of_eq_None_iff by blast
  qed
  have del: "map_of (filter (\<lambda>(i, _). i \<notin> set is) s) = (\<lambda>i. if i \<in> set is then None else map_of s i)"
    for s :: "(string \<times> credential) list" and "is"
    by (induction s) (auto simp: fun_eq_iff)
  show ?thesis using fresh del by (auto simp: lawful_service_def list_service_def Let_def split: if_splits)
qed


lemma gone_ids_listed:
  assumes "\<forall>(i, w)\<in>set previous. i \<noteq> [] \<and> cr_id w = i \<and> (\<exists>c. credential_of w = Inr c \<and> v i = Some c)"
    and "i \<in> set (gone_ids previous rs)"
  shows "i \<in> fst ` set previous" "v i \<noteq> None" "\<forall>r\<in>set rs. cr_id r \<noteq> i"
  using assms by (auto simp: gone_ids_def dict_keys_def)

lemma push_kind_pushed:
  assumes law: "lawful_service cs view" and ok: "ps_error (push_kind cs stamp previous rs s) = None"
    and ids: "distinct (filter (\<lambda>i. i \<noteq> []) (map cr_id rs))"
    and known: "dict_ok previous" "\<forall>(i, w)\<in>set previous. i \<noteq> [] \<and> cr_id w = i \<and> (\<exists>c. credential_of w = Inr c \<and> view s i = Some c)"
    and rows: "\<forall>r\<in>set rs. cr_id r \<noteq> [] \<longrightarrow> cr_id r \<in> fst ` set previous"
  defines "p \<equiv> push_kind cs stamp previous rs s"
  shows "ps_gone p = gone_ids previous rs" "map cr_description (ps_rows p) = map cr_description rs"
    "\<forall>r\<in>set (ps_rows p). cr_id r \<noteq> [] \<and> cr_id r \<notin> set (gone_ids previous rs) \<and>
       (\<exists>c. credential_of r = Inr c \<and> view (ps_cluster p) (cr_id r) = Some c)"
    "\<forall>i\<in>set (gone_ids previous rs). view (ps_cluster p) i \<noteq> None"
    "\<forall>i. i \<notin> fst ` set previous \<and> view s i \<noteq> None \<longrightarrow> view (ps_cluster p) i = view s i"
proof -
  define start where "start = \<lparr>ps_error = None, ps_rows = [], ps_created = [], ps_gone = [], ps_secrets = [], ps_cluster = s\<rparr>"
  define m where "m = fold (create_row cs stamp) rs start"
  define q where "q = fold (update_row cs) (changed_rows previous rs) m"
  have push: "p = q\<lparr>ps_gone := gone_ids previous rs\<rparr>" and err: "ps_error q = None"
    using ok by (auto simp: p_def push_kind_def q_def m_def start_def Let_def split: if_splits)
  note upd = update_rows_view [OF law, of "changed_rows previous rs" m, folded q_def]
  have changed: "distinct (map cr_id (changed_rows previous rs))" "cr_id ` set (changed_rows previous rs) \<subseteq> fst ` set previous"
    using changed_rows_ids [OF ids] known(2) by fastforce+
  have new: "list_all2 (minted (view s) (view (ps_cluster m))) rs (ps_rows m)"
    using create_rows_ok [OF law, of stamp rs start] upd err by (auto simp: m_def start_def)
  have v1: "\<forall>i. view s i \<noteq> None \<longrightarrow> view (ps_cluster m) i = view s i"
    using create_rows_keep [OF law, of start] by (auto simp: m_def start_def)
  have v2: "\<forall>i. i \<notin> cr_id ` set (changed_rows previous rs) \<longrightarrow> view (ps_cluster q) i = view (ps_cluster m) i"
      "\<forall>x\<in>set (changed_rows previous rs). \<exists>c. credential_of x = Inr c \<and> view (ps_cluster q) (cr_id x) = Some c"
    using upd err changed(1) by simp_all
  have same: "ps_rows p = ps_rows m" "ps_cluster p = ps_cluster q" using push upd by simp_all
  show "ps_gone p = gone_ids previous rs" using push by simp
  show "map cr_description (ps_rows p) = map cr_description rs"
    using new by (auto simp: same list_all2_conv_all_nth minted_def intro!: nth_equalityI split: if_splits)
  show "\<forall>i\<in>set (gone_ids previous rs). view (ps_cluster p) i \<noteq> None"
    using gone_ids_listed [OF known(2)] v1 upd unfolding same by (metis (no_types))
  show "\<forall>i. i \<notin> fst ` set previous \<and> view s i \<noteq> None \<longrightarrow> view (ps_cluster p) i = view s i"
    using changed(2) v1 v2(1) unfolding same by (metis (no_types) subsetD)
  show "\<forall>r\<in>set (ps_rows p). cr_id r \<noteq> [] \<and> cr_id r \<notin> set (gone_ids previous rs) \<and>
      (\<exists>c. credential_of r = Inr c \<and> view (ps_cluster p) (cr_id r) = Some c)"
  proof
    fix r' assume "r' \<in> set (ps_rows p)"
    then obtain r where r: "r \<in> set rs" "minted (view s) (view (ps_cluster m)) r r'"
      using new by (metis (no_types) same(1) in_set_conv_nth list_all2_conv_all_nth)
    have "cr_id r \<noteq> [] \<longrightarrow> cr_id r \<in> fst ` set previous" using rows r(1) by blast
    from minted_mirrors [OF r(2,1) known this ids v1 v2]
    show "cr_id r' \<noteq> [] \<and> cr_id r' \<notin> set (gone_ids previous rs) \<and>
        (\<exists>c. credential_of r' = Inr c \<and> view (ps_cluster p) (cr_id r') = Some c)"
      using r gone_ids_listed [OF known(2)] by (fastforce simp: same minted_def split: if_splits)
  qed
qed



end
