(* ===== verification/Directory.thy ===== *)
theory Directory
  imports Addresses Credentials "HOL-Library.Multiset"
begin

text \<open>
  The documents of a tenant's mail directory: Mail Account, Mail Group and Mailing List
  (src/suite_cloud/mail/doctype), what they share (src/suite_cloud/mail/tenancy/sync.py), and the
  limits of the Suite Tenant they count against.

  The three DocTypes live in one list of entries; a field a DocType does not have is left at its
  blank value.  A document is named after its address, which cannot change once it is saved.  The
  clusters are one state \<open>'s\<close>; \<open>client_for\<close> gives the client of a cluster.
\<close>

section \<open>State\<close>

record entry =
  e_doctype :: doctype
  e_email :: string
  e_tenant :: string
  e_domain :: string
  e_cluster :: string
  e_stalwart_id :: "string option"
  e_aliases :: "alias_row list"
  e_description :: string
  e_quotas :: quota_rows
  e_disable_receiving :: bool
  e_enabled :: bool
  e_display_name :: string
  e_locale :: string
  e_time_zone :: string
  e_daily_send_limit :: int
  e_monthly_send_limit :: int
  e_groups :: "string list"
  e_skip_outbound_scan :: bool
  e_creds :: "kind \<Rightarrow> cred_row list"
  e_baseline :: "kind \<Rightarrow> cred_row list option"
  e_lifted :: "string list"

record tenant =
  tn_name :: string
  tn_user :: string
  tn_title :: string
  tn_contact_email :: string
  tn_type :: string
  tn_status :: string
  tn_enabled :: bool
  tn_archived :: bool
  tn_cluster :: string
  tn_egress_pool :: string
  tn_max_domains :: int
  tn_max_accounts :: int
  tn_max_groups :: int
  tn_max_mailing_lists :: int
  tn_max_disk_gb :: rat
  tn_default_daily_send_limit :: int
  tn_default_monthly_send_limit :: int
  tn_allowed_ips :: string

record cluster_row =
  k_name :: string
  k_enabled :: bool
  k_status :: string
  k_max_daily_send_limit :: int
  k_max_monthly_send_limit :: int
  k_region :: string
  k_is_default :: bool
  k_egress_pool :: string
  k_dns_zone :: string
  k_default_domain :: string
  k_hostname :: string

record recipient =
  r_list :: string
  r_email :: string
  r_enabled :: bool
  r_tenant :: string

record directory =
  entries :: "entry list"
  base :: address_book
  tenants :: "tenant list"
  cluster_rows :: "cluster_row list"
  recipients :: "recipient list"

text \<open>The tables the address rules read.\<close>

definition book :: "directory \<Rightarrow> address_book" where
  "book db = (base db)\<lparr>addresses := map (\<lambda>e. (e_doctype e, e_email e)) (entries db),
     alias_rows := concat (map (\<lambda>e. map (\<lambda>a. (e_doctype e, e_email e, al_email a)) (e_aliases e)) (entries db))\<rparr>"

definition get_entry :: "directory \<Rightarrow> doctype \<Rightarrow> string \<Rightarrow> entry option" where
  "get_entry db dt name = find (\<lambda>e. e_doctype e = dt \<and> e_email e = name) (entries db)"

definition get_tenant :: "directory \<Rightarrow> string \<Rightarrow> tenant res" where
  "get_tenant db name = (case find (\<lambda>t. tn_name t = name) (tenants db) of None \<Rightarrow> Inl (DoesNotExistError name) | Some t \<Rightarrow> Inr t)"

definition get_cluster :: "directory \<Rightarrow> string \<Rightarrow> cluster_row res" where
  "get_cluster db name = (case find (\<lambda>k. k_name k = name) (cluster_rows db) of None \<Rightarrow> Inl (DoesNotExistError name) | Some k \<Rightarrow> Inr k)"

section \<open>Tenant limits\<close>

definition entry_count :: "directory \<Rightarrow> doctype \<Rightarrow> string \<Rightarrow> nat" where
  "entry_count db dt tenant = length (filter (\<lambda>e. e_doctype e = dt \<and> e_tenant e = tenant) (entries db))"

definition domain_count :: "directory \<Rightarrow> string \<Rightarrow> nat" where
  "domain_count db tenant = length (filter (\<lambda>d. d_tenant d = tenant) (domains (base db)))"

text \<open>A limit of 0 means unlimited.\<close>

definition assert_within_limit :: "tenant \<Rightarrow> int \<Rightarrow> nat \<Rightarrow> unit res" where
  "assert_within_limit t limit current = require (\<not> (limit \<noteq> 0 \<and> int current \<ge> limit)) (ValidationError (tn_name t))"

fun max_entries :: "tenant \<Rightarrow> doctype \<Rightarrow> int" where
  "max_entries t Mail_Account = tn_max_accounts t"
| "max_entries t Mail_Group = tn_max_groups t"
| "max_entries t Mailing_List = tn_max_mailing_lists t"

definition assert_can_add :: "directory \<Rightarrow> tenant \<Rightarrow> doctype \<Rightarrow> unit res" where
  "assert_can_add db t dt = assert_within_limit t (max_entries t dt) (entry_count db dt (tn_name t))"

definition assert_can_add_domain :: "directory \<Rightarrow> tenant \<Rightarrow> unit res" where
  "assert_can_add_domain db t = assert_within_limit t (tn_max_domains t) (domain_count db (tn_name t))"

section \<open>Validation\<close>

text \<open>The address rules' outside code: the IDNA codec and Frappe's address check.\<close>

record rules =
  idna :: "string \<Rightarrow> string option"
  frappe_validate_email :: "string \<Rightarrow> bool"
  is_dummy_password :: "string \<Rightarrow> bool"

definition check_address :: "rules \<Rightarrow> string \<Rightarrow> string res" where
  "check_address R = validate_email_address (idna R) (frappe_validate_email R)"

text \<open>The first lines of each \<open>validate\<close>: the address, and the domain it places the document on.\<close>

definition place_entry :: "rules \<Rightarrow> directory \<Rightarrow> entry \<Rightarrow> (entry \<times> mail_domain) res" where
  "place_entry R db e =
     rbind (check_address R (e_email e)) (\<lambda>email.
     rbind (if e_tenant e \<noteq> [] then get_tenant_domain (idna R) (book db) (e_tenant e) (domain_part email)
            else case find_domain (domain_part email) (domains (base db)) of
                   None \<Rightarrow> Inl (DoesNotExistError (domain_part email)) | Some d \<Rightarrow> Inr d) (\<lambda>d.
       Inr (e\<lparr>e_email := email, e_domain := d_name d, e_tenant := d_tenant d, e_cluster := d_cluster d\<rparr>, d)))"

fun validate_alias_rows :: "rules \<Rightarrow> directory \<Rightarrow> entry \<Rightarrow> string list \<Rightarrow> alias_row list \<Rightarrow> alias_row list res" where
  "validate_alias_rows R db e seen [] = Inr []"
| "validate_alias_rows R db e seen (row # rows) =
     rbind (check_address R (al_email row)) (\<lambda>alias_email.
       if alias_email = e_email e then Inl (ValidationError alias_email)
       else if alias_email \<in> set seen then Inl (ValidationError alias_email)
       else if map_option d_tenant (find_domain (domain_part alias_email) (domains (base db))) \<noteq> Some (e_tenant e)
       then Inl (ValidationError (domain_part alias_email))
       else rbind (assert_address_available (book db) alias_email (Some (e_doctype e, e_email e))) (\<lambda>_.
            rbind (validate_alias_rows R db e (alias_email # seen) rows) (\<lambda>rows.
              Inr (row\<lparr>al_email := alias_email\<rparr> # rows))))"

definition validate_aliases :: "rules \<Rightarrow> directory \<Rightarrow> entry \<Rightarrow> entry res" where
  "validate_aliases R db e = rbind (validate_alias_rows R db e [] (e_aliases e)) (\<lambda>rows. Inr (e\<lparr>e_aliases := rows\<rparr>))"

definition assert_free :: "directory \<Rightarrow> bool \<Rightarrow> entry \<Rightarrow> unit res" where
  "assert_free db is_new e =
     assert_address_available (book db) (e_email e) (if is_new then None else Some (e_doctype e, e_email e))"

definition validate_entry_send_limits :: "directory \<Rightarrow> bool \<Rightarrow> tenant \<Rightarrow> entry \<Rightarrow> entry res" where
  "validate_entry_send_limits db is_new t e =
     (let e = (if is_new
               then e\<lparr>e_daily_send_limit := (if e_daily_send_limit e \<noteq> 0 then e_daily_send_limit e else tn_default_daily_send_limit t),
                      e_monthly_send_limit := (if e_monthly_send_limit e \<noteq> 0 then e_monthly_send_limit e else tn_default_monthly_send_limit t)\<rparr>
               else e)
      in rbind (get_cluster db (e_cluster e)) (\<lambda>k.
         rbind (require (1 \<le> e_daily_send_limit e \<and> e_daily_send_limit e \<le> k_max_daily_send_limit k)
                  (ValidationError ''daily_send_limit'')) (\<lambda>_.
         rbind (require (1 \<le> e_monthly_send_limit e \<and> e_monthly_send_limit e \<le> k_max_monthly_send_limit k)
                  (ValidationError ''monthly_send_limit'')) (\<lambda>_. Inr e))))"

fun validate_group_rows :: "directory \<Rightarrow> string \<Rightarrow> string list \<Rightarrow> string list \<Rightarrow> unit res" where
  "validate_group_rows db tenant seen [] = Inr ()"
| "validate_group_rows db tenant seen (g # gs) =
     (if g \<in> set seen then Inl (ValidationError g)
      else if map_option e_tenant (get_entry db Mail_Group g) \<noteq> Some tenant then Inl (ValidationError g)
      else validate_group_rows db tenant (g # seen) gs)"

definition cred_doc_of :: "entry \<Rightarrow> cred_doc" where
  "cred_doc_of e = \<lparr>cd_rows = e_creds e, cd_baseline = e_baseline e, cd_quotas = e_quotas e, cd_lifted = e_lifted e,
     cd_stalwart_id = e_stalwart_id e, cd_enabled = e_enabled e\<rparr>"

definition with_creds :: "entry \<Rightarrow> cred_doc \<Rightarrow> entry" where
  "with_creds e d = e\<lparr>e_creds := cd_rows d, e_baseline := cd_baseline d, e_quotas := cd_quotas d\<rparr>"

definition MIN_PASSWORD_LENGTH :: nat where "MIN_PASSWORD_LENGTH = 8"

definition validate_password :: "string \<Rightarrow> unit res" where
  "validate_password p = require (p \<noteq> [] \<and> length p \<ge> MIN_PASSWORD_LENGTH) (ValidationError ''password'')"

definition take_password :: "rules \<Rightarrow> string \<Rightarrow> string option res" where
  "take_password R new_password =
     (if new_password \<noteq> [] \<and> \<not> is_dummy_password R new_password
      then rbind (validate_password new_password) (\<lambda>_. Inr (Some new_password)) else Inr None)"

definition fix_locale :: "string \<Rightarrow> string" where
  "fix_locale l = map (\<lambda>c. if c = CHR ''_'' then CHR ''-'' else c) (if l \<noteq> [] then l else DEFAULT_LOCALE)"

definition validate_account ::
  "rules \<Rightarrow> (kind \<Rightarrow> live_cred list res) \<Rightarrow> directory \<Rightarrow> bool \<Rightarrow> entry option \<Rightarrow> entry \<Rightarrow> entry res" where
  "validate_account R live db adopting before e =
     (let is_new = (before = None) in
      rbind (place_entry R db e) (\<lambda>(e, d).
      rbind (if is_new \<and> \<not> adopting then assert_domain_live d else Inr ()) (\<lambda>_.
      let e = e\<lparr>e_locale := fix_locale (e_locale e)\<rparr> in
      rbind (get_tenant db (e_tenant e)) (\<lambda>t.
      rbind (validate_entry_send_limits db is_new t e) (\<lambda>e.
      rbind (if is_new \<and> \<not> adopting
             then rbind (assert_can_add db t Mail_Account) (\<lambda>_. Inr (with_creds e (apply_default_limits (cred_doc_of e))))
             else Inr e) (\<lambda>e.
      rbind (validate_quotas (e_quotas e)) (\<lambda>_.
      rbind (assert_free db is_new e) (\<lambda>_.
      rbind (validate_aliases R db e) (\<lambda>e.
      rbind (validate_group_rows db (e_tenant e) [] (e_groups e)) (\<lambda>_.
      if adopting then Inr e
      else rbind (validate_credential_rows live (map_option cred_doc_of before) (cred_doc_of e))
             (\<lambda>c. Inr (with_creds e c))))))))))))"

definition validate_group :: "rules \<Rightarrow> directory \<Rightarrow> bool \<Rightarrow> entry option \<Rightarrow> entry \<Rightarrow> entry res" where
  "validate_group R db adopting before e =
     (let is_new = (before = None) in
      rbind (place_entry R db e) (\<lambda>(e, d).
      rbind (if is_new \<and> \<not> adopting then assert_domain_live d else Inr ()) (\<lambda>_.
      rbind (get_tenant db (e_tenant e)) (\<lambda>t.
      rbind (if is_new \<and> \<not> adopting then assert_can_add db t Mail_Group else Inr ()) (\<lambda>_.
      rbind (validate_quotas (e_quotas e)) (\<lambda>_.
      rbind (assert_free db is_new e) (\<lambda>_.
        validate_aliases R db e)))))))"

definition validate_mailing_list :: "rules \<Rightarrow> directory \<Rightarrow> bool \<Rightarrow> entry option \<Rightarrow> entry \<Rightarrow> entry res" where
  "validate_mailing_list R db adopting before e =
     (let is_new = (before = None) in
      rbind (place_entry R db e) (\<lambda>(e, d).
      rbind (if is_new \<and> \<not> adopting
             then rbind (assert_domain_live d) (\<lambda>_. rbind (get_tenant db (e_tenant e)) (\<lambda>t. assert_can_add db t Mailing_List))
             else Inr ()) (\<lambda>_.
      rbind (assert_free db is_new e) (\<lambda>_.
        validate_aliases R db e))))"

definition validate_entry ::
  "rules \<Rightarrow> (kind \<Rightarrow> live_cred list res) \<Rightarrow> directory \<Rightarrow> bool \<Rightarrow> entry option \<Rightarrow> entry \<Rightarrow> entry res" where
  "validate_entry R live db adopting before e =
     (case e_doctype e of
        Mail_Account \<Rightarrow> validate_account R live db adopting before e
      | Mail_Group \<Rightarrow> validate_group R db adopting before e
      | Mailing_List \<Rightarrow> validate_mailing_list R db adopting before e)"

section \<open>The cluster\<close>

record 's client =
  cl_call :: "'s jmap"
  cl_accounts :: service
  cl_groups :: service
  cl_mailing_lists :: service
  cl_roles :: service
  cl_lookup_keys :: service
  cl_reload_lookup_stores :: "'s \<Rightarrow> exn + 's"
  cl_credentials :: "string \<Rightarrow> kind \<Rightarrow> 's cred_service"

definition service_of :: "'s client \<Rightarrow> doctype \<Rightarrow> service" where
  "service_of c dt = (case dt of Mail_Account \<Rightarrow> cl_accounts c | Mail_Group \<Rightarrow> cl_groups c | Mailing_List \<Rightarrow> cl_mailing_lists c)"

definition push_create :: "(string \<Rightarrow> 's client) \<Rightarrow> entry \<Rightarrow> json \<Rightarrow> 's \<Rightarrow> exn + (entry \<times> 's)" where
  "push_create client_for e payload s =
     (let c = client_for (e_cluster e) in
      rbind (screate (cl_call c) (service_of c (e_doctype e)) payload s)
        (\<lambda>(created, s'). Inr (e\<lparr>e_stalwart_id := Some (jstr (jget ''id'' created))\<rparr>, s')))"

definition stalwart_id :: "entry \<Rightarrow> string" where
  "stalwart_id e = (case e_stalwart_id e of None \<Rightarrow> [] | Some i \<Rightarrow> i)"

definition push_update :: "(string \<Rightarrow> 's client) \<Rightarrow> entry \<Rightarrow> (string \<times> json) list \<Rightarrow> 's \<Rightarrow> exn + 's" where
  "push_update client_for e patch s =
     (let c = client_for (e_cluster e) in supdate (cl_call c) (service_of c (e_doctype e)) (stalwart_id e) patch s)"

text \<open>A missing object is fine: Suite Cloud is deleting it anyway.  Groups clear their members first.\<close>

definition push_destroy :: "(string \<Rightarrow> 's client) \<Rightarrow> entry \<Rightarrow> 's \<Rightarrow> exn + 's" where
  "push_destroy client_for e s =
     (let c = client_for (e_cluster e);
          delete = (if e_doctype e = Mail_Group then delete_groups else sdelete) in
      if stalwart_id e = [] then Inr s
      else case delete (cl_call c) (service_of c (e_doctype e)) [stalwart_id e] s of
             Inl err \<Rightarrow> if err = StalwartRejected ''notFound'' then Inr s else Inl err
           | Inr s' \<Rightarrow> Inr s')"

definition domain_stalwart_id :: "directory \<Rightarrow> string \<Rightarrow> string res" where
  "domain_stalwart_id db name =
     (case find_domain name (domains (base db)) of
        Some d \<Rightarrow> (case d_stalwart_id d of Some i \<Rightarrow> if i \<noteq> [] then Inr i else Inl (ValidationError name)
                                         | None \<Rightarrow> Inl (ValidationError name))
      | None \<Rightarrow> Inl (ValidationError name))"

definition str_or_none :: "string \<Rightarrow> string option" where
  "str_or_none s = (if s = [] then None else Some s)"

definition email_aliases :: "directory \<Rightarrow> entry \<Rightarrow> email_alias list res" where
  "email_aliases db e =
     rmap (\<lambda>row. rbind (domain_stalwart_id db (domain_part (al_email row))) (\<lambda>i.
             Inr \<lparr>ea_name = local_part (al_email row), ea_domain_id = i, ea_enabled = al_enabled row,
                  ea_description = str_or_none (al_description row)\<rparr>)) (e_aliases e)"

definition aliases_payload :: "directory \<Rightarrow> entry \<Rightarrow> json res" where
  "aliases_payload db e = rbind (email_aliases db e) (\<lambda>xs. Inr (indexed (map alias_to_dict xs)))"

text \<open>The code compares sorted lists: equal exactly when the lists are permutations.\<close>

definition aliases_changed :: "entry \<Rightarrow> entry \<Rightarrow> bool" where
  "aliases_changed before after =
     (let key = (\<lambda>e. mset (map (\<lambda>a. (al_email a, al_enabled a, al_description a)) (e_aliases e)))
      in key before \<noteq> key after)"

definition disabled_permissions :: "entry \<Rightarrow> string list" where
  "disabled_permissions e = (if e_disable_receiving e then [RECEIVE_PERMISSION] else [])"

definition receiving_permissions :: "(string \<Rightarrow> 's client) \<Rightarrow> entry \<Rightarrow> 's \<Rightarrow> exn + (json \<times> 's)" where
  "receiving_permissions client_for e s =
     (let c = client_for (e_cluster e) in
      changed_permissions (cl_call c) (service_of c (e_doctype e)) (stalwart_id e) RECEIVE_PERMISSION (e_disable_receiving e) s)"

definition group_ids :: "directory \<Rightarrow> entry \<Rightarrow> string list res" where
  "group_ids db e =
     rmap (\<lambda>g. case get_entry db Mail_Group g of
                 Some ge \<Rightarrow> if stalwart_id ge \<noteq> [] then Inr (stalwart_id ge) else Inl (ValidationError g)
               | None \<Rightarrow> Inl (ValidationError g)) (e_groups e)"

definition account_object_of :: "directory \<Rightarrow> string \<Rightarrow> entry \<Rightarrow> account_object res" where
  "account_object_of db password e =
     rbind (domain_stalwart_id db (e_domain e)) (\<lambda>domain_id.
     rbind (group_ids db e) (\<lambda>gids.
     rbind (email_aliases db e) (\<lambda>als.
       Inr \<lparr>ao_name = local_part (e_email e), ao_domain_id = domain_id, ao_password = Some password,
            ao_member_group_ids = gids, ao_role_ids = [], ao_disabled_permissions = disabled_permissions e, ao_aliases = als,
            ao_description = str_or_none (e_display_name e), ao_locale = (if e_locale e \<noteq> [] then e_locale e else DEFAULT_LOCALE),
            ao_time_zone = str_or_none (e_time_zone e), ao_disk_quota_bytes = None, ao_quotas = quota_map (e_quotas e)\<rparr>)))"

definition group_object_of :: "directory \<Rightarrow> entry \<Rightarrow> group_object res" where
  "group_object_of db e =
     rbind (domain_stalwart_id db (e_domain e)) (\<lambda>domain_id.
     rbind (email_aliases db e) (\<lambda>als.
       Inr \<lparr>go_name = local_part (e_email e), go_domain_id = domain_id, go_description = str_or_none (e_description e),
            go_disabled_permissions = disabled_permissions e, go_aliases = als, go_disk_quota_bytes = None,
            go_quotas = quota_map (e_quotas e)\<rparr>))"

definition list_object_of :: "directory \<Rightarrow> entry \<Rightarrow> string list \<Rightarrow> list_object res" where
  "list_object_of db e emails =
     rbind (domain_stalwart_id db (e_domain e)) (\<lambda>domain_id.
     rbind (email_aliases db e) (\<lambda>als.
       Inr \<lparr>lo_name = local_part (e_email e), lo_domain_id = domain_id, lo_description = str_or_none (e_description e),
            lo_aliases = als, lo_recipients = emails\<rparr>))"

section \<open>Trusted senders\<close>

definition EXEMPT_NAMESPACE :: string where "EXEMPT_NAMESPACE = ''suite-cloud-outbound-scan-exempt''"

definition lookup_key :: "string \<Rightarrow> json" where
  "lookup_key email = JObj [(''namespace'', JStr EXEMPT_NAMESPACE), (''key'', JStr email), (''isGlobPattern'', JBool False)]"

definition get_exempt_keys :: "'s client \<Rightarrow> 's \<Rightarrow> exn + ((string, string) dict \<times> 's)" where
  "get_exempt_keys c s =
     rbind (get_all (cl_call c) (cl_lookup_keys c) (JObj [(''namespace'', JStr EXEMPT_NAMESPACE)]) JNull JNull None s)
       (\<lambda>(found, s'). Inr (dict_of (map (\<lambda>k. (jstr (jget ''key'' k), jstr (jget ''id'' k))) found), s'))"

definition set_exempt :: "'s client \<Rightarrow> string \<Rightarrow> bool \<Rightarrow> 's \<Rightarrow> exn + 's" where
  "set_exempt c email is_exempt s =
     rbind (get_exempt_keys c s) (\<lambda>(keys, s).
       case map_of keys email of
         None \<Rightarrow> if is_exempt
                 then rbind (screate (cl_call c) (cl_lookup_keys c) (lookup_key email) s) (\<lambda>(_, s). cl_reload_lookup_stores c s)
                 else Inr s
       | Some i \<Rightarrow> if \<not> is_exempt
                  then rbind (sdelete (cl_call c) (cl_lookup_keys c) [i] s) (cl_reload_lookup_stores c)
                  else Inr s)"

definition get_exempt_accounts :: "directory \<Rightarrow> string \<Rightarrow> string list" where
  "get_exempt_accounts db cluster =
     map e_email (filter (\<lambda>e. e_doctype e = Mail_Account \<and> e_cluster e = cluster \<and> e_skip_outbound_scan e) (entries db))"

definition sync_exempt_accounts :: "directory \<Rightarrow> string \<Rightarrow> 's client \<Rightarrow> 's \<Rightarrow> exn + (bool \<times> 's)" where
  "sync_exempt_accounts db cluster c s =
     rbind (get_exempt_keys c s) (\<lambda>(keys, s).
       let wanted = get_exempt_accounts db cluster;
           missing = sort (fromkeys (filter (\<lambda>email. map_of keys email = None) wanted));
           extra = map snd (filter (\<lambda>(email, _). email \<notin> set wanted) keys) in
       rbind (rfold (\<lambda>email s. rbind (screate (cl_call c) (cl_lookup_keys c) (lookup_key email) s) (\<lambda>(_, s). Inr s)) missing s) (\<lambda>s.
       rbind (if extra \<noteq> [] then sdelete (cl_call c) (cl_lookup_keys c) extra s else Inr s) (\<lambda>s.
         if missing = [] \<and> extra = [] then Inr (False, s)
         else rbind (cl_reload_lookup_stores c s) (\<lambda>s. Inr (True, s)))))"

section \<open>Pushing an account\<close>

definition DISABLED_ROLE_DESCRIPTION :: string where "DISABLED_ROLE_DESCRIPTION = ''suite-disabled''"

definition push_enabled :: "(string \<Rightarrow> 's client) \<Rightarrow> entry \<Rightarrow> 's \<Rightarrow> exn + 's" where
  "push_enabled client_for e s =
     (let c = client_for (e_cluster e) in
      if e_enabled e then set_roles (cl_call c) (cl_accounts c) (stalwart_id e) [] s
      else rbind (find_local (cl_call c) (cl_roles c) [(''description'', JStr DISABLED_ROLE_DESCRIPTION)] s) (\<lambda>(role, s).
        case role of
          None \<Rightarrow> Inl (ValidationError DISABLED_ROLE_DESCRIPTION)
        | Some r \<Rightarrow> set_roles (cl_call c) (cl_accounts c) (stalwart_id e) [jstr (jget ''id'' r)] s))"

definition push_scan_exemption :: "(string \<Rightarrow> 's client) \<Rightarrow> entry \<Rightarrow> bool \<Rightarrow> 's \<Rightarrow> exn + 's" where
  "push_scan_exemption client_for e is_exempt s = set_exempt (client_for (e_cluster e)) (e_email e) is_exempt s"

definition set_entry_password :: "(string \<Rightarrow> 's client) \<Rightarrow> entry \<Rightarrow> string \<Rightarrow> 's \<Rightarrow> exn + 's" where
  "set_entry_password client_for e password s =
     rbind (validate_password password) (\<lambda>_.
       let c = client_for (e_cluster e) in set_password (cl_call c) (cl_accounts c) (stalwart_id e) password s)"

text \<open>
  A save's work on the cluster: an error, if one stopped it, the document as it then is, the hooks
  it left for the database (ids to revoke should it roll back, ids to revoke once it commits), and
  the cluster.
\<close>

record 's saving =
  sa_error :: "exn option"
  sa_entry :: entry
  sa_on_rollback :: "(kind \<times> string list) list"
  sa_on_commit :: "(kind \<times> string list) list"
  sa_cluster :: 's

definition sstep :: "(entry \<Rightarrow> 's \<Rightarrow> exn + 's) \<Rightarrow> 's saving \<Rightarrow> 's saving" where
  "sstep f a =
     (if sa_error a \<noteq> None then a
      else case f (sa_entry a) (sa_cluster a) of
             Inl err \<Rightarrow> a\<lparr>sa_error := Some err\<rparr>
           | Inr s' \<Rightarrow> a\<lparr>sa_cluster := s'\<rparr>)"

definition push_credentials_of ::
  "rules \<Rightarrow> (string \<Rightarrow> 's client) \<Rightarrow> string \<Rightarrow> entry option \<Rightarrow> kind \<Rightarrow> 's saving \<Rightarrow> 's saving" where
  "push_credentials_of R client_for stamp before k a =
     (if sa_error a \<noteq> None then a
      else let e = sa_entry a;
               cs = cl_credentials (client_for (e_cluster e)) (e_email e) k;
               p = push_kind cs stamp (baseline (cred_doc_of e) (map_option cred_doc_of before) k) (e_creds e k) (sa_cluster a)
           in a\<lparr>sa_error := ps_error p, sa_entry := e\<lparr>e_creds := (e_creds e)(k := ps_rows p)\<rparr>,
                sa_on_rollback := sa_on_rollback a @ [(k, ps_created p)], sa_on_commit := sa_on_commit a @ [(k, ps_gone p)],
                sa_cluster := ps_cluster p\<rparr>)"

definition push_credentials ::
  "rules \<Rightarrow> (string \<Rightarrow> 's client) \<Rightarrow> string \<Rightarrow> entry option \<Rightarrow> 's saving \<Rightarrow> 's saving" where
  "push_credentials R client_for stamp before a = fold (push_credentials_of R client_for stamp before) KINDS a"

definition start_saving :: "entry \<Rightarrow> 's \<Rightarrow> 's saving" where
  "start_saving e s = \<lparr>sa_error = None, sa_entry = e, sa_on_rollback = [], sa_on_commit = [], sa_cluster = s\<rparr>"

text \<open>
  \<open>MailAccount.after_insert\<close>: once the account exists on the cluster, anything that fails takes it
  down again.  \<open>password\<close> is the one typed in or the one generated.
\<close>

definition finish_account :: "rules \<Rightarrow> (string \<Rightarrow> 's client) \<Rightarrow> string \<Rightarrow> 's saving \<Rightarrow> 's saving" where
  "finish_account R client_for stamp a =
     (let a = push_credentials R client_for stamp None a;
          a = (if e_enabled (sa_entry a) then a else sstep (push_enabled client_for) a)
      in if e_skip_outbound_scan (sa_entry a) then sstep (\<lambda>e. push_scan_exemption client_for e True) a else a)"

definition after_insert_account ::
  "rules \<Rightarrow> (string \<Rightarrow> 's client) \<Rightarrow> directory \<Rightarrow> string \<Rightarrow> string \<Rightarrow> entry \<Rightarrow> 's \<Rightarrow> 's saving" where
  "after_insert_account R client_for db stamp password e s =
     (case rbind (account_object_of db password e) (\<lambda>obj. push_create client_for e (account_to_dict obj) s) of
        Inl err \<Rightarrow> (start_saving e s)\<lparr>sa_error := Some err\<rparr>
      | Inr (e', s') \<Rightarrow>
          let a = finish_account R client_for stamp (start_saving e' s') in
          if sa_error a = None then a
          else case push_destroy client_for e' (sa_cluster a) of
                 Inl err \<Rightarrow> a\<lparr>sa_error := Some err\<rparr>
               | Inr s'' \<Rightarrow> a\<lparr>sa_cluster := s''\<rparr>)"

definition after_insert_entry ::
  "rules \<Rightarrow> (string \<Rightarrow> 's client) \<Rightarrow> directory \<Rightarrow> string \<Rightarrow> string \<Rightarrow> entry \<Rightarrow> 's \<Rightarrow> 's saving" where
  "after_insert_entry R client_for db stamp password e s =
     (let created = (\<lambda>payload. case rbind payload (\<lambda>p. push_create client_for e p s) of
             Inl err \<Rightarrow> (start_saving e s)\<lparr>sa_error := Some err\<rparr>
           | Inr (e', s') \<Rightarrow> start_saving e' s') in
      case e_doctype e of
        Mail_Account \<Rightarrow> after_insert_account R client_for db stamp password e s
      | Mail_Group \<Rightarrow> created (rbind (group_object_of db e) (\<lambda>g. Inr (group_to_dict g)))
      | Mailing_List \<Rightarrow> created (rbind (list_object_of db e
            (sort (map r_email (filter (\<lambda>r. r_list r = e_email e \<and> r_enabled r) (recipients db))))) (\<lambda>l. Inr (list_to_dict l))))"

text \<open>The patch of each \<open>on_update\<close>, in the order the keys are added; a blank field is null.\<close>

definition patch_if :: "bool \<Rightarrow> string \<Rightarrow> json \<Rightarrow> (string \<times> json) list" where
  "patch_if c key v = (if c then [(key, v)] else [])"

definition alias_patch :: "directory \<Rightarrow> entry \<Rightarrow> entry \<Rightarrow> (string \<times> json) list res" where
  "alias_patch db before e =
     (if aliases_changed before e then rbind (aliases_payload db e) (\<lambda>p. Inr [(''aliases'', p)]) else Inr [])"

definition group_patch :: "directory \<Rightarrow> entry \<Rightarrow> entry \<Rightarrow> (string \<times> json) list res" where
  "group_patch db before e =
     (if sort (e_groups before) \<noteq> sort (e_groups e)
      then rbind (group_ids db e) (\<lambda>gids. Inr [(''memberGroupIds'', id_set gids)]) else Inr [])"

definition receiving_patch :: "(string \<Rightarrow> 's client) \<Rightarrow> entry \<Rightarrow> entry \<Rightarrow> 's \<Rightarrow> exn + ((string \<times> json) list \<times> 's)" where
  "receiving_patch client_for before e s =
     (if e_disable_receiving before \<noteq> e_disable_receiving e
      then rbind (receiving_permissions client_for e s) (\<lambda>(p, s'). Inr ([(''permissions'', p)], s')) else Inr ([], s))"

definition update_patch ::
  "(string \<Rightarrow> 's client) \<Rightarrow> directory \<Rightarrow> entry \<Rightarrow> entry \<Rightarrow> 's \<Rightarrow> exn + ((string \<times> json) list \<times> 's)" where
  "update_patch client_for db before e s =
     (let quota_patch = patch_if (quotas_changed (e_quotas before) (e_quotas e)) ''quotas'' (json_counts (quota_map (e_quotas e)));
          text_patch = patch_if (e_description before \<noteq> e_description e) ''description'' (jopt (str_or_none (e_description e))) in
      case e_doctype e of
        Mail_Account \<Rightarrow>
          rbind (alias_patch db before e) (\<lambda>ap. rbind (group_patch db before e) (\<lambda>gp.
          rbind (receiving_patch client_for before e s) (\<lambda>(rp, s'). Inr (
            patch_if (e_display_name before \<noteq> e_display_name e) ''description'' (jopt (str_or_none (e_display_name e))) @
            patch_if (e_locale before \<noteq> e_locale e) ''locale'' (JStr (e_locale e)) @
            patch_if (e_time_zone before \<noteq> e_time_zone e) ''timeZone'' (jopt (str_or_none (e_time_zone e))) @
            quota_patch @ ap @ gp @ rp, s'))))
      | Mail_Group \<Rightarrow>
          rbind (alias_patch db before e) (\<lambda>ap.
          rbind (receiving_patch client_for before e s) (\<lambda>(rp, s'). Inr (text_patch @ quota_patch @ ap @ rp, s')))
      | Mailing_List \<Rightarrow> rbind (alias_patch db before e) (\<lambda>ap. Inr (text_patch @ ap, s)))"

definition push_patch :: "(string \<Rightarrow> 's client) \<Rightarrow> directory \<Rightarrow> entry \<Rightarrow> entry \<Rightarrow> 's \<Rightarrow> exn + 's" where
  "push_patch client_for db before e s =
     rbind (update_patch client_for db before e s) (\<lambda>(patch, s').
       if patch = [] then Inr s' else push_update client_for e patch s')"

text \<open>\<open>on_update\<close> of a saved document; a password set in the form goes last.\<close>

definition on_update_entry ::
  "rules \<Rightarrow> (string \<Rightarrow> 's client) \<Rightarrow> directory \<Rightarrow> string \<Rightarrow> string option \<Rightarrow> entry \<Rightarrow> entry \<Rightarrow> 's \<Rightarrow> 's saving" where
  "on_update_entry R client_for db stamp password before e s =
     (let a = start_saving e s in
      if stalwart_id e = [] then a
      else if e_doctype e \<noteq> Mail_Account then sstep (push_patch client_for db before) a
      else
        let a = (if e_skip_outbound_scan before \<noteq> e_skip_outbound_scan e
                 then sstep (\<lambda>e. push_scan_exemption client_for e (e_skip_outbound_scan e)) a else a);
            a = sstep (push_patch client_for db before) a;
            a = push_credentials R client_for stamp (Some before) a;
            a = (if e_enabled before \<noteq> e_enabled e then sstep (push_enabled client_for) a else a)
        in case password of None \<Rightarrow> a | Some p \<Rightarrow> sstep (\<lambda>e. set_entry_password client_for e p) a)"

section \<open>Documents in the database\<close>

text \<open>
  A request that fails anywhere is rolled back: only a save without error reaches the tables.
  \<open>adopting\<close> records what the cluster already holds, without the new-document checks or a push.
\<close>

definition insert_entry ::
  "rules \<Rightarrow> (string \<Rightarrow> 's client) \<Rightarrow> string \<Rightarrow> string \<Rightarrow> bool \<Rightarrow> entry \<Rightarrow> directory \<Rightarrow> 's \<Rightarrow> exn + (directory \<times> 's saving)" where
  "insert_entry R client_for stamp password adopting e db s =
     rbind (validate_entry R (\<lambda>_. Inr []) db adopting None e) (\<lambda>e.
       let a = (if adopting then start_saving e s else after_insert_entry R client_for db stamp password e s) in
       case sa_error a of
         Some err \<Rightarrow> Inl err
       | None \<Rightarrow> Inr (db\<lparr>entries := entries db @ [sa_entry a]\<rparr>, a))"

definition put_entry :: "entry \<Rightarrow> entry list \<Rightarrow> entry list" where
  "put_entry e es = map (\<lambda>x. if e_doctype x = e_doctype e \<and> e_email x = e_email e then e else x) es"

definition save_entry ::
  "rules \<Rightarrow> (kind \<Rightarrow> live_cred list res) \<Rightarrow> (string \<Rightarrow> 's client) \<Rightarrow> string \<Rightarrow> string option \<Rightarrow> bool \<Rightarrow> entry \<Rightarrow> directory \<Rightarrow> 's
     \<Rightarrow> exn + (directory \<times> 's saving)" where
  "save_entry R live client_for stamp password adopting e db s =
     (case get_entry db (e_doctype e) (e_email e) of
        None \<Rightarrow> Inl (DoesNotExistError (e_email e))
      | Some before \<Rightarrow>
          rbind (validate_entry R live db adopting (Some before) e) (\<lambda>e'.
            if e_email e' \<noteq> e_email before then Inl (ValidationError ''email'')
            else let a = (if adopting then start_saving e' s else on_update_entry R client_for db stamp password before e' s) in
              case sa_error a of
                Some err \<Rightarrow> Inl err
              | None \<Rightarrow> Inr (db\<lparr>entries := put_entry (sa_entry a) (entries db)\<rparr>, a)))"

text \<open>Deleting a group takes it out of its members; deleting a list takes its recipients with it.\<close>

definition on_trash_entry :: "entry \<Rightarrow> directory \<Rightarrow> directory" where
  "on_trash_entry e db =
     (case e_doctype e of
        Mail_Account \<Rightarrow> db
      | Mail_Group \<Rightarrow> db\<lparr>entries := map (\<lambda>x. x\<lparr>e_groups := filter (\<lambda>g. g \<noteq> e_email e) (e_groups x)\<rparr>) (entries db)\<rparr>
      | Mailing_List \<Rightarrow> db\<lparr>recipients := filter (\<lambda>r. r_list r \<noteq> e_email e) (recipients db)\<rparr>)"

definition delete_entry :: "(string \<Rightarrow> 's client) \<Rightarrow> doctype \<Rightarrow> string \<Rightarrow> directory \<Rightarrow> 's \<Rightarrow> exn + (directory \<times> 's)" where
  "delete_entry client_for dt name db s =
     (case get_entry db dt name of
        None \<Rightarrow> Inl (DoesNotExistError name)
      | Some e \<Rightarrow>
          rbind (if dt = Mail_Account \<and> e_skip_outbound_scan e then push_scan_exemption client_for e False s else Inr s) (\<lambda>s.
          rbind (push_destroy client_for e s) (\<lambda>s.
            let db = on_trash_entry e db in
            Inr (db\<lparr>entries := filter (\<lambda>x. \<not> (e_doctype x = dt \<and> e_email x = name)) (entries db)\<rparr>, s))))"

definition set_enabled ::
  "rules \<Rightarrow> (kind \<Rightarrow> live_cred list res) \<Rightarrow> (string \<Rightarrow> 's client) \<Rightarrow> string \<Rightarrow> bool \<Rightarrow> entry \<Rightarrow> directory \<Rightarrow> 's
     \<Rightarrow> exn + (directory \<times> 's saving)" where
  "set_enabled R live client_for stamp enabled e db s =
     (if e_enabled e = enabled then Inr (db, start_saving e s)
      else save_entry R live client_for stamp None False (e\<lparr>e_enabled := enabled\<rparr>) db s)"

section \<open>Recipients of a list\<close>

definition PATCH_BATCH :: nat where "PATCH_BATCH = 1000"

definition recipient_rows :: "directory \<Rightarrow> string \<Rightarrow> recipient list" where
  "recipient_rows db name = filter (\<lambda>r. r_list r = name) (recipients db)"

definition recipient_emails :: "directory \<Rightarrow> string \<Rightarrow> bool \<Rightarrow> string list" where
  "recipient_emails db name enabled_only =
     sort (map r_email (filter (\<lambda>r. enabled_only \<longrightarrow> r_enabled r) (recipient_rows db name)))"

definition push_recipient_changes ::
  "(string \<Rightarrow> 's client) \<Rightarrow> entry \<Rightarrow> string list \<Rightarrow> string list \<Rightarrow> 's \<Rightarrow> exn + 's" where
  "push_recipient_changes client_for l added removed s =
     (if stalwart_id l = [] then Inr s
      else let changes = dict_of (map (\<lambda>e. (e, JBool True)) added @ map (\<lambda>e. (e, JNull)) removed) in
        rfold (\<lambda>batch s. push_update client_for l (map (\<lambda>(e, v). (''recipients/'' @ e, v)) batch) s)
          (chunks changes PATCH_BATCH) s)"

definition add_recipients ::
  "rules \<Rightarrow> (string \<Rightarrow> 's client) \<Rightarrow> entry \<Rightarrow> string list \<Rightarrow> bool \<Rightarrow> directory \<Rightarrow> 's \<Rightarrow> exn + (string list \<times> directory \<times> 's)" where
  "add_recipients R client_for l emails push db s =
     rbind (rmap (check_address R) emails) (\<lambda>checked.
       let wanted = fromkeys checked in
       if e_email l \<in> set wanted then Inl (ValidationError (e_email l))
       else rbind (assert_addresses_deliverable (book db) (e_tenant l) wanted) (\<lambda>_.
         let existing = map r_email (recipient_rows db (e_email l));
             candidates = filter (\<lambda>e. e \<notin> set existing) wanted;
             db = db\<lparr>recipients := recipients db @
                map (\<lambda>e. \<lparr>r_list = e_email l, r_email = e, r_enabled = True, r_tenant = e_tenant l\<rparr>) candidates\<rparr>
         in rbind (if push then push_recipient_changes client_for l candidates [] s else Inr s)
              (\<lambda>s. Inr (candidates, db, s))))"

definition remove_recipients ::
  "rules \<Rightarrow> (string \<Rightarrow> 's client) \<Rightarrow> entry \<Rightarrow> string list \<Rightarrow> directory \<Rightarrow> 's \<Rightarrow> exn + (string list \<times> directory \<times> 's)" where
  "remove_recipients R client_for l emails db s =
     rbind (rmap (check_address R) emails) (\<lambda>wanted.
       let rows = filter (\<lambda>r. r_email r \<in> set wanted) (recipient_rows db (e_email l));
           db = db\<lparr>recipients := filter (\<lambda>r. \<not> (r_list r = e_email l \<and> r_email r \<in> set wanted)) (recipients db)\<rparr>
       in rbind (push_recipient_changes client_for l [] (map r_email (filter r_enabled rows)) s)
            (\<lambda>s. Inr (map r_email rows, db, s)))"

definition set_recipients ::
  "rules \<Rightarrow> (string \<Rightarrow> 's client) \<Rightarrow> entry \<Rightarrow> string list \<Rightarrow> directory \<Rightarrow> 's \<Rightarrow> exn + (directory \<times> 's)" where
  "set_recipients R client_for l emails db s =
     rbind (rmap (check_address R) emails) (\<lambda>checked.
       let wanted = fromkeys checked;
           current = recipient_emails db (e_email l) False in
       rbind (remove_recipients R client_for l (sort (filter (\<lambda>e. e \<notin> set wanted) (fromkeys current))) db s) (\<lambda>(_, db, s).
       rbind (add_recipients R client_for l (sort (filter (\<lambda>e. e \<notin> set current) wanted)) True db s) (\<lambda>(_, db, s).
         Inr (db, s))))"

text \<open>A recipient edited on its own (src/suite_cloud/mail/doctype/mailing_list_recipient).\<close>

definition insert_recipient ::
  "rules \<Rightarrow> (string \<Rightarrow> 's client) \<Rightarrow> recipient \<Rightarrow> directory \<Rightarrow> 's \<Rightarrow> exn + (directory \<times> 's)" where
  "insert_recipient R client_for r db s =
     rbind (check_address R (r_email r)) (\<lambda>email.
       case get_entry db Mailing_List (r_list r) of
         None \<Rightarrow> Inl (DoesNotExistError (r_list r))
       | Some l \<Rightarrow>
           if email = e_email l then Inl (ValidationError email)
           else rbind (assert_addresses_deliverable (book db) (e_tenant l) [email]) (\<lambda>_.
             if list_ex (\<lambda>x. r_list x = r_list r \<and> r_email x = email) (recipients db) then Inl (DuplicateEntryError email)
             else rbind (if r_enabled r then push_recipient_changes client_for l [email] [] s else Inr s) (\<lambda>s.
               Inr (db\<lparr>recipients := recipients db @ [r\<lparr>r_email := email, r_tenant := e_tenant l\<rparr>]\<rparr>, s))))"

definition enable_recipient :: "(string \<Rightarrow> 's client) \<Rightarrow> bool \<Rightarrow> recipient \<Rightarrow> directory \<Rightarrow> 's \<Rightarrow> exn + (directory \<times> 's)" where
  "enable_recipient client_for enabled r db s =
     (case get_entry db Mailing_List (r_list r) of
        None \<Rightarrow> Inl (DoesNotExistError (r_list r))
      | Some l \<Rightarrow>
          rbind (if r_enabled r = enabled then Inr s
                 else if enabled then push_recipient_changes client_for l [r_email r] [] s
                 else push_recipient_changes client_for l [] [r_email r] s) (\<lambda>s.
            Inr (db\<lparr>recipients := map (\<lambda>x. if r_list x = r_list r \<and> r_email x = r_email r then x\<lparr>r_enabled := enabled\<rparr> else x)
                       (recipients db)\<rparr>, s)))"

definition delete_recipient :: "(string \<Rightarrow> 's client) \<Rightarrow> recipient \<Rightarrow> directory \<Rightarrow> 's \<Rightarrow> exn + (directory \<times> 's)" where
  "delete_recipient client_for r db s =
     (case get_entry db Mailing_List (r_list r) of
        None \<Rightarrow> Inl (DoesNotExistError (r_list r))
      | Some l \<Rightarrow>
          rbind (if r_enabled r then push_recipient_changes client_for l [] [r_email r] s else Inr s) (\<lambda>s.
            Inr (db\<lparr>recipients := filter (\<lambda>x. \<not> (r_list x = r_list r \<and> r_email x = r_email r)) (recipients db)\<rparr>, s)))"

section \<open>The invariant of the directory\<close>

definition all_addresses :: "entry \<Rightarrow> string list" where
  "all_addresses e = e_email e # map al_email (e_aliases e)"

definition entry_ok :: "directory \<Rightarrow> entry \<Rightarrow> bool" where
  "entry_ok db e \<longleftrightarrow>
     list_ex (\<lambda>d. d_name d = e_domain e \<and> d_tenant d = e_tenant e) (domains (base db)) \<and>
     list_all (\<lambda>a. map_option d_tenant (find_domain (domain_part (al_email a)) (domains (base db))) = Some (e_tenant e)) (e_aliases e) \<and>
     (e_doctype e = Mail_Account \<longrightarrow> list_all (\<lambda>g. get_entry db Mail_Group g \<noteq> None) (e_groups e))"

definition directory_ok :: "directory \<Rightarrow> bool" where
  "directory_ok db \<longleftrightarrow> distinct (concat (map all_addresses (entries db))) \<and> list_all (entry_ok db) (entries db)"

text \<open>What a push leaves alone.\<close>

definition same_place :: "entry \<Rightarrow> entry \<Rightarrow> bool" where
  "same_place e e' \<longleftrightarrow> e_doctype e' = e_doctype e \<and> e_email e' = e_email e \<and> e_tenant e' = e_tenant e \<and>
     e_domain e' = e_domain e \<and> e_cluster e' = e_cluster e \<and> e_aliases e' = e_aliases e \<and> e_groups e' = e_groups e"

lemma same_place_refl [simp]: "same_place e e"
  by (simp add: same_place_def)

lemma sstep_entry [simp]: "sa_entry (sstep f a) = sa_entry a"
  by (simp add: sstep_def split: sum.splits)

lemma push_credentials_place: "same_place e (sa_entry a) \<Longrightarrow> same_place e (sa_entry (push_credentials R client_for stamp before a))"
  by (simp add: push_credentials_def KINDS_def push_credentials_of_def same_place_def Let_def)

lemma finish_account_place: "same_place e (sa_entry a) \<Longrightarrow> same_place e (sa_entry (finish_account R client_for stamp a))"
  by (simp add: finish_account_def Let_def push_credentials_place)

lemma push_create_place: "push_create client_for e payload s = Inr (e', s') \<Longrightarrow> same_place e e'"
  by (auto simp: push_create_def same_place_def Let_def)

lemma start_saving_entry [simp]: "sa_entry (start_saving e s) = e" "sa_error (start_saving e s) = None"
  by (simp_all add: start_saving_def)

lemma after_insert_account_place: "same_place e (sa_entry (after_insert_account R client_for db stamp password e s))"
  by (auto simp: after_insert_account_def Let_def split: sum.splits intro!: finish_account_place dest!: push_create_place)

lemma after_insert_entry_place: "same_place e (sa_entry (after_insert_entry R client_for db stamp password e s))"
  by (auto simp: after_insert_entry_def Let_def after_insert_account_place split: doctype.splits sum.splits dest!: push_create_place)

lemma on_update_entry_place: "same_place e (sa_entry (on_update_entry R client_for db stamp password before e s))"
  by (auto simp: on_update_entry_def Let_def split: option.splits intro!: push_credentials_place)

text \<open>What a validation that passes has established of the document it returns.\<close>

definition validated :: "directory \<Rightarrow> bool \<Rightarrow> entry \<Rightarrow> bool" where
  "validated db is_new e \<longleftrightarrow>
     assert_free db is_new e = Inr () \<and> distinct (all_addresses e) \<and>
     list_all (\<lambda>a. assert_address_available (book db) (al_email a) (Some (e_doctype e, e_email e)) = Inr ()) (e_aliases e) \<and>
     entry_ok db e"

lemma validate_alias_rows_Inr:
  "validate_alias_rows R db e seen rows = Inr rows' \<Longrightarrow>
     distinct (map al_email rows') \<and> set (map al_email rows') \<inter> set seen = {} \<and> e_email e \<notin> set (map al_email rows') \<and>
     list_all (\<lambda>a. assert_address_available (book db) (al_email a) (Some (e_doctype e, e_email e)) = Inr () \<and>
       map_option d_tenant (find_domain (domain_part (al_email a)) (domains (base db))) = Some (e_tenant e)) rows'"
proof (induction rows arbitrary: seen rows')
  case (Cons row rows)
  from Cons.prems obtain a rest where a: "check_address R (al_email row) = Inr a" "a \<noteq> e_email e" "a \<notin> set seen"
      "map_option d_tenant (find_domain (domain_part a) (domains (base db))) = Some (e_tenant e)"
      "assert_address_available (book db) a (Some (e_doctype e, e_email e)) = Inr ()"
      "validate_alias_rows R db e (a # seen) rows = Inr rest" "rows' = row\<lparr>al_email := a\<rparr> # rest"
    by (auto split: if_splits)
  from Cons.IH [OF a(6)] a show ?case by auto
qed simp

lemma validate_aliases_Inr:
  assumes "validate_aliases R db e = Inr e'"
  obtains rows where "e' = e\<lparr>e_aliases := rows\<rparr>" "distinct (all_addresses e')"
    "list_all (\<lambda>a. assert_address_available (book db) (al_email a) (Some (e_doctype e', e_email e')) = Inr ()) (e_aliases e')"
    "list_all (\<lambda>a. map_option d_tenant (find_domain (domain_part (al_email a)) (domains (base db))) = Some (e_tenant e')) (e_aliases e')"
proof -
  from assms obtain rows where rows: "validate_alias_rows R db e [] (e_aliases e) = Inr rows" "e' = e\<lparr>e_aliases := rows\<rparr>"
    by (auto simp: validate_aliases_def)
  note facts = validate_alias_rows_Inr [OF rows(1)]
  show ?thesis by (rule that [OF rows(2)]) (use facts rows(2) in \<open>auto simp: all_addresses_def list_all_iff\<close>)
qed

lemma place_entry_Inr:
  assumes "place_entry R db e = Inr (e', d)"
  shows "d \<in> set (domains (base db)) \<and> e_domain e' = d_name d \<and> e_tenant e' = d_tenant d \<and> e_doctype e' = e_doctype e \<and>
    e' = e\<lparr>e_email := e_email e', e_domain := d_name d, e_tenant := d_tenant d, e_cluster := d_cluster d\<rparr>"
  using assms
  by (auto simp: place_entry_def get_tenant_domain_def find_domain_def book_def Let_def
      split: if_splits option.splits dest!: find_Some_in)

lemma validate_group_rows_Inr:
  "validate_group_rows db t seen gs = Inr u \<Longrightarrow> list_all (\<lambda>g. map_option e_tenant (get_entry db Mail_Group g) = Some t) gs"
  by (induction gs arbitrary: seen) (auto split: if_splits)

lemma validate_entry_send_limits_Inr:
  "validate_entry_send_limits db is_new t e = Inr e' \<Longrightarrow> same_place e e' \<and>
     (\<exists>k. get_cluster db (e_cluster e') = Inr k \<and> 1 \<le> e_daily_send_limit e' \<and> e_daily_send_limit e' \<le> k_max_daily_send_limit k \<and>
       1 \<le> e_monthly_send_limit e' \<and> e_monthly_send_limit e' \<le> k_max_monthly_send_limit k)"
  by (auto simp: validate_entry_send_limits_def same_place_def Let_def split: if_splits)

lemma with_creds_place [simp]: "same_place e (with_creds e d)"
  by (simp add: with_creds_def same_place_def)

lemma with_creds_fields [simp]:
  "e_doctype (with_creds e d) = e_doctype e" "e_email (with_creds e d) = e_email e" "e_tenant (with_creds e d) = e_tenant e"
  "e_domain (with_creds e d) = e_domain e" "e_cluster (with_creds e d) = e_cluster e" "e_aliases (with_creds e d) = e_aliases e" "e_groups (with_creds e d) = e_groups e"
  by (simp_all add: with_creds_def)

lemma validated_cong:
  assumes "same_place e e'" "validated db is_new e"
  shows "validated db is_new e'"
  using assms by (cases is_new) (simp_all add: same_place_def validated_def assert_free_def all_addresses_def entry_ok_def)

lemma validatedI:
  assumes "validate_aliases R db e = Inr e'" "assert_free db is_new e = Inr ()"
    and "d \<in> set (domains (base db))" "e_domain e = d_name d" "e_tenant e = d_tenant d"
    and "e_doctype e = Mail_Account \<longrightarrow> list_all (\<lambda>g. get_entry db Mail_Group g \<noteq> None) (e_groups e)"
  shows "validated db is_new e'"
proof -
  from assms(1) obtain rows where e': "e' = e\<lparr>e_aliases := rows\<rparr>" and facts: "distinct (all_addresses e')"
    "list_all (\<lambda>a. assert_address_available (book db) (al_email a) (Some (e_doctype e', e_email e')) = Inr ()) (e_aliases e')"
    "list_all (\<lambda>a. map_option d_tenant (find_domain (domain_part (al_email a)) (domains (base db))) = Some (e_tenant e')) (e_aliases e')"
    by (rule validate_aliases_Inr)
  show ?thesis using assms facts by (auto simp: validated_def entry_ok_def assert_free_def list_ex_iff e')
qed

lemma validate_group_validated:
  assumes "validate_group R db adopting before e = Inr e'" "e_doctype e = Mail_Group"
  shows "validated db (before = None) e' \<and> e_doctype e' = e_doctype e"
proof -
  from assms(1) obtain e1 d where p: "place_entry R db e = Inr (e1, d)"
      and f: "assert_free db (before = None) e1 = Inr ()" and v: "validate_aliases R db e1 = Inr e'"
    by (auto simp: validate_group_def Let_def)
  note pl = place_entry_Inr [OF p]
  have "validated db (before = None) e'" by (rule validatedI [OF v f]) (use pl assms(2) in auto)
  moreover have "e_doctype e' = e_doctype e1" using v by (auto elim!: validate_aliases_Inr)
  ultimately show ?thesis using pl by simp
qed

lemma validate_mailing_list_validated:
  assumes "validate_mailing_list R db adopting before e = Inr e'" "e_doctype e = Mailing_List"
  shows "validated db (before = None) e' \<and> e_doctype e' = e_doctype e"
proof -
  from assms(1) obtain e1 d where p: "place_entry R db e = Inr (e1, d)"
      and f: "assert_free db (before = None) e1 = Inr ()" and v: "validate_aliases R db e1 = Inr e'"
    by (auto simp: validate_mailing_list_def Let_def)
  note pl = place_entry_Inr [OF p]
  have "validated db (before = None) e'" by (rule validatedI [OF v f]) (use pl assms(2) in auto)
  moreover have "e_doctype e' = e_doctype e1" using v by (auto elim!: validate_aliases_Inr)
  ultimately show ?thesis using pl by simp
qed

text \<open>The account's validation, step by step.\<close>

lemma validate_account_steps:
  assumes "validate_account R live db adopting before e = Inr e'"
  obtains e1 d t e2 e3 e4 where "place_entry R db e = Inr (e1, d)" "get_tenant db (e_tenant e1) = Inr t"
    "before = None \<and> \<not> adopting \<longrightarrow> is_live d \<and> assert_can_add db t Mail_Account = Inr ()"
    "validate_entry_send_limits db (before = None) t (e1\<lparr>e_locale := fix_locale (e_locale e1)\<rparr>) = Inr e2"
    "e3 = e2 \<or> e3 = with_creds e2 (apply_default_limits (cred_doc_of e2))"
    "assert_free db (before = None) e3 = Inr ()" "validate_aliases R db e3 = Inr e4"
    "validate_group_rows db (e_tenant e4) [] (e_groups e4) = Inr ()" "e' = e4 \<or> (\<exists>c. e' = with_creds e4 c)"
proof -
  from assms obtain e1 d t e2 e3 e4 where steps: "place_entry R db e = Inr (e1, d)"
    "(if before = None \<and> \<not> adopting then assert_domain_live d else Inr ()) = Inr ()" "get_tenant db (e_tenant e1) = Inr t"
    "validate_entry_send_limits db (before = None) t (e1\<lparr>e_locale := fix_locale (e_locale e1)\<rparr>) = Inr e2"
    "(if before = None \<and> \<not> adopting
      then rbind (assert_can_add db t Mail_Account) (\<lambda>_. Inr (with_creds e2 (apply_default_limits (cred_doc_of e2)))) else Inr e2) = Inr e3"
    "assert_free db (before = None) e3 = Inr ()" "validate_aliases R db e3 = Inr e4"
    "validate_group_rows db (e_tenant e4) [] (e_groups e4) = Inr ()"
    "(if adopting then Inr e4 else rbind (validate_credential_rows live (map_option cred_doc_of before) (cred_doc_of e4))
       (\<lambda>c. Inr (with_creds e4 c))) = Inr e'"
    unfolding validate_account_def Let_def by (clarsimp split del: if_split)
  show ?thesis
  proof (rule that [OF steps(1,3) _ steps(4) _ steps(6-8)])
    show "before = None \<and> \<not> adopting \<longrightarrow> is_live d \<and> assert_can_add db t Mail_Account = Inr ()"
      using steps(2,5) by (auto simp: assert_domain_live_def)
    show "e3 = e2 \<or> e3 = with_creds e2 (apply_default_limits (cred_doc_of e2))" using steps(5) by (simp split: if_splits)
    show "e' = e4 \<or> (\<exists>c. e' = with_creds e4 c)" using steps(9) by (auto split: if_splits)
  qed
qed

lemma validate_account_validated:
  assumes "validate_account R live db adopting before e = Inr e'"
  shows "validated db (before = None) e' \<and> e_doctype e' = e_doctype e"
proof -
  from assms obtain e1 d t e2 e3 e4 where p: "place_entry R db e = Inr (e1, d)"
    and lim: "validate_entry_send_limits db (before = None) t (e1\<lparr>e_locale := fix_locale (e_locale e1)\<rparr>) = Inr e2"
    and e3: "e3 = e2 \<or> e3 = with_creds e2 (apply_default_limits (cred_doc_of e2))"
    and f: "assert_free db (before = None) e3 = Inr ()" and v: "validate_aliases R db e3 = Inr e4"
    and g: "validate_group_rows db (e_tenant e4) [] (e_groups e4) = Inr ()" and e': "e' = e4 \<or> (\<exists>c. e' = with_creds e4 c)"
    by (rule validate_account_steps)
  note pl = place_entry_Inr [OF p]
  have "same_place (e1\<lparr>e_locale := fix_locale (e_locale e1)\<rparr>) e3"
    using validate_entry_send_limits_Inr [OF lim] e3 by (auto simp: same_place_def)
  then have e13: "e_domain e3 = e_domain e1" "e_tenant e3 = e_tenant e1" "e_doctype e3 = e_doctype e1" by (auto simp: same_place_def)
  have e34: "e_doctype e4 = e_doctype e3" "e_groups e4 = e_groups e3" using v by (auto elim!: validate_aliases_Inr)
  have "list_all (\<lambda>g. get_entry db Mail_Group g \<noteq> None) (e_groups e3)"
    using validate_group_rows_Inr [OF g] by (auto simp: e34 list_all_iff)
  then have "validated db (before = None) e4" by (intro validatedI [OF v f, of d]) (use pl e13 in auto)
  moreover have place: "same_place e4 e'" using e' by auto
  ultimately have "validated db (before = None) e'" by (intro validated_cong [OF place])
  then show ?thesis using place e34 e13 pl by (simp add: same_place_def)
qed

lemma validate_entry_validated:
  assumes "validate_entry R live db adopting before e = Inr e'"
  shows "validated db (before = None) e' \<and> e_doctype e' = e_doctype e"
  using assms validate_account_validated validate_group_validated validate_mailing_list_validated
  by (auto simp: validate_entry_def split: doctype.splits)

lemma validate_entry_placed:
  assumes "validate_entry R live db adopting before e = Inr e'"
  shows "\<exists>e1 d. place_entry R db e = Inr (e1, d) \<and> e_domain e' = e_domain e1 \<and> e_tenant e' = e_tenant e1 \<and> e_cluster e' = e_cluster e1"
proof -
  have aliases: "e_domain y = e_domain x \<and> e_tenant y = e_tenant x \<and> e_cluster y = e_cluster x" if "validate_aliases R db x = Inr y" for x y
    using that by (auto elim!: validate_aliases_Inr)
  show ?thesis
  proof (cases "e_doctype e")
    case Mail_Account
    with assms have "validate_account R live db adopting before e = Inr e'" by (simp add: validate_entry_def)
    then obtain e1 d t e2 e3 e4 where "place_entry R db e = Inr (e1, d)"
      and lim: "validate_entry_send_limits db (before = None) t (e1\<lparr>e_locale := fix_locale (e_locale e1)\<rparr>) = Inr e2"
      and "e3 = e2 \<or> e3 = with_creds e2 (apply_default_limits (cred_doc_of e2))"
      and "validate_aliases R db e3 = Inr e4" "e' = e4 \<or> (\<exists>c. e' = with_creds e4 c)"
      by (rule validate_account_steps)
    then show ?thesis using validate_entry_send_limits_Inr [OF lim] aliases [of e3 e4] by (auto simp: same_place_def)
  next
    case Mail_Group
    then show ?thesis using assms aliases by (fastforce simp: validate_entry_def validate_group_def Let_def)
  next
    case Mailing_List
    then show ?thesis using assms aliases by (fastforce simp: validate_entry_def validate_mailing_list_def Let_def)
  qed
qed

lemma place_entry_own: "place_entry R db e = Inr (e1, d) \<Longrightarrow> e_tenant e \<noteq> [] \<Longrightarrow> e_tenant e1 = e_tenant e"
  by (auto simp: place_entry_def get_tenant_domain_def Let_def split: option.splits if_splits)

lemma validate_aliases_tenant: "validate_aliases R db e = Inr e' \<Longrightarrow> e_tenant e' = e_tenant e"
  by (auto elim!: validate_aliases_Inr)

lemma validate_entry_can_add:
  assumes "validate_entry R live db False None e = Inr e'"
  shows "\<exists>t. get_tenant db (e_tenant e') = Inr t \<and> assert_can_add db t (e_doctype e) = Inr ()"
proof (cases "e_doctype e")
  case Mail_Account
  then have "validate_account R live db False None e = Inr e'" using assms by (simp add: validate_entry_def)
  then obtain e1 d t e2 e3 e4 where s: "get_tenant db (e_tenant e1) = Inr t"
    "None = (None :: entry option) \<and> \<not> False \<longrightarrow> is_live d \<and> assert_can_add db t Mail_Account = Inr ()"
    "validate_entry_send_limits db (None = (None :: entry option)) t (e1\<lparr>e_locale := fix_locale (e_locale e1)\<rparr>) = Inr e2"
    "e3 = e2 \<or> e3 = with_creds e2 (apply_default_limits (cred_doc_of e2))" "validate_aliases R db e3 = Inr e4"
    "e' = e4 \<or> (\<exists>c. e' = with_creds e4 c)"
    by (rule validate_account_steps)
  have "e_tenant e' = e_tenant e1"
    using validate_aliases_tenant [OF s(5)] validate_entry_send_limits_Inr [OF s(3)] s(4,6) by (auto simp: same_place_def)
  then show ?thesis using s(1,2) Mail_Account by auto
next
  case Mail_Group
  then show ?thesis using assms validate_aliases_tenant by (fastforce simp: validate_entry_def validate_group_def)
next
  case Mailing_List
  then show ?thesis using assms validate_aliases_tenant by (fastforce simp: validate_entry_def validate_mailing_list_def)
qed

section \<open>Each address once\<close>

lemma alias_rows_find:
  assumes "a \<in> set (e_aliases x)" "x \<in> set (entries db)"
  shows "\<exists>y\<in>set (entries db). find (\<lambda>(_, _, b). b = al_email a) (alias_rows (book db)) = Some (e_doctype y, e_email y, al_email a) \<and>
    al_email a \<in> set (map al_email (e_aliases y))"
proof -
  have "(e_doctype x, e_email x, al_email a) \<in> set (alias_rows (book db))" using assms by (auto simp: book_def)
  then have "find (\<lambda>(_, _, b). b = al_email a) (alias_rows (book db)) \<noteq> None" by (auto simp: find_None_iff)
  then obtain dt n b where f: "find (\<lambda>(_, _, b). b = al_email a) (alias_rows (book db)) = Some (dt, n, b)" by auto
  then have "(dt, n, b) \<in> set (alias_rows (book db)) \<and> b = al_email a" by (auto dest: find_Some_in)
  with f show ?thesis by (auto simp: book_def)
qed

text \<open>An address found free by the rules is an address of no document but the excluded one.\<close>

lemma available_only_own:
  assumes "assert_address_available (book db) email exclude = Inr ()" "x \<in> set (entries db)" "email \<in> set (all_addresses x)"
  shows "(\<exists>y\<in>set (entries db). exclude = Some (e_doctype y, e_email y) \<and> email \<in> set (map al_email (e_aliases y))) \<or>
    exclude = Some (e_doctype x, email) \<and> e_email x = email"
proof (cases "email = e_email x")
  case True
  then have "(e_doctype x, email) \<in> set (addresses (book db))" using assms(2) by (auto simp: book_def)
  then show ?thesis using assms(1) True by (auto simp: assert_address_available_Inr)
next
  case False
  then obtain a where a: "a \<in> set (e_aliases x)" "al_email a = email" using assms(3) by (auto simp: all_addresses_def)
  from alias_rows_find [OF this(1) assms(2)] obtain y where y: "y \<in> set (entries db)"
    "find (\<lambda>(_, _, b). b = email) (alias_rows (book db)) = Some (e_doctype y, e_email y, email)" "email \<in> set (map al_email (e_aliases y))"
    using a(2) by auto
  then have "exclude = Some (e_doctype y, e_email y)" using assms(1) by (auto simp: assert_address_available_Inr)
  with y show ?thesis by blast
qed

lemma get_entry_iff: "get_entry db dt n \<noteq> None \<longleftrightarrow> (dt, n) \<in> (\<lambda>e. (e_doctype e, e_email e)) ` set (entries db)"
  by (auto simp: get_entry_def find_None_iff image_iff)

lemma entry_ok_mono:
  assumes "base db' = base db" "\<And>g. get_entry db Mail_Group g \<noteq> None \<Longrightarrow> g \<in> set (e_groups e) \<Longrightarrow> get_entry db' Mail_Group g \<noteq> None"
    "entry_ok db e"
  shows "entry_ok db' e"
  using assms by (auto simp: entry_ok_def list_all_iff)

lemma distinct_addresses_own:
  assumes "distinct (concat (map all_addresses es))" "x \<in> set es" "y \<in> set es" "a \<in> set (all_addresses x)" "a \<in> set (all_addresses y)"
  shows "x = y"
  using assms by (induction es) auto

lemma distinct_own_addresses: "distinct (concat (map all_addresses es)) \<Longrightarrow> z \<in> set es \<Longrightarrow> distinct (all_addresses z)"
  by (induction es) auto

lemma email_in_addresses [simp]: "e_email e \<in> set (all_addresses e)"
  by (simp add: all_addresses_def)

lemma validated_disjoint:
  assumes val: "validated db is_new e" and dist: "distinct (concat (map all_addresses (entries db)))"
    and x: "x \<in> set (entries db)" "a \<in> set (all_addresses x)" "a \<in> set (all_addresses e)"
  shows "\<not> is_new \<and> e_doctype x = e_doctype e \<and> e_email x = e_email e"
proof -
  let ?own = "if is_new then None else Some (e_doctype e, e_email e)"
  have free: "assert_address_available (book db) (e_email e) ?own = Inr ()"
    using val by (simp add: validated_def assert_free_def)
  have alias_not_email: "al_email al \<noteq> e_email z" if "z \<in> set (entries db)" "al \<in> set (e_aliases z)" for z al
    using distinct_own_addresses [OF dist that(1)] that(2) by (auto simp: all_addresses_def image_iff)
  have new: "\<not> is_new \<and> e_doctype y = e_doctype e \<and> e_email y = e_email e"
    if "y \<in> set (entries db)" "e_email e \<in> set (all_addresses y)" for y
    using available_only_own [OF free that] by (auto split: if_splits dest: alias_not_email)
  show ?thesis
  proof (cases "a = e_email e")
    case True
    then show ?thesis using new x by blast
  next
    case False
    then obtain al where al: "al \<in> set (e_aliases e)" "a = al_email al" using x(3) by (auto simp: all_addresses_def)
    have "assert_address_available (book db) a (Some (e_doctype e, e_email e)) = Inr ()"
      using val al by (auto simp: validated_def list_all_iff)
    from available_only_own [OF this x(1,2)] False obtain y where y: "y \<in> set (entries db)" "e_doctype y = e_doctype e"
        "e_email y = e_email e" "a \<in> set (map al_email (e_aliases y))" by auto
    have "x = y" using distinct_addresses_own [OF dist x(1) y(1) x(2)] y(4) by (simp add: all_addresses_def)
    moreover have "e_email e \<in> set (all_addresses y)" using y(3) by (simp add: all_addresses_def)
    ultimately show ?thesis using new [OF y(1)] by simp
  qed
qed

lemma validated_own_addresses: "validated db is_new e \<Longrightarrow> distinct (all_addresses e)"
  by (simp add: validated_def)

lemma insert_directory_ok:
  assumes ok: "directory_ok db" and val: "validated db True e"
  shows "directory_ok (db\<lparr>entries := entries db @ [e]\<rparr>)"
proof -
  let ?db = "db\<lparr>entries := entries db @ [e]\<rparr>"
  have dist: "distinct (concat (map all_addresses (entries db)))" using ok by (simp add: directory_ok_def)
  have "set (concat (map all_addresses (entries db))) \<inter> set (all_addresses e) = {}"
    using validated_disjoint [OF val dist] by auto
  moreover have "entry_ok ?db x" if "entry_ok db x" for x
    using that by (rule entry_ok_mono [rotated 2]) (simp, unfold get_entry_iff, auto)
  ultimately show ?thesis
    using ok validated_own_addresses [OF val] val by (auto simp: directory_ok_def validated_def list_all_iff)
qed

lemma keys_put_entry [simp]: "map (\<lambda>x. (e_doctype x, e_email x)) (put_entry e es) = map (\<lambda>x. (e_doctype x, e_email x)) es"
  by (induction es) (auto simp: put_entry_def)

lemma get_entry_put: "get_entry (db\<lparr>entries := put_entry e (entries db)\<rparr>) dt n \<noteq> None \<longleftrightarrow> get_entry db dt n \<noteq> None"
proof -
  have "(\<lambda>x. (e_doctype x, e_email x)) ` set (put_entry e (entries db)) = (\<lambda>x. (e_doctype x, e_email x)) ` set (entries db)"
    using arg_cong [OF keys_put_entry [of e "entries db"], of set] by (simp only: set_map)
  then show ?thesis unfolding get_entry_iff by simp
qed

lemma save_directory_ok:
  assumes ok: "directory_ok db" and val: "validated db False e"
  shows "directory_ok (db\<lparr>entries := put_entry e (entries db)\<rparr>)"
proof -
  let ?db = "db\<lparr>entries := put_entry e (entries db)\<rparr>"
  have dist: "distinct (concat (map all_addresses (entries db)))" using ok by (simp add: directory_ok_def)
  have disj: "set (all_addresses x) \<inter> set (all_addresses e) = {}"
    if "x \<in> set (entries db)" "\<not> (e_doctype x = e_doctype e \<and> e_email x = e_email e)" for x
    using validated_disjoint [OF val dist that(1)] that(2) by auto
  have "distinct (concat (map all_addresses (put_entry e es)))" if "set es \<subseteq> set (entries db)" "distinct (concat (map all_addresses es))" for es
    using that
  proof (induction es)
    case (Cons x es)
    let ?own = "\<lambda>y. e_doctype y = e_doctype e \<and> e_email y = e_email e"
    have rest: "set (concat (map all_addresses (put_entry e es))) \<subseteq> set (concat (map all_addresses es)) \<union> set (all_addresses e)"
      by (auto simp: put_entry_def split: if_splits)
    show ?case
    proof (cases "?own x")
      case True
      have others: "\<not> ?own y" if "y \<in> set es" for y
      proof
        assume "?own y"
        then have "e_email e \<in> set (all_addresses x)" "e_email e \<in> set (concat (map all_addresses es))"
          using True that email_in_addresses [of x] email_in_addresses [of y] by auto
        then show False using Cons.prems(2) by auto
      qed
      have "put_entry e es = es" unfolding put_entry_def
      proof (rule map_idI)
        fix y
        assume "y \<in> set es"
        from others [OF this] show "(if ?own y then e else y) = y" by (rule if_not_P)
      qed
      moreover have "set (all_addresses e) \<inter> set (concat (map all_addresses es)) = {}"
        using disj Cons.prems(1) others by fastforce
      ultimately show ?thesis
        using True Cons.prems validated_own_addresses [OF val] by (auto simp: put_entry_def)
    next
      case False
      then have "set (all_addresses x) \<inter> set (concat (map all_addresses (put_entry e es))) = {}"
      proof -
        have "set (all_addresses x) \<inter> set (concat (map all_addresses es)) = {}" using Cons.prems(2) by simp
        moreover have "set (all_addresses x) \<inter> set (all_addresses e) = {}" using False Cons.prems(1) by (intro disj) auto
        ultimately show ?thesis using rest by blast
      qed
      then show ?thesis using False Cons by (auto simp: put_entry_def)
    qed
  qed (simp add: put_entry_def)
  moreover have "entry_ok ?db x" if "entry_ok db x" for x
    using that
  proof (rule entry_ok_mono [rotated 2])
    show "get_entry ?db Mail_Group g \<noteq> None" if "get_entry db Mail_Group g \<noteq> None" for g
      using that by (rule iffD2 [OF get_entry_put])
  qed simp
  moreover have "set (entries ?db) \<subseteq> insert e (set (entries db))" by (auto simp: put_entry_def)
  ultimately show ?thesis using ok dist val by (auto simp: directory_ok_def validated_def list_all_iff)
qed

lemma all_addresses_groups [simp]: "all_addresses (e\<lparr>e_groups := gs\<rparr>) = all_addresses e"
  by (simp add: all_addresses_def)

lemma distinct_concat_filter: "distinct (concat (map f xs)) \<Longrightarrow> distinct (concat (map f (filter P xs)))"
  by (induction xs) auto

lemma delete_entry_Inr:
  assumes "delete_entry client_for dt name db s = Inr (db', s')"
  shows "\<exists>e. get_entry db dt name = Some e \<and> e_doctype e = dt \<and> e_email e = name \<and>
    db' = (on_trash_entry e db)\<lparr>entries := filter (\<lambda>x. \<not> (e_doctype x = dt \<and> e_email x = name)) (entries (on_trash_entry e db))\<rparr>"
proof (cases "get_entry db dt name")
  case (Some e)
  then have "e_doctype e = dt \<and> e_email e = name" unfolding get_entry_def by (auto dest: find_Some_in)
  then show ?thesis using assms Some by (auto simp: delete_entry_def Let_def)
qed (use assms in \<open>simp add: delete_entry_def\<close>)

lemma delete_directory_ok:
  assumes ok: "directory_ok db" and del: "delete_entry client_for dt name db s = Inr (db', s')"
  shows "directory_ok db'"
proof -
  obtain e where e: "e_doctype e = dt" "e_email e = name"
    "db' = (on_trash_entry e db)\<lparr>entries := filter (\<lambda>x. \<not> (e_doctype x = dt \<and> e_email x = name)) (entries (on_trash_entry e db))\<rparr>"
    using delete_entry_Inr [OF del] by blast
  have dist: "distinct (concat (map all_addresses (entries db)))" using ok by (simp add: directory_ok_def)
  show ?thesis
  proof (cases "dt = Mail_Group")
    case False
    have en: "entries db' = filter (\<lambda>x. \<not> (e_doctype x = dt \<and> e_email x = name)) (entries db)" and b: "base db' = base db"
      using e False by (simp_all add: on_trash_entry_def split: doctype.splits)
    have "entry_ok db' x" if "entry_ok db x" for x
      using that
    proof (rule entry_ok_mono [OF b, rotated])
      fix g
      assume "get_entry db Mail_Group g \<noteq> None"
      then show "get_entry db' Mail_Group g \<noteq> None" unfolding get_entry_iff en using False by auto
    qed
    then show ?thesis using ok distinct_concat_filter [OF dist] by (auto simp: directory_ok_def en list_all_iff)
  next
    case True
    let ?clear = "\<lambda>x. x\<lparr>e_groups := filter (\<lambda>g. g \<noteq> name) (e_groups x)\<rparr>"
    have en: "entries db' = filter (\<lambda>x. \<not> (e_doctype x = dt \<and> e_email x = name)) (map ?clear (entries db))" and b: "base db' = base db"
      using e True by (simp_all add: on_trash_entry_def)
    have "entry_ok db' (?clear x)" if "entry_ok db x" for x
    proof (rule entry_ok_mono [OF b])
      show "entry_ok db (?clear x)" using that by (auto simp: entry_ok_def list_all_iff)
    next
      fix g
      assume "get_entry db Mail_Group g \<noteq> None" "g \<in> set (e_groups (?clear x))"
      then show "get_entry db' Mail_Group g \<noteq> None" unfolding get_entry_iff en by (auto simp: image_iff)
    qed
    moreover have "distinct (concat (map all_addresses (map ?clear (entries db))))" using dist by (simp add: comp_def)
    from distinct_concat_filter [OF this] have "distinct (concat (map all_addresses (entries db')))" unfolding en .
    ultimately show ?thesis using ok by (auto simp: directory_ok_def en list_all_iff)
  qed
qed

section \<open>Histories of a directory\<close>

text \<open>
  Every change to the directory: a document inserted, saved or deleted, recipients set.  A request
  that fails changes nothing.  Two requests that interleave are serialised by the database.
\<close>

inductive dir_step :: "rules \<Rightarrow> (string \<Rightarrow> 's client) \<Rightarrow> directory \<Rightarrow> directory \<Rightarrow> bool" for R client_for where
  Inserted: "insert_entry R client_for stamp password adopting e db s = Inr (db', a) \<Longrightarrow> dir_step R client_for db db'"
| Saved: "save_entry R live client_for stamp pw adopting e db s = Inr (db', a) \<Longrightarrow> dir_step R client_for db db'"
| Deleted: "delete_entry client_for dt name db s = Inr (db', s') \<Longrightarrow> dir_step R client_for db db'"
| Recipients: "set_recipients R client_for l emails db s = Inr (db', s') \<Longrightarrow> dir_step R client_for db db'"

lemma insert_entry_Inr:
  assumes "insert_entry R client_for stamp password adopting e db s = Inr (db', a)"
  shows "\<exists>e'. validate_entry R (\<lambda>_. Inr []) db adopting None e = Inr e' \<and> same_place e' (sa_entry a) \<and>
    db' = db\<lparr>entries := entries db @ [sa_entry a]\<rparr>"
  using assms after_insert_entry_place
  by (auto simp: insert_entry_def Let_def split: option.splits if_splits)

lemma save_entry_Inr:
  assumes "save_entry R live client_for stamp pw adopting e db s = Inr (db', a)"
  shows "\<exists>before e'. validate_entry R live db adopting (Some before) e = Inr e' \<and> same_place e' (sa_entry a) \<and>
    db' = db\<lparr>entries := put_entry (sa_entry a) (entries db)\<rparr>"
  using assms on_update_entry_place
  by (fastforce simp: save_entry_def Let_def split: option.splits if_splits)

lemma set_recipients_frame:
  "set_recipients R client_for l emails db s = Inr (db', s') \<Longrightarrow> entries db' = entries db \<and> base db' = base db"
  by (auto simp: set_recipients_def remove_recipients_def add_recipients_def Let_def split: if_splits)

lemma dir_step_ok:
  assumes "dir_step R client_for db db'" "directory_ok db"
  shows "directory_ok db'"
  using assms(1)
proof cases
  case (Inserted stamp password adopting e s a)
  from insert_entry_Inr [OF this] obtain e' where e': "validate_entry R (\<lambda>_. Inr []) db adopting None e = Inr e'"
    "same_place e' (sa_entry a)" "db' = db\<lparr>entries := entries db @ [sa_entry a]\<rparr>" by blast
  have "validated db True (sa_entry a)" using validated_cong [OF e'(2)] validate_entry_validated [OF e'(1)] by simp
  then show ?thesis unfolding e'(3) by (rule insert_directory_ok [OF assms(2)])
next
  case (Saved live stamp pw adopting e s a)
  from save_entry_Inr [OF this] obtain before e' where e': "validate_entry R live db adopting (Some before) e = Inr e'"
    "same_place e' (sa_entry a)" "db' = db\<lparr>entries := put_entry (sa_entry a) (entries db)\<rparr>" by blast
  have "validated db False (sa_entry a)" using validated_cong [OF e'(2)] validate_entry_validated [OF e'(1)] by simp
  then show ?thesis unfolding e'(3) by (rule save_directory_ok [OF assms(2)])
next
  case (Deleted dt name s s')
  then show ?thesis by (rule delete_directory_ok [OF assms(2)])
next
  case (Recipients l emails s s')
  note frame = set_recipients_frame [OF this]
  then have "entry_ok db' = entry_ok db" by (simp add: fun_eq_iff entry_ok_def get_entry_def)
  then show ?thesis using frame assms(2) by (simp add: directory_ok_def)
qed

section \<open>Laws of the recipients\<close>

lemma rmap_canonical: "\<forall>x\<in>set xs. f x = Inr x \<Longrightarrow> rmap f xs = Inr xs"
  using rmap_total [of xs f id] by simp

lemma remove_recipients_rows:
  assumes "remove_recipients R client_for l emails db s = Inr (gone, db', s')" "\<forall>e\<in>set emails. check_address R e = Inr e"
  shows "recipients db' = filter (\<lambda>r. \<not> (r_list r = e_email l \<and> r_email r \<in> set emails)) (recipients db) \<and>
    base db' = base db \<and> entries db' = entries db"
  using assms by (auto simp: remove_recipients_def rmap_canonical Let_def)

lemma add_recipients_rows:
  assumes "add_recipients R client_for l emails push db s = Inr (added, db', s')" "\<forall>e\<in>set emails. check_address R e = Inr e"
    and "distinct emails" "\<forall>e\<in>set emails. e \<notin> set (map r_email (recipient_rows db (e_email l)))"
  shows "recipients db' = recipients db @
    map (\<lambda>e. \<lparr>r_list = e_email l, r_email = e, r_enabled = True, r_tenant = e_tenant l\<rparr>) emails \<and> e_email l \<notin> set emails"
proof -
  have "filter (\<lambda>e. e \<notin> r_email ` set (recipient_rows db (e_email l))) emails = emails"
    using assms(4) by (auto simp: filter_id_conv)
  then show ?thesis using assms by (auto simp: add_recipients_def rmap_canonical fromkeys_id Let_def split: if_splits)
qed

section \<open>Properties\<close>

text \<open>
  C3. However documents are inserted, saved and deleted, starting from an empty directory: every
  address is the primary address or an alias of one document and listed once, every document's
  domain and every alias domain belongs to the document's own tenant, and no account is a member of
  a group that does not exist.
\<close>

theorem directory_addresses_unique:
  assumes "(dir_step R client_for)\<^sup>*\<^sup>* db db'" "entries db = []"
  shows "distinct (concat (map all_addresses (entries db'))) \<and> list_all (entry_ok db') (entries db')"
proof -
  from assms(1) have "directory_ok db'"
  proof (induction rule: rtranclp_induct)
    case base
    then show ?case using assms(2) by (simp add: directory_ok_def)
  next
    case (step db1 db2)
    then show ?case by (blast intro: dir_step_ok)
  qed
  then show ?thesis by (simp add: directory_ok_def)
qed

definition sample_rules :: rules where
  "sample_rules = \<lparr>idna = (\<lambda>_. None), frappe_validate_email = (\<lambda>_. True), is_dummy_password = (\<lambda>_. False)\<rparr>"

definition blank_entry :: "doctype \<Rightarrow> string \<Rightarrow> entry" where
  "blank_entry dt email = \<lparr>e_doctype = dt, e_email = email, e_tenant = [], e_domain = [], e_cluster = [], e_stalwart_id = None,
     e_aliases = [], e_description = [], e_quotas = [], e_disable_receiving = False, e_enabled = True, e_display_name = [],
     e_locale = [], e_time_zone = [], e_daily_send_limit = 0, e_monthly_send_limit = 0, e_groups = [],
     e_skip_outbound_scan = False, e_creds = (\<lambda>_. []), e_baseline = (\<lambda>_. None), e_lifted = []\<rparr>"

definition sample_tenant :: tenant where
  "sample_tenant = \<lparr>tn_name = ''t1'', tn_user = ''u'', tn_title = [], tn_contact_email = [], tn_type = ''Team'', tn_status = ''Active'',
     tn_enabled = True, tn_archived = False, tn_cluster = ''c'', tn_egress_pool = [], tn_max_domains = 0, tn_max_accounts = 2,
     tn_max_groups = 2, tn_max_mailing_lists = 0, tn_max_disk_gb = 0, tn_default_daily_send_limit = 10,
     tn_default_monthly_send_limit = 100, tn_allowed_ips = []\<rparr>"

definition sample_directory :: directory where
  "sample_directory = \<lparr>entries = [], base = \<lparr>domains = [\<lparr>d_name = ''acme.com'', d_tenant = ''t1'', d_cluster = ''c'',
       d_enabled = True, d_is_verified = True, d_hosted = False, d_stalwart_id = Some ''d''\<rparr>], addresses = [], alias_rows = [],
       dns_zones = [], site_rows = [], tenant_mail_zone = None\<rparr>,
     tenants = [sample_tenant], cluster_rows = [\<lparr>k_name = ''c'', k_enabled = True, k_status = ''Active'',
       k_max_daily_send_limit = 100, k_max_monthly_send_limit = 1000,
       k_region = [], k_is_default = True, k_egress_pool = [],
       k_dns_zone = ''host.io'', k_default_domain = ''c.host.io'', k_hostname = ''mx.c.host.io''\<rparr>], recipients = []\<rparr>"

definition sample_insert :: "(string \<Rightarrow> unit client) \<Rightarrow> bool \<Rightarrow> exn + (directory \<times> unit saving)" where
  "sample_insert client_for adopting =
     insert_entry sample_rules client_for [] [] adopting ((blank_entry Mail_Group ''Team@acme.com'')\<lparr>
       e_aliases := [\<lparr>al_email = ''All@acme.com'', al_enabled = True, al_description = []\<rparr>]\<rparr>) sample_directory ()"

theorem directory_addresses_unique_witness:
  "\<exists>db'. (dir_step sample_rules (undefined :: string \<Rightarrow> unit client))\<^sup>*\<^sup>* sample_directory db' \<and> entries db' \<noteq> [] \<and>
    distinct (concat (map all_addresses (entries db')))"
proof -
  have "case sample_insert undefined True of Inl _ \<Rightarrow> False | Inr (db', _) \<Rightarrow> entries db' \<noteq> []" by code_simp
  then obtain db' a where ins: "sample_insert undefined True = Inr (db', a)" "entries db' \<noteq> []" by (auto split: sum.splits)
  have "dir_step sample_rules (undefined :: string \<Rightarrow> unit client) sample_directory db'"
    by (intro dir_step.Inserted [OF ins(1) [unfolded sample_insert_def]])
  then have step: "(dir_step sample_rules (undefined :: string \<Rightarrow> unit client))\<^sup>*\<^sup>* sample_directory db'" by (rule r_into_rtranclp)
  have "entries sample_directory = []" by (simp add: sample_directory_def)
  from directory_addresses_unique [OF step this] step ins(2) show ?thesis by blast
qed

text \<open>
  C28. A new document is accepted only within its tenant's limit: after the insert the tenant has at
  most the maximum of that kind (0 means unlimited).
\<close>

theorem new_entry_within_limits:
  assumes "insert_entry R client_for stamp password False e db s = Inr (db', a)"
  shows "\<exists>t new. find (\<lambda>t. tn_name t = e_tenant new) (tenants db) = Some t \<and> entries db' = entries db @ [new] \<and> e_doctype new = e_doctype e \<and>
    (max_entries t (e_doctype e) \<noteq> 0 \<longrightarrow> int (entry_count db' (e_doctype e) (e_tenant new)) \<le> max_entries t (e_doctype e))"
proof -
  from insert_entry_Inr [OF assms] obtain e' where e': "validate_entry R (\<lambda>_. Inr []) db False None e = Inr e'"
    "same_place e' (sa_entry a)" "db' = db\<lparr>entries := entries db @ [sa_entry a]\<rparr>" by blast
  have dt: "e_doctype e' = e_doctype e" using validate_entry_validated [OF e'(1)] by simp
  obtain t where t: "get_tenant db (e_tenant e') = Inr t" "assert_can_add db t (e_doctype e) = Inr ()"
    using validate_entry_can_add [OF e'(1)] by blast
  then have found: "find (\<lambda>t. tn_name t = e_tenant e') (tenants db) = Some t" by (auto simp: get_tenant_def split: option.splits)
  then have name: "tn_name t = e_tenant e'" by (auto dest: find_Some_in)
  have "entry_count db' (e_doctype e) (e_tenant e') = Suc (entry_count db (e_doctype e) (e_tenant e'))"
    using e'(2,3) dt by (simp add: entry_count_def same_place_def)
  then show ?thesis
    using t(2) found name e'(2,3) dt
    by (intro exI [of _ t] exI [of _ "sa_entry a"]) (auto simp: assert_can_add_def assert_within_limit_def same_place_def)
qed

definition sample_client :: "string \<Rightarrow> unit client" where
  "sample_client = (\<lambda>_. let sv = \<lparr>sv_type = ''Account'', sv_account_id = Some ''a'', sv_default_properties = None, sv_max_get = 100, sv_max_set = 100\<rparr>
     in \<lparr>cl_call = (\<lambda>_ s. Inr ([(''r'', JObj [(''created'', JObj [(''0'', JObj [(''id'', JStr ''g1'')])])])], s)),
         cl_accounts = sv, cl_groups = sv, cl_mailing_lists = sv, cl_roles = sv, cl_lookup_keys = sv,
         cl_reload_lookup_stores = Inr, cl_credentials = (\<lambda>_ _. credential_service (\<lambda>_ _. Inl StalwartUnavailable) sv)\<rparr>)"

theorem new_entry_within_limits_witness:
  "\<exists>db' a. sample_insert sample_client False = Inr (db', a) \<and> (\<exists>t new. entries db' = entries sample_directory @ [new] \<and>
    find (\<lambda>t. tn_name t = e_tenant new) (tenants sample_directory) = Some t)"
proof -
  have "case sample_insert sample_client False of Inl _ \<Rightarrow> False | Inr _ \<Rightarrow> True" by code_simp
  then obtain db' a where ins: "sample_insert sample_client False = Inr (db', a)" by (auto split: sum.splits)
  from new_entry_within_limits [OF this [unfolded sample_insert_def]] ins show ?thesis by blast
qed

text \<open>
  C29. Setting the recipients of a list to addresses in canonical form leaves exactly them, each
  once: those already on the list keep their rows, disabled ones too, the others are added enabled,
  rows of other lists are untouched, and the list never becomes its own recipient.
\<close>

theorem set_recipients_exact:
  assumes "set_recipients R client_for l emails db s = Inr (db', s')"
    and "\<forall>e\<in>set emails. check_address R e = Inr e"
    and "\<forall>r\<in>set (recipients db). check_address R (r_email r) = Inr (r_email r)"
    and "distinct (map r_email (recipient_rows db (e_email l)))"
  shows "set (map r_email (recipient_rows db' (e_email l))) = set emails \<and> distinct (map r_email (recipient_rows db' (e_email l))) \<and>
    filter (\<lambda>r. r_email r \<in> set emails) (recipient_rows db (e_email l)) =
      filter (\<lambda>r. r_email r \<in> set (map r_email (recipient_rows db (e_email l)))) (recipient_rows db' (e_email l)) \<and>
    (\<forall>m. m \<noteq> e_email l \<longrightarrow> recipient_rows db' m = recipient_rows db m) \<and>
    (e_email l \<in> set emails \<longrightarrow> e_email l \<in> set (map r_email (recipient_rows db (e_email l))))"
proof -
  let ?rows = "recipient_rows db (e_email l)" and ?wanted = "fromkeys emails"
  let ?cur = "recipient_emails db (e_email l) False"
  let ?out = "sort (filter (\<lambda>e. e \<notin> set ?wanted) (fromkeys ?cur))" and ?new = "sort (filter (\<lambda>e. e \<notin> set ?cur) ?wanted)"
  have cur: "set ?cur = r_email ` set ?rows" by (simp add: recipient_emails_def)
  from assms(1) obtain g db1 s1 ad where rem: "remove_recipients R client_for l ?out db s = Inr (g, db1, s1)"
      and add: "add_recipients R client_for l ?new True db1 s1 = Inr (ad, db', s')"
    using assms(2) by (auto simp: set_recipients_def rmap_canonical Let_def)
  have out: "\<forall>e\<in>set ?out. check_address R e = Inr e" using assms(3) cur by (auto simp: recipient_rows_def)
  note r1 = remove_recipients_rows [OF rem out]
  have rows1: "recipient_rows db1 (e_email l) = filter (\<lambda>r. r_email r \<in> set emails) ?rows"
    using r1 cur by (auto simp: recipient_rows_def intro!: filter_cong)
  have new: "\<forall>e\<in>set ?new. check_address R e = Inr e" "distinct ?new"
    "\<forall>e\<in>set ?new. e \<notin> set (map r_email (recipient_rows db1 (e_email l)))"
    using assms(2) cur rows1 by auto
  note r2 = add_recipients_rows [OF add new]
  let ?added = "map (\<lambda>e. \<lparr>r_list = e_email l, r_email = e, r_enabled = True, r_tenant = e_tenant l\<rparr>) ?new"
  have rows2: "recipient_rows db' (e_email l) = filter (\<lambda>r. r_email r \<in> set emails) ?rows @ ?added"
    using r2 rows1 by (simp add: recipient_rows_def filter_map comp_def)
  have "recipient_rows db' m = recipient_rows db m" if "m \<noteq> e_email l" for m
    using r1 r2 that by (auto simp: recipient_rows_def filter_map comp_def intro!: filter_cong)
  moreover have "distinct (map r_email (recipient_rows db' (e_email l)))"
    using assms(4) new(2) cur by (auto simp: rows2 distinct_map_filter comp_def)
  moreover have "filter (\<lambda>r. r_email r \<in> set (map r_email ?rows)) ?added = []"
    using cur by (auto simp: filter_empty_conv)
  then have "filter (\<lambda>r. r_email r \<in> set (map r_email ?rows)) (recipient_rows db' (e_email l)) = filter (\<lambda>r. r_email r \<in> set emails) ?rows"
    unfolding rows2 filter_append by (simp cong: filter_cong)
  moreover have "set (map r_email (recipient_rows db' (e_email l))) = set emails" using cur by (auto simp: rows2 image_iff)
  moreover have "e_email l \<in> set emails \<longrightarrow> e_email l \<in> set (map r_email ?rows)" using r2 cur by auto
  ultimately show ?thesis by metis
qed

theorem set_recipients_exact_witness:
  "\<exists>db' s'. set_recipients sample_rules sample_client (blank_entry Mailing_List ''l@acme.com'') [''b@x.org''] sample_directory () = Inr (db', s') \<and>
    set (map r_email (recipient_rows db' ''l@acme.com'')) = {''b@x.org''}"
proof -
  let ?l = "blank_entry Mailing_List ''l@acme.com''"
  have "case set_recipients sample_rules sample_client ?l [''b@x.org''] sample_directory () of Inl _ \<Rightarrow> False | Inr _ \<Rightarrow> True"
    by code_simp
  then obtain db' s' where ok: "set_recipients sample_rules sample_client ?l [''b@x.org''] sample_directory () = Inr (db', s')"
    by (auto split: sum.splits)
  have c: "\<forall>e\<in>set [''b@x.org'']. check_address sample_rules e = Inr e" by code_simp
  have r: "\<forall>r\<in>set (recipients sample_directory). check_address sample_rules (r_email r) = Inr (r_email r)"
      "distinct (map r_email (recipient_rows sample_directory (e_email ?l)))" "e_email ?l = ''l@acme.com''"
    by (simp_all add: sample_directory_def recipient_rows_def blank_entry_def)
  from set_recipients_exact [OF ok c r(1,2)] ok show ?thesis unfolding r(3) by simp
qed

end
