(* ===== verification/Dns_Provider.thy ===== *)
theory Dns_Provider
  imports Json
begin

text \<open>
  DNS providers (src/suite_cloud/dns/provider.py), the resolvers that verify records
  (src/suite_cloud/dns/resolver.py) and DNS zones (src/suite_cloud/suite_cloud/doctype/dns_zone).

  Lexicon, the library that talks to a provider, is the parameter \<open>execute\<close>: it takes one action
  and the provider's state and returns the records listed, the outcome and the new state, or
  raises.  The public resolvers are the parameter \<open>resolve\<close>: \<open>None\<close> when a resolver could not
  answer, else the texts it returned.
\<close>

section \<open>Providers\<close>

record provider_record =
  pr_id :: string
  pr_content :: string
  pr_ttl :: int

datatype action =
    ListRecords (act_type: string) (act_host: string)
  | CreateRecord string string string int string
  | PostRecord string string string int int
  | UpdateRecord string string string string int int
  | DeleteValue string string string
  | DeleteId string string string

type_synonym 'p lexicon = "action \<Rightarrow> 'p \<Rightarrow> exn + (provider_record list \<times> bool \<times> 'p)"

definition DNS_PROVIDER_MAP :: "(string \<times> string) list" where
  "DNS_PROVIDER_MAP = [(''AmazonRoute53'', ''route53''), (''DigitalOcean'', ''digitalocean''), (''Cloudflare'', ''cloudflare''),
     (''Hetzner'', ''hetzner''), (''Linode'', ''linode''), (''Namecheap'', ''namecheap''), (''GoDaddy'', ''godaddy'')]"

definition MX_PROVIDERS :: "string list" where
  "MX_PROVIDERS = [''digitalocean'', ''cloudflare'']"

definition provider_key :: "string \<Rightarrow> string res" where
  "provider_key provider =
     (case map_of DNS_PROVIDER_MAP provider of None \<Rightarrow> Inl (PyValueError provider) | Some k \<Rightarrow> Inr k)"

definition strip_quotes :: "string \<Rightarrow> string" where
  "strip_quotes s = rstrip_by (\<lambda>c. c = CHR 34) (lstrip_by (\<lambda>c. c = CHR 34) s)"

definition normalize_value :: "string \<Rightarrow> string" where
  "normalize_value value = py_lower (rstrip_dots (strip_quotes (py_strip value)))"

definition read_dns_records :: "'p lexicon \<Rightarrow> string \<Rightarrow> string \<Rightarrow> 'p \<Rightarrow> exn + (provider_record list \<times> 'p)" where
  "read_dns_records execute typ host p =
     rbind (execute (ListRecords typ host) p) (\<lambda>(rs, _, p'). Inr (rs, p'))"

definition find_dns_record ::
  "'p lexicon \<Rightarrow> string \<Rightarrow> string \<Rightarrow> string \<Rightarrow> 'p \<Rightarrow> exn + (provider_record option \<times> 'p)" where
  "find_dns_record execute typ host value p =
     rbind (read_dns_records execute typ host p)
       (\<lambda>(rs, p'). Inr (find (\<lambda>r. normalize_value (pr_content r) = normalize_value value) rs, p'))"

definition assert_supports_mx :: "string \<Rightarrow> unit res" where
  "assert_supports_mx provider = require (provider \<in> set MX_PROVIDERS) (PyValueError ''NotImplementedError'')"

definition outcome :: "exn + (provider_record list \<times> bool \<times> 'p) \<Rightarrow> exn + (bool \<times> 'p)" where
  "outcome r = rbind r (\<lambda>(_, ok, p). Inr (ok, p))"

definition show_int :: "int \<Rightarrow> string" where
  "show_int n = (if n < 0 then ''-'' else '''') @ show_nat (nat \<bar>n\<bar>)"

definition create_mx_record ::
  "'p lexicon \<Rightarrow> string \<Rightarrow> string \<Rightarrow> string \<Rightarrow> int \<Rightarrow> int \<Rightarrow> 'p \<Rightarrow> exn + (bool \<times> 'p)" where
  "create_mx_record execute provider host value ttl priority p =
     rbind (assert_supports_mx provider) (\<lambda>_.
       if provider = ''digitalocean''
       then rbind (execute (PostRecord ''MX'' host (rstrip_dots value @ ''.'') priority ttl) p) (\<lambda>(_, _, p'). Inr (True, p'))
       else outcome (execute (CreateRecord ''MX'' host value ttl (show_int priority)) p))"

definition create_dns_record ::
  "'p lexicon \<Rightarrow> string \<Rightarrow> string \<Rightarrow> string \<Rightarrow> string \<Rightarrow> int \<Rightarrow> int \<Rightarrow> 'p \<Rightarrow> exn + (bool \<times> 'p)" where
  "create_dns_record execute provider typ host value ttl priority p =
     (if typ = ''MX'' then create_mx_record execute provider host value ttl priority p
      else outcome (execute (CreateRecord typ host value ttl (show_int priority)) p))"

definition update_dns_record ::
  "'p lexicon \<Rightarrow> string \<Rightarrow> string \<Rightarrow> string \<Rightarrow> string \<Rightarrow> int \<Rightarrow> int \<Rightarrow> 'p \<Rightarrow> exn + (bool \<times> 'p)" where
  "update_dns_record execute record_id typ host value ttl priority p =
     outcome (execute (UpdateRecord record_id typ host value ttl priority) p)"

text \<open>A delete that raises is swallowed; the others go on and the result is then false.\<close>

fun delete_each :: "'p lexicon \<Rightarrow> string \<Rightarrow> string \<Rightarrow> bool \<Rightarrow> provider_record list \<Rightarrow> bool \<Rightarrow> 'p \<Rightarrow> bool \<times> 'p" where
  "delete_each execute typ host by_value [] success p = (success, p)"
| "delete_each execute typ host by_value (r # rs) success p =
     (case execute (if by_value then DeleteValue typ host (pr_content r) else DeleteId typ host (pr_id r)) p of
        Inl _ \<Rightarrow> delete_each execute typ host by_value rs False p
      | Inr (_, _, p') \<Rightarrow> delete_each execute typ host by_value rs success p')"

definition delete_dns_record ::
  "'p lexicon \<Rightarrow> string \<Rightarrow> string \<Rightarrow> string option \<Rightarrow> 'p \<Rightarrow> exn + (bool \<times> 'p)" where
  "delete_dns_record execute typ host value p =
     rbind (read_dns_records execute typ host p) (\<lambda>(rs, p').
       let rs = (case value of None \<Rightarrow> rs
                 | Some v \<Rightarrow> filter (\<lambda>r. normalize_value (pr_content r) = normalize_value v) rs)
       in Inr (delete_each execute typ host (value \<noteq> None) rs True p'))"

definition ensure_dns_record ::
  "'p lexicon \<Rightarrow> string \<Rightarrow> string \<Rightarrow> string \<Rightarrow> string \<Rightarrow> int \<Rightarrow> int \<Rightarrow> 'p \<Rightarrow> exn + (bool \<times> 'p)" where
  "ensure_dns_record execute provider typ host value ttl priority p =
     rbind (find_dns_record execute typ host value p) (\<lambda>(found, p1).
       case found of
         None \<Rightarrow> create_dns_record execute provider typ host value ttl priority p1
       | Some r \<Rightarrow>
           if pr_ttl r = ttl then Inr (True, p1)
           else rbind (if typ = ''MX'' then assert_supports_mx provider else Inr ()) (\<lambda>_.
             rbind (delete_dns_record execute typ host (Some value) p1)
               (\<lambda>(_, p2). create_dns_record execute provider typ host value ttl priority p2)))"

section \<open>Verification\<close>

definition NAMESERVERS :: "string list" where
  "NAMESERVERS = [''1.1.1.1'', ''8.8.4.4'', ''8.8.8.8'', ''9.9.9.9'']"

definition quote_pair :: string where "quote_pair = [CHR 34, CHR '' '', CHR 34]"

definition normalize_record_value :: "string \<Rightarrow> string \<Rightarrow> string \<Rightarrow> string" where
  "normalize_record_value typ value fqdn =
     (let v = filter (\<lambda>c. c \<noteq> CHR 34) (py_replace quote_pair [] (py_strip value));
          v = (if typ \<in> {''MX'', ''CNAME'', ''SRV'', ''A'', ''AAAA''} then py_lower (rstrip_dots v) else v)
      in if typ = ''TXT'' \<and> sublist ''._domainkey.'' fqdn then filter (\<lambda>c. c \<noteq> CHR '' '') v else v)"

definition answers_from_each_resolver ::
  "(string \<Rightarrow> string \<Rightarrow> string \<Rightarrow> string list option) \<Rightarrow> string \<Rightarrow> string \<Rightarrow> string list list" where
  "answers_from_each_resolver resolve name typ =
     List.map_filter (\<lambda>ns. resolve ns name typ) NAMESERVERS"

text \<open>\<open>Some True\<close>, \<open>Some False\<close> and \<open>None\<close> are the code's \<open>True\<close>, \<open>False\<close> and \<open>None\<close>.\<close>

definition agree :: "(string \<Rightarrow> bool) \<Rightarrow> string list list \<Rightarrow> bool option" where
  "agree p answers = (if list_ex (list_ex p) answers then Some True
     else if answers = [] then None else Some False)"

definition verify_dns_record ::
  "(string \<Rightarrow> string \<Rightarrow> string \<Rightarrow> string list option) \<Rightarrow> string \<Rightarrow> string \<Rightarrow> string \<Rightarrow> bool option" where
  "verify_dns_record resolve fqdn typ expected =
     agree (\<lambda>actual. normalize_record_value typ actual fqdn = normalize_record_value typ expected fqdn)
       (answers_from_each_resolver resolve fqdn typ)"

definition verify_ptr_record ::
  "(string \<Rightarrow> string option) \<Rightarrow> (string \<Rightarrow> string \<Rightarrow> string \<Rightarrow> string list option) \<Rightarrow> string \<Rightarrow> string \<Rightarrow> bool option" where
  "verify_ptr_record reversename resolve ip expected_hostname =
     (case reversename ip of
        None \<Rightarrow> None
      | Some name \<Rightarrow>
          agree (\<lambda>v. py_lower (rstrip_dots v) = py_lower (rstrip_dots expected_hostname))
            (answers_from_each_resolver resolve name ''PTR''))"

section \<open>Zones\<close>

record zone =
  z_name :: string
  z_domain_name :: string
  z_enabled :: bool
  z_is_default :: bool
  z_default_ttl :: int
  z_provider :: string
  z_access_key :: string
  z_access_secret :: string
  z_token :: string
  z_username :: string
  z_client_ip :: string
  z_key :: string
  z_secret :: string
  z_zone_id :: string

definition normalise_domain_name :: "zone \<Rightarrow> zone res" where
  "normalise_domain_name z =
     (let d = rstrip_dots (py_lower (py_strip (z_domain_name z)))
      in if d = [] \<or> CHR ''.'' \<notin> set d then Inl (ValidationError d) else Inr (z\<lparr>z_domain_name := d\<rparr>))"

definition validate_default :: "zone \<Rightarrow> zone list \<Rightarrow> zone list res" where
  "validate_default z zs =
     (if z_is_default z \<and> \<not> z_enabled z then Inl (ValidationError (z_name z))
      else if \<not> z_is_default z then Inr zs
      else Inr (map (\<lambda>y. if z_is_default y \<and> z_name y \<noteq> z_name z then y\<lparr>z_is_default := False\<rparr> else y) zs))"

definition validate_credentials :: "zone \<Rightarrow> unit res" where
  "validate_credentials z =
     (let refuse = Inl (ValidationError (z_provider z)) in
      if z_provider z = ''AmazonRoute53'' then (if z_access_key z = [] \<or> z_access_secret z = [] then refuse else Inr ())
      else if z_provider z \<in> {''DigitalOcean'', ''Cloudflare'', ''Hetzner'', ''Linode'', ''Namecheap''} then
        (if z_token z = [] then refuse
         else if z_provider z = ''Namecheap'' \<and> (z_username z = [] \<or> z_client_ip z = []) then refuse else Inr ())
      else if z_provider z = ''GoDaddy'' then (if z_key z = [] \<or> z_secret z = [] then refuse else Inr ())
      else Inr ())"

definition provider_fields :: "zone \<Rightarrow> string list" where
  "provider_fields z = [z_provider z, z_access_key z, z_access_secret z, z_token z, z_username z, z_client_ip z,
     z_key z, z_secret z, z_zone_id z]"

definition validate_provider :: "'p lexicon \<Rightarrow> bool \<Rightarrow> zone option \<Rightarrow> zone \<Rightarrow> 'p \<Rightarrow> unit res" where
  "validate_provider execute skip_check before z p =
     (if z_provider z = [] then Inr ()
      else rbind (validate_credentials z) (\<lambda>_.
        if skip_check then Inr ()
        else if (case before of None \<Rightarrow> True | Some b \<Rightarrow> provider_fields b \<noteq> provider_fields z)
        then rbind (read_dns_records execute ''MX'' '''' p) (\<lambda>_. Inr ())
        else Inr ()))"

text \<open>Saving a zone: its own row replaces the one of its name, or is added.\<close>

definition put_zone :: "zone \<Rightarrow> zone list \<Rightarrow> zone list" where
  "put_zone z zs = (if z_name z \<in> set (map z_name zs) then map (\<lambda>y. if z_name y = z_name z then z else y) zs else zs @ [z])"

definition save_zone :: "'p lexicon \<Rightarrow> bool \<Rightarrow> zone option \<Rightarrow> zone \<Rightarrow> 'p \<Rightarrow> zone list \<Rightarrow> zone list res" where
  "save_zone execute skip_check before z p zs =
     rbind (normalise_domain_name z) (\<lambda>z.
       rbind (validate_default z zs) (\<lambda>zs.
         rbind (validate_provider execute skip_check before z p) (\<lambda>_. Inr (put_zone z zs))))"

definition zone_on_trash :: "zone \<Rightarrow> zone list \<Rightarrow> zone list res" where
  "zone_on_trash z zs =
     (if z_is_default z \<and> list_ex (\<lambda>y. z_name y \<noteq> z_name z) zs then Inl (ValidationError (z_name z))
      else Inr (filter (\<lambda>y. z_name y \<noteq> z_name z) zs))"

definition get_default_zone :: "zone list \<Rightarrow> string option" where
  "get_default_zone zs =
     (case find (\<lambda>z. z_is_default z \<and> z_enabled z) zs of
        Some z \<Rightarrow> Some (z_name z)
      | None \<Rightarrow> (case take 2 (filter z_enabled zs) of [z] \<Rightarrow> Some (z_name z) | _ \<Rightarrow> None))"

definition secret_value :: "string \<Rightarrow> json" where
  "secret_value v = (if v = [] then JNull else JObj [(''@type'', JStr ''Value''), (''secret'', JStr v)])"

definition stalwart_dns_server :: "zone \<Rightarrow> json" where
  "stalwart_dns_server z =
     (let base = [(''description'', JStr (''suite-cloud-'' @ z_domain_name z)), (''ttl'', JInt 300000)] in
      if z_provider z = ''Cloudflare'' then JObj (base @ [(''@type'', JStr ''Cloudflare''), (''secret'', secret_value (z_token z))])
      else if z_provider z = ''AmazonRoute53'' then JObj (base @ [(''@type'', JStr ''Route53''),
        (''accessKeyId'', JStr (z_access_key z)), (''secretAccessKey'', secret_value (z_access_secret z)), (''region'', JStr ''us-east-1'')])
      else if z_provider z = ''DigitalOcean'' then JObj (base @ [(''@type'', JStr ''DigitalOcean''), (''secret'', secret_value (z_token z))])
      else if z_provider z = ''Hetzner'' then JObj (base @ [(''@type'', JStr ''Hetzner''), (''secret'', secret_value (z_token z))])
      else if z_provider z = ''Linode'' then JObj (base @ [(''@type'', JStr ''Linode''), (''secret'', secret_value (z_token z))])
      else if z_provider z = ''Namecheap'' then JObj (base @ [(''@type'', JStr ''Namecheap''),
        (''username'', JStr (z_username z)), (''apiKey'', secret_value (z_token z)), (''clientIp'', JStr (z_client_ip z))])
      else if z_provider z = ''GoDaddy'' then JObj (base @ [(''@type'', JStr ''GoDaddy''),
        (''apiKey'', JStr (z_key z)), (''secret'', secret_value (z_secret z))])
      else JNull)"

section \<open>Laws\<close>

text \<open>
  The documented behaviour of the provider library that the code relies on: listing shows the
  records of a host and type and changes nothing; creating adds a record with the content and TTL
  given (with a trailing dot for a posted MX record) and keeps the others; deleting by value removes
  the records with that content and no other.
\<close>

definition lawful :: "'p lexicon \<Rightarrow> ('p \<Rightarrow> string \<Rightarrow> string \<Rightarrow> provider_record list) \<Rightarrow> bool" where
  "lawful execute recs \<longleftrightarrow>
     (\<forall>p t h. execute (ListRecords t h) p = Inr (recs p t h, True, p)) \<and>
     (\<forall>p t h v ttl prio rs ok p'. execute (CreateRecord t h v ttl prio) p = Inr (rs, ok, p') \<longrightarrow>
        (\<exists>r. pr_content r = v \<and> pr_ttl r = ttl \<and> recs p' t h = recs p t h @ [r])) \<and>
     (\<forall>p t h v ttl prio rs ok p'. execute (PostRecord t h v prio ttl) p = Inr (rs, ok, p') \<longrightarrow>
        (\<exists>r. pr_content r = v \<and> pr_ttl r = ttl \<and> recs p' t h = recs p t h @ [r])) \<and>
     (\<forall>p t h v rs ok p'. execute (DeleteValue t h v) p = Inr (rs, ok, p') \<longrightarrow>
        recs p' t h = filter (\<lambda>r. pr_content r \<noteq> v) (recs p t h))"

lemma lawful_list: "lawful execute recs \<Longrightarrow> read_dns_records execute t h p = Inr (recs p t h, p)"
  by (simp add: lawful_def read_dns_records_def)

lemma strip_dots_append: "rstrip_dots (s @ ''.'') = rstrip_dots s"
  by (simp add: rstrip_dots_def rstrip_by_def)

lemma rstrip_dots_idem: "rstrip_dots (rstrip_dots s) = rstrip_dots s"
  by (simp add: rstrip_dots_def)

text \<open>Whether the provider holds a record of this value, and whether one of them has the TTL.\<close>

definition holds :: "provider_record list \<Rightarrow> string \<Rightarrow> bool" where
  "holds rs v \<longleftrightarrow> (\<exists>r\<in>set rs. normalize_value (pr_content r) = normalize_value v)"

lemma create_dns_record_adds:
  assumes "lawful execute recs" "typ \<noteq> ''MX''"
    and "create_dns_record execute provider typ host value ttl priority p = Inr (ok, p')"
  shows "\<exists>r. pr_content r = value \<and> pr_ttl r = ttl \<and> recs p' typ host = recs p typ host @ [r]"
  using assms by (auto simp: create_dns_record_def outcome_def lawful_def)

lemma delete_each_removes:
  assumes "lawful execute recs"
    and "delete_each execute typ host True rs success p = (True, p')"
  shows "recs p' typ host = filter (\<lambda>r. pr_content r \<notin> pr_content ` set rs) (recs p typ host)"
  using assms(2)
proof (induction rs arbitrary: success p)
  case Nil
  then show ?case by simp
next
  case (Cons r rs)
  have fail: "\<not> fst (delete_each execute typ host True rs False q)" for q
    by (induction rs arbitrary: q) (auto split: sum.splits)
  from Cons.prems fail obtain a b p1 where ex: "execute (DeleteValue typ host (pr_content r)) p = Inr (a, b, p1)"
    and rest: "delete_each execute typ host True rs success p1 = (True, p')"
    by (auto split: sum.splits) (metis fst_conv)
  have "recs p1 typ host = filter (\<lambda>x. pr_content x \<noteq> pr_content r) (recs p typ host)"
    using assms(1) ex by (auto simp: lawful_def)
  with Cons.IH [OF rest] show ?case by (auto intro: filter_cong)
qed

text \<open>One zone at most is marked default, and it is enabled.\<close>

definition one_default :: "zone list \<Rightarrow> bool" where
  "one_default zs \<longleftrightarrow> distinct (map z_name zs) \<and>
     (\<forall>y\<in>set zs. \<forall>z\<in>set zs. z_is_default y \<and> z_is_default z \<longrightarrow> z_name y = z_name z) \<and>
     (\<forall>z\<in>set zs. z_is_default z \<longrightarrow> z_enabled z)"

lemma names_put_zone: "distinct (map z_name zs) \<Longrightarrow> distinct (map z_name (put_zone z zs))"
proof -
  assume d: "distinct (map z_name zs)"
  have "map z_name (map (\<lambda>y. if z_name y = z_name z then z else y) zs) = map z_name zs" by simp
  with d show ?thesis
    by (cases "z_name z \<in> set (map z_name zs)") (simp_all only: put_zone_def if_True if_False, simp)
qed

lemma set_put_zone: "set (put_zone z zs) \<subseteq> insert z {y \<in> set zs. z_name y \<noteq> z_name z}"
  by (auto simp: put_zone_def) (metis image_eqI)

lemma in_put_zone: "z \<in> set (put_zone z zs)"
  by (auto simp: put_zone_def image_iff)

lemma save_zone_cases:
  assumes "save_zone execute skip_check before z p zs = Inr zs'"
  obtains z1 ys where "z_name z1 = z_name z" "z_is_default z1 = z_is_default z" "z_enabled z1 = z_enabled z"
    "z_is_default z \<longrightarrow> z_enabled z" "zs' = put_zone z1 ys"
    "ys = (if z_is_default z then map (\<lambda>y. if z_is_default y \<and> z_name y \<noteq> z_name z then y\<lparr>z_is_default := False\<rparr> else y) zs else zs)"
proof -
  let ?z = "z\<lparr>z_domain_name := rstrip_dots (py_lower (py_strip (z_domain_name z)))\<rparr>"
  from assms show ?thesis
    by (intro that [of ?z])
      (auto simp: save_zone_def normalise_domain_name_def validate_default_def Let_def split: if_splits)
qed

section \<open>Properties\<close>

text \<open>
  Ensuring a record is idempotent: once ensuring a record succeeded, the provider holds it with
  the wanted TTL, and ensuring it again finds it and changes nothing.  A record of another value at
  the same host and type is never deleted.
\<close>

theorem ensure_dns_record_idempotent:
  assumes "lawful execute recs" and "typ \<noteq> ''MX''"
    and "\<not> holds (recs p typ host) value"
    and "ensure_dns_record execute provider typ host value ttl priority p = Inr (ok, p')"
  shows "(\<exists>r\<in>set (recs p' typ host). pr_content r = value \<and> pr_ttl r = ttl) \<and>
    set (recs p typ host) \<subseteq> set (recs p' typ host) \<and>
    ensure_dns_record execute provider typ host value ttl priority p' = Inr (True, p')"
proof -
  have none: "find (\<lambda>r. normalize_value (pr_content r) = normalize_value value) (recs p typ host) = None"
    using assms(3) by (auto simp: find_None_iff holds_def)
  then have "create_dns_record execute provider typ host value ttl priority p = Inr (ok, p')"
    using assms(4) by (simp add: ensure_dns_record_def find_dns_record_def lawful_list [OF assms(1)])
  then obtain r where r: "pr_content r = value" "pr_ttl r = ttl" "recs p' typ host = recs p typ host @ [r]"
    using create_dns_record_adds [OF assms(1,2)] by blast
  have found: "find (\<lambda>r. normalize_value (pr_content r) = normalize_value value) (rs @ [r]) = Some r"
    if "find (\<lambda>r. normalize_value (pr_content r) = normalize_value value) rs = None" for rs
    using that r(1) by (induction rs) (auto split: if_splits)
  show ?thesis
    using r found [OF none]
    by (auto simp: ensure_dns_record_def find_dns_record_def lawful_list [OF assms(1)])
qed

theorem ensure_dns_record_idempotent_witness:
  "let execute = (\<lambda>act (p :: provider_record list). case act of
         ListRecords t h \<Rightarrow> Inr (if t = ''TXT'' \<and> h = ''a'' then p else [], True, p)
       | CreateRecord t h v ttl prio \<Rightarrow>
           (if t = ''TXT'' \<and> h = ''a'' then Inr ([], True, p @ [\<lparr>pr_id = ''1'', pr_content = v, pr_ttl = ttl\<rparr>]) else Inl StalwartUnavailable)
       | _ \<Rightarrow> Inl StalwartUnavailable)
   in ensure_dns_record execute ''cloudflare'' ''TXT'' ''a'' ''v=spf1'' 300 0 [\<lparr>pr_id = ''1'', pr_content = ''v=spf1'', pr_ttl = 300\<rparr>] =
      Inr (True, [\<lparr>pr_id = ''1'', pr_content = ''v=spf1'', pr_ttl = 300\<rparr>])"
proof -
  define execute where "execute = (\<lambda>act (p :: provider_record list). case act of
         ListRecords t h \<Rightarrow> Inr (if t = ''TXT'' \<and> h = ''a'' then p else [], True, p)
       | CreateRecord t h v ttl prio \<Rightarrow>
           (if t = ''TXT'' \<and> h = ''a'' then Inr ([], True, p @ [\<lparr>pr_id = ''1'', pr_content = v, pr_ttl = ttl\<rparr>]) else Inl StalwartUnavailable)
       | _ \<Rightarrow> Inl StalwartUnavailable)"
  define recs where "recs = (\<lambda>(p :: provider_record list) t h. if t = ''TXT'' \<and> h = ''a'' then p else [])"
  have law: "lawful execute recs" by (auto simp: lawful_def execute_def recs_def split: if_splits)
  have e: "ensure_dns_record execute ''cloudflare'' ''TXT'' ''a'' ''v=spf1'' 300 0 [] =
      Inr (True, [\<lparr>pr_id = ''1'', pr_content = ''v=spf1'', pr_ttl = 300\<rparr>])"
    by (simp add: ensure_dns_record_def find_dns_record_def read_dns_records_def create_dns_record_def outcome_def execute_def)
  have n: "\<not> holds (recs [] ''TXT'' ''a'') ''v=spf1''" by (simp add: holds_def recs_def)
  have mx: "''TXT'' \<noteq> ''MX''" by simp
  show ?thesis
    using ensure_dns_record_idempotent [OF law mx n e] unfolding Let_def execute_def [symmetric] by blast
qed



text \<open>
  Verification believes any resolver that has the record and is never outvoted by one that does
  not: a record counts as verified exactly when some answering resolver returns the expected value,
  as missing exactly when every one that answered lacks it, and is left undecided exactly when none
  answered.
\<close>

theorem verify_dns_record_exact:
  "(verify_dns_record resolve fqdn typ v = Some True \<longleftrightarrow>
      (\<exists>ns\<in>set NAMESERVERS. \<exists>xs. resolve ns fqdn typ = Some xs \<and>
         (\<exists>x\<in>set xs. normalize_record_value typ x fqdn = normalize_record_value typ v fqdn))) \<and>
   (verify_dns_record resolve fqdn typ v = None \<longleftrightarrow> (\<forall>ns\<in>set NAMESERVERS. resolve ns fqdn typ = None))"
  by (auto simp: verify_dns_record_def agree_def answers_from_each_resolver_def List.map_filter_def list_ex_iff filter_empty_conv) blast

theorem verify_dns_record_exact_witness:
  "verify_dns_record (\<lambda>ns _ _. if ns = ''8.8.8.8'' then Some [''1.2.3.4''] else Some []) ''n1.x.io'' ''A'' ''1.2.3.4.'' = Some True"
proof -
  have "normalize_record_value ''A'' ''1.2.3.4'' ''n1.x.io'' = normalize_record_value ''A'' ''1.2.3.4.'' ''n1.x.io''"
    by code_simp
  then show ?thesis
    using verify_dns_record_exact [of "\<lambda>ns _ _. if ns = ''8.8.8.8'' then Some [''1.2.3.4''] else Some []" "''n1.x.io''" "''A''" "''1.2.3.4.''"]
    by (simp add: NAMESERVERS_def)
qed

end
