(* ===== verification/Tenants.thy ===== *)
theory Tenants
  imports Directory Ip_Networks Dns_Provider
begin

text \<open>
  The Suite Tenant document (src/suite_cloud/suite_cloud/doctype/suite_tenant/suite_tenant.py) with what it rests on:
  the placement of a tenant on a cluster, who may reach its documents, the proof that it controls a domain, and the
  disk it uses (src/suite_cloud/mail/tenancy: placement.py, permissions.py, ownership.py, usage.py).

  Clusters are listed in the order they were created.  A tenant's secret and the jobs a change queues are kept as
  values: \<open>resyncs\<close> names the clusters a change asks a configuration push for, in order.
\<close>

section \<open>State\<close>

record user_row =
  u_name :: string
  u_roles :: "string list"

record site_host_row =
  sh_name :: string
  sh_tenant :: string
  sh_status :: string
  sh_hostname :: string
  sh_domains :: "string list"

record cloud =
  dir :: directory
  user_rows :: "user_row list"
  egress_pools :: "(string \<times> string) list"
  report_tenants :: "string list"
  mail_regions :: "(string \<times> string) list"
  default_region :: string
  site_hosts :: "site_host_row list"
  resyncs :: "string list"

section \<open>Placement and permissions\<close>

definition is_active :: "cluster_row \<Rightarrow> bool" where
  "is_active k \<longleftrightarrow> k_status k = ''Active'' \<and> k_enabled k"

definition pick_cluster :: "cloud \<Rightarrow> string \<Rightarrow> string option" where
  "pick_cluster c region =
    (let mail_region = (case map_of (mail_regions c) region of Some m \<Rightarrow> m | None \<Rightarrow> []);
         active = filter is_active (cluster_rows (dir c));
         serving = filter (\<lambda>k. k_region k = mail_region) active
     in if region \<noteq> [] \<and> mail_region \<noteq> [] \<and> serving \<noteq> [] then Some (k_name (hd serving))
        else map_option k_name (find k_is_default active))"

definition TENANT_ROLE :: string where "TENANT_ROLE = ''Suite Tenant''"

definition get_roles :: "cloud \<Rightarrow> string \<Rightarrow> string list" where
  "get_roles c user = concat (map u_roles (filter (\<lambda>u. u_name u = user) (user_rows c)))"

definition is_operator :: "cloud \<Rightarrow> string \<Rightarrow> bool" where
  "is_operator c user \<longleftrightarrow> user = ''Administrator'' \<or> ''System Manager'' \<in> set (get_roles c user)"

definition owned_tenants :: "cloud \<Rightarrow> string \<Rightarrow> string list" where
  "owned_tenants c user = map tn_name (filter (\<lambda>t. tn_user t = user) (tenants (dir c)))"

text \<open>The SQL condition a list query gets, and the rows it lets through.\<close>

datatype condition = No_Condition | Nothing_Matches | User_Is string | Tenant_In "string list"

definition tenant_query_conditions :: "cloud \<Rightarrow> string \<Rightarrow> condition" where
  "tenant_query_conditions c user = (if is_operator c user then No_Condition else User_Is user)"

definition tenant_document_query_conditions :: "cloud \<Rightarrow> string \<Rightarrow> condition" where
  "tenant_document_query_conditions c user =
    (if is_operator c user then No_Condition
     else if owned_tenants c user = [] then Nothing_Matches
     else Tenant_In (owned_tenants c user))"

fun row_matches :: "condition \<Rightarrow> string \<Rightarrow> string \<Rightarrow> bool" where
  "row_matches No_Condition user tenant \<longleftrightarrow> True"
| "row_matches Nothing_Matches user tenant \<longleftrightarrow> False"
| "row_matches (User_Is u) user tenant \<longleftrightarrow> user = u"
| "row_matches (Tenant_In ts) user tenant \<longleftrightarrow> tenant \<in> set ts"

definition has_tenant_permission :: "cloud \<Rightarrow> tenant \<Rightarrow> string \<Rightarrow> bool" where
  "has_tenant_permission c t user \<longleftrightarrow> is_operator c user \<or> tn_user t = user"

definition has_tenant_document_permission :: "cloud \<Rightarrow> string \<Rightarrow> string \<Rightarrow> bool" where
  "has_tenant_document_permission c tenant user \<longleftrightarrow> is_operator c user \<or> tenant \<in> set (owned_tenants c user)"

definition assert_can_own :: "cloud \<Rightarrow> string \<Rightarrow> unit res" where
  "assert_can_own c user = require (TENANT_ROLE \<in> set (get_roles c user)) (ValidationError user)"

definition keep_owner_role :: "cloud \<Rightarrow> user_row \<Rightarrow> unit res" where
  "keep_owner_role c u =
    (if TENANT_ROLE \<in> set (u_roles u) then Inr ()
     else require (\<forall>t\<in>set (tenants (dir c)). tn_user t \<noteq> u_name u) (ValidationError (u_name u)))"

definition only_for_operators :: "cloud \<Rightarrow> string \<Rightarrow> unit res" where
  "only_for_operators c user = require (is_operator c user) (PermissionError user)"

section \<open>Allowed addresses\<close>

fun parse_lines :: "string list \<Rightarrow> ip_net list res" where
  "parse_lines [] = Inr []"
| "parse_lines (line # ls) =
    (let value = py_strip line in
     if value = [] then parse_lines ls
     else case ip_network value of
       None \<Rightarrow> Inl (ValidationError value)
     | Some n \<Rightarrow> rbind (parse_lines ls) (\<lambda>ns. Inr (n # ns)))"

definition parse_networks :: "string \<Rightarrow> ip_net list res" where
  "parse_networks text = parse_lines (splitlines text)"

definition networks_text :: "ip_net list \<Rightarrow> string" where
  "networks_text ns = join_with newline (map network_str ns)"

definition allows_ip :: "tenant \<Rightarrow> string option \<Rightarrow> bool res" where
  "allows_ip t ip = rbind (parse_networks (tn_allowed_ips t)) (\<lambda>ns.
     if ns = [] then Inr True
     else case ip_address (py_strip (case ip of None \<Rightarrow> [] | Some s \<Rightarrow> s)) of
       None \<Rightarrow> Inr False
     | Some a \<Rightarrow> Inr (list_ex (in_network a) ns))"

section \<open>Validation\<close>

definition has_live_site :: "cloud \<Rightarrow> string \<Rightarrow> bool" where
  "has_live_site c name \<longleftrightarrow> list_ex (\<lambda>s. sh_tenant s = name \<and> sh_status s \<noteq> ''Dropped'') (site_hosts c)"

definition assert_no_live_site :: "cloud \<Rightarrow> string \<Rightarrow> unit res" where
  "assert_no_live_site c name = require (\<not> has_live_site c name) (ValidationError name)"

definition has_mail_data :: "cloud \<Rightarrow> string \<Rightarrow> bool" where
  "has_mail_data c name \<longleftrightarrow> list_ex (\<lambda>e. e_tenant e = name) (entries (dir c)) \<or>
     list_ex (\<lambda>d. d_tenant d = name) (domains (base (dir c))) \<or> name \<in> set (report_tenants c)"

definition assert_mail_configured :: "tenant \<Rightarrow> unit res" where
  "assert_mail_configured t = require (tn_cluster t \<noteq> []) (MailNotConfiguredError (tn_name t))"

definition tenant_cluster :: "cloud \<Rightarrow> tenant \<Rightarrow> cluster_row res" where
  "tenant_cluster c t = rbind (assert_mail_configured t) (\<lambda>_. get_cluster (dir c) (tn_cluster t))"

definition validate_limits :: "tenant \<Rightarrow> unit res" where
  "validate_limits t =
    rbind (require (tn_max_domains t \<ge> 0) (ValidationError ''max_domains'')) (\<lambda>_.
    rbind (require (tn_max_accounts t \<ge> 0) (ValidationError ''max_accounts'')) (\<lambda>_.
    rbind (require (tn_max_groups t \<ge> 0) (ValidationError ''max_groups'')) (\<lambda>_.
    rbind (require (tn_max_mailing_lists t \<ge> 0) (ValidationError ''max_mailing_lists'')) (\<lambda>_.
      require (tn_max_disk_gb t \<ge> 0) (ValidationError ''max_disk_gb'')))))"

definition send_limit_ok :: "int \<Rightarrow> int \<Rightarrow> bool" where
  "send_limit_ok maximum v \<longleftrightarrow> \<not> (v < 1 \<or> (maximum \<noteq> 0 \<and> v > maximum))"

definition validate_send_limits :: "cloud \<Rightarrow> tenant \<Rightarrow> unit res" where
  "validate_send_limits c t =
    rbind (if tn_cluster t \<noteq> [] then rbind (tenant_cluster c t) (\<lambda>k. Inr (k_max_daily_send_limit k, k_max_monthly_send_limit k))
           else Inr (0, 0)) (\<lambda>(daily, monthly).
    rbind (require (send_limit_ok daily (tn_default_daily_send_limit t)) (ValidationError ''default_daily_send_limit'')) (\<lambda>_.
      require (send_limit_ok monthly (tn_default_monthly_send_limit t)) (ValidationError ''default_monthly_send_limit'')))"

definition cluster_changed :: "tenant option \<Rightarrow> tenant \<Rightarrow> bool" where
  "cluster_changed before t \<longleftrightarrow> (case before of None \<Rightarrow> True | Some b \<Rightarrow> tn_cluster b \<noteq> tn_cluster t)"

definition validate_stalwart_cluster :: "cloud \<Rightarrow> tenant option \<Rightarrow> tenant \<Rightarrow> tenant res" where
  "validate_stalwart_cluster c before t =
    rbind (require (\<not> (before \<noteq> None \<and> cluster_changed before t \<and> has_mail_data c (tn_name t))) (ValidationError (tn_name t))) (\<lambda>_.
    if tn_cluster t = [] then Inr (t\<lparr>tn_egress_pool := []\<rparr>)
    else
      rbind (if cluster_changed before t
             then rbind (tenant_cluster c t) (\<lambda>k. require (is_active k) (ValidationError (tn_cluster t))) else Inr ()) (\<lambda>_.
      rbind (require (tn_egress_pool t = [] \<or> map_of (egress_pools c) (tn_egress_pool t) = Some (tn_cluster t))
               (ValidationError (tn_egress_pool t))) (\<lambda>_. Inr t)))"

definition validate_contact :: "rules \<Rightarrow> tenant \<Rightarrow> tenant res" where
  "validate_contact R t =
    (if tn_contact_email t = [] then Inr t
     else let email = py_lower (py_strip (tn_contact_email t)) in
       rbind (require (frappe_validate_email R email) (ValidationError email)) (\<lambda>_. Inr (t\<lparr>tn_contact_email := email\<rparr>)))"

definition user_changed :: "tenant option \<Rightarrow> tenant \<Rightarrow> bool" where
  "user_changed before t \<longleftrightarrow> (case before of None \<Rightarrow> True | Some b \<Rightarrow> tn_user b \<noteq> tn_user t)"

definition validate_tenant :: "rules \<Rightarrow> cloud \<Rightarrow> tenant option \<Rightarrow> tenant \<Rightarrow> tenant res" where
  "validate_tenant R c before t =
    rbind (validate_contact R (t\<lparr>tn_title := py_strip (tn_title t)\<rparr>)) (\<lambda>t.
    rbind (parse_networks (tn_allowed_ips t)) (\<lambda>ns.
    let t = t\<lparr>tn_allowed_ips := networks_text ns\<rparr> in
    rbind (if tn_user t \<noteq> [] \<and> user_changed before t then assert_can_own c (tn_user t) else Inr ()) (\<lambda>_.
    rbind (validate_limits t) (\<lambda>_.
    rbind (validate_stalwart_cluster c before t) (\<lambda>t.
    rbind (validate_send_limits c t) (\<lambda>_. Inr t))))))"

section \<open>Operations\<close>

definition put_tenant :: "tenant \<Rightarrow> cloud \<Rightarrow> cloud" where
  "put_tenant t c = c\<lparr>dir := (dir c)\<lparr>tenants := map (\<lambda>x. if tn_name x = tn_name t then t else x) (tenants (dir c))\<rparr>\<rparr>"

definition place_on_cluster :: "cloud \<Rightarrow> string \<Rightarrow> tenant \<Rightarrow> tenant" where
  "place_on_cluster c region t =
    (if tn_cluster t \<noteq> [] \<or> tn_type t \<noteq> ''Suite Site'' then t
     else t\<lparr>tn_cluster := (case pick_cluster c (if region \<noteq> [] then region else default_region c) of None \<Rightarrow> [] | Some k \<Rightarrow> k)\<rparr>)"

definition insert_tenant :: "rules \<Rightarrow> string \<Rightarrow> string \<Rightarrow> tenant \<Rightarrow> cloud \<Rightarrow> cloud res" where
  "insert_tenant R name region t c =
    rbind (validate_tenant R c None (place_on_cluster c region (t\<lparr>tn_name := name, tn_status := ''Active''\<rparr>))) (\<lambda>t.
      Inr (c\<lparr>dir := (dir c)\<lparr>tenants := tenants (dir c) @ [t]\<rparr>\<rparr>))"

text \<open>\<open>on_update\<close>: the clusters before and after get the tenant's new pool.\<close>

definition pool_resyncs :: "tenant \<Rightarrow> tenant \<Rightarrow> string list" where
  "pool_resyncs before t =
    (if tn_egress_pool before \<noteq> tn_egress_pool t
     then filter (\<lambda>k. k \<noteq> []) (fromkeys [tn_cluster before, tn_cluster t]) else [])"

definition save_tenant :: "rules \<Rightarrow> tenant \<Rightarrow> cloud \<Rightarrow> cloud res" where
  "save_tenant R t c =
    rbind (get_tenant (dir c) (tn_name t)) (\<lambda>before.
    rbind (validate_tenant R c (Some before) t) (\<lambda>t.
      Inr (put_tenant t (c\<lparr>resyncs := resyncs c @ pool_resyncs before t\<rparr>))))"

definition delete_tenant :: "string \<Rightarrow> cloud \<Rightarrow> cloud res" where
  "delete_tenant name c =
    rbind (get_tenant (dir c) name) (\<lambda>t.
    rbind (assert_no_live_site c name) (\<lambda>_.
    rbind (require (tn_status t = ''Archived'') (ValidationError name)) (\<lambda>_.
    rbind (require (\<not> list_ex (\<lambda>d. d_tenant d = name) (domains (base (dir c)))) (ValidationError name)) (\<lambda>_.
      Inr (c\<lparr>dir := (dir c)\<lparr>tenants := filter (\<lambda>t. tn_name t \<noteq> name) (tenants (dir c))\<rparr>\<rparr>)))))"

definition suspend :: "string \<Rightarrow> string \<Rightarrow> cloud \<Rightarrow> cloud res" where
  "suspend user name c =
    rbind (only_for_operators c user) (\<lambda>_. rbind (get_tenant (dir c) name) (\<lambda>t.
    rbind (require (tn_status t \<noteq> ''Archived'') (ValidationError name)) (\<lambda>_.
      Inr (put_tenant (t\<lparr>tn_status := ''Suspended''\<rparr>) c))))"

definition resume :: "string \<Rightarrow> string \<Rightarrow> cloud \<Rightarrow> cloud res" where
  "resume user name c =
    rbind (only_for_operators c user) (\<lambda>_. rbind (get_tenant (dir c) name) (\<lambda>t.
    rbind (require (tn_status t \<noteq> ''Archived'') (ValidationError name)) (\<lambda>_.
      Inr (put_tenant (t\<lparr>tn_enabled := True, tn_status := ''Active''\<rparr>) c))))"

text \<open>With \<open>delete_data\<close> the purge of the directory is queued (\<open>purge_directory\<close>, after the Mail Domain document).\<close>

definition archive :: "string \<Rightarrow> string \<Rightarrow> bool \<Rightarrow> cloud \<Rightarrow> (cloud \<times> string list) res" where
  "archive user name delete_data c =
    rbind (only_for_operators c user) (\<lambda>_. rbind (get_tenant (dir c) name) (\<lambda>t.
    rbind (assert_no_live_site c name) (\<lambda>_.
      Inr (put_tenant (t\<lparr>tn_enabled := False, tn_status := ''Archived'', tn_archived := True\<rparr>) c,
           if delete_data then [name] else []))))"

definition get_site_hosts :: "cloud \<Rightarrow> string \<Rightarrow> string list" where
  "get_site_hosts c name =
    (let live = filter (\<lambda>s. sh_tenant s = name \<and> sh_status s \<noteq> ''Dropped'') (site_hosts c) in
     fromkeys (map py_lower (filter (\<lambda>h. h \<noteq> []) (map sh_hostname live @ concat (map sh_domains live)))))"

section \<open>Proof that a tenant controls a domain\<close>

definition VALUE_PREFIX :: string where "VALUE_PREFIX = ''frappe-suite-verification=''"

definition ownership_value :: "tenant \<Rightarrow> string" where
  "ownership_value t = VALUE_PREFIX @ tn_name t"

definition ownership_required :: "bool \<Rightarrow> string \<Rightarrow> tenant \<Rightarrow> bool" where
  "ownership_required skipped session_user t \<longleftrightarrow> session_user = tn_user t \<and> \<not> skipped"

definition verify_ownership :: "(string \<Rightarrow> string \<Rightarrow> string \<Rightarrow> string list option) \<Rightarrow> tenant \<Rightarrow> string \<Rightarrow> bool option" where
  "verify_ownership resolve t domain = verify_dns_record resolve domain ''TXT'' (ownership_value t)"

definition assert_ownership :: "(string \<Rightarrow> string \<Rightarrow> string \<Rightarrow> string list option) \<Rightarrow> tenant \<Rightarrow> string \<Rightarrow> unit res" where
  "assert_ownership resolve t domain =
    (case verify_ownership resolve t domain of
       None \<Rightarrow> Inl (OwnershipLookupError domain)
     | Some True \<Rightarrow> Inr ()
     | Some False \<Rightarrow> Inl (DomainNotVerifiedError domain))"

section \<open>Disk usage\<close>

text \<open>
  \<open>fetch cluster ids\<close> (the account service's \<open>get_many\<close>) answers with the objects found and their \<open>usedDiskQuota\<close>.  A cluster that cannot answer costs
  its own figures only.
\<close>

record usage_row =
  ur_name :: string
  ur_stalwart_id :: string
  ur_cluster :: string

definition by_cluster :: "usage_row list \<Rightarrow> (string, (string, string) dict) dict" where
  "by_cluster rs =
    fold (\<lambda>r d. if ur_stalwart_id r = [] \<or> ur_cluster r = [] then d
                else dict_set (ur_cluster r) (dict_set (ur_stalwart_id r) (ur_name r)
                  (case map_of d (ur_cluster r) of None \<Rightarrow> [] | Some ids \<Rightarrow> ids)) d) rs []"

definition used_disk_by_name ::
  "(string \<Rightarrow> string list \<Rightarrow> (string \<times> int) list res) \<Rightarrow> usage_row list \<Rightarrow> (string, int) dict" where
  "used_disk_by_name fetch rs =
    fold (\<lambda>(cluster, names) u.
      case fetch cluster (map fst names) of
        Inl e \<Rightarrow> u
      | Inr objects \<Rightarrow> fold (\<lambda>(i, used) u. case map_of names i of None \<Rightarrow> u | Some n \<Rightarrow> dict_set n used u) objects u)
      (by_cluster rs) []"

definition DISK_USAGE_CACHE_TTL :: nat where "DISK_USAGE_CACHE_TTL = 300"

record disk_usage =
  used_disk_bytes :: int
  fetched_at :: nat

definition mailbox_ids :: "cloud \<Rightarrow> string \<Rightarrow> string list" where
  "mailbox_ids c name =
    concat (map (\<lambda>dt. List.map_filter e_stalwart_id (filter (\<lambda>e. e_doctype e = dt \<and> e_tenant e = name) (entries (dir c))))
      [Mail_Account, Mail_Group])"

definition fetch_mail_used_disk_bytes ::
  "(string \<Rightarrow> string list \<Rightarrow> (string \<times> int) list res) \<Rightarrow> cloud \<Rightarrow> tenant \<Rightarrow> int res" where
  "fetch_mail_used_disk_bytes fetch c t =
    (let ids = mailbox_ids c (tn_name t) in
     if ids = [] then Inr 0
     else rbind (tenant_cluster c t) (\<lambda>k. rbind (fetch (k_name k) ids) (\<lambda>os. Inr (sum_list (map snd os)))))"

text \<open>The cache entry with the second it expires at; \<open>now\<close> is the clock.\<close>

definition get_disk_usage ::
  "(string \<Rightarrow> string list \<Rightarrow> (string \<times> int) list res) \<Rightarrow> nat \<Rightarrow> bool \<Rightarrow> cloud \<Rightarrow> tenant \<Rightarrow> (disk_usage \<times> nat) option \<Rightarrow>
     disk_usage res \<times> (disk_usage \<times> nat) option" where
  "get_disk_usage fetch now fresh c t cached =
    (case (if fresh then None else find (\<lambda>(u, expires). now < expires) (case cached of None \<Rightarrow> [] | Some x \<Rightarrow> [x])) of
       Some (u, _) \<Rightarrow> (Inr u, cached)
     | None \<Rightarrow> (case fetch_mail_used_disk_bytes fetch c t of
           Inl e \<Rightarrow> (Inl e, cached)
         | Inr n \<Rightarrow> (let u = \<lparr>used_disk_bytes = n, fetched_at = now\<rparr> in (Inr u, Some (u, now + DISK_USAGE_CACHE_TTL)))))"

definition is_stalwart_error :: "exn \<Rightarrow> bool" where
  "is_stalwart_error e = (case e of StalwartRejected _ \<Rightarrow> True | StalwartUnavailable \<Rightarrow> True | StalwartUnauthorized \<Rightarrow> True
     | StalwartFailed _ \<Rightarrow> True | _ \<Rightarrow> False)"

text \<open>The figure of the form: a cluster that cannot answer costs the figure only.\<close>

definition get_mail_used_disk_bytes ::
  "(string \<Rightarrow> string list \<Rightarrow> (string \<times> int) list res) \<Rightarrow> nat \<Rightarrow> cloud \<Rightarrow> tenant \<Rightarrow> (disk_usage \<times> nat) option \<Rightarrow> int option res" where
  "get_mail_used_disk_bytes fetch now c t cached =
    (case fst (get_disk_usage fetch now False c t cached) of
       Inr u \<Rightarrow> Inr (Some (used_disk_bytes u))
     | Inl e \<Rightarrow> if is_stalwart_error e then Inr None else Inl e)"

section \<open>Allowed addresses: what is stored is canonical\<close>

lemma parse_lines_texts:
  assumes "parse_lines ls = Inr ns" "\<forall>l\<in>set ls. \<forall>c\<in>set l. \<not> is_linebreak c"
  shows "\<forall>n\<in>set ns. network_ok n \<and> network_str n \<noteq> [] \<and> py_strip (network_str n) = network_str n \<and>
    (\<forall>c\<in>set (network_str n). \<not> is_linebreak c)"
  using assms
proof (induction ls arbitrary: ns)
  case (Cons l ls)
  have strip: "\<forall>c\<in>set (py_strip l). \<not> is_linebreak c"
    using Cons.prems(2) set_rstrip_by set_lstrip_by unfolding py_strip_def by fastforce
  show ?case
  proof (cases "py_strip l = []")
    case True
    then show ?thesis using Cons by simp
  next
    case False
    then obtain n ms where "ip_network (py_strip l) = Some n" "parse_lines ls = Inr ms" "ns = n # ms"
      using Cons.prems(1) by (auto simp: Let_def split: option.splits)
    then show ?thesis
      using Cons network_str_text [OF _ strip, of n] networks.read_ok by auto
  qed
qed simp

lemma parse_lines_show:
  "(\<And>n. n \<in> set ns \<Longrightarrow> network_ok n \<and> network_str n \<noteq> [] \<and> py_strip (network_str n) = network_str n) \<Longrightarrow>
    parse_lines (map network_str ns) = Inr ns"
proof (induction ns)
  case (Cons n ns)
  have "ip_network (network_str n) = Some n" using Cons.prems by (intro networks.read_show) simp
  moreover have "parse_lines (map network_str ns) = Inr ns" using Cons by simp
  ultimately show ?case using Cons.prems [of n] by (simp add: Let_def)
qed simp

lemma parse_networks_text:
  assumes "parse_networks text = Inr ns"
  shows "parse_networks (networks_text ns) = Inr ns"
proof -
  have ok: "\<forall>n\<in>set ns. network_ok n \<and> network_str n \<noteq> [] \<and> py_strip (network_str n) = network_str n \<and>
      (\<forall>c\<in>set (network_str n). \<not> is_linebreak c)"
    using parse_lines_texts [OF assms [unfolded parse_networks_def]] splitlines_chars by blast
  have "splitlines (networks_text ns) = map network_str ns"
    unfolding networks_text_def by (rule splitlines_join) (use ok in auto)
  then show ?thesis unfolding parse_networks_def using parse_lines_show [of ns] ok by simp
qed

text \<open>
  C38. The allow list is stored in a form that reads back as the same networks: parsing the text a save writes gives the
  networks the operator's text gave, whatever spelling, masks, host bits and blank lines it used, and saving
  again changes nothing.
\<close>

theorem allowed_ips_round_trip:
  assumes "parse_networks text = Inr ns"
  shows "parse_networks (networks_text ns) = Inr ns"
  using parse_networks_text [OF assms] by simp

definition sample_ips :: string where
  "sample_ips = ''10.1.2.3/8'' @ [newline, CHR '' ''] @ ''2001:DB8::/32'' @ [newline, newline]"

definition sample_networks :: "ip_net list" where
  "sample_networks = [\<lparr>network_address = IPv4Address (10 * 2 ^ 24), prefixlen = 8\<rparr>,
     \<lparr>network_address = IPv6Address (0x20010db8 * 2 ^ 96) None, prefixlen = 32\<rparr>]"

lemma sample_ips_parsed: "parse_networks sample_ips = Inr sample_networks"
proof -
  have lines: "splitlines sample_ips = [''10.1.2.3/8'', '' 2001:DB8::/32'', []]" by code_simp
  have strip: "map py_strip [''10.1.2.3/8'', '' 2001:DB8::/32'', []] = [''10.1.2.3/8'', ''2001:DB8::/32'', []]" by code_simp
  have four: "v4_from_string ''10.1.2.3'' = Some 167838211"
    by (simp add: v4_from_string_def parse_octet_def py_isdigit_def code_def read_nat_def)
  have six: "v6_from_string ''2001:DB8::'' = Some (0x20010db8 * 2 ^ 96)"
    by (simp add: v6_from_string_def with_v4_suffix_def hextets_value_def hextet_layout_def upt_rec parse_hextet_def read_hex_def
        hex_value_def py_isdigit_def code_def)
  have masks: "167838211 AND int_from_prefix 32 8 = (10 * 2 ^ 24 :: nat)"
    "(0x20010db8 * 2 ^ 96) AND int_from_prefix 128 32 = (0x20010db8 * 2 ^ 96 :: nat)"
    using and_int_from_prefix [of 167838211 32 8] and_int_from_prefix [of "0x20010db8 * 2 ^ 96" 128 32] by simp_all
  have prefixes: "prefix_from_string 32 ''8'' = Some 8" "prefix_from_string 128 ''32'' = Some 32"
    by (simp_all add: prefix_from_string_def py_isdigit_def code_def read_nat_def)
  have "ip_network ''10.1.2.3/8'' = Some (hd sample_networks)"
    using four masks(1) prefixes by (simp add: ip_network_def v4_network_def sample_networks_def)
  moreover have "ip_network ''2001:DB8::/32'' = Some (last sample_networks)"
    using six masks(2) prefixes
    by (simp add: ip_network_def v4_network_def v4_from_string_colon v6_network_def v6_address_def split_scope_id_def sample_networks_def)
  ultimately show ?thesis using strip by (simp add: parse_networks_def lines Let_def sample_networks_def)
qed

theorem allowed_ips_round_trip_witness:
  "parse_networks sample_ips = Inr sample_networks \<and> parse_networks (networks_text sample_networks) = Inr sample_networks"
  using allowed_ips_round_trip [OF sample_ips_parsed] sample_ips_parsed by blast

lemma parse_lines_ok: "parse_lines ls = Inr ns \<Longrightarrow> n \<in> set ns \<Longrightarrow> network_ok n"
  by (induction ls arbitrary: ns) (auto simp: Let_def networks.read_ok split: if_splits option.splits)

text \<open>
  C39. A tenant with an allow list takes requests exactly from the addresses whose leading bits agree with one of its
  networks of the same version, as many bits as the network's prefix; an address that does not parse is refused.
  An empty list allows every address.
\<close>

theorem allows_ip_exact:
  assumes "parse_networks (tn_allowed_ips t) = Inr ns"
  shows "allows_ip t (Some ip) = Inr True \<longleftrightarrow> ns = [] \<or>
    (\<exists>a n. ip_address (py_strip ip) = Some a \<and> n \<in> set ns \<and> ip_version a = ip_version (network_address n) \<and>
       ip_int a div 2 ^ (max_prefixlen a - prefixlen n) = ip_int (network_address n) div 2 ^ (max_prefixlen a - prefixlen n))"
proof (cases "ip_address (py_strip ip)")
  case None
  then show ?thesis using assms by (simp add: allows_ip_def)
next
  case (Some a)
  have "in_network a n \<longleftrightarrow> ip_version a = ip_version (network_address n) \<and>
      ip_int a div 2 ^ (max_prefixlen a - prefixlen n) = ip_int (network_address n) div 2 ^ (max_prefixlen a - prefixlen n)"
    if "n \<in> set ns" for n
    using in_network_prefix [OF addresses.read_ok [OF Some] parse_lines_ok [OF assms [unfolded parse_networks_def] that]] .
  then show ?thesis using assms Some by (auto simp: allows_ip_def list_ex_iff)
qed

theorem allows_ip_exact_witness:
  "allows_ip (sample_tenant\<lparr>tn_allowed_ips := sample_ips\<rparr>) (Some ''10.1.2.3'') = Inr True"
proof -
  have ip: "ip_address (py_strip ''10.1.2.3'') = Some (IPv4Address 167838211)"
  proof -
    have "py_strip ''10.1.2.3'' = ''10.1.2.3''" by code_simp
    then show ?thesis by (simp add: ip_address_def v4_from_string_def parse_octet_def py_isdigit_def code_def read_nat_def)
  qed
  have "parse_networks (tn_allowed_ips (sample_tenant\<lparr>tn_allowed_ips := sample_ips\<rparr>)) = Inr sample_networks"
    using sample_ips_parsed by simp
  from allows_ip_exact [OF this, of "''10.1.2.3''"] ip show ?thesis by (auto simp: sample_networks_def)
qed

section \<open>Who sees what\<close>

text \<open>
  C40. Lists and documents agree: a row passes the condition put on a list query exactly when its document may be
  opened, for Suite Tenant and for every document a tenant owns.
\<close>

theorem list_shows_what_may_be_opened:
  "row_matches (tenant_query_conditions c user) (tn_user t) (tn_name t) = has_tenant_permission c t user \<and>
   row_matches (tenant_document_query_conditions c user) owner tenant = has_tenant_document_permission c tenant user"
  by (simp add: tenant_query_conditions_def tenant_document_query_conditions_def has_tenant_permission_def
      has_tenant_document_permission_def)

section \<open>What every tenant keeps\<close>

definition save_user :: "user_row \<Rightarrow> cloud \<Rightarrow> cloud res" where
  "save_user u c = rbind (keep_owner_role c u) (\<lambda>_. Inr (c\<lparr>user_rows := map (\<lambda>x. if u_name x = u_name u then u else x) (user_rows c)\<rparr>))"

definition tenant_fields_ok :: "tenant \<Rightarrow> bool" where
  "tenant_fields_ok t \<longleftrightarrow>
     (\<exists>ns. parse_networks (tn_allowed_ips t) = Inr ns \<and> tn_allowed_ips t = networks_text ns) \<and>
     tn_max_domains t \<ge> 0 \<and> tn_max_accounts t \<ge> 0 \<and> tn_max_groups t \<ge> 0 \<and> tn_max_mailing_lists t \<ge> 0 \<and> tn_max_disk_gb t \<ge> 0 \<and>
     tn_default_daily_send_limit t \<ge> 1 \<and> tn_default_monthly_send_limit t \<ge> 1"

definition owner_ok :: "cloud \<Rightarrow> tenant \<Rightarrow> bool" where
  "owner_ok c t \<longleftrightarrow> tn_user t \<noteq> [] \<longrightarrow> TENANT_ROLE \<in> set (get_roles c (tn_user t))"

definition pool_ok :: "cloud \<Rightarrow> tenant \<Rightarrow> bool" where
  "pool_ok c t \<longleftrightarrow> tn_egress_pool t = [] \<or> map_of (egress_pools c) (tn_egress_pool t) = Some (tn_cluster t)"

definition tenants_ok :: "cloud \<Rightarrow> bool" where
  "tenants_ok c \<longleftrightarrow> (\<forall>t\<in>set (tenants (dir c)). tenant_fields_ok t \<and> owner_ok c t \<and> pool_ok c t)"

lemma validate_stalwart_cluster_Inr:
  assumes "validate_stalwart_cluster c before t = Inr t'"
  shows "pool_ok c t' \<and> (t' = t \<or> t' = t\<lparr>tn_egress_pool := []\<rparr>) \<and>
    (before \<noteq> None \<and> cluster_changed before t \<longrightarrow> \<not> has_mail_data c (tn_name t))"
  using assms by (auto simp: validate_stalwart_cluster_def pool_ok_def split: if_splits)

lemma validate_tenant_Inr:
  assumes "validate_tenant R c before t = Inr t'"
  shows "tenant_fields_ok t'" "pool_ok c t'" "tn_name t' = tn_name t" "tn_cluster t' = tn_cluster t" "tn_user t' = tn_user t"
    "tn_status t' = tn_status t" "tn_enabled t' = tn_enabled t"
    "user_changed before t' \<longrightarrow> owner_ok c t'" "before \<noteq> None \<and> cluster_changed before t' \<longrightarrow> \<not> has_mail_data c (tn_name t')"
proof -
  obtain t1 ns where t1: "validate_contact R (t\<lparr>tn_title := py_strip (tn_title t)\<rparr>) = Inr t1"
    and ns: "parse_networks (tn_allowed_ips t1) = Inr ns"
    and own: "tn_user t1 \<noteq> [] \<and> user_changed before (t1\<lparr>tn_allowed_ips := networks_text ns\<rparr>) \<longrightarrow> assert_can_own c (tn_user t1) = Inr ()"
    and lim: "validate_limits (t1\<lparr>tn_allowed_ips := networks_text ns\<rparr>) = Inr ()"
    and clu: "validate_stalwart_cluster c before (t1\<lparr>tn_allowed_ips := networks_text ns\<rparr>) = Inr t'"
    and snd: "validate_send_limits c t' = Inr ()"
    using assms by (auto simp: validate_tenant_def Let_def split: if_splits)
  have same: "tn_name t1 = tn_name t" "tn_cluster t1 = tn_cluster t" "tn_user t1 = tn_user t" "tn_status t1 = tn_status t" "tn_enabled t1 = tn_enabled t"
    using t1 by (auto simp: validate_contact_def Let_def split: if_splits)
  note c = validate_stalwart_cluster_Inr [OF clu]
  have sl: "tn_default_daily_send_limit t' \<ge> 1" "tn_default_monthly_send_limit t' \<ge> 1"
    using snd by (auto simp: validate_send_limits_def send_limit_ok_def split: if_splits)
  show "tenant_fields_ok t'"
    using c lim sl parse_networks_text [OF ns] unfolding tenant_fields_ok_def validate_limits_def by auto
  show "pool_ok c t'" using c by simp
  show "tn_name t' = tn_name t" "tn_cluster t' = tn_cluster t" "tn_user t' = tn_user t" "tn_status t' = tn_status t" "tn_enabled t' = tn_enabled t"
    using c same by auto
  show "user_changed before t' \<longrightarrow> owner_ok c t'"
    using own c by (auto simp: owner_ok_def assert_can_own_def user_changed_def split: if_splits option.splits)
  show "before \<noteq> None \<and> cluster_changed before t' \<longrightarrow> \<not> has_mail_data c (tn_name t')"
    using c by (auto simp: cluster_changed_def split: option.splits)
qed

lemma tenants_put_tenant: "set (tenants (dir (put_tenant t c))) \<subseteq> insert t (set (tenants (dir c)))"
  by (auto simp: put_tenant_def)

lemma frame_put_tenant [simp]:
  "user_rows (put_tenant t c) = user_rows c" "egress_pools (put_tenant t c) = egress_pools c"
  by (simp_all add: put_tenant_def)

lemma tenants_ok_frame:
  assumes "tenants_ok c" "set (tenants (dir c')) \<subseteq> X \<union> set (tenants (dir c))"
    "user_rows c' = user_rows c" "egress_pools c' = egress_pools c"
    "\<forall>t\<in>X. tenant_fields_ok t \<and> owner_ok c t \<and> pool_ok c t"
  shows "tenants_ok c'"
proof -
  have "owner_ok c' t = owner_ok c t" "pool_ok c' t = pool_ok c t" for t
    using assms(3,4) by (simp_all add: owner_ok_def get_roles_def pool_ok_def)
  then show ?thesis using assms(1,2,5) by (fastforce simp: tenants_ok_def)
qed

lemma get_tenant_in: "get_tenant db name = Inr t \<Longrightarrow> t \<in> set (tenants db) \<and> tn_name t = name"
  by (auto simp: get_tenant_def dest: find_Some_in split: option.splits)

text \<open>What may happen to tenants and their owners.\<close>

inductive tenant_step :: "rules \<Rightarrow> cloud \<Rightarrow> cloud \<Rightarrow> bool" for R :: rules where
  inserted: "insert_tenant R name region t c = Inr c' \<Longrightarrow> tenant_step R c c'"
| saved: "save_tenant R t c = Inr c' \<Longrightarrow> tenant_step R c c'"
| deleted: "delete_tenant name c = Inr c' \<Longrightarrow> tenant_step R c c'"
| suspended: "suspend user name c = Inr c' \<Longrightarrow> tenant_step R c c'"
| resumed: "resume user name c = Inr c' \<Longrightarrow> tenant_step R c c'"
| archived: "archive user name delete_data c = Inr (c', jobs) \<Longrightarrow> tenant_step R c c'"
| user_saved: "save_user u c = Inr c' \<Longrightarrow> tenant_step R c c'"

lemma tenants_ok_same_fields:
  assumes "tenants_ok c" "get_tenant (dir c) name = Inr t" "c' = put_tenant t' c"
    "tenant_fields_ok t' = tenant_fields_ok t" "owner_ok c t' = owner_ok c t" "pool_ok c t' = pool_ok c t"
  shows "tenants_ok c'"
  by (rule tenants_ok_frame [OF assms(1), of _ "{t'}"])
    (use assms get_tenant_in [OF assms(2)] tenants_put_tenant [of t' c] in \<open>auto simp: tenants_ok_def\<close>)

lemma get_roles_iff: "r \<in> set (get_roles c user) \<longleftrightarrow> (\<exists>u\<in>set (user_rows c). u_name u = user \<and> r \<in> set (u_roles u))"
  by (auto simp: get_roles_def)

lemma save_user_tenants_ok:
  assumes "tenants_ok c" "save_user u c = Inr c'"
  shows "tenants_ok c'"
proof -
  have k: "keep_owner_role c u = Inr ()"
    and c': "c' = c\<lparr>user_rows := map (\<lambda>x. if u_name x = u_name u then u else x) (user_rows c)\<rparr>"
    using assms(2) by (auto simp: save_user_def)
  have "owner_ok c' t" if t: "t \<in> set (tenants (dir c))" for t
  proof -
    have "owner_ok c t" using assms(1) t by (simp add: tenants_ok_def)
    moreover have "TENANT_ROLE \<in> set (u_roles u)" if "tn_user t = u_name u" using k t that by (auto simp: keep_owner_role_def split: if_splits)
    ultimately show ?thesis unfolding owner_ok_def get_roles_iff by (cases "tn_user t = u_name u") (auto simp: c')
  qed
  then show ?thesis using assms(1) by (simp add: tenants_ok_def c' pool_ok_def)
qed

lemma tenant_step_ok: "tenant_step R c c' \<Longrightarrow> tenants_ok c \<Longrightarrow> tenants_ok c'"
proof (induction rule: tenant_step.induct)
  case (inserted name region t c c')
  then obtain t' where t': "validate_tenant R c None (place_on_cluster c region (t\<lparr>tn_name := name, tn_status := ''Active''\<rparr>)) = Inr t'"
    and c': "c' = c\<lparr>dir := (dir c)\<lparr>tenants := tenants (dir c) @ [t']\<rparr>\<rparr>" by (auto simp: insert_tenant_def)
  show ?case
    by (rule tenants_ok_frame [OF inserted.prems, of _ "{t'}"])
      (use validate_tenant_Inr [OF t'] in \<open>auto simp: c' user_changed_def\<close>)
next
  case (saved t c c')
  then obtain before t' where b: "get_tenant (dir c) (tn_name t) = Inr before" and t': "validate_tenant R c (Some before) t = Inr t'"
    and c': "c' = put_tenant t' (c\<lparr>resyncs := resyncs c @ pool_resyncs before t'\<rparr>)" by (auto simp: save_tenant_def)
  have "owner_ok c before" using saved.prems get_tenant_in [OF b] by (simp add: tenants_ok_def)
  then have "owner_ok c t'" using validate_tenant_Inr(8) [OF t'] by (auto simp: user_changed_def owner_ok_def)
  then show ?case
    by (intro tenants_ok_frame [OF saved.prems, of _ "{t'}"])
      (use validate_tenant_Inr [OF t'] tenants_put_tenant in \<open>auto simp: c' put_tenant_def\<close>)
next
  case (deleted name c c')
  show ?case
    by (rule tenants_ok_frame [OF deleted.prems, of _ "{}"]) (use deleted in \<open>auto simp: delete_tenant_def\<close>)
next
  case (suspended user name c c')
  then obtain t where "get_tenant (dir c) name = Inr t" "c' = put_tenant (t\<lparr>tn_status := ''Suspended''\<rparr>) c" by (auto simp: suspend_def)
  from tenants_ok_same_fields [OF suspended.prems this] show ?case by (simp add: tenant_fields_ok_def owner_ok_def pool_ok_def)
next
  case (resumed user name c c')
  then obtain t where "get_tenant (dir c) name = Inr t" "c' = put_tenant (t\<lparr>tn_enabled := True, tn_status := ''Active''\<rparr>) c" by (auto simp: resume_def)
  from tenants_ok_same_fields [OF resumed.prems this] show ?case by (simp add: tenant_fields_ok_def owner_ok_def pool_ok_def)
next
  case (archived user name delete_data c c' jobs)
  then obtain t where "get_tenant (dir c) name = Inr t"
    "c' = put_tenant (t\<lparr>tn_enabled := False, tn_status := ''Archived'', tn_archived := True\<rparr>) c" by (auto simp: archive_def)
  from tenants_ok_same_fields [OF archived.prems this] show ?case by (simp add: tenant_fields_ok_def owner_ok_def pool_ok_def)
next
  case (user_saved u c c')
  then show ?case by (blast intro: save_user_tenants_ok)
qed


definition sample_cloud :: cloud where
  "sample_cloud = \<lparr>dir = sample_directory\<lparr>tenants := []\<rparr>, user_rows = [\<lparr>u_name = ''u'', u_roles = [TENANT_ROLE]\<rparr>], egress_pools = [],
     report_tenants = [], mail_regions = [], default_region = [], site_hosts = [], resyncs = []\<rparr>"


end
