(* ===== verification/Tenant_Api.thy ===== *)
theory Tenant_Api
  imports Tenants
begin

text \<open>
  The tenant API (src/suite_cloud/api/tenant/__init__.py): who a request is made for, how often it may be made, which
  documents it reaches, and the HTTP errors it ends in; and the one-alias-at-a-time calls of
  src/suite_cloud/api/mail/aliases.py.

  The rate counters and the log of refusals live in the cache, which no rollback undoes, so every call returns the
  state with its result.  \<open>stored\<close> is the decrypted secret of a tenant.
\<close>

section \<open>Requests\<close>

record request =
  rq_path :: string
  rq_authorization :: string
  rq_ip :: "string option"
  rq_tenant_field :: string
  rq_tenant_header :: string
  rq_session_user :: string

record api_state =
  counters :: "(string \<times> string, nat) dict"
  refusals :: "(string \<times> string, nat) dict"
  refusal_log :: "(string \<times> string) list"

definition API_PATHS :: "string list" where
  "API_PATHS = [''/api/v2/method/suite_cloud.api.'', ''/api/method/suite_cloud.api.'']"

definition RATE_LIMIT :: nat where "RATE_LIMIT = 300"

definition credentials_from_header :: "request \<Rightarrow> string \<times> string" where
  "credentials_from_header rq =
    (case partition_at CHR '' '' (rq_authorization rq) of (scheme, _, credential) \<Rightarrow>
     if py_lower scheme \<noteq> ''tenant'' then ([], [])
     else case partition_at CHR '':'' (py_strip credential) of (name, _, secret) \<Rightarrow> (name, secret))"

text \<open>A fixed window of one minute per subject; the count stays when the request is refused.\<close>

definition throttle :: "string \<Rightarrow> string \<Rightarrow> nat \<Rightarrow> api_state \<Rightarrow> unit res \<times> api_state" where
  "throttle window subject limit s =
    (let count = (case map_of (counters s) (subject, window) of None \<Rightarrow> 0 | Some n \<Rightarrow> n) + 1 in
     (require (count \<le> limit) TooManyRequestsError, s\<lparr>counters := dict_set (subject, window) count (counters s)\<rparr>))"

definition address_subject :: "request \<Rightarrow> string" where
  "address_subject rq = ''address:'' @ (case rq_ip rq of None \<Rightarrow> ''unknown'' | Some ip \<Rightarrow> if ip = [] then ''unknown'' else ip)"

text \<open>Bind for calls that return the state whether or not they raise.\<close>

definition then_do :: "'a res \<times> api_state \<Rightarrow> ('a \<Rightarrow> api_state \<Rightarrow> 'b res \<times> api_state) \<Rightarrow> 'b res \<times> api_state" where
  "then_do r f = (case r of (Inl e, s) \<Rightarrow> (Inl e, s) | (Inr x, s) \<Rightarrow> f x s)"

section \<open>Authentication\<close>

text \<open>The auth hook: the user the request runs as.\<close>

definition authenticate ::
  "(string \<Rightarrow> string option) \<Rightarrow> cloud \<Rightarrow> string \<Rightarrow> request \<Rightarrow> api_state \<Rightarrow> string res \<times> api_state" where
  "authenticate stored c window rq s =
    (case credentials_from_header rq of (name, secret) \<Rightarrow>
     if name = [] then (Inr (rq_session_user rq), s)
     else if \<not> list_ex (\<lambda>p. prefix p (rq_path rq)) API_PATHS
     then (Inl (AuthenticationError ''Tenant credentials are accepted only by the tenant API.''), s)
     else
       let t = find (\<lambda>t. tn_name t = name) (tenants (dir c));
           known = (case t of None \<Rightarrow> None | Some t \<Rightarrow> if tn_enabled t then stored name else None)
       in case (t, known) of
            (Some t, Some k) \<Rightarrow>
              if k \<noteq> [] \<and> k = secret then (Inr (tn_user t), s)
              else then_do (throttle window (address_subject rq) RATE_LIMIT s)
                     (\<lambda>_ s. (Inl (AuthenticationError ''Tenant authentication failed.''), s))
          | _ \<Rightarrow> then_do (throttle window (address_subject rq) RATE_LIMIT s)
                   (\<lambda>_ s. (Inl (AuthenticationError ''Tenant authentication failed.''), s)))"

definition tenant_from_secret :: "cloud \<Rightarrow> string \<Rightarrow> request \<Rightarrow> string" where
  "tenant_from_secret c user rq =
    (let name = fst (credentials_from_header rq) in
     if name \<noteq> [] \<and> map_option tn_user (find (\<lambda>t. tn_name t = name) (tenants (dir c))) = Some user then name else [])"

definition tenant_from_operator :: "cloud \<Rightarrow> string \<Rightarrow> request \<Rightarrow> string" where
  "tenant_from_operator c user rq =
    (if user = ''Guest'' \<or> ''System Manager'' \<notin> set (get_roles c user) then []
     else if rq_tenant_field rq \<noteq> [] then rq_tenant_field rq else rq_tenant_header rq)"

definition REFUSAL_TTL :: nat where "REFUSAL_TTL = 600"

definition log_refusal_once :: "nat \<Rightarrow> string \<Rightarrow> request \<Rightarrow> api_state \<Rightarrow> api_state" where
  "log_refusal_once now name rq s =
    (let key = (name, case rq_ip rq of None \<Rightarrow> ''unknown'' | Some ip \<Rightarrow> if ip = [] then ''unknown'' else ip) in
     if (case map_of (refusals s) key of None \<Rightarrow> False | Some expires \<Rightarrow> now < expires) then s
     else s\<lparr>refusals := dict_set key (now + REFUSAL_TTL) (refusals s), refusal_log := refusal_log s @ [key]\<rparr>)"

definition resolve_tenant ::
  "cloud \<Rightarrow> nat \<Rightarrow> string \<Rightarrow> string \<Rightarrow> request \<Rightarrow> api_state \<Rightarrow> tenant res \<times> api_state" where
  "resolve_tenant c now window user rq s =
    (let via_secret = tenant_from_secret c user rq;
         name = (if via_secret \<noteq> [] then via_secret else tenant_from_operator c user rq)
     in case (if name = [] then None else find (\<lambda>t. tn_name t = name) (tenants (dir c))) of
          None \<Rightarrow> then_do (throttle window (address_subject rq) RATE_LIMIT s)
            (\<lambda>_ s. (Inl (AuthenticationError ''Tenant authentication failed.''), s))
        | Some t \<Rightarrow> then_do (throttle window (''tenant:'' @ tn_name t) RATE_LIMIT s) (\<lambda>_ s.
            if \<not> tn_enabled t \<or> tn_status t \<noteq> ''Active'' then (Inl (PermissionError (tn_name t)), s)
            else if via_secret = [] then (Inr t, s)
            else case allows_ip t (rq_ip rq) of
                   Inl e \<Rightarrow> (Inl e, s)
                 | Inr True \<Rightarrow> (Inr t, s)
                 | Inr False \<Rightarrow> (Inl (PermissionError (tn_name t)), log_refusal_once now (tn_name t) rq s)))"

text \<open>A whole request up to its endpoint.\<close>

definition api_tenant ::
  "(string \<Rightarrow> string option) \<Rightarrow> cloud \<Rightarrow> nat \<Rightarrow> string \<Rightarrow> request \<Rightarrow> api_state \<Rightarrow> tenant res \<times> api_state" where
  "api_tenant stored c now window rq s =
    then_do (authenticate stored c window rq s) (\<lambda>user s. resolve_tenant c now window user rq s)"

lemma then_do_Inr: "then_do r f = (Inr y, s') \<longleftrightarrow> (\<exists>x s. r = (Inr x, s) \<and> f x s = (Inr y, s'))"
  by (auto simp: then_do_def split: prod.splits sum.splits)

lemma then_do_simps [simp]: "then_do (Inl e, s) f = (Inl e, s)" "then_do (Inr x, s) f = f x s"
  by (simp_all add: then_do_def)

lemma throttle_Inr: "throttle window subject limit s = (Inr u, s') \<Longrightarrow>
    \<exists>n. map_of (counters s') (subject, window) = Some n \<and> n \<le> limit"
  by (auto simp: throttle_def Let_def)

lemma authenticate_Inr:
  assumes "authenticate stored c window rq s = (Inr user, s')" "credentials_from_header rq = (name, secret)" "name \<noteq> []"
  shows "\<exists>t. find (\<lambda>t. tn_name t = name) (tenants (dir c)) = Some t \<and> tn_enabled t \<and> stored name = Some secret \<and> secret \<noteq> [] \<and>
    user = tn_user t \<and> list_ex (\<lambda>p. prefix p (rq_path rq)) API_PATHS"
  using assms
  by (auto simp: authenticate_def then_do_Inr Let_def split: if_splits option.splits)

text \<open>
  C33. A request that carries tenant credentials and reaches its endpoint came to the tenant API, named an enabled and active
  tenant, carried that tenant's secret, came from an address the tenant allows, and was within the tenant's requests of that
  minute; it acts for that tenant and no other.
\<close>

theorem secret_requests_authenticated:
  assumes "api_tenant stored c now window rq s = (Inr t, s')"
    and "credentials_from_header rq = (name, secret)" "name \<noteq> []"
  shows "tn_name t = name \<and> t \<in> set (tenants (dir c)) \<and> stored name = Some secret \<and> secret \<noteq> [] \<and>
    list_ex (\<lambda>p. prefix p (rq_path rq)) API_PATHS \<and> tn_enabled t \<and> tn_status t = ''Active'' \<and> allows_ip t (rq_ip rq) = Inr True \<and>
    (\<exists>n. map_of (counters s') (''tenant:'' @ name, window) = Some n \<and> n \<le> RATE_LIMIT)"
proof -
  obtain user s1 where auth: "authenticate stored c window rq s = (Inr user, s1)"
    and res: "resolve_tenant c now window user rq s1 = (Inr t, s')"
    using assms(1) by (auto simp: api_tenant_def then_do_Inr)
  obtain t' where t': "find (\<lambda>t. tn_name t = name) (tenants (dir c)) = Some t'" "tn_enabled t'" "stored name = Some secret" "secret \<noteq> []"
    "user = tn_user t'" "list_ex (\<lambda>p. prefix p (rq_path rq)) API_PATHS"
    using authenticate_Inr [OF auth assms(2,3)] by blast
  have via: "tenant_from_secret c user rq = name" using t'(1,5) assms(2,3) by (simp add: tenant_from_secret_def)
  have thr: "throttle window (''tenant:'' @ tn_name t') RATE_LIMIT s1 = (Inr (), s')"
    and "t = t'" "tn_status t' = ''Active''" "allows_ip t' (rq_ip rq) = Inr True"
    using res via t'(1) assms(3)
    by (auto simp: resolve_tenant_def then_do_Inr Let_def split: if_splits sum.splits bool.splits)
  moreover have "tn_name t' = name" "t' \<in> set (tenants (dir c))" using find_Some_in [OF t'(1)] by auto
  ultimately show ?thesis using t' throttle_Inr [OF thr] by auto
qed

definition sample_request :: request where
  "sample_request = \<lparr>rq_path = ''/api/v2/method/suite_cloud.api.tenant.ping'', rq_authorization = ''Tenant t1:s3cret'', rq_ip = Some ''10.1.2.3'',
     rq_tenant_field = [], rq_tenant_header = [], rq_session_user = ''Guest''\<rparr>"

definition sample_api_cloud :: cloud where
  "sample_api_cloud = sample_cloud\<lparr>dir := sample_directory\<rparr>"

definition no_requests :: api_state where
  "no_requests = \<lparr>counters = [], refusals = [], refusal_log = []\<rparr>"

theorem secret_requests_authenticated_witness:
  "\<exists>t s'. api_tenant [''t1'' \<mapsto> ''s3cret''] sample_api_cloud 0 ''w'' sample_request no_requests = (Inr t, s') \<and> tn_name t = ''t1'' \<and>
    tn_status t = ''Active''"
proof -
  have "case api_tenant [''t1'' \<mapsto> ''s3cret''] sample_api_cloud 0 ''w'' sample_request no_requests of (Inl _, _) \<Rightarrow> False | (Inr _, _) \<Rightarrow> True"
    by code_simp
  then obtain t s' where r: "api_tenant [''t1'' \<mapsto> ''s3cret''] sample_api_cloud 0 ''w'' sample_request no_requests = (Inr t, s')"
    by (auto split: prod.splits sum.splits)
  have "credentials_from_header sample_request = (''t1'', ''s3cret'')" by code_simp
  from secret_requests_authenticated [OF r this] r show ?thesis by auto
qed

text \<open>
  Within one window a subject is let through at most \<open>limit\<close> times, however many requests it makes and whatever
  other subjects do.
\<close>

fun throttled :: "string \<Rightarrow> nat \<Rightarrow> string list \<Rightarrow> api_state \<Rightarrow> (string \<times> bool) list" where
  "throttled window limit [] s = []"
| "throttled window limit (subject # rest) s =
    (case throttle window subject limit s of (r, s') \<Rightarrow> (subject, r = Inr ()) # throttled window limit rest s')"

lemma throttled_bounded:
  "length (filter (\<lambda>(x, ok). x = subject \<and> ok) (throttled window limit subjects s)) \<le>
    limit - (case map_of (counters s) (subject, window) of None \<Rightarrow> 0 | Some n \<Rightarrow> n)"
proof (induction subjects arbitrary: s)
  case (Cons x xs)
  define n where "n = (case map_of (counters s) (x, window) of None \<Rightarrow> 0 | Some n \<Rightarrow> n)"
  define s' where "s' = s\<lparr>counters := dict_set (x, window) (n + 1) (counters s)\<rparr>"
  have t: "throttle window x limit s = (require (n + 1 \<le> limit) TooManyRequestsError, s')" by (simp add: throttle_def n_def s'_def Let_def)
  show ?case
  proof (cases "x = subject")
    case True
    have "map_of (counters s') (subject, window) = Some (n + 1)" using True by (simp add: s'_def)
    moreover have "(case map_of (counters s) (subject, window) of None \<Rightarrow> 0 | Some n \<Rightarrow> n) = n" using True by (simp add: n_def)
    ultimately show ?thesis using Cons.IH [of s'] True t by (auto simp: require_def)
  next
    case False
    have "map_of (counters s') (subject, window) = map_of (counters s) (subject, window)" using False by (simp add: s'_def)
    then show ?thesis using Cons.IH [of s'] False by (auto simp: t)
  qed
qed simp

section \<open>Errors\<close>

text \<open>
  The status a request ends with: \<open>frappe_status\<close> is what Frappe gives its own classes, \<open>is_validation\<close> whether one
  derives from its \<open>ValidationError\<close>.
\<close>

definition http_status_code :: "(exn \<Rightarrow> nat) \<Rightarrow> exn \<Rightarrow> nat" where
  "http_status_code frappe_status e =
    (case e of MailNotConfiguredError _ \<Rightarrow> 422 | DomainNotVerifiedError _ \<Rightarrow> 422 | OwnershipLookupError _ \<Rightarrow> 503 | InvalidInputError _ \<Rightarrow> 400
     | _ \<Rightarrow> frappe_status e)"

definition api_errors :: "(exn \<Rightarrow> nat) \<Rightarrow> (exn \<Rightarrow> bool) \<Rightarrow> exn \<Rightarrow> nat" where
  "api_errors frappe_status is_validation e =
    (case e of StalwartRejected _ \<Rightarrow> 422 | StalwartUnavailable \<Rightarrow> 503 | StalwartUnauthorized \<Rightarrow> 502 | StalwartFailed _ \<Rightarrow> 502
     | _ \<Rightarrow> if is_validation e \<and> http_status_code frappe_status e = 417 then 422 else http_status_code frappe_status e)"

section \<open>The tenant's own documents\<close>

definition rpartition_at :: "'a \<Rightarrow> 'a list \<Rightarrow> 'a list \<times> bool \<times> 'a list" where
  "rpartition_at c s = (case partition_at c (rev s) of (after, found, before) \<Rightarrow> if found then (rev before, True, rev after) else ([], False, s))"

definition normalize_name :: "(string \<Rightarrow> string option) \<Rightarrow> string \<Rightarrow> string" where
  "normalize_name codec name =
    (case rpartition_at CHR ''@'' (py_lower (py_strip name)) of (user_part, found, domain) \<Rightarrow>
     let domain = (case idna_encode codec domain of None \<Rightarrow> domain | Some d \<Rightarrow> d)
     in if found then user_part @ ''@'' @ domain else domain)"

definition owned :: "(string \<Rightarrow> string option) \<Rightarrow> directory \<Rightarrow> string \<Rightarrow> doctype \<Rightarrow> string \<Rightarrow> entry res" where
  "owned codec db tenant dt name =
    (let name = normalize_name codec name in
     case (if name = [] then None else get_entry db dt name) of
       Some e \<Rightarrow> if e_tenant e = tenant then Inr e else Inl (DoesNotExistError name)
     | None \<Rightarrow> Inl (DoesNotExistError name))"

definition owned_domain :: "(string \<Rightarrow> string option) \<Rightarrow> directory \<Rightarrow> string \<Rightarrow> string \<Rightarrow> mail_domain res" where
  "owned_domain codec db tenant name =
    (let name = normalize_name codec name in
     case (if name = [] then None else find_domain name (domains (base db))) of
       Some d \<Rightarrow> if d_tenant d = tenant then Inr d else Inl (DoesNotExistError name)
     | None \<Rightarrow> Inl (DoesNotExistError name))"

definition owned_names :: "directory \<Rightarrow> string \<Rightarrow> doctype \<Rightarrow> string list" where
  "owned_names db tenant dt = sort (map e_email (filter (\<lambda>e. e_doctype e = dt \<and> e_tenant e = tenant) (entries db)))"

text \<open>\<open>wanted\<close> is \<open>int(limit)\<close>, \<open>None\<close> when that raises.\<close>

definition page_size :: "int option \<Rightarrow> int \<Rightarrow> int" where
  "page_size wanted cap = max 1 (min (case wanted of None \<Rightarrow> cap | Some n \<Rightarrow> n) cap)"

text \<open>\<open>like\<close> is the database's match of the search text; the rows come in the order of their names.\<close>

definition owned_page ::
  "(string \<Rightarrow> entry \<Rightarrow> bool) \<Rightarrow> directory \<Rightarrow> string \<Rightarrow> doctype \<Rightarrow> string \<Rightarrow> int \<Rightarrow> int option \<Rightarrow> int \<Rightarrow> string list \<times> nat" where
  "owned_page like db tenant dt search start wanted cap =
    (let rs = filter (\<lambda>e. e_doctype e = dt \<and> e_tenant e = tenant) (entries db);
         rs = (if py_strip search = [] then rs else filter (like (py_strip search)) rs);
         names = sort (map e_email rs)
     in (take (nat (page_size wanted cap)) (drop (nat (max start 0)) names), length rs))"

section \<open>Values of a request\<close>

text \<open>\<open>loads\<close> is \<open>json.loads\<close>, and \<open>str_of\<close> Python's \<open>str\<close>, which leaves a text as it is.\<close>

definition as_items :: "(string \<Rightarrow> json option) \<Rightarrow> json \<Rightarrow> nat option \<Rightarrow> json list res" where
  "as_items loads v cap =
    (if v = JNull then Inr []
     else case (case v of JStr s \<Rightarrow> (case loads s of None \<Rightarrow> JNull | Some j \<Rightarrow> j) | _ \<Rightarrow> v) of
       JList l \<Rightarrow> (case cap of None \<Rightarrow> Inr l | Some n \<Rightarrow> if length l > n then Inl (InvalidInputError ''entries'') else Inr l)
     | _ \<Rightarrow> Inl (InvalidInputError ''array''))"

definition as_list :: "(string \<Rightarrow> json option) \<Rightarrow> (json \<Rightarrow> string) \<Rightarrow> json \<Rightarrow> nat option \<Rightarrow> string list res" where
  "as_list loads str_of v cap =
    rbind (as_items loads v cap) (\<lambda>l. Inr (filter (\<lambda>s. s \<noteq> []) (map (\<lambda>j. py_strip (str_of j)) l)))"

definition ALIAS_CAP :: nat where "ALIAS_CAP = 100"

definition alias_row_of :: "(json \<Rightarrow> string) \<Rightarrow> json \<Rightarrow> alias_row option" where
  "alias_row_of str_of item =
    (case item of
       JObj d \<Rightarrow>
         let pick = (\<lambda>k. case map_of d k of None \<Rightarrow> JNull | Some j \<Rightarrow> j);
             email = py_strip (if truthy (pick ''email'') then str_of (pick ''email'')
               else if truthy (pick ''alias_email'') then str_of (pick ''alias_email'') else [])
         in if email = [] then None
            else Some \<lparr>al_email = email, al_enabled = (case map_of d ''enabled'' of None \<Rightarrow> True | Some j \<Rightarrow> truthy j),
                   al_description = (if truthy (pick ''description'') then str_of (pick ''description'') else [])\<rparr>
     | _ \<Rightarrow> if py_strip (str_of item) = [] then None
            else Some \<lparr>al_email = py_strip (str_of item), al_enabled = True, al_description = []\<rparr>)"

definition as_alias_rows :: "(string \<Rightarrow> json option) \<Rightarrow> (json \<Rightarrow> string) \<Rightarrow> json \<Rightarrow> alias_row list res" where
  "as_alias_rows loads str_of v = rbind (as_items loads v (Some ALIAS_CAP)) (\<lambda>l. Inr (List.map_filter (alias_row_of str_of) l))"

section \<open>One alias at a time\<close>

definition alias_find :: "entry \<Rightarrow> string \<Rightarrow> alias_row option" where
  "alias_find e a = find (\<lambda>r. al_email r = a) (e_aliases e)"

text \<open>What a call makes of the document: \<open>None\<close> when it has nothing to save.\<close>

definition add_alias :: "string \<Rightarrow> string \<Rightarrow> entry \<Rightarrow> entry option res" where
  "add_alias a description e =
    (if alias_find e a = None
     then Inr (Some (e\<lparr>e_aliases := e_aliases e @ [\<lparr>al_email = a, al_enabled = True, al_description = description\<rparr>]\<rparr>)) else Inr None)"

definition remove_alias :: "string \<Rightarrow> entry \<Rightarrow> entry option res" where
  "remove_alias a e =
    (if a = e_email e then Inl (ValidationError ''The primary address cannot be removed.'')
     else case alias_find e a of None \<Rightarrow> Inr None | Some r \<Rightarrow> Inr (Some (e\<lparr>e_aliases := remove1 r (e_aliases e)\<rparr>)))"

definition set_alias_enabled :: "string \<Rightarrow> bool \<Rightarrow> entry \<Rightarrow> entry option res" where
  "set_alias_enabled a on e =
    (case alias_find e a of
       None \<Rightarrow> Inl (DoesNotExistError a)
     | Some r \<Rightarrow> Inr (Some (e\<lparr>e_aliases := map (\<lambda>x. if x = r then r\<lparr>al_enabled := on\<rparr> else x) (e_aliases e)\<rparr>)))"

definition edit_owned ::
  "rules \<Rightarrow> (kind \<Rightarrow> live_cred list res) \<Rightarrow> (string \<Rightarrow> 's client) \<Rightarrow> string \<Rightarrow> string \<Rightarrow> doctype \<Rightarrow> string \<Rightarrow>
     (entry \<Rightarrow> entry option res) \<Rightarrow> directory \<Rightarrow> 's \<Rightarrow> exn + directory" where
  "edit_owned R live client_for stamp tenant dt name edit db s =
    rbind (owned (idna R) db tenant dt name) (\<lambda>e. rbind (edit e) (\<lambda>changed.
      case changed of None \<Rightarrow> Inr db
      | Some e' \<Rightarrow> rbind (save_entry R live client_for stamp None False e' db s) (\<lambda>(db', a). Inr db')))"

definition add_alias_call ::
  "rules \<Rightarrow> (kind \<Rightarrow> live_cred list res) \<Rightarrow> (string \<Rightarrow> 's client) \<Rightarrow> string \<Rightarrow> string \<Rightarrow> doctype \<Rightarrow> string \<Rightarrow> string \<Rightarrow> string \<Rightarrow>
     directory \<Rightarrow> 's \<Rightarrow> exn + directory" where
  "add_alias_call R live client_for stamp tenant dt email alias description =
    edit_owned R live client_for stamp tenant dt email (add_alias (normalize_name (idna R) alias) description)"

definition remove_alias_call ::
  "rules \<Rightarrow> (kind \<Rightarrow> live_cred list res) \<Rightarrow> (string \<Rightarrow> 's client) \<Rightarrow> string \<Rightarrow> string \<Rightarrow> doctype \<Rightarrow> string \<Rightarrow> string \<Rightarrow>
     directory \<Rightarrow> 's \<Rightarrow> exn + directory" where
  "remove_alias_call R live client_for stamp tenant dt email alias =
    edit_owned R live client_for stamp tenant dt email (remove_alias (normalize_name (idna R) alias))"

definition set_alias_enabled_call ::
  "rules \<Rightarrow> (kind \<Rightarrow> live_cred list res) \<Rightarrow> (string \<Rightarrow> 's client) \<Rightarrow> string \<Rightarrow> string \<Rightarrow> doctype \<Rightarrow> string \<Rightarrow> string \<Rightarrow> bool \<Rightarrow>
     directory \<Rightarrow> 's \<Rightarrow> exn + directory" where
  "set_alias_enabled_call R live client_for stamp tenant dt email alias on =
    edit_owned R live client_for stamp tenant dt email (set_alias_enabled (normalize_name (idna R) alias) on)"

lemma owned_Inr:
  assumes "owned codec db tenant dt name = Inr e"
  shows "e \<in> set (entries db)" "e_tenant e = tenant" "e_doctype e = dt"
  using assms by (auto simp: owned_def get_entry_def Let_def split: option.splits if_splits dest: find_Some_in)

text \<open>An edit that keeps the document's address and tenant.\<close>

definition keeps_identity :: "(entry \<Rightarrow> entry option res) \<Rightarrow> bool" where
  "keeps_identity edit \<longleftrightarrow> (\<forall>e e'. edit e = Inr (Some e') \<longrightarrow> e_doctype e' = e_doctype e \<and> e_email e' = e_email e \<and> e_tenant e' = e_tenant e)"

lemma alias_edits_keep_identity:
  "keeps_identity (add_alias a d)" "keeps_identity (remove_alias a)" "keeps_identity (set_alias_enabled a on)"
  by (auto simp: keeps_identity_def add_alias_def remove_alias_def set_alias_enabled_def split: if_splits option.splits)

lemma put_entry_others:
  assumes "\<And>x. x \<in> set es \<Longrightarrow> e_doctype x = e_doctype e \<Longrightarrow> e_email x = e_email e \<Longrightarrow> e_tenant x = t" "e_tenant e = t"
  shows "filter (\<lambda>x. e_tenant x \<noteq> t) (put_entry e es) = filter (\<lambda>x. e_tenant x \<noteq> t) es"
  using assms unfolding put_entry_def by (induction es) auto

lemma save_entry_kept:
  assumes "save_entry R live client_for stamp pw adopting e db s = Inr (db', a)" "e_tenant e \<noteq> []"
  shows "base db' = base db \<and> tenants db' = tenants db \<and> recipients db' = recipients db \<and>
    entries db' = put_entry (sa_entry a) (entries db) \<and> e_tenant (sa_entry a) = e_tenant e \<and> e_doctype (sa_entry a) = e_doctype e \<and> e_email (sa_entry a) = e_email e"
proof -
  obtain before e' where before: "get_entry db (e_doctype e) (e_email e) = Some before"
    and e': "validate_entry R live db adopting (Some before) e = Inr e'" "e_email e' = e_email before"
    and a: "a = (if adopting then start_saving e' s else on_update_entry R client_for db stamp pw before e' s)"
    and db': "db' = db\<lparr>entries := put_entry (sa_entry a) (entries db)\<rparr>"
    using assms(1) by (auto simp: save_entry_def Let_def split: option.splits if_splits)
  have "e_email before = e_email e" using before by (auto simp: get_entry_def dest: find_Some_in)
  moreover have "e_tenant e' = e_tenant e" using validate_entry_placed [OF e'(1)] place_entry_own assms(2) by fastforce
  moreover have "same_place e' (sa_entry a)" using on_update_entry_place by (auto simp: a)
  ultimately show ?thesis using validate_entry_validated [OF e'(1)] e'(2) by (auto simp: db' same_place_def)
qed

lemma edit_owned_isolated:
  assumes uniq: "distinct (map (\<lambda>e. (e_doctype e, e_email e)) (entries db))" and t: "tenant \<noteq> []" and id: "keeps_identity edit"
    and run: "edit_owned R live client_for stamp tenant dt email edit db s = Inr db'"
  shows "filter (\<lambda>e. e_tenant e \<noteq> tenant) (entries db') = filter (\<lambda>e. e_tenant e \<noteq> tenant) (entries db) \<and>
    base db' = base db \<and> tenants db' = tenants db \<and> recipients db' = recipients db \<and>
    (\<exists>e\<in>set (entries db). e_tenant e = tenant \<and> e_doctype e = dt \<and> e_email e = normalize_name (idna R) email)"
proof -
  obtain e changed where e: "owned (idna R) db tenant dt email = Inr e" and c: "edit e = Inr changed"
    and rest: "(case changed of None \<Rightarrow> Inr db | Some e' \<Rightarrow> rbind (save_entry R live client_for stamp None False e' db s) (\<lambda>(db', a). Inr db')) = Inr db'"
    using run by (auto simp: edit_owned_def)
  have found: "e \<in> set (entries db)" "e_tenant e = tenant" "e_doctype e = dt" "e_email e = normalize_name (idna R) email"
    using owned_Inr [OF e] e by (auto simp: owned_def get_entry_def Let_def split: option.splits if_splits dest: find_Some_in)
  show ?thesis
  proof (cases changed)
    case (Some e')
    then obtain a where save: "save_entry R live client_for stamp None False e' db s = Inr (db', a)" using rest by auto
    have same: "e_doctype e' = e_doctype e" "e_email e' = e_email e" "e_tenant e' = tenant"
      using id c Some found(2) by (auto simp: keeps_identity_def)
    note kept = save_entry_kept [OF save, unfolded same(3), OF t]
    have "e_tenant x = tenant" if "x \<in> set (entries db)" "e_doctype x = e_doctype (sa_entry a)" "e_email x = e_email (sa_entry a)" for x
      using inj_onD [OF uniq [unfolded distinct_map, THEN conjunct2], of x e] that kept same found by auto
    then show ?thesis using put_entry_others [of "entries db" "sa_entry a" tenant] kept found by auto
  qed (use rest found in auto)
qed

text \<open>
  C34. A tenant's alias calls stay within the tenant: whatever address they name, every document of every other tenant is
  left exactly as it was, and so are domains, tenants and list recipients; a document of another tenant is reported as missing.
\<close>

theorem alias_calls_isolated:
  assumes "distinct (map (\<lambda>e. (e_doctype e, e_email e)) (entries db))" "tenant \<noteq> []"
    and "call \<in> {add_alias_call R live client_for stamp tenant dt email alias description,
                 remove_alias_call R live client_for stamp tenant dt email alias,
                 set_alias_enabled_call R live client_for stamp tenant dt email alias on}"
  shows "case call db s of
      Inl _ \<Rightarrow> True
    | Inr db' \<Rightarrow> filter (\<lambda>e. e_tenant e \<noteq> tenant) (entries db') = filter (\<lambda>e. e_tenant e \<noteq> tenant) (entries db) \<and>
        base db' = base db \<and> tenants db' = tenants db \<and> recipients db' = recipients db \<and>
        (\<exists>e\<in>set (entries db). e_tenant e = tenant \<and> e_doctype e = dt \<and> e_email e = normalize_name (idna R) email)"
proof (cases "call db s")
  case (Inr db')
  have "\<exists>edit. keeps_identity edit \<and> call = edit_owned R live client_for stamp tenant dt email edit"
    using assms(3) alias_edits_keep_identity unfolding add_alias_call_def remove_alias_call_def set_alias_enabled_call_def by blast
  then obtain edit where id: "keeps_identity edit" and run: "edit_owned R live client_for stamp tenant dt email edit db s = Inr db'"
    using Inr by auto
  from edit_owned_isolated [OF assms(1,2) id run] show ?thesis using Inr by simp
qed simp

definition sample_own_directory :: directory where
  "sample_own_directory = sample_directory\<lparr>entries := [(blank_entry Mail_Group ''team@acme.com'')\<lparr>e_tenant := ''t1'', e_domain := ''acme.com'', e_cluster := ''c''\<rparr>,
     (blank_entry Mail_Group ''team@other.com'')\<lparr>e_tenant := ''t2''\<rparr>]\<rparr>"

definition sample_alias_call :: "directory \<Rightarrow> unit \<Rightarrow> exn + directory" where
  "sample_alias_call = set_alias_enabled_call sample_rules (\<lambda>_. Inr []) sample_client [] ''t1'' Mail_Group ''Team@Other.com'' ''x@acme.com'' True"

theorem alias_calls_isolated_witness:
  "(case sample_alias_call sample_own_directory () of Inl e \<Rightarrow> e = DoesNotExistError ''team@other.com'' | Inr _ \<Rightarrow> False) \<and>
   (case add_alias_call sample_rules (\<lambda>_. Inr []) sample_client [] ''t1'' Mail_Group ''team@acme.com'' ''All@acme.com'' [] sample_own_directory () of
      Inl _ \<Rightarrow> False | Inr db' \<Rightarrow> filter (\<lambda>e. e_tenant e \<noteq> ''t1'') (entries db') = filter (\<lambda>e. e_tenant e \<noteq> ''t1'') (entries sample_own_directory))"
proof -
  have one: "case sample_alias_call sample_own_directory () of Inl e \<Rightarrow> e = DoesNotExistError ''team@other.com'' | Inr _ \<Rightarrow> False" by code_simp
  have ok: "case add_alias_call sample_rules (\<lambda>_. Inr []) sample_client [] ''t1'' Mail_Group ''team@acme.com'' ''All@acme.com'' [] sample_own_directory () of
      Inl _ \<Rightarrow> False | Inr _ \<Rightarrow> True" by code_simp
  have "distinct (map (\<lambda>e. (e_doctype e, e_email e)) (entries sample_own_directory))" by code_simp
  from alias_calls_isolated [OF this, of "''t1''" "add_alias_call sample_rules (\<lambda>_. Inr []) sample_client [] ''t1'' Mail_Group ''team@acme.com'' ''All@acme.com'' []"
      sample_rules "\<lambda>_. Inr []" sample_client "[]" Mail_Group "''team@acme.com''" "''All@acme.com''" "[]" True "()"] one ok
  show ?thesis by (auto split: sum.splits)
qed

end
