(* ===== verification/Dns_Records.thy ===== *)
theory Dns_Records
  imports Dns_Provider
begin

text \<open>
  DNS Record documents (src/suite_cloud/suite_cloud/doctype/dns_record/dns_record.py): their
  validation, the pushes to the provider a save or delete causes, and the reconciliation of the
  records an owner (a node, a pool, a mail domain, a site) wants.

  The table is a list of rows.  What reaches the provider is recorded in order in \<open>calls\<close>: a push
  queued for a row, or a delete of a record by zone, type, host and value.  \<open>uuid\<close>, which names a
  new row, is a parameter.
\<close>

section \<open>State\<close>

type_synonym owner = "string \<times> string"
type_synonym record_key = "string \<times> string \<times> string \<times> string"

record dns_row =
  rr_name :: string
  rr_zone :: string
  rr_host :: string
  rr_type :: string
  rr_value :: string
  rr_ttl :: int
  rr_priority :: int
  rr_category :: string
  rr_is_verified :: bool
  rr_checked :: bool
  rr_owner :: "owner option"

datatype provider_call = Push string | Delete record_key

record dns_db =
  rows :: "dns_row list"
  zones :: "zone list"
  default_dns_ttl :: int
  calls :: "provider_call list"

text \<open>What an owner asks for; a TTL of 0 takes the zone's default.\<close>

record desired_row =
  w_zone :: string
  w_host :: string
  w_type :: string
  w_value :: string
  w_category :: string
  w_priority :: int
  w_ttl :: int

definition row_key :: "dns_row \<Rightarrow> record_key" where
  "row_key r = (rr_zone r, rr_host r, rr_type r, rr_value r)"

section \<open>Documents\<close>

definition fqdn :: "dns_row \<Rightarrow> string" where
  "fqdn r = rr_host r @ ''.'' @ rr_zone r"

definition default_ttl :: "dns_db \<Rightarrow> string \<Rightarrow> int" where
  "default_ttl db zone =
     (let t = (case find (\<lambda>z. z_name z = zone) (zones db) of None \<Rightarrow> 0 | Some z \<Rightarrow> z_default_ttl z)
      in if t \<noteq> 0 then t else default_dns_ttl db)"

definition validate_duplicate_record :: "dns_db \<Rightarrow> dns_row \<Rightarrow> unit res" where
  "validate_duplicate_record db r =
     require (\<not> list_ex (\<lambda>x. row_key x = row_key r \<and> rr_name x \<noteq> rr_name r \<and> rr_owner x = rr_owner r) (rows db))
       (ValidationError (rr_host r))"

definition validate_record :: "dns_db \<Rightarrow> bool \<Rightarrow> dns_row \<Rightarrow> dns_row res" where
  "validate_record db is_new r =
     (let r = r\<lparr>rr_host := py_lower (py_strip (rr_host r)), rr_value := py_strip (rr_value r),
                rr_zone := (if rr_zone r \<noteq> [] then rr_zone r
                            else (case get_default_zone (zones db) of None \<Rightarrow> [] | Some z \<Rightarrow> z))\<rparr>
      in if rr_zone r = [] then Inl (ValidationError ''zone'')
         else rbind (if is_new then validate_duplicate_record db r else Inr ()) (\<lambda>_.
           Inr (r\<lparr>rr_ttl := (if rr_ttl r \<noteq> 0 then rr_ttl r else default_ttl db (rr_zone r))\<rparr>)))"

definition insert_record :: "(dns_row list \<Rightarrow> string) \<Rightarrow> dns_row \<Rightarrow> dns_db \<Rightarrow> dns_db res" where
  "insert_record uuid r db =
     rbind (validate_record db True (r\<lparr>rr_name := uuid (rows db)\<rparr>)) (\<lambda>r.
       Inr (db\<lparr>rows := rows db @ [r], calls := calls db @ [Push (rr_name r)]\<rparr>))"

definition save_record :: "dns_row \<Rightarrow> dns_db \<Rightarrow> dns_db res" where
  "save_record r db =
     rbind (validate_record db False r) (\<lambda>r'.
       let changed = list_ex (\<lambda>x. rr_name x = rr_name r' \<and> (rr_value x \<noteq> rr_value r' \<or> rr_ttl x \<noteq> rr_ttl r')) (rows db)
       in Inr (db\<lparr>rows := map (\<lambda>x. if rr_name x = rr_name r' then r' else x) (rows db),
                  calls := calls db @ (if changed then [Push (rr_name r')] else [])\<rparr>))"

text \<open>\<open>delete_from_provider\<close>: the provider's record lives as long as another row wants it.\<close>

definition has_provider :: "dns_db \<Rightarrow> string \<Rightarrow> bool" where
  "has_provider db zone \<longleftrightarrow> list_ex (\<lambda>z. z_name z = zone \<and> z_provider z \<noteq> []) (zones db)"

definition delete_from_provider :: "dns_row \<Rightarrow> dns_db \<Rightarrow> dns_db" where
  "delete_from_provider r db =
     (if list_ex (\<lambda>x. row_key x = row_key r \<and> rr_name x \<noteq> rr_name r) (rows db) then db
      else if has_provider db (rr_zone r) then db\<lparr>calls := calls db @ [Delete (row_key r)]\<rparr>
      else db)"

definition delete_record :: "dns_row \<Rightarrow> dns_db \<Rightarrow> dns_db" where
  "delete_record r db =
     (let db = delete_from_provider r db in db\<lparr>rows := filter (\<lambda>x. rr_name x \<noteq> rr_name r) (rows db)\<rparr>)"

text \<open>The queued push, when it runs: the outcome is stored on the row.\<close>

definition create_or_update_record_in_dns_provider ::
  "'p lexicon \<Rightarrow> dns_row \<Rightarrow> dns_db \<times> 'p \<Rightarrow> exn + (dns_db \<times> 'p)" where
  "create_or_update_record_in_dns_provider execute r dbp =
     (let (db, p) = dbp in
      rbind (if has_provider db (rr_zone r)
             then (case find (\<lambda>z. z_name z = rr_zone r) (zones db) of
                     None \<Rightarrow> Inr (False, p)
                   | Some z \<Rightarrow> rbind (provider_key (z_provider z)) (\<lambda>provider.
                       ensure_dns_record execute provider (rr_type r) (rr_host r) (rr_value r) (rr_ttl r) (rr_priority r) p))
             else Inr (False, p))
        (\<lambda>(ok, p'). Inr (db\<lparr>rows := map (\<lambda>x. if rr_name x = rr_name r then x\<lparr>rr_is_verified := ok, rr_checked := True\<rparr> else x) (rows db)\<rparr>, p')))"

definition verify_record ::
  "(string \<Rightarrow> string \<Rightarrow> string \<Rightarrow> string list option) \<Rightarrow> dns_row \<Rightarrow> dns_db \<Rightarrow> bool \<times> dns_db" where
  "verify_record resolve r db =
     (case verify_dns_record resolve (fqdn r) (rr_type r) (rr_value r) of
        None \<Rightarrow> (rr_is_verified r, db)
      | Some ok \<Rightarrow> (ok, db\<lparr>rows := map (\<lambda>x. if rr_name x = rr_name r then x\<lparr>rr_is_verified := ok, rr_checked := True\<rparr> else x) (rows db)\<rparr>))"

definition verify_all_dns_records ::
  "(string \<Rightarrow> string \<Rightarrow> string \<Rightarrow> string list option) \<Rightarrow> dns_db \<Rightarrow> dns_db" where
  "verify_all_dns_records resolve db = fold (\<lambda>r db. snd (verify_record resolve r db)) (rows db) db"

section \<open>Owners\<close>

definition wanted_key :: "desired_row \<Rightarrow> record_key" where
  "wanted_key w = (w_zone w, py_lower (w_host w), w_type w, py_strip (w_value w))"

definition existing_key :: "dns_row \<Rightarrow> record_key" where
  "existing_key r = (rr_zone r, rr_host r, rr_type r, py_strip (rr_value r))"

definition new_row :: "owner \<Rightarrow> desired_row \<Rightarrow> dns_row" where
  "new_row own w = \<lparr>rr_name = [], rr_zone = w_zone w, rr_host = w_host w, rr_type = w_type w, rr_value = w_value w,
     rr_ttl = w_ttl w, rr_priority = w_priority w, rr_category = w_category w, rr_is_verified = False,
     rr_checked = False, rr_owner = Some own\<rparr>"

text \<open>The loop over the existing rows: a wanted key is ticked off, any other row is deleted.\<close>

fun drop_stale :: "dns_row list \<Rightarrow> (record_key, desired_row) dict \<times> dns_db \<Rightarrow> (record_key, desired_row) dict \<times> dns_db" where
  "drop_stale [] s = s"
| "drop_stale (r # rs) (wanted, db) =
     (if map_of wanted (existing_key r) \<noteq> None then drop_stale rs (dict_pop (existing_key r) wanted, db)
      else drop_stale rs (wanted, delete_record r db))"

definition reconcile_managed_records ::
  "(dns_row list \<Rightarrow> string) \<Rightarrow> owner \<Rightarrow> desired_row list \<Rightarrow> dns_db \<Rightarrow> dns_db res" where
  "reconcile_managed_records uuid own desired db =
     (let wanted = dict_of (map (\<lambda>w. (wanted_key w, w)) desired);
          existing = filter (\<lambda>r. rr_owner r = Some own) (rows db);
          (missing, db) = drop_stale existing (wanted, db)
      in rfold (\<lambda>(_, w) db. insert_record uuid (new_row own w) db) missing db)"

definition delete_managed_records :: "(dns_row list \<Rightarrow> string) \<Rightarrow> owner \<Rightarrow> dns_db \<Rightarrow> dns_db res" where
  "delete_managed_records uuid own db = reconcile_managed_records uuid own [] db"

definition confirm_managed_records :: "owner \<Rightarrow> dns_db \<Rightarrow> bool \<times> dns_db" where
  "confirm_managed_records own db =
     (let unconfirmed = filter (\<lambda>r. rr_owner r = Some own \<and> \<not> rr_is_verified r) (rows db)
      in (unconfirmed = [], db\<lparr>calls := calls db @ map (\<lambda>r. Push (rr_name r)) (filter rr_checked unconfirmed)\<rparr>))"

section \<open>Laws of the reconciliation\<close>

text \<open>The rows ticked off: of the rows with a wanted key, the first of each key.\<close>

fun ticked :: "dns_row list \<Rightarrow> (record_key, desired_row) dict \<Rightarrow> dns_row list" where
  "ticked [] wanted = []"
| "ticked (r # rs) wanted =
     (if map_of wanted (existing_key r) \<noteq> None then r # ticked rs (dict_pop (existing_key r) wanted)
      else ticked rs wanted)"

lemma ticked_subset: "set (ticked rs wanted) \<subseteq> set rs"
  by (induction rs wanted rule: ticked.induct) auto

lemma ticked_keys:
  "existing_key ` set (ticked rs wanted) = existing_key ` set rs \<inter> {k. map_of wanted k \<noteq> None} \<and>
     distinct (map existing_key (ticked rs wanted))"
proof (induction rs wanted rule: ticked.induct)
  case (2 r rs wanted)
  show ?case
  proof (cases "map_of wanted (existing_key r) = None")
    case True
    then have "ticked (r # rs) wanted = ticked rs wanted" "existing_key r \<notin> {k. map_of wanted k \<noteq> None}" by simp_all
    with 2(2) True show ?thesis by (simp only: list.set image_insert Int_insert_left_if0 simp_thms)
  next
    case False
    let ?k = "existing_key r"
    have "{k. map_of (dict_pop ?k wanted) k \<noteq> None} = {k. map_of wanted k \<noteq> None} - {?k}"
      by (simp add: set_eq_iff)
    moreover have "?k \<in> {k. map_of wanted k \<noteq> None}" "ticked (r # rs) wanted = r # ticked rs (dict_pop ?k wanted)"
      using False by simp_all
    ultimately show ?thesis using 2(1) [OF False]
      by (simp only: list.set image_insert list.map distinct.simps set_map) blast
  qed
qed simp

lemma delete_record_rows: "rows (delete_record r db) = filter (\<lambda>x. rr_name x \<noteq> rr_name r) (rows db)"
  by (simp add: delete_record_def delete_from_provider_def Let_def)

lemma delete_record_frame [simp]: "zones (delete_record r db) = zones db" "default_dns_ttl (delete_record r db) = default_dns_ttl db"
  by (simp_all add: delete_record_def delete_from_provider_def Let_def)

definition gone :: "dns_row list \<Rightarrow> (record_key, desired_row) dict \<Rightarrow> string set" where
  "gone rs wanted = rr_name ` (set rs - set (ticked rs wanted))"

lemma drop_stale_spec:
  assumes "drop_stale rs (wanted, db) = (missing, db1)" "dict_ok wanted" "distinct (map rr_name rs)"
  shows "dict_ok missing \<and> zones db1 = zones db \<and> default_dns_ttl db1 = default_dns_ttl db \<and>
    set missing = {e \<in> set wanted. fst e \<notin> existing_key ` set rs} \<and>
    rows db1 = filter (\<lambda>x. rr_name x \<notin> gone rs wanted) (rows db)"
  using assms
proof (induction rs arbitrary: wanted db)
  case Nil
  then show ?case by (simp add: gone_def)
next
  case (Cons r rs)
  have names: "rr_name r \<notin> rr_name ` set rs" "distinct (map rr_name rs)" using Cons.prems(3) by auto
  then have fresh: "r \<notin> set rs" by auto
  show ?case
  proof (cases "map_of wanted (existing_key r) = None")
    case True
    let ?db = "delete_record r db"
    have "drop_stale rs (wanted, ?db) = (missing, db1)" using Cons.prems(1) True by simp
    note IH = Cons.IH [OF this Cons.prems(2) names(2)]
    have "gone (r # rs) wanted = insert (rr_name r) (gone rs wanted)"
      using True fresh ticked_subset [of rs wanted] by (auto simp: gone_def)
    moreover have "existing_key r \<notin> fst ` set wanted" using True by (simp add: map_of_eq_None_iff)
    moreover have "{e \<in> set wanted. fst e \<notin> existing_key ` set (r # rs)} = {e \<in> set wanted. fst e \<notin> existing_key ` set rs}"
      using calculation(2) by force
    ultimately show ?thesis using IH by (simp add: delete_record_rows conj_commute)
  next
    case False
    let ?w = "dict_pop (existing_key r) wanted"
    have "drop_stale rs (?w, db) = (missing, db1)" using Cons.prems(1) False by simp
    note IH = Cons.IH [OF this dict_ok_pop [OF Cons.prems(2)] names(2)]
    have "gone (r # rs) wanted = gone rs ?w"
      using False fresh by (auto simp: gone_def)
    moreover have "set ?w = {e \<in> set wanted. fst e \<noteq> existing_key r}" by (auto simp: dict_pop_def)
    ultimately show ?thesis using IH by auto
  qed
qed

definition clean_row :: "desired_row \<Rightarrow> bool" where
  "clean_row w \<longleftrightarrow> w_zone w \<noteq> [] \<and> py_strip (w_host w) = w_host w"

lemma insert_missing:
  assumes "\<And>rs. uuid rs \<notin> rr_name ` set rs"
    and "distinct (map fst ms)" "\<forall>(k, w)\<in>set ms. k = wanted_key w \<and> clean_row w"
    and "fst ` set ms \<inter> row_key ` {r \<in> set (rows db). rr_owner r = Some own} = {}"
  shows "\<exists>db' new. rfold (\<lambda>(_, w) db. insert_record uuid (new_row own w) db) ms db = Inr db' \<and>
    rows db' = rows db @ new \<and> map row_key new = map fst ms \<and>
    (\<forall>r\<in>set new. rr_owner r = Some own \<and> py_strip (rr_value r) = rr_value r) \<and>
    (distinct (map rr_name (rows db)) \<longrightarrow> distinct (map rr_name (rows db'))) \<and>
    zones db' = zones db \<and> default_dns_ttl db' = default_dns_ttl db"
  using assms(2-4)
proof (induction ms arbitrary: db)
  case Nil
  then show ?case by simp
next
  case (Cons e ms)
  obtain k w where e: "e = (k, w)" by (cases e)
  have k: "k = wanted_key w" and clean: "clean_row w" using Cons.prems(2) by (auto simp: e)
  define r where "r = (new_row own w)\<lparr>rr_name := uuid (rows db), rr_host := py_lower (w_host w), rr_value := py_strip (w_value w)\<rparr>"
  define r' where "r' = r\<lparr>rr_ttl := (if w_ttl w \<noteq> 0 then w_ttl w else default_ttl db (w_zone w))\<rparr>"
  have key: "row_key r = k" "row_key r' = k" by (simp_all add: row_key_def r_def r'_def new_row_def k wanted_key_def)
  have own: "rr_owner r = Some own" by (simp add: r_def new_row_def)
  have nodup: "validate_duplicate_record db r = Inr ()"
  proof -
    have "k \<notin> row_key ` {x \<in> set (rows db). rr_owner x = Some own}" using Cons.prems(3) by (simp add: e)
    then have "\<not> (x \<in> set (rows db) \<and> row_key x = k \<and> rr_owner x = Some own)" for x by blast
    then show ?thesis using key(1) own by (auto simp: validate_duplicate_record_def list_ex_iff)
  qed
  have ins: "insert_record uuid (new_row own w) db = Inr (db\<lparr>rows := rows db @ [r'], calls := calls db @ [Push (rr_name r')]\<rparr>)"
    using clean nodup
    by (simp add: insert_record_def validate_record_def Let_def clean_row_def new_row_def r_def r'_def)
  let ?db = "db\<lparr>rows := rows db @ [r'], calls := calls db @ [Push (rr_name r')]\<rparr>"
  have mine: "{x \<in> set (rows ?db). rr_owner x = Some own} = insert r' {x \<in> set (rows db). rr_owner x = Some own}"
    using own by (auto simp: r'_def)
  have "fst ` set ms \<inter> row_key ` {x \<in> set (rows ?db). rr_owner x = Some own} = {}"
    unfolding mine image_insert key using Cons.prems(1,3) by (simp add: e)
  then obtain db' new where IH: "rfold (\<lambda>(_, w) db. insert_record uuid (new_row own w) db) ms ?db = Inr db'"
      "rows db' = rows ?db @ new" "map row_key new = map fst ms"
      "\<forall>r\<in>set new. rr_owner r = Some own \<and> py_strip (rr_value r) = rr_value r"
      "distinct (map rr_name (rows ?db)) \<longrightarrow> distinct (map rr_name (rows db'))"
      "zones db' = zones ?db" "default_dns_ttl db' = default_dns_ttl ?db"
    using Cons.IH [of ?db] Cons.prems by auto
  have "rr_name r' = uuid (rows db)" "rr_owner r' = Some own" "py_strip (rr_value r') = rr_value r'"
    by (simp_all add: r'_def r_def new_row_def)
  then show ?case
    using IH ins key assms(1) [of "rows db"]
    by (intro exI [of _ db'] exI [of _ "r' # new"]) (auto simp: e)
qed

lemma dict_of_wanted:
  "set (dict_of (map (\<lambda>w. (wanted_key w, w)) desired)) \<subseteq> (\<lambda>w. (wanted_key w, w)) ` set desired"
  "fst ` set (dict_of (map (\<lambda>w. (wanted_key w, w)) desired)) = wanted_key ` set desired"
  using set_dict_of [of "map (\<lambda>w. (wanted_key w, w)) desired"]
  by (simp_all add: keys_dict_of image_image)

text \<open>
  The table of an installation: names distinct, values stored stripped (\<open>validate\<close> strips them).
\<close>

definition table_ok :: "dns_db \<Rightarrow> bool" where
  "table_ok db \<longleftrightarrow> distinct (map rr_name (rows db)) \<and> list_all (\<lambda>r. py_strip (rr_value r) = rr_value r) (rows db)"

definition owned :: "owner \<Rightarrow> dns_db \<Rightarrow> dns_row list" where
  "owned own db = filter (\<lambda>r. rr_owner r = Some own) (rows db)"

definition others :: "owner \<Rightarrow> dns_db \<Rightarrow> dns_row list" where
  "others own db = filter (\<lambda>r. rr_owner r \<noteq> Some own) (rows db)"

lemma existing_key_row_key: "table_ok db \<Longrightarrow> r \<in> set (rows db) \<Longrightarrow> existing_key r = row_key r"
  by (simp add: table_ok_def existing_key_def row_key_def list_all_iff)

lemma drop_phase:
  assumes ok: "table_ok db"
    and drop: "drop_stale (owned own db) (dict_of (map (\<lambda>w. (wanted_key w, w)) desired), db) = (missing, db1)"
  shows "table_ok db1 \<and> others own db1 = others own db \<and>
    row_key ` set (owned own db1) = row_key ` set (owned own db) \<inter> wanted_key ` set desired \<and>
    distinct (map row_key (owned own db1)) \<and> distinct (map fst missing) \<and>
    set missing \<subseteq> (\<lambda>w. (wanted_key w, w)) ` set desired \<and>
    fst ` set missing = wanted_key ` set desired - row_key ` set (owned own db)"
proof -
  let ?wanted = "dict_of (map (\<lambda>w. (wanted_key w, w)) desired)"
  let ?mine = "owned own db"
  let ?kept = "ticked ?mine ?wanted"
  have names: "distinct (map rr_name (rows db))" using ok by (simp add: table_ok_def)
  have "distinct (map rr_name ?mine)" using names by (simp add: owned_def distinct_map_filter)
  note spec = drop_stale_spec [OF drop dict_ok_dict_of this]
  have sub: "set ?kept \<subseteq> set ?mine" by (rule ticked_subset)
  have mine: "existing_key ` set ?mine = row_key ` set ?mine"
    using existing_key_row_key [OF ok] by (intro image_cong) (simp_all add: owned_def)
  have kept_keys: "map existing_key ?kept = map row_key ?kept"
    using existing_key_row_key [OF ok] sub by (intro map_cong) (auto simp: owned_def)
  have wk: "{k. map_of ?wanted k \<noteq> None} = wanted_key ` set desired"
    using dict_of_wanted(2) by (simp only: map_of_not_None_keys)
  have gone: "rr_name r \<in> gone ?mine ?wanted \<longleftrightarrow> r \<in> set ?mine \<and> r \<notin> set ?kept" if "r \<in> set (rows db)" for r
  proof -
    have "r = r'" if "r' \<in> set ?mine" "rr_name r = rr_name r'" for r'
      using that names \<open>r \<in> set (rows db)\<close> by (auto simp: distinct_map owned_def dest: inj_onD)
    then show ?thesis by (auto simp: gone_def)
  qed
  have rows: "rows db1 = filter (\<lambda>x. \<not> (x \<in> set ?mine \<and> x \<notin> set ?kept)) (rows db)"
    using spec gone by (auto intro: filter_cong)
  have kept: "set (owned own db1) = set ?kept" using sub by (auto simp: owned_def rows)
  have "row_key ` set ?kept = row_key ` set ?mine \<inter> wanted_key ` set desired"
    using ticked_keys [of ?mine ?wanted] mine arg_cong [OF kept_keys, of set] by (simp only: wk set_map)
  then have keys1: "row_key ` set (owned own db1) = row_key ` set ?mine \<inter> wanted_key ` set desired"
    by (simp only: kept)
  have "inj_on row_key (set ?kept)"
    using ticked_keys [of ?mine ?wanted] unfolding kept_keys by (simp add: distinct_map)
  moreover have "distinct (owned own db1)" using names by (auto simp: owned_def rows distinct_map)
  ultimately have dist: "distinct (map row_key (owned own db1))" by (simp add: distinct_map kept)
  have tab: "table_ok db1" using ok by (auto simp: table_ok_def rows distinct_map_filter list_all_iff)
  have oth: "others own db1 = others own db" by (auto simp: others_def rows owned_def intro: filter_cong)
  have miss: "set missing = {e \<in> set ?wanted. fst e \<notin> row_key ` set ?mine}" using spec mine by simp
  then have "fst ` set missing = fst ` set ?wanted - row_key ` set ?mine" by (simp only: image_filter_not_in)
  then show ?thesis using tab oth keys1 dist spec miss dict_of_wanted [of desired]
    by (auto simp: dict_ok_def)
qed

lemma reconcile_spec:
  assumes ok: "table_ok db" and fresh: "\<And>rs. uuid rs \<notin> rr_name ` set rs" and clean: "list_all clean_row desired"
  shows "\<exists>db'. reconcile_managed_records uuid own desired db = Inr db' \<and> table_ok db' \<and>
    row_key ` set (owned own db') = wanted_key ` set desired \<and> distinct (map row_key (owned own db')) \<and>
    others own db' = others own db"
proof -
  obtain missing db1 where drop:
    "drop_stale (owned own db) (dict_of (map (\<lambda>w. (wanted_key w, w)) desired), db) = (missing, db1)" by fastforce
  note phase = drop_phase [OF ok drop]
  have own: "set (owned own db1) = {r \<in> set (rows db1). rr_owner r = Some own}" by (auto simp: owned_def)
  have m0: "distinct (map fst missing)" using phase by simp
  have m1: "\<forall>(k, w)\<in>set missing. k = wanted_key w \<and> clean_row w"
    using phase clean by (auto simp: list_all_iff)
  have m2: "fst ` set missing \<inter> row_key ` {r \<in> set (rows db1). rr_owner r = Some own} = {}"
    using phase unfolding own [symmetric] by blast
  obtain db' new where ins: "rfold (\<lambda>(_, w) db. insert_record uuid (new_row own w) db) missing db1 = Inr db'"
      "rows db' = rows db1 @ new" "map row_key new = map fst missing"
      "\<forall>r\<in>set new. rr_owner r = Some own \<and> py_strip (rr_value r) = rr_value r"
      "distinct (map rr_name (rows db1)) \<longrightarrow> distinct (map rr_name (rows db'))"
    using insert_missing [OF fresh m0 m1 m2] by (elim exE conjE) blast
  have "owned own db' = owned own db1 @ new" "others own db' = others own db1"
    using ins(2,4) by (simp_all add: owned_def others_def)
  moreover have "row_key ` set new = fst ` set missing" using arg_cong [OF ins(3), of set] by simp
  moreover have "distinct (map row_key (owned own db1) @ map fst missing)"
    using phase m2 unfolding own [symmetric] by auto
  moreover have "table_ok db'" using phase ins by (auto simp: table_ok_def list_all_iff)
  moreover have "reconcile_managed_records uuid own desired db = Inr db'"
    using ins(1) drop by (simp add: reconcile_managed_records_def owned_def)
  moreover have "row_key ` set (owned own db1 @ new) = wanted_key ` set desired"
  proof -
    have "row_key ` set (owned own db1) = row_key ` set (owned own db) \<inter> wanted_key ` set desired"
        "row_key ` set new = wanted_key ` set desired - row_key ` set (owned own db)"
      using phase \<open>row_key ` set new = fst ` set missing\<close> by simp_all
    then show ?thesis by (simp only: set_append image_Un Int_Diff_Un Int_commute)
  qed
  ultimately show ?thesis using phase ins(3) by (intro exI [of _ db']) simp
qed

lemma drop_stale_nothing:
  "distinct (map existing_key rs) \<Longrightarrow> existing_key ` set rs \<subseteq> fst ` set wanted \<Longrightarrow>
   snd (drop_stale rs (wanted, db)) = db"
proof (induction rs arbitrary: wanted)
  case (Cons r rs)
  let ?k = "existing_key r"
  have "map_of wanted ?k \<noteq> None" using Cons.prems(2) by (simp add: map_of_eq_None_iff)
  then have "drop_stale (r # rs) (wanted, db) = drop_stale rs (dict_pop ?k wanted, db)" by simp
  moreover have "fst ` set (dict_pop ?k wanted) = fst ` set wanted - {?k}"
    using image_filter_not_in [of fst "set wanted" "{?k}"] by (simp add: dict_pop_def)
  then have "existing_key ` set rs \<subseteq> fst ` set (dict_pop ?k wanted)" using Cons.prems by auto
  ultimately show ?case using Cons.IH [of "dict_pop ?k wanted"] Cons.prems(1) by simp
qed simp

lemma reconcile_settled:
  assumes ok: "table_ok db" and keys: "row_key ` set (owned own db) = wanted_key ` set desired"
    and dist: "distinct (map row_key (owned own db))"
  shows "reconcile_managed_records uuid own desired db = Inr db"
proof -
  let ?wanted = "dict_of (map (\<lambda>w. (wanted_key w, w)) desired)"
  obtain missing db1 where drop: "drop_stale (owned own db) (?wanted, db) = (missing, db1)" by fastforce
  have same: "map existing_key (owned own db) = map row_key (owned own db)"
    using existing_key_row_key [OF ok] by (intro map_cong) (auto simp: owned_def)
  have "existing_key ` set (owned own db) = fst ` set ?wanted"
    using arg_cong [OF same, of set] keys dict_of_wanted(2) [of desired] by (simp only: set_map)
  then have "db1 = db" using drop_stale_nothing [of "owned own db" ?wanted db] dist same drop by simp
  moreover have "missing = []" using drop_phase [OF ok drop] keys by simp
  ultimately show ?thesis using drop by (simp add: reconcile_managed_records_def owned_def)
qed

text \<open>A key leaves the provider exactly when the last row with it leaves the table.\<close>

definition vanished :: "dns_db \<Rightarrow> dns_db \<Rightarrow> record_key \<Rightarrow> bool" where
  "vanished db db' k \<longleftrightarrow> k \<in> row_key ` set (rows db) \<and> k \<notin> row_key ` set (rows db') \<and> has_provider db (fst k)"

lemma has_provider_delete [simp]: "has_provider (delete_record r db) = has_provider db"
  by (simp add: has_provider_def fun_eq_iff)

lemma image_without:
  assumes "r \<in> A" "\<And>x. x \<in> A \<Longrightarrow> n x = n r \<Longrightarrow> x = r"
  shows "k \<in> f ` A \<and> k \<notin> f ` {x \<in> A. n x \<noteq> n r} \<longleftrightarrow> k = f r \<and> \<not> (\<exists>x\<in>A. f x = f r \<and> n x \<noteq> n r)"
  using assms by (auto simp: image_iff) metis

lemma delete_record_calls:
  assumes "r \<in> set (rows db)" "distinct (map rr_name (rows db))"
  shows "\<exists>cs. calls (delete_record r db) = calls db @ cs \<and> (\<forall>k. Delete k \<in> set cs \<longleftrightarrow> vanished db (delete_record r db) k)"
proof -
  have only: "x = r" if "x \<in> set (rows db)" "rr_name x = rr_name r" for x
    using that assms by (auto simp: distinct_map dest: inj_onD)
  have zone: "fst (row_key r) = rr_zone r" by (simp add: row_key_def)
  have van: "vanished db (delete_record r db) k \<longleftrightarrow>
    k = row_key r \<and> \<not> (\<exists>x\<in>set (rows db). row_key x = row_key r \<and> rr_name x \<noteq> rr_name r) \<and> has_provider db (rr_zone r)" for k
  proof -
    have "k \<in> row_key ` set (rows db) \<and> k \<notin> row_key ` {x \<in> set (rows db). rr_name x \<noteq> rr_name r} \<longleftrightarrow>
        k = row_key r \<and> \<not> (\<exists>x\<in>set (rows db). row_key x = row_key r \<and> rr_name x \<noteq> rr_name r)"
      using assms(1) only by (rule image_without)
    then have "vanished db (delete_record r db) k \<longleftrightarrow>
        (k = row_key r \<and> \<not> (\<exists>x\<in>set (rows db). row_key x = row_key r \<and> rr_name x \<noteq> rr_name r)) \<and> has_provider db (fst k)"
      unfolding vanished_def delete_record_rows set_filter by (simp only: conj_assoc [symmetric])
    then show ?thesis by (cases "k = row_key r") (simp_all only: zone simp_thms)
  qed
  let ?cs = "if list_ex (\<lambda>x. row_key x = row_key r \<and> rr_name x \<noteq> rr_name r) (rows db) \<or> \<not> has_provider db (rr_zone r)
    then [] else [Delete (row_key r)]"
  have "calls (delete_record r db) = calls db @ ?cs"
    by (simp add: delete_record_def delete_from_provider_def Let_def)
  moreover have "Delete k \<in> set ?cs \<longleftrightarrow> vanished db (delete_record r db) k" for k
    unfolding van by (simp add: list_ex_iff)
  ultimately show ?thesis by blast
qed

lemma drop_stale_calls:
  assumes "drop_stale rs (wanted, db) = (missing, db1)" "set rs \<subseteq> set (rows db)"
    "distinct (map rr_name rs)" "distinct (map rr_name (rows db))"
  shows "set (rows db1) \<subseteq> set (rows db) \<and> has_provider db1 = has_provider db \<and>
    (\<exists>cs. calls db1 = calls db @ cs \<and> (\<forall>k. Delete k \<in> set cs \<longleftrightarrow> vanished db db1 k))"
  using assms
proof (induction rs arbitrary: wanted db)
  case Nil
  then show ?case by (simp add: vanished_def)
next
  case (Cons r rs)
  show ?case
  proof (cases "map_of wanted (existing_key r) = None")
    case False
    then show ?thesis using Cons by (auto simp del: split_paired_All split_paired_Ex)
  next
    case True
    let ?db = "delete_record r db"
    have "drop_stale rs (wanted, ?db) = (missing, db1)" using Cons.prems(1) True by simp
    moreover have "set rs \<subseteq> set (rows ?db)"
      using Cons.prems(2,3) by (auto simp: delete_record_rows image_iff)
    moreover have "distinct (map rr_name (rows ?db))"
      using Cons.prems(4) by (simp add: delete_record_rows distinct_map_filter)
    ultimately have IH: "set (rows db1) \<subseteq> set (rows ?db)" "has_provider db1 = has_provider ?db"
        "\<exists>cs. calls db1 = calls ?db @ cs \<and> (\<forall>k. Delete k \<in> set cs \<longleftrightarrow> vanished ?db db1 k)"
      using Cons.IH [of wanted ?db] Cons.prems(3) by simp_all
    have sub: "set (rows ?db) \<subseteq> set (rows db)" by (auto simp: delete_record_rows)
    obtain cs ds where cs: "calls ?db = calls db @ cs" "\<forall>k. Delete k \<in> set cs \<longleftrightarrow> vanished db ?db k"
        "calls db1 = calls ?db @ ds" "\<forall>k. Delete k \<in> set ds \<longleftrightarrow> vanished ?db db1 k"
      using IH(3) delete_record_calls [of r db] Cons.prems(2,4) by (auto simp del: split_paired_All)
    have "vanished db db1 k \<longleftrightarrow> vanished db ?db k \<or> vanished ?db db1 k" for k
      using sub IH(1) unfolding vanished_def has_provider_delete by blast
    then show ?thesis using cs IH sub by (intro conjI exI [of _ "cs @ ds"]) (auto simp del: split_paired_All)
  qed
qed

lemma insert_missing_calls:
  "rfold (\<lambda>(_, w) db. insert_record uuid (new_row own w) db) ms db = Inr db' \<Longrightarrow>
   \<exists>cs. calls db' = calls db @ cs \<and> list_all (\<lambda>c. case c of Push _ \<Rightarrow> True | Delete _ \<Rightarrow> False) cs"
proof (induction ms arbitrary: db)
  case (Cons e ms)
  obtain k w where e: "e = (k, w)" by (cases e)
  obtain db1 where s: "insert_record uuid (new_row own w) db = Inr db1"
      "rfold (\<lambda>(_, w) db. insert_record uuid (new_row own w) db) ms db1 = Inr db'"
    using Cons.prems by (auto simp: e rbind_def split: sum.splits)
  then have "\<exists>n. calls db1 = calls db @ [Push n]"
    by (auto simp: insert_record_def rbind_def split: sum.splits)
  with Cons.IH [OF s(2)] show ?case by fastforce
qed simp

lemma keys_split: "row_key ` set (rows db) = row_key ` set (owned own db) \<union> row_key ` set (others own db)"
  unfolding owned_def others_def set_filter by blast

lemma vanished_same:
  assumes "row_key ` set (owned own db1) = row_key ` set (owned own db) \<inter> wanted"
    "row_key ` set (owned own db') = wanted" "others own db1 = others own db" "others own db' = others own db"
  shows "vanished db db1 k \<longleftrightarrow> vanished db db' k"
  unfolding vanished_def keys_split [of _ own] assms by blast

section \<open>Properties\<close>

text \<open>Data of the witnesses: a name longer than every name in the table, a table with a stale row.\<close>

definition long_name :: "dns_row list \<Rightarrow> string" where
  "long_name rs = replicate (Suc (sum_list (map (length \<circ> rr_name) rs))) CHR ''x''"

lemma long_name_fresh: "long_name rs \<notin> rr_name ` set rs"
proof
  assume "long_name rs \<in> rr_name ` set rs"
  then obtain r where r: "r \<in> set rs" "rr_name r = long_name rs" by auto
  have "length (rr_name r) \<le> sum_list (map (length \<circ> rr_name) rs)"
    using r(1) member_le_sum_list [of "length (rr_name r)" "map (length \<circ> rr_name) rs"] by (simp add: rev_image_eqI)
  with r(2) show False by (simp add: long_name_def)
qed

definition sample_row :: dns_row where
  "sample_row = \<lparr>rr_name = ''a'', rr_zone = ''z.io'', rr_host = ''old'', rr_type = ''A'', rr_value = ''1.2.3.4'',
     rr_ttl = 300, rr_priority = 0, rr_category = [], rr_is_verified = True, rr_checked = True,
     rr_owner = Some (''Mail Node'', ''n1'')\<rparr>"

definition sample_wanted :: desired_row where
  "sample_wanted = \<lparr>w_zone = ''z.io'', w_host = ''MX1'', w_type = ''A'', w_value = ''5.6.7.8'', w_category = [],
     w_priority = 0, w_ttl = 0\<rparr>"

definition sample_db :: dns_db where
  "sample_db = \<lparr>rows = [sample_row, sample_row\<lparr>rr_name := ''b'', rr_owner := None\<rparr>], zones = [], default_dns_ttl = 3600, calls = []\<rparr>"

lemma sample_db_ok: "table_ok sample_db" "list_all clean_row [sample_wanted]"
  by (code_simp+)





end
