(* ===== verification/Cluster_Dns.thy ===== *)
theory Cluster_Dns
  imports Labels Directory Dns_Records
begin

text \<open>
  The DNS records of a cluster, its nodes, gateways and egress pools (src/suite_cloud/mail/cluster/dns.py), and the
  Egress IP Pool document that asks for some of them (src/suite_cloud/mail/doctype/egress_ip_pool/egress_ip_pool.py).

  The rows of Stalwart Node, Egress Gateway and Egress IP Pool are those fields these sources read and write.  What a
  save queues for after its commit (configuration pushes) is kept as a list of jobs, in order.
\<close>

section \<open>State\<close>

record node_row =
  nd_name :: string
  nd_cluster :: string
  nd_hostname :: string
  nd_ipv4 :: string
  nd_ipv6 :: string
  nd_status :: string
  nd_in_ingress_dns :: bool

record gateway_row =
  gw_name :: string
  gw_cluster :: string
  gw_hostname :: string
  gw_ipv4 :: string
  gw_status :: string
  gw_enabled :: bool
  gw_last_error :: string

record pool_address =
  pa_gateway :: string
  pa_ip_address :: string
  pa_ehlo_hostname :: string
  pa_ptr_verified :: bool

record pool_row =
  ep_name :: string
  ep_cluster :: string
  ep_pool_name :: string
  ep_hostname :: string
  ep_title :: string
  ep_relay_port :: int
  ep_addresses :: "pool_address list"

datatype job = Resync_Cluster string | Pool_Changes string "string list"

record infra =
  nodes :: "node_row list"
  gateways :: "gateway_row list"
  pools :: "pool_row list"
  cluster_docs :: "cluster_row list"
  pool_users :: "string list"
  dns :: dns_db
  jobs :: "job list"

definition find_cluster :: "infra \<Rightarrow> string \<Rightarrow> cluster_row res" where
  "find_cluster w name = (case find (\<lambda>k. k_name k = name) (cluster_docs w) of None \<Rightarrow> Inl (DoesNotExistError name) | Some k \<Rightarrow> Inr k)"

section \<open>Addresses and nodes\<close>

definition address_row :: "string \<Rightarrow> string \<Rightarrow> string \<Rightarrow> string \<Rightarrow> string \<Rightarrow> desired_row" where
  "address_row zone host ty value category =
    \<lparr>w_zone = zone, w_host = host, w_type = ty, w_value = value, w_category = category, w_priority = 0, w_ttl = 0\<rparr>"

definition address_records :: "string \<Rightarrow> string \<Rightarrow> string \<Rightarrow> string \<Rightarrow> string \<Rightarrow> desired_row list res" where
  "address_records zone hostname ipv4 ipv6 category = rbind (relative_host hostname zone) (\<lambda>host.
     Inr ((if ipv4 \<noteq> [] then [address_row zone host ''A'' ipv4 category] else []) @
          (if ipv6 \<noteq> [] then [address_row zone host ''AAAA'' ipv6 category] else [])))"

definition node_records :: "cluster_row \<Rightarrow> node_row \<Rightarrow> bool \<Rightarrow> desired_row list res" where
  "node_records k n include_ingress =
    rbind (address_records (k_dns_zone k) (nd_hostname n) (nd_ipv4 n) (nd_ipv6 n) ''Node'') (\<lambda>own.
    rbind (if include_ingress then address_records (k_dns_zone k) (k_hostname k) (nd_ipv4 n) (nd_ipv6 n) ''Ingress'' else Inr []) (\<lambda>ingress.
      Inr (own @ ingress)))"

definition put_node :: "node_row \<Rightarrow> infra \<Rightarrow> infra" where
  "put_node n w = w\<lparr>nodes := map (\<lambda>x. if nd_name x = nd_name n then n else x) (nodes w)\<rparr>"

definition sync_records :: "(dns_row list \<Rightarrow> string) \<Rightarrow> owner \<Rightarrow> desired_row list \<Rightarrow> infra \<Rightarrow> infra res" where
  "sync_records uuid own desired w = rbind (reconcile_managed_records uuid own desired (dns w)) (\<lambda>d. Inr (w\<lparr>dns := d\<rparr>))"

text \<open>\<open>include_ingress\<close> left out keeps what the node has.\<close>

definition sync_node_records :: "(dns_row list \<Rightarrow> string) \<Rightarrow> node_row \<Rightarrow> bool option \<Rightarrow> infra \<Rightarrow> infra res" where
  "sync_node_records uuid n include_ingress w =
    (let ingress = (case include_ingress of None \<Rightarrow> nd_in_ingress_dns n | Some b \<Rightarrow> b) in
     rbind (find_cluster w (nd_cluster n)) (\<lambda>k. rbind (node_records k n ingress) (\<lambda>rs.
     rbind (sync_records uuid (''Stalwart Node'', nd_name n) rs w) (\<lambda>w.
       Inr (if ingress \<noteq> nd_in_ingress_dns n then put_node (n\<lparr>nd_in_ingress_dns := ingress\<rparr>) w else w)))))"

definition delete_node_records :: "(dns_row list \<Rightarrow> string) \<Rightarrow> node_row \<Rightarrow> infra \<Rightarrow> infra res" where
  "delete_node_records uuid n w = sync_records uuid (''Stalwart Node'', nd_name n) [] w"

section \<open>SPF\<close>

definition spf_include :: "cluster_row \<Rightarrow> string" where
  "spf_include k = ''spf.'' @ k_default_domain k"

definition spf_host :: "cluster_row \<Rightarrow> string res" where
  "spf_host k = relative_host (spf_include k) (k_dns_zone k)"

definition SPF_TEXT_LIMIT :: nat where "SPF_TEXT_LIMIT = 255"

definition spf_text :: "string list \<Rightarrow> string" where
  "spf_text mechanisms = join_with CHR '' '' (''v=spf1'' # mechanisms @ [''-all''])"

definition add_mechanism :: "string \<Rightarrow> string list list \<Rightarrow> string list list" where
  "add_mechanism m parts =
    (if last parts \<noteq> [] \<and> length (spf_text (last parts @ [m])) > SPF_TEXT_LIMIT then parts @ [[m]]
     else butlast parts @ [last parts @ [m]])"

definition child_host :: "string \<Rightarrow> nat \<Rightarrow> string" where
  "child_host zn i = ''spf'' @ show_nat i @ ''.'' @ zn"

definition spf_texts :: "string \<Rightarrow> string list \<Rightarrow> (string \<times> string) list res" where
  "spf_texts include_host mechanisms =
    (if length (spf_text mechanisms) \<le> SPF_TEXT_LIMIT then Inr [(include_host, spf_text mechanisms)]
     else let parts = fold add_mechanism mechanisms [[]] in
       case partition_at CHR ''.'' include_host of (_, found, zn) \<Rightarrow>
       if \<not> found then Inl (PyValueError ''IndexError'')
       else let children = map (\<lambda>(i, chunk). (child_host zn i, chunk)) (enumerate 1 parts);
                parent = spf_text (map (\<lambda>(host, _). ''include:'' @ host) children)
            in if length parent > SPF_TEXT_LIMIT then Inl (PyValueError ''too many sending addresses for one SPF include chain'')
               else Inr ((include_host, parent) # map (\<lambda>(host, chunk). (host, spf_text chunk)) children))"

definition sending_ips :: "infra \<Rightarrow> cluster_row \<Rightarrow> string list" where
  "sending_ips w k =
    fromkeys (concat (map (\<lambda>n. filter (\<lambda>ip. ip \<noteq> []) [nd_ipv4 n, nd_ipv6 n])
        (filter (\<lambda>n. nd_cluster n = k_name k \<and> nd_status n \<in> {''Provisioned'', ''Active'', ''Draining''}) (nodes w)))
      @ concat (map (\<lambda>p. map pa_ip_address (ep_addresses p)) (filter (\<lambda>p. ep_cluster p = k_name k) (pools w))))"

definition mechanism :: "string \<Rightarrow> string" where
  "mechanism ip = (if CHR '':'' \<in> set ip then ''ip6:'' else ''ip4:'') @ ip"

definition spf_row :: "cluster_row \<Rightarrow> string \<Rightarrow> string \<Rightarrow> desired_row res" where
  "spf_row k host value = rbind (relative_host host (k_dns_zone k)) (\<lambda>h. Inr (address_row (k_dns_zone k) h ''TXT'' value ''SPF''))"

definition include_text :: "cluster_row \<Rightarrow> string" where
  "include_text k = ''v=spf1 include:'' @ spf_include k @ '' -all''"

definition spf_records :: "infra \<Rightarrow> cluster_row \<Rightarrow> desired_row list res" where
  "spf_records w k =
    rbind (spf_texts (spf_include k) (map mechanism (sending_ips w k))) (\<lambda>texts.
    rbind (rmap (\<lambda>(host, value). spf_row k host value) texts) (\<lambda>records.
    rbind (spf_row k (k_default_domain k) (include_text k)) (\<lambda>zone_spf. Inr (records @ [zone_spf]))))"

definition egress_zone :: "cluster_row \<Rightarrow> string" where
  "egress_zone k = ''out.'' @ k_default_domain k"

definition sync_spf_record :: "(dns_row list \<Rightarrow> string) \<Rightarrow> cluster_row \<Rightarrow> infra \<Rightarrow> infra res" where
  "sync_spf_record uuid k w = rbind (spf_records w k) (\<lambda>rs. sync_records uuid (''Stalwart Cluster'', k_name k) rs w)"

definition delete_cluster_records :: "(dns_row list \<Rightarrow> string) \<Rightarrow> cluster_row \<Rightarrow> infra \<Rightarrow> infra res" where
  "delete_cluster_records uuid k w = sync_records uuid (''Stalwart Cluster'', k_name k) [] w"

section \<open>Gateways and pools\<close>

definition gateway_records :: "cluster_row \<Rightarrow> gateway_row \<Rightarrow> desired_row list res" where
  "gateway_records k g =
    rbind (address_records (k_dns_zone k) (gw_hostname g) (gw_ipv4 g) [] ''Egress'') (\<lambda>rs.
    rbind (spf_row k (gw_hostname g) (include_text k)) (\<lambda>s. Inr (rs @ [s])))"

definition sync_gateway_records :: "(dns_row list \<Rightarrow> string) \<Rightarrow> gateway_row \<Rightarrow> infra \<Rightarrow> infra res" where
  "sync_gateway_records uuid g w = rbind (find_cluster w (gw_cluster g)) (\<lambda>k. rbind (gateway_records k g) (\<lambda>rs.
     sync_records uuid (''Egress Gateway'', gw_name g) rs w))"

definition delete_gateway_records :: "(dns_row list \<Rightarrow> string) \<Rightarrow> gateway_row \<Rightarrow> infra \<Rightarrow> infra res" where
  "delete_gateway_records uuid g w = sync_records uuid (''Egress Gateway'', gw_name g) [] w"

definition gateway_names :: "pool_row \<Rightarrow> string list" where
  "gateway_names p = sort (remdups (map pa_gateway (ep_addresses p)))"

definition addresses_on :: "pool_row \<Rightarrow> string \<Rightarrow> pool_address list" where
  "addresses_on p gateway = filter (\<lambda>a. pa_gateway a = gateway) (ep_addresses p)"

text \<open>Unpacking the row of a gateway that does not exist raises.\<close>

definition pool_records :: "infra \<Rightarrow> pool_row \<Rightarrow> desired_row list res" where
  "pool_records w p =
    rbind (find_cluster w (ep_cluster p)) (\<lambda>k.
    rbind (rmap (\<lambda>name. case find (\<lambda>g. gw_name g = name) (gateways w) of
               None \<Rightarrow> Inl (PyValueError ''TypeError'')
             | Some g \<Rightarrow> if gw_status g \<noteq> ''Active'' then Inr [] else address_records (k_dns_zone k) (ep_hostname p) (gw_ipv4 g) [] ''Egress'')
           (gateway_names p)) (\<lambda>hosting.
    rbind (rmap (\<lambda>a. if CHR '':'' \<in> set (pa_ip_address a)
                     then address_records (k_dns_zone k) (pa_ehlo_hostname a) [] (pa_ip_address a) ''Egress''
                     else address_records (k_dns_zone k) (pa_ehlo_hostname a) (pa_ip_address a) [] ''Egress'')
           (ep_addresses p)) (\<lambda>ehlo. Inr (concat hosting @ concat ehlo))))"

definition sync_pool_records :: "(dns_row list \<Rightarrow> string) \<Rightarrow> pool_row \<Rightarrow> infra \<Rightarrow> infra res" where
  "sync_pool_records uuid p w = rbind (pool_records w p) (\<lambda>rs. sync_records uuid (''Egress IP Pool'', ep_name p) rs w)"

definition delete_pool_records :: "(dns_row list \<Rightarrow> string) \<Rightarrow> pool_row \<Rightarrow> infra \<Rightarrow> infra res" where
  "delete_pool_records uuid p w = sync_records uuid (''Egress IP Pool'', ep_name p) [] w"

section \<open>What a receiver reads from the SPF records\<close>

text \<open>The mechanisms of a text, and those a receiver reaches from a host through one level of \<open>include\<close>.\<close>

definition text_mechanisms :: "string \<Rightarrow> string list" where
  "text_mechanisms text = butlast (tl (split_on CHR '' '' text))"

definition reached :: "(string \<times> string) list \<Rightarrow> string \<Rightarrow> string list" where
  "reached texts host =
    concat (map (\<lambda>m. if prefix ''include:'' m
              then (case map_of texts (drop 8 m) of None \<Rightarrow> [] | Some child \<Rightarrow> text_mechanisms child) else [m])
      (case map_of texts host of None \<Rightarrow> [] | Some text \<Rightarrow> text_mechanisms text))"

lemma text_mechanisms_spf: "(\<And>m. m \<in> set ms \<Longrightarrow> CHR '' '' \<notin> set m) \<Longrightarrow> text_mechanisms (spf_text ms) = ms"
proof -
  assume "\<And>m. m \<in> set ms \<Longrightarrow> CHR '' '' \<notin> set m"
  then have "split_on CHR '' '' (spf_text ms) = ''v=spf1'' # ms @ [''-all'']"
    unfolding spf_text_def by (intro split_join_with) auto
  then show "text_mechanisms (spf_text ms) = ms" by (simp add: text_mechanisms_def)
qed

text \<open>Chunks: what they hold, and that each fits.\<close>

lemma add_mechanism_concat: "parts \<noteq> [] \<Longrightarrow> concat (add_mechanism m parts) = concat parts @ [m] \<and> add_mechanism m parts \<noteq> []"
  by (cases parts rule: rev_cases) (auto simp: add_mechanism_def)

lemma fold_add_concat: "parts \<noteq> [] \<Longrightarrow> concat (fold add_mechanism ms parts) = concat parts @ ms \<and> fold add_mechanism ms parts \<noteq> []"
proof (induction ms arbitrary: parts)
  case (Cons m ms)
  then show ?case using add_mechanism_concat [of parts m] Cons.IH [of "add_mechanism m parts"] by simp
qed simp

lemma fold_add_fits:
  assumes "\<And>m. m \<in> set ms \<Longrightarrow> length (spf_text [m]) \<le> SPF_TEXT_LIMIT" "parts \<noteq> []"
    "\<And>c. c \<in> set parts \<Longrightarrow> length (spf_text c) \<le> SPF_TEXT_LIMIT" "c \<in> set (fold add_mechanism ms parts)"
  shows "length (spf_text c) \<le> SPF_TEXT_LIMIT"
  using assms
proof (induction ms arbitrary: parts)
  case (Cons m ms)
  have one: "length (spf_text [m]) \<le> SPF_TEXT_LIMIT" using Cons.prems(1) by simp
  obtain cs c' where cs: "parts = cs @ [c']" using Cons.prems(2) by (cases parts rule: rev_cases) auto
  have "length (spf_text d) \<le> SPF_TEXT_LIMIT" if "d \<in> set (add_mechanism m parts)" for d
    using that Cons.prems(3) one unfolding add_mechanism_def cs by (cases "c' = []") (auto split: if_splits)
  moreover have "add_mechanism m parts \<noteq> []" using add_mechanism_concat [OF Cons.prems(2)] by blast
  ultimately show ?case using Cons.IH [of "add_mechanism m parts"] Cons.prems(1,4) by simp
qed simp

lemma child_host_inj: "child_host zn i = child_host zn j \<Longrightarrow> i = j"
  using show_nat_inj by (auto simp: child_host_def)

lemma child_host_space: "CHR '' '' \<notin> set zn \<Longrightarrow> CHR '' '' \<notin> set (child_host zn i)"
  using show_nat_digits [of "CHR '' ''" i] by (auto simp: child_host_def py_isdigit_def code_def)

lemma child_host_parent: "child_host zn i \<noteq> ''spf.'' @ zn"
proof
  assume "child_host zn i = ''spf.'' @ zn"
  then have "show_nat i @ ''.'' @ zn = ''.'' @ zn" by (simp add: child_host_def)
  then show False using show_nat_not_Nil [of i] by (metis append_self_conv2 append_assoc)
qed

lemma reached_children:
  assumes "\<And>c m. c \<in> set parts \<Longrightarrow> m \<in> set c \<Longrightarrow> CHR '' '' \<notin> set m"
    "\<And>i c. (i, c) \<in> set (enumerate n parts) \<Longrightarrow> map_of texts (child_host zn i) = Some (spf_text c)"
  shows "concat (map (\<lambda>(i, _). case map_of texts (child_host zn i) of None \<Rightarrow> [] | Some child \<Rightarrow> text_mechanisms child) (enumerate n parts)) = concat parts"
proof -
  have "(case map_of texts (child_host zn i) of None \<Rightarrow> [] | Some child \<Rightarrow> text_mechanisms child) = c" if "(i, c) \<in> set (enumerate n parts)" for i c
  proof -
    have "c \<in> set parts" using that by (metis in_set_enumerate_eq fst_conv snd_conv nth_mem diff_less_mono2 le_add_diff_inverse less_diff_conv2 add.commute)
    then show ?thesis using assms(2) [OF that] text_mechanisms_spf [of c] assms(1) by simp
  qed
  then have "map (\<lambda>(i, _). case map_of texts (child_host zn i) of None \<Rightarrow> [] | Some child \<Rightarrow> text_mechanisms child) (enumerate n parts) = map snd (enumerate n parts)"
    by (intro map_cong) auto
  then show ?thesis by simp
qed

lemma spf_children:
  assumes "texts = (''spf.'' @ zn, parent) # map (\<lambda>(i, c). (child_host zn i, spf_text c)) (enumerate n parts)"
  shows "distinct (map fst texts)" "(i, c) \<in> set (enumerate n parts) \<Longrightarrow> map_of texts (child_host zn i) = Some (spf_text c)"
proof -
  have "map fst (map (\<lambda>(i, c). (child_host zn i, spf_text c)) (enumerate n parts)) = map (child_host zn) (map fst (enumerate n parts))"
    by (simp only: map_map) (auto intro!: map_cong)
  moreover have "inj (child_host zn)" using child_host_inj by (intro injI)
  ultimately have "distinct (map fst (map (\<lambda>(i, c). (child_host zn i, spf_text c)) (enumerate n parts)))"
    by (simp only: map_fst_enumerate distinct_map distinct_upt) (auto intro: inj_on_subset)
  then show d: "distinct (map fst texts)" using child_host_parent [THEN not_sym] by (auto simp: assms)
  show "map_of texts (child_host zn i) = Some (spf_text c)" if "(i, c) \<in> set (enumerate n parts)"
    using that by (intro map_of_is_SomeI [OF d]) (auto simp: assms)
qed

lemma length_spf_text_one: "length (spf_text [m]) = length m + 12"
  by (simp add: spf_text_def)

lemma reached_include:
  assumes "CHR '' '' \<notin> set zn" "map_of texts host = Some (spf_text (map (\<lambda>(i, _). ''include:'' @ child_host zn i) (enumerate n parts)))"
  shows "reached texts host = concat (map (\<lambda>(i, _). case map_of texts (child_host zn i) of None \<Rightarrow> [] | Some child \<Rightarrow> text_mechanisms child) (enumerate n parts))"
proof -
  have "text_mechanisms (spf_text (map (\<lambda>(i, _). ''include:'' @ child_host zn i) (enumerate n parts))) = map (\<lambda>(i, _). ''include:'' @ child_host zn i) (enumerate n parts)"
    using child_host_space [OF assms(1)] by (intro text_mechanisms_spf) auto
  then show ?thesis using assms(2) by (auto simp: reached_def intro!: arg_cong [where f = concat])
qed

text \<open>
  C27. However many addresses send for a cluster, the SPF records of its include target name exactly those addresses, each
  once and in order, to a receiver that follows the includes; no record is longer than the 255 bytes of a TXT string; and
  no two records share a host.
\<close>

theorem spf_texts_cover:
  assumes "spf_texts (spf_include k) ms = Inr texts"
    and "\<forall>m\<in>set ms. CHR '' '' \<notin> set m \<and> \<not> prefix ''include:'' m \<and> length m \<le> 243" and "CHR '' '' \<notin> set (k_default_domain k)"
  shows "reached texts (spf_include k) = ms \<and> (\<forall>(host, text)\<in>set texts. length text \<le> SPF_TEXT_LIMIT) \<and> distinct (map fst texts)"
proof (cases "length (spf_text ms) \<le> SPF_TEXT_LIMIT")
  case True
  have "text_mechanisms (spf_text ms) = ms" using assms(2) by (intro text_mechanisms_spf) auto
  moreover have "concat (map (\<lambda>m. if prefix ''include:'' m then f m else [m]) ms) = ms" for f using assms(2) by (induction ms) auto
  ultimately show ?thesis using assms(1) True by (auto simp: spf_texts_def reached_def)
next
  case False
  let ?zn = "k_default_domain k" and ?parts = "fold add_mechanism ms [[]]"
  have "partition_at CHR ''.'' (spf_include k) = (''spf'', True, ?zn)"
    using partition_at_append [of "CHR ''.''" "''spf''" ?zn] by (simp add: spf_include_def)
  then have parent: "length (spf_text (map (\<lambda>(i, _). ''include:'' @ child_host ?zn i) (enumerate 1 ?parts))) \<le> SPF_TEXT_LIMIT"
    and texts: "texts = (''spf.'' @ ?zn, spf_text (map (\<lambda>(i, _). ''include:'' @ child_host ?zn i) (enumerate 1 ?parts)))
        # map (\<lambda>(i, c). (child_host ?zn i, spf_text c)) (enumerate 1 ?parts)"
    using assms(1) False by (auto simp: spf_texts_def Let_def comp_def case_prod_unfold spf_include_def split: if_splits)
  have fits: "length (spf_text c) \<le> SPF_TEXT_LIMIT" if "c \<in> set ?parts" for c
    by (rule fold_add_fits [OF _ _ _ that]) (use assms(2) in \<open>auto simp: length_spf_text_one SPF_TEXT_LIMIT_def spf_text_def\<close>)
  have all: "concat ?parts = ms" using fold_add_concat [of "[[]]" ms] by simp
  have "CHR '' '' \<notin> set m" if "c \<in> set ?parts" "m \<in> set c" for c m using all that assms(2) by (metis UN_I set_concat)
  then have "reached texts (spf_include k) = ms"
    using reached_include [OF assms(3), of texts "spf_include k" 1 ?parts] reached_children [of ?parts 1 texts ?zn] spf_children(2) [OF texts] all texts
    by (simp add: spf_include_def)
  moreover have "\<forall>(host, text)\<in>set texts. length text \<le> SPF_TEXT_LIMIT"
    using parent fits by (auto simp: texts in_set_enumerate_eq)
  ultimately show ?thesis using spf_children(1) [OF texts] by blast
qed

definition sample_cluster :: cluster_row where
  "sample_cluster = hd (cluster_rows sample_directory)"

definition sample_mechanisms :: "string list" where
  "sample_mechanisms = map (\<lambda>c. ''ip4:10.0.0.'' @ replicate 120 c) [CHR ''1'', CHR ''2'', CHR ''3'']"

theorem spf_texts_cover_witness:
  "(case spf_texts (spf_include sample_cluster) sample_mechanisms of Inl _ \<Rightarrow> False
    | Inr texts \<Rightarrow> length texts = 4 \<and> reached texts (spf_include sample_cluster) = sample_mechanisms)"
proof -
  have four: "case spf_texts (spf_include sample_cluster) sample_mechanisms of Inl _ \<Rightarrow> False | Inr texts \<Rightarrow> length texts = 4" by code_simp
  then obtain texts where t: "spf_texts (spf_include sample_cluster) sample_mechanisms = Inr texts" by (auto split: sum.splits)
  have "\<forall>m\<in>set sample_mechanisms. CHR '' '' \<notin> set m \<and> \<not> prefix ''include:'' m \<and> length m \<le> 243" by code_simp
  moreover have "CHR '' '' \<notin> set (k_default_domain sample_cluster)" by code_simp
  ultimately show ?thesis using spf_texts_cover [OF t] four t by simp
qed

end
