(* ===== verification/Zone.thy ===== *)
theory Zone
  imports Prelude "HOL-Library.Product_Lexorder" "HOL-Library.Multiset"
begin

text \<open>
  The records a tenant publishes for a domain, read from the zone file Stalwart writes
  (src/suite_cloud/mail/cluster/zone.py): lines joined over parentheses, comments dropped, records parsed, sorted
  into groups and rewritten (SPF).  \<open>shlex.split\<close>, which splits quoted TXT data, is modelled too.
\<close>

section \<open>Groups\<close>

record zone_group =
  zg_key :: string
  zg_label :: string
  zg_is_mandatory :: bool
  zg_categories :: "string list"

definition GROUPS :: "zone_group list" where
  "GROUPS =
    [\<lparr>zg_key = ''authentication_records'', zg_label = ''Email Authentication'', zg_is_mandatory = True, zg_categories = [''SPF'', ''DKIM'', ''DMARC'']\<rparr>,
     \<lparr>zg_key = ''routing_records'', zg_label = ''Inbound Mail Routing'', zg_is_mandatory = False, zg_categories = [''MX'']\<rparr>,
     \<lparr>zg_key = ''transport_security_records'', zg_label = ''Transport Security'', zg_is_mandatory = False, zg_categories = [''MTA-STS'', ''TLS-RPT'']\<rparr>,
     \<lparr>zg_key = ''discovery_records'', zg_label = ''Service Discovery'', zg_is_mandatory = False, zg_categories = [''SRV'']\<rparr>,
     \<lparr>zg_key = ''autoconfig_records'', zg_label = ''Client Auto-configuration'', zg_is_mandatory = False,
       zg_categories = [''Autoconfig'', ''Autodiscover'', ''UA Auto Config'']\<rparr>]"

definition group_of :: "string \<Rightarrow> zone_group option" where
  "group_of category = find (\<lambda>g. category \<in> set (zg_categories g)) GROUPS"

definition is_mandatory_category :: "string \<Rightarrow> bool" where
  "is_mandatory_category category \<longleftrightarrow> list_ex (\<lambda>g. zg_is_mandatory g \<and> category \<in> set (zg_categories g)) GROUPS"

definition CERTIFICATE_BOUND :: "string list" where
  "CERTIFICATE_BOUND = [''MTA-STS'', ''Autoconfig'', ''Autodiscover'', ''UA Auto Config'']"

text \<open>The place of a category: its group, then its place in the group.\<close>

definition category_order :: "string \<Rightarrow> nat \<times> nat" where
  "category_order category =
    (case filter (\<lambda>(i, g). category \<in> set (zg_categories g)) (enumerate 0 GROUPS) of
       [] \<Rightarrow> (length GROUPS, 0)
     | (i, g) # _ \<Rightarrow> (i, length (takeWhile (\<lambda>c. c \<noteq> category) (zg_categories g))))"

section \<open>Lines\<close>

definition dquote :: char where "dquote = CHR 34"

fun strip_comment_from :: "bool \<Rightarrow> string \<Rightarrow> string" where
  "strip_comment_from quoted [] = []"
| "strip_comment_from quoted (c # cs) =
    (if c = dquote then c # strip_comment_from (\<not> quoted) cs
     else if c = CHR '';'' \<and> \<not> quoted then []
     else c # strip_comment_from quoted cs)"

definition strip_comment :: "string \<Rightarrow> string" where
  "strip_comment line = strip_comment_from False line"

fun paren_balance_from :: "bool \<Rightarrow> string \<Rightarrow> int" where
  "paren_balance_from quoted [] = 0"
| "paren_balance_from quoted (c # cs) =
    (if c = dquote then paren_balance_from (\<not> quoted) cs
     else (if \<not> quoted \<and> c = CHR ''('' then 1 else if \<not> quoted \<and> c = CHR '')'' then -1 else 0) + paren_balance_from quoted cs)"

definition paren_balance :: "string \<Rightarrow> int" where
  "paren_balance line = paren_balance_from False line"

fun without_parens :: "bool \<Rightarrow> string \<Rightarrow> string" where
  "without_parens quoted [] = []"
| "without_parens quoted (c # cs) =
    (let quoted = (if c = dquote then \<not> quoted else quoted) in
     if quoted \<or> c \<notin> {CHR ''('', CHR '')''} then c # without_parens quoted cs else without_parens quoted cs)"

text \<open>\<open>s.split()\<close>: the runs of characters that are not white space.\<close>

fun words_from :: "string \<Rightarrow> string \<Rightarrow> string list" where
  "words_from acc [] = (if acc = [] then [] else [acc])"
| "words_from acc (c # cs) =
    (if py_isspace c then (if acc = [] then words_from [] cs else acc # words_from [] cs) else words_from (acc @ [c]) cs)"

definition py_words :: "string \<Rightarrow> string list" where
  "py_words s = words_from [] s"

definition drop_parens :: "string \<Rightarrow> string" where
  "drop_parens line = join_with CHR '' '' (py_words (without_parens False line))"

fun logical_lines_from :: "string list \<Rightarrow> int \<Rightarrow> string list \<Rightarrow> string list" where
  "logical_lines_from pending depth [] = []"
| "logical_lines_from pending depth (raw # rest) =
    (let line = py_strip (strip_comment raw) in
     if line = [] then logical_lines_from pending depth rest
     else let depth = depth + paren_balance line; pending = pending @ [line] in
       if depth > 0 then logical_lines_from pending depth rest
       else let joined = join_with CHR '' '' pending in
         (if CHR ''('' \<in> set joined then drop_parens joined else joined) # logical_lines_from [] 0 rest)"

definition logical_lines :: "string \<Rightarrow> string list" where
  "logical_lines text = logical_lines_from [] 0 (splitlines text)"

section \<open>Records\<close>

record zone_record =
  zr_name :: string
  zr_ttl :: "nat option"
  zr_type :: string
  zr_rdata :: string

definition span :: "('a \<Rightarrow> bool) \<Rightarrow> 'a list \<Rightarrow> 'a list \<times> 'a list" where
  "span p s = (takeWhile p s, dropWhile p s)"

definition skip_spaces :: "string \<Rightarrow> string" where
  "skip_spaces s = dropWhile py_isspace s"

definition is_upper :: "char \<Rightarrow> bool" where
  "is_upper c \<longleftrightarrow> 65 \<le> code c \<and> code c \<le> 90"

text \<open>The end of the pattern: \<open>[A-Z]+\s+.+\<close>.\<close>

definition match_type :: "string \<Rightarrow> (string \<times> string) option" where
  "match_type s =
    (case span is_upper s of (typ, rest) \<Rightarrow>
     if typ = [] \<or> rest = [] \<or> \<not> py_isspace (hd rest) \<or> skip_spaces rest = [] then None
     else Some (typ, skip_spaces rest))"

text \<open>
  \<open>RECORD_LINE.match\<close> on a line without white space at its end: the name, an optional TTL, an optional \<open>IN\<close>, the type and
  the data.  When the pattern fails after \<open>IN\<close>, \<open>IN\<close> itself is tried as the type.
\<close>

definition match_record :: "string \<Rightarrow> (string \<times> string option \<times> string \<times> string) option" where
  "match_record line =
    (case span (\<lambda>c. \<not> py_isspace c) line of (name, rest) \<Rightarrow>
     let body = skip_spaces rest;
         digits = takeWhile py_isdigit body;
         after = dropWhile py_isdigit body;
         has_ttl = (digits \<noteq> [] \<and> after \<noteq> [] \<and> py_isspace (hd after));
         tail = (if has_ttl then skip_spaces after else body);
         ttl = (if has_ttl then Some digits else None)
     in if name = [] \<or> rest = [] then None
        else case (if prefix ''IN'' tail \<and> drop 2 tail \<noteq> [] \<and> py_isspace (hd (drop 2 tail)) then match_type (skip_spaces (drop 2 tail)) else None) of
          Some (typ, rdata) \<Rightarrow> Some (name, ttl, typ, rdata)
        | None \<Rightarrow> map_option (\<lambda>(typ, rdata). (name, ttl, typ, rdata)) (match_type tail))"

definition zone_record_of :: "string \<Rightarrow> zone_record option" where
  "zone_record_of line =
    (if line \<noteq> [] \<and> hd line = CHR ''$'' then None
     else map_option (\<lambda>(name, ttl, typ, rdata).
       \<lparr>zr_name = py_lower (rstrip_dots name), zr_ttl = map_option read_nat ttl, zr_type = typ, zr_rdata = py_strip rdata\<rparr>) (match_record line))"

definition parse_zone_file :: "string \<Rightarrow> zone_record list" where
  "parse_zone_file text = List.map_filter zone_record_of (logical_lines text)"

section \<open>Quoted text\<close>

datatype sh_state = Between | Word | Quoted char | Escaped char

text \<open>
  \<open>shlex.split(s)\<close>; the character of \<open>Escaped\<close> is the quote to return to, or \<open>CHR ''a''\<close> for a word.  \<open>None\<close> is a
  \<open>ValueError\<close>.
\<close>

definition sh_space :: "char \<Rightarrow> bool" where
  "sh_space c \<longleftrightarrow> code c \<in> {32, 9, 13, 10}"

definition squote :: char where "squote = CHR 39"

definition backslash :: char where "backslash = CHR 92"

fun shlex_from :: "sh_state \<Rightarrow> string \<Rightarrow> bool \<Rightarrow> string \<Rightarrow> string list option" where
  "shlex_from Between token quoted [] = Some []"
| "shlex_from Between token quoted (c # cs) =
    (if sh_space c then shlex_from Between [] False cs
     else if c = backslash then shlex_from (Escaped CHR ''a'') [] False cs
     else if c = dquote \<or> c = squote then shlex_from (Quoted c) [] True cs
     else shlex_from Word [c] False cs)"
| "shlex_from Word token quoted [] = Some (if token \<noteq> [] \<or> quoted then [token] else [])"
| "shlex_from Word token quoted (c # cs) =
    (if sh_space c then
       (if token \<noteq> [] \<or> quoted then map_option ((#) token) (shlex_from Between [] False cs) else shlex_from Between [] False cs)
     else if c = dquote \<or> c = squote then shlex_from (Quoted c) token True cs
     else if c = backslash then shlex_from (Escaped CHR ''a'') token quoted cs
     else shlex_from Word (token @ [c]) quoted cs)"
| "shlex_from (Quoted k) token quoted [] = None"
| "shlex_from (Quoted k) token quoted (c # cs) =
    (if c = k then shlex_from Word token True cs
     else if c = backslash \<and> k = dquote then shlex_from (Escaped k) token True cs
     else shlex_from (Quoted k) (token @ [c]) True cs)"
| "shlex_from (Escaped k) token quoted [] = None"
| "shlex_from (Escaped k) token quoted (c # cs) =
    (let token = (if (k = dquote \<or> k = squote) \<and> c \<noteq> backslash \<and> c \<noteq> k then token @ [backslash] else token) @ [c] in
     if k = dquote \<or> k = squote then shlex_from (Quoted k) token quoted cs else shlex_from Word token quoted cs)"

definition shlex_split :: "string \<Rightarrow> string list option" where
  "shlex_split s = shlex_from Between [] False s"

definition unquote :: "string \<Rightarrow> string" where
  "unquote rdata =
    (case shlex_split rdata of
       None \<Rightarrow> rstrip_by (\<lambda>c. c = dquote) (lstrip_by (\<lambda>c. c = dquote) rdata)
     | Some parts \<Rightarrow> concat parts)"

section \<open>Rows\<close>

record domain_record =
  dn_record_type :: string
  dn_host :: string
  dn_ttl :: nat
  dn_priority :: int
  dn_weight :: int
  dn_port :: int
  dn_value :: string
  dn_category :: string
  dn_group :: string
  dn_is_mandatory :: bool

text \<open>\<open>int(s)\<close> for a text.\<close>

definition py_int :: "string \<Rightarrow> int option" where
  "py_int s =
    (let s = py_strip s;
         negative = (s \<noteq> [] \<and> hd s = CHR ''-'');
         body = (if s \<noteq> [] \<and> hd s \<in> {CHR ''-'', CHR ''+''} then tl s else s);
         parts = split_on CHR ''_'' body
     in if list_all (\<lambda>p. p \<noteq> [] \<and> list_all py_isdigit p) parts
        then Some ((if negative then -1 else 1) * int (read_nat (concat parts))) else None)"

definition relative_host_of :: "string \<Rightarrow> string \<Rightarrow> string option" where
  "relative_host_of name domain =
    (if name = domain then Some ''@''
     else if suffix (''.'' @ domain) name then Some (drop_suffix (length domain + 1) name) else None)"

definition txt_category :: "string \<Rightarrow> string \<Rightarrow> string option" where
  "txt_category host text =
    (if host = ''@'' \<and> prefix ''v=spf1'' text then Some ''SPF''
     else if sublist ''_domainkey'' host then Some ''DKIM''
     else if host = ''_dmarc'' then Some ''DMARC''
     else if host = ''_smtp._tls'' then Some ''TLS-RPT''
     else if host = ''_mta-sts'' then Some ''MTA-STS''
     else if host = ''_ua-auto-config'' then Some ''UA Auto Config''
     else None)"

definition cname_category :: "string \<Rightarrow> string option" where
  "cname_category host =
    (if host = ''mta-sts'' then Some ''MTA-STS''
     else if host = ''autoconfig'' then Some ''Autoconfig''
     else if host = ''autodiscover'' then Some ''Autodiscover''
     else if host = ''ua-auto-config'' then Some ''UA Auto Config''
     else None)"

text \<open>The group and the mandatory flag follow the category.\<close>

definition in_category :: "string \<Rightarrow> domain_record \<Rightarrow> domain_record" where
  "in_category category r = r\<lparr>dn_category := category,
     dn_group := (case group_of category of None \<Rightarrow> [] | Some g \<Rightarrow> zg_key g), dn_is_mandatory := is_mandatory_category category\<rparr>"

definition spf_value :: "string \<Rightarrow> string" where
  "spf_value spf_include = ''v=spf1 include:'' @ spf_include @ '' -all''"

definition to_row :: "string \<Rightarrow> string \<Rightarrow> nat \<Rightarrow> zone_record \<Rightarrow> domain_record option res" where
  "to_row domain spf_include default_ttl z =
    (case relative_host_of (zr_name z) domain of
       None \<Rightarrow> Inr None
     | Some host \<Rightarrow>
         let row = \<lparr>dn_record_type = zr_type z, dn_host = host,
               dn_ttl = (case zr_ttl z of None \<Rightarrow> default_ttl | Some t \<Rightarrow> if t = 0 then default_ttl else t),
               dn_priority = 0, dn_weight = 0, dn_port = 0, dn_value = zr_rdata z, dn_category = [], dn_group = [], dn_is_mandatory = False\<rparr>
         in if zr_type z = ''MX'' then
              (case partition_at CHR '' '' (zr_rdata z) of (p, _, target) \<Rightarrow>
               case (if p = [] then Some 0 else py_int p) of
                 None \<Rightarrow> Inl (PyValueError p)
               | Some i \<Rightarrow> Inr (Some (in_category ''MX'' (row\<lparr>dn_priority := i, dn_value := rstrip_dots (py_strip target)\<rparr>))))
            else if zr_type z = ''TXT'' then
              (let text = unquote (zr_rdata z) in
               case txt_category host text of
                 None \<Rightarrow> Inr None
               | Some c \<Rightarrow> Inr (Some (in_category c (row\<lparr>dn_value := (if c = ''SPF'' then spf_value spf_include else text)\<rparr>))))
            else if zr_type z = ''CNAME'' then
              Inr (map_option (\<lambda>c. in_category c (row\<lparr>dn_value := rstrip_dots (zr_rdata z)\<rparr>)) (cname_category host))
            else if zr_type z = ''SRV'' then
              (case py_words (zr_rdata z) of
                 [p, w, q, target] \<Rightarrow>
                   (case (py_int p, py_int w, py_int q) of
                      (Some p, Some w, Some q) \<Rightarrow>
                        Inr (Some (in_category ''SRV'' (row\<lparr>dn_priority := p, dn_weight := w, dn_port := q, dn_value := rstrip_dots target\<rparr>)))
                    | _ \<Rightarrow> Inl (PyValueError (zr_rdata z)))
               | _ \<Rightarrow> Inl (PyValueError (zr_rdata z)))
            else Inr None)"

definition row_key :: "domain_record \<Rightarrow> (nat \<times> nat) \<times> string" where
  "row_key r = (category_order (dn_category r), dn_host r)"

definition kept_row :: "bool \<Rightarrow> domain_record \<Rightarrow> bool" where
  "kept_row include_client_discovery r \<longleftrightarrow> dn_category r \<notin> set CERTIFICATE_BOUND \<or> include_client_discovery"

definition build_domain_records :: "string \<Rightarrow> string \<Rightarrow> string \<Rightarrow> bool \<Rightarrow> nat \<Rightarrow> domain_record list res" where
  "build_domain_records domain zone_file spf_include include_client_discovery default_ttl =
    rbind (rmap (to_row domain spf_include default_ttl) (parse_zone_file zone_file)) (\<lambda>rows.
      Inr (sort_key row_key (filter (kept_row include_client_discovery) (List.map_filter id rows))))"

section \<open>Reading what a name server writes\<close>

text \<open>A zone file, as a reference: records on one line or wrapped in parentheses, comments and directives.\<close>

datatype zone_item = Plain zone_record string | Wrapped zone_record "string list" | Comment string | Directive string

definition head_words :: "zone_record \<Rightarrow> string list" where
  "head_words z = [zr_name z @ ''.''] @ (case zr_ttl z of None \<Rightarrow> [] | Some t \<Rightarrow> [show_nat t]) @ [''IN'', zr_type z]"

definition record_head :: "zone_record \<Rightarrow> string" where
  "record_head z = join_with CHR '' '' (head_words z)"

fun item_lines :: "zone_item \<Rightarrow> string list" where
  "item_lines (Plain z remark) = [record_head z @ '' '' @ zr_rdata z @ (if remark = [] then [] else '' ;'' @ remark)]"
| "item_lines (Wrapped z parts) = [record_head z @ '' (''] @ parts @ ['')'']"
| "item_lines (Comment remark) = ['';'' @ remark]"
| "item_lines (Directive d) = [''$'' @ d]"

fun item_records :: "zone_item \<Rightarrow> zone_record list" where
  "item_records (Plain z remark) = [z]"
| "item_records (Wrapped z parts) = [z]"
| "item_records (Comment remark) = []"
| "item_records (Directive d) = []"

fun quoted_after :: "bool \<Rightarrow> string \<Rightarrow> bool" where
  "quoted_after quoted [] = quoted"
| "quoted_after quoted (c # cs) = quoted_after (if c = dquote then \<not> quoted else quoted) cs"

text \<open>Text whose quotes pair up, with semicolons and parentheses only inside them.\<close>

definition closed_text :: "string \<Rightarrow> bool" where
  "closed_text s \<longleftrightarrow> \<not> quoted_after False s \<and> strip_comment s = s \<and> without_parens False s = s \<and> (\<forall>c\<in>set s. \<not> is_linebreak c)"

definition head_ok :: "zone_record \<Rightarrow> bool" where
  "head_ok z \<longleftrightarrow> zr_name z \<noteq> [] \<and> py_lower (zr_name z) = zr_name z \<and> last (zr_name z) \<noteq> CHR ''.'' \<and> hd (zr_name z) \<noteq> CHR ''$'' \<and>
     (\<forall>c\<in>set (zr_name z). \<not> py_isspace c \<and> c \<notin> {dquote, CHR '';'', CHR ''('', CHR '')''}) \<and>
     zr_type z \<noteq> [] \<and> list_all is_upper (zr_type z)"

fun item_ok :: "zone_item \<Rightarrow> bool" where
  "item_ok (Plain z remark) \<longleftrightarrow> head_ok z \<and> zr_rdata z \<noteq> [] \<and> py_strip (zr_rdata z) = zr_rdata z \<and> closed_text (zr_rdata z) \<and>
     CHR ''('' \<notin> set (zr_rdata z) \<and> (\<forall>c\<in>set remark. \<not> is_linebreak c)"
| "item_ok (Wrapped z parts) \<longleftrightarrow> head_ok z \<and> parts \<noteq> [] \<and> zr_rdata z = join_with CHR '' '' parts \<and>
     (\<forall>p\<in>set parts. p \<noteq> [] \<and> closed_text p \<and> join_with CHR '' '' (py_words p) = p)"
| "item_ok (Comment remark) \<longleftrightarrow> (\<forall>c\<in>set remark. \<not> is_linebreak c)"
| "item_ok (Directive d) \<longleftrightarrow> (\<forall>c\<in>set d. \<not> is_linebreak c \<and> c \<noteq> CHR ''('')"

lemma quoted_after_append: "quoted_after q (s @ t) = quoted_after (quoted_after q s) t"
  by (induction s arbitrary: q) auto

lemma strip_comment_append:
  "strip_comment_from q s = s \<Longrightarrow> strip_comment_from q (s @ t) = s @ strip_comment_from (quoted_after q s) t"
  by (induction s arbitrary: q) (auto split: if_splits)

lemma without_parens_append: "without_parens q (s @ t) = without_parens q s @ without_parens (quoted_after q s) t"
  by (induction s arbitrary: q) (auto simp: Let_def)

lemma paren_balance_append: "paren_balance_from q (s @ t) = paren_balance_from q s + paren_balance_from (quoted_after q s) t"
  by (induction s arbitrary: q) auto

lemma length_without_parens: "length (without_parens q s) \<le> length s"
  by (induction s arbitrary: q) (auto simp: Let_def intro: le_SucI)

lemma without_parens_balance: "without_parens q s = s \<Longrightarrow> paren_balance_from q s = 0"
proof (induction s arbitrary: q)
  case (Cons c s)
  have "without_parens q' s \<noteq> c # s" for q' using length_without_parens [of q' s] by (metis impossible_Cons)
  then show ?case using Cons by (auto simp: Let_def split: if_splits)
qed simp

lemma no_paren_balance: "CHR ''('' \<notin> set s \<Longrightarrow> paren_balance_from q s \<le> 0"
proof (induction s arbitrary: q)
  case (Cons c s)
  then have "paren_balance_from q s \<le> 0" "paren_balance_from (\<not> q) s \<le> 0" by auto
  then show ?case using Cons.prems by auto
qed simp

lemma plain_text: "(\<forall>c\<in>set s. c \<notin> {dquote, CHR '';'', CHR ''('', CHR '')''}) \<Longrightarrow>
    quoted_after q s = q \<and> strip_comment_from q s = s \<and> without_parens q s = s \<and> paren_balance_from q s = 0"
  by (induction s arbitrary: q) auto

lemma linebreak_space: "is_linebreak c \<Longrightarrow> py_isspace c"
  by (auto simp: is_linebreak_def py_isspace_def)

lemma words_from_space: "words_from acc (s @ CHR '' '' # t) = words_from acc s @ words_from [] t"
  by (induction s arbitrary: acc) (auto simp: py_isspace_def code_def)

lemma py_words_space: "py_words (s @ CHR '' '' # t) = py_words s @ py_words t"
  by (simp add: py_words_def words_from_space)

lemma py_words_Nil [simp]: "py_words [] = []"
  by (simp add: py_words_def)

lemma py_words_join: "py_words (join_with CHR '' '' ps) = concat (map py_words ps)"
  by (induction "CHR '' ''" ps rule: join_with.induct) (auto simp: words_from_space py_words_def)

lemma py_words_word: "s \<noteq> [] \<Longrightarrow> \<forall>c\<in>set s. \<not> py_isspace c \<Longrightarrow> py_words s = [s]"
proof -
  have "words_from acc s = (if acc @ s = [] then [] else [acc @ s])" if "\<forall>c\<in>set s. \<not> py_isspace c" for acc
    using that by (induction s arbitrary: acc) auto
  then show "s \<noteq> [] \<Longrightarrow> \<forall>c\<in>set s. \<not> py_isspace c \<Longrightarrow> py_words s = [s]" by (simp add: py_words_def)
qed

lemma join_with_append: "xs \<noteq> [] \<Longrightarrow> ys \<noteq> [] \<Longrightarrow> join_with c (xs @ ys) = join_with c xs @ c # join_with c ys"
  by (induction c xs rule: join_with.induct) (auto simp: join_with_Cons)

lemma join_concat: "(\<And>xs. xs \<in> set xss \<Longrightarrow> xs \<noteq> []) \<Longrightarrow> join_with c (concat xss) = join_with c (map (join_with c) xss)"
proof (induction xss)
  case (Cons xs xss)
  show ?case
  proof (cases "xss = []")
    case False
    then obtain ys yss where "xss = ys # yss" by (cases xss) auto
    then have "concat xss \<noteq> []" using Cons.prems [of ys] by auto
    then show ?thesis using Cons False by (simp add: join_with_append join_with_Cons)
  qed simp
qed simp

lemma head_words_plain:
  assumes "head_ok z" "w \<in> set (head_words z)"
  shows "w \<noteq> [] \<and> (\<forall>c\<in>set w. \<not> py_isspace c \<and> c \<notin> {dquote, CHR '';'', CHR ''('', CHR '')''})"
proof -
  have plain: "\<not> py_isspace c \<and> c \<notin> {dquote, CHR '';'', CHR ''('', CHR '')''}" if "is_upper c \<or> py_isdigit c \<or> c \<in> {CHR ''.'', CHR ''I'', CHR ''N''}" for c
    using that by (auto simp: is_upper_def py_isdigit_def py_isspace_def dquote_def code_def)
  consider "w = zr_name z @ ''.''" | t where "w = show_nat t" | "w = ''IN''" | "w = zr_type z"
    using assms(2) by (auto simp: head_words_def split: option.splits)
  then show ?thesis
  proof cases
    case 2
    then show ?thesis using plain show_nat_digits by (metis show_nat_not_Nil)
  next
    case 4
    then show ?thesis using assms(1) plain by (metis head_ok_def list_all_iff)
  qed (use assms(1) plain in \<open>auto simp: head_ok_def\<close>)
qed

lemma head_words_not_Nil [simp]: "head_words z \<noteq> []"
  by (simp add: head_words_def)

lemma head_plain:
  assumes "head_ok z"
  shows "\<forall>c\<in>set (record_head z). c \<notin> {dquote, CHR '';'', CHR ''('', CHR '')''} \<and> \<not> is_linebreak c"
proof
  fix c assume "c \<in> set (record_head z)"
  then have "c = CHR '' '' \<or> (\<exists>w\<in>set (head_words z). c \<in> set w)"
    using set_join_with [of "CHR '' ''" "head_words z"] by (auto simp: record_head_def)
  then show "c \<notin> {dquote, CHR '';'', CHR ''('', CHR '')''} \<and> \<not> is_linebreak c"
    using head_words_plain [OF assms] linebreak_space [of c] by (auto simp: is_linebreak_def dquote_def code_def)
qed

lemma record_head_words:
  assumes "head_ok z"
  shows "py_words (record_head z) = head_words z"
proof -
  have "map py_words (head_words z) = map (\<lambda>w. [w]) (head_words z)"
    using head_words_plain [OF assms] py_words_word by (intro map_cong) auto
  from arg_cong [OF this, of concat] show ?thesis by (simp add: record_head_def py_words_join)
qed

lemma hd_join_with: "ws \<noteq> [] \<Longrightarrow> hd ws \<noteq> [] \<Longrightarrow> join_with c ws \<noteq> [] \<and> hd (join_with c ws) = hd (hd ws)"
  by (cases ws; cases "tl ws") (auto simp: join_with_Cons)

lemma takeWhile_stop: "\<forall>c\<in>set s. p c \<Longrightarrow> \<not> p x \<Longrightarrow> takeWhile p (s @ x # t) = s \<and> dropWhile p (s @ x # t) = x # t"
  by (simp add: takeWhile_append dropWhile_append)

lemma skip_spaces_stop: "s \<noteq> [] \<Longrightarrow> \<not> py_isspace (hd s) \<Longrightarrow> skip_spaces (CHR '' '' # s) = s \<and> skip_spaces s = s"
  by (cases s) (auto simp: skip_spaces_def py_isspace_def code_def)

lemma match_type_text:
  assumes "ty \<noteq> []" "list_all is_upper ty" "rdata \<noteq> []" "\<not> py_isspace (hd rdata)"
  shows "match_type (ty @ CHR '' '' # rdata) = Some (ty, rdata)"
  using takeWhile_stop [of ty is_upper "CHR '' ''" rdata] assms skip_spaces_stop [of rdata]
  by (auto simp: match_type_def span_def list_all_iff is_upper_def py_isspace_def code_def)

lemma match_tail:
  assumes "ty \<noteq> []" "list_all is_upper ty" "rdata \<noteq> []" "\<not> py_isspace (hd rdata)"
    and tail: "tail = ''IN '' @ ty @ CHR '' '' # rdata"
  shows "prefix ''IN'' tail \<and> drop 2 tail \<noteq> [] \<and> py_isspace (hd (drop 2 tail)) \<and> match_type (skip_spaces (drop 2 tail)) = Some (ty, rdata)"
proof -
  have "\<not> py_isspace (hd (ty @ CHR '' '' # rdata))"
    using assms(1,2) by (cases ty) (auto simp: is_upper_def py_isspace_def)
  then have "skip_spaces (CHR '' '' # ty @ CHR '' '' # rdata) = ty @ CHR '' '' # rdata"
    using skip_spaces_stop [of "ty @ CHR '' '' # rdata"] by simp
  moreover have "py_isspace CHR '' ''" by (simp add: py_isspace_def code_def)
  ultimately show ?thesis using match_type_text [OF assms(1-4)] by (simp add: tail)
qed

lemma match_record_line:
  assumes "head_ok z" "rdata \<noteq> []" "\<not> py_isspace (hd rdata)"
  shows "match_record (record_head z @ CHR '' '' # rdata) = Some (zr_name z @ ''.'', map_option show_nat (zr_ttl z), zr_type z, rdata)"
proof -
  let ?tail = "''IN '' @ zr_type z @ CHR '' '' # rdata"
  let ?body = "(case zr_ttl z of None \<Rightarrow> [] | Some t \<Rightarrow> show_nat t @ '' '') @ ?tail"
  have line: "record_head z @ CHR '' '' # rdata = (zr_name z @ ''.'') @ CHR '' '' # ?body"
    by (auto simp: record_head_def head_words_def split: option.splits)
  have sp: "py_isspace CHR '' ''" by (simp add: py_isspace_def code_def)
  have ok: "zr_type z \<noteq> []" "list_all is_upper (zr_type z)" "\<forall>c\<in>set (zr_name z @ ''.''). \<not> py_isspace c"
    using assms(1) head_words_plain [OF assms(1), of "zr_name z @ ''.''"] by (auto simp: head_ok_def head_words_def)
  have name: "span (\<lambda>c. \<not> py_isspace c) (record_head z @ CHR '' '' # rdata) = (zr_name z @ ''.'', CHR '' '' # ?body)"
    unfolding span_def line using takeWhile_stop [OF ok(3), of "CHR '' ''" ?body] sp by simp
  have digit_no_space: "\<not> py_isspace c" if "py_isdigit c" for c using that by (auto simp: py_isdigit_def py_isspace_def)
  have nodigit: "\<not> py_isdigit CHR '' ''" "\<not> py_isdigit CHR ''I''" "\<not> py_isspace CHR ''I''" by (simp_all add: py_isdigit_def py_isspace_def code_def)
  have body: "skip_spaces (CHR '' '' # ?body) = ?body"
  proof (cases "zr_ttl z")
    case (Some t)
    then have "hd ?body = hd (show_nat t)" "?body \<noteq> []" by auto
    moreover have "py_isdigit (hd (show_nat t))" using show_nat_digits [of "hd (show_nat t)" t] by simp
    ultimately show ?thesis using skip_spaces_stop [of ?body] digit_no_space by metis
  qed (use skip_spaces_stop [of ?tail] nodigit in simp)
  note tail = match_tail [OF ok(1,2) assms(2,3) refl]
  show ?thesis
  proof (cases "zr_ttl z")
    case None
    have "takeWhile py_isdigit ?tail = []" using nodigit by simp
    then show ?thesis using name body tail None by (simp add: match_record_def Let_def)
  next
    case (Some t)
    have d: "takeWhile py_isdigit ?body = show_nat t" "dropWhile py_isdigit ?body = CHR '' '' # ?tail"
      using takeWhile_stop [of "show_nat t" py_isdigit "CHR '' ''" ?tail] show_nat_digits nodigit Some by simp_all
    have "skip_spaces (CHR '' '' # ?tail) = ?tail" using skip_spaces_stop [of ?tail] nodigit by simp
    then show ?thesis using name body tail Some d sp by (simp add: match_record_def Let_def)
  qed
qed

lemma zone_record_of_line:
  assumes "head_ok z" "zr_rdata z \<noteq> []" "py_strip (zr_rdata z) = zr_rdata z"
  shows "zone_record_of (record_head z @ CHR '' '' # zr_rdata z) = Some z"
proof -
  have "\<not> py_isspace (hd (zr_rdata z))" using py_strip_hd [of "zr_rdata z"] assms(2,3) by simp
  note m = match_record_line [OF assms(1,2) this]
  have "hd (record_head z) = hd (zr_name z)" "record_head z \<noteq> []"
    using assms(1) hd_join_with [of "head_words z" "CHR '' ''"] by (auto simp: record_head_def head_words_def head_ok_def)
  then have "hd (record_head z @ CHR '' '' # zr_rdata z) \<noteq> CHR ''$''" using assms(1) by (auto simp: head_ok_def)
  moreover have "rstrip_dots (zr_name z @ ''.'') = zr_name z"
    using assms(1) rstrip_by_id [of "zr_name z"] by (auto simp: rstrip_dots_def rstrip_by_def head_ok_def)
  moreover have "map_option read_nat (map_option show_nat (zr_ttl z)) = zr_ttl z" by (cases "zr_ttl z") auto
  ultimately show ?thesis using m assms by (simp add: zone_record_of_def head_ok_def)
qed

lemma last_join_with: "ws \<noteq> [] \<Longrightarrow> last ws \<noteq> [] \<Longrightarrow> last (join_with c ws) = last (last ws)"
  by (induction c ws rule: join_with.induct) (auto simp: join_with_Cons)

lemma py_strip_join:
  assumes "ws \<noteq> []" "\<And>w. w \<in> set ws \<Longrightarrow> w \<noteq> [] \<and> \<not> py_isspace (hd w) \<and> \<not> py_isspace (last w)"
  shows "py_strip (join_with c ws) = join_with c ws"
  using assms hd_join_with [of ws c] last_join_with [of ws c] hd_in_set [OF assms(1)] last_in_set [OF assms(1)]
  by (intro py_strip_id) metis

lemma py_words_words: "w \<in> set (py_words s) \<Longrightarrow> w \<noteq> [] \<and> (\<forall>c\<in>set w. \<not> py_isspace c)"
proof -
  have "list_all (\<lambda>w. w \<noteq> [] \<and> list_all (\<lambda>c. \<not> py_isspace c) w) (words_from acc s)" if "list_all (\<lambda>c. \<not> py_isspace c) acc" for acc
    using that by (induction s arbitrary: acc) simp_all
  from this [of "[]"] show "w \<in> set (py_words s) \<Longrightarrow> w \<noteq> [] \<and> (\<forall>c\<in>set w. \<not> py_isspace c)" by (auto simp: py_words_def list_all_iff)
qed

lemma even_spacing:
  assumes "p \<noteq> []" "join_with CHR '' '' (py_words p) = p"
  shows "py_words p \<noteq> [] \<and> py_strip p = p \<and> \<not> py_isspace (hd p) \<and> \<not> py_isspace (last p)"
proof -
  have ne: "py_words p \<noteq> []" using assms by auto
  have w: "w \<noteq> [] \<and> \<not> py_isspace (hd w) \<and> \<not> py_isspace (last w)" if "w \<in> set (py_words p)" for w
    using py_words_words [OF that] by simp
  have "py_strip p = p" using py_strip_join [OF ne w, of "CHR '' ''"] assms(2) by simp
  then show ?thesis using ne py_strip_hd [of p] py_strip_last [of p] assms(1) by simp
qed

lemma closed_join: "(\<And>p. p \<in> set ps \<Longrightarrow> closed_text p) \<Longrightarrow> quoted_after False (join_with CHR '' '' ps) = False \<and>
    without_parens False (join_with CHR '' '' ps) = join_with CHR '' '' ps"
proof (induction "CHR '' ''" ps rule: join_with.induct)
  case (3 x y xs)
  then have "closed_text x" "quoted_after False (join_with CHR '' '' (y # xs)) = False \<and>
    without_parens False (join_with CHR '' '' (y # xs)) = join_with CHR '' '' (y # xs)" by auto
  then show ?case by (simp add: quoted_after_append without_parens_append closed_text_def dquote_def)
qed (auto simp: closed_text_def)

lemma closed_balance: "closed_text s \<Longrightarrow> paren_balance_from False s = 0"
  by (simp add: closed_text_def without_parens_balance)

lemma logical_parts:
  assumes "\<And>p. p \<in> set parts \<Longrightarrow> p \<noteq> [] \<and> closed_text p \<and> py_strip p = p"
  shows "logical_lines_from pending 1 (parts @ rest) = logical_lines_from (pending @ parts) 1 rest"
  using assms
proof (induction parts arbitrary: pending)
  case (Cons p parts)
  have p: "p \<noteq> []" "py_strip (strip_comment p) = p" "paren_balance p = 0"
    using Cons.prems [of p] by (auto simp: closed_text_def paren_balance_def without_parens_balance)
  show ?case using Cons.IH [of "pending @ [p]"] Cons.prems p by (simp add: Let_def)
qed simp

lemma py_strip_space: "s \<noteq> [] \<Longrightarrow> py_strip s = s \<Longrightarrow> py_strip (s @ '' '') = s"
proof -
  assume s: "s \<noteq> []" "py_strip s = s"
  then have "lstrip_by py_isspace (s @ '' '') = s @ '' ''" using py_strip_hd [of s] by (intro lstrip_by_id) simp
  moreover have "py_isspace CHR '' ''" by (simp add: py_isspace_def code_def)
  ultimately have "py_strip (s @ '' '') = rstrip_by py_isspace s" by (simp add: py_strip_def rstrip_by_def)
  then show "py_strip (s @ '' '') = s" using s py_strip_last [of s] by (simp add: rstrip_by_id)
qed

lemma record_line_stripped:
  assumes "head_ok z" "rdata \<noteq> []" "\<not> py_isspace (last rdata)"
  shows "record_head z @ CHR '' '' # rdata \<noteq> [] \<and> py_strip (record_head z @ CHR '' '' # rdata) = record_head z @ CHR '' '' # rdata"
proof -
  have "hd (record_head z) = hd (hd (head_words z))" "record_head z \<noteq> []"
    using head_words_plain [OF assms(1), of "hd (head_words z)"] hd_join_with [of "head_words z" "CHR '' ''"] by (auto simp: record_head_def)
  moreover have "\<not> py_isspace (hd (hd (head_words z)))" using head_words_plain [OF assms(1), of "hd (head_words z)"] by simp
  ultimately show ?thesis using assms(2,3) by (intro conjI py_strip_id) auto
qed

lemma logical_plain:
  assumes "item_ok (Plain z remark)"
  shows "logical_lines_from [] 0 (item_lines (Plain z remark) @ rest) = (record_head z @ CHR '' '' # zr_rdata z) # logical_lines_from [] 0 rest"
proof -
  let ?line = "record_head z @ CHR '' '' # zr_rdata z"
  let ?raw = "?line @ (if remark = [] then [] else '' ;'' @ remark)"
  have ok: "head_ok z" "zr_rdata z \<noteq> []" "py_strip (zr_rdata z) = zr_rdata z" "closed_text (zr_rdata z)" "CHR ''('' \<notin> set (zr_rdata z)"
    using assms by auto
  have lst: "\<not> py_isspace (last (zr_rdata z))" using py_strip_last [of "zr_rdata z"] ok by simp
  have sp: "strip_comment_from False '' ;'' = '' ''" "py_isspace CHR '' ''" by (simp_all add: dquote_def py_isspace_def code_def)
  note h = plain_text [of "record_head z @ '' ''" False] and st = record_line_stripped [OF ok(1,2) lst]
  have h': "quoted_after False (record_head z @ '' '') = False \<and> strip_comment_from False (record_head z @ '' '') = record_head z @ '' '' \<and> paren_balance_from False (record_head z @ '' '') = 0"
    using h head_plain [OF ok(1)] by (auto simp: dquote_def)
  have line: "strip_comment_from False ?line = ?line \<and> quoted_after False ?line = False \<and> paren_balance_from False ?line = 0"
    using h' strip_comment_append [of False "record_head z @ '' ''" "zr_rdata z"] quoted_after_append [of False "record_head z @ '' ''" "zr_rdata z"]
      paren_balance_append [of False "record_head z @ '' ''" "zr_rdata z"] ok(4) closed_balance [OF ok(4)]
    by (simp add: closed_text_def strip_comment_def)
  have "py_strip (?line @ '' '') = ?line"
    using st py_strip_space [of ?line] by simp
  moreover have "strip_comment ?raw = ?line @ (if remark = [] then [] else '' '')"
    using line strip_comment_append [of False ?line "'' ;'' @ remark"] by (auto simp: strip_comment_def dquote_def)
  ultimately have "py_strip (strip_comment ?raw) = ?line" using st by simp
  moreover have "CHR ''('' \<notin> set ?line" using head_plain [OF ok(1)] ok(5) by auto
  ultimately show ?thesis using line by (simp add: Let_def paren_balance_def)
qed

lemma drop_wrapping:
  assumes "item_ok (Wrapped z parts)"
  shows "drop_parens (join_with CHR '' '' ((record_head z @ '' ('') # parts @ ['')''])) = record_head z @ CHR '' '' # zr_rdata z"
proof -
  have ok: "head_ok z" "parts \<noteq> []" "zr_rdata z = join_with CHR '' '' parts"
    and parts: "\<And>p. p \<in> set parts \<Longrightarrow> p \<noteq> [] \<and> closed_text p \<and> join_with CHR '' '' (py_words p) = p" using assms by auto
  have j: "join_with CHR '' '' ((record_head z @ '' ('') # parts @ ['')'']) = record_head z @ '' ( '' @ zr_rdata z @ '' )''"
    using ok(2,3) by (simp add: join_with_Cons join_with_append)
  have cl: "quoted_after False (zr_rdata z) = False \<and> without_parens False (zr_rdata z) = zr_rdata z"
    using closed_join [of parts] parts ok(3) by auto
  have hp: "quoted_after False (record_head z) = False \<and> without_parens False (record_head z) = record_head z"
    using plain_text [of "record_head z" False] head_plain [OF ok(1)] by blast
  have "without_parens False (record_head z @ '' ( '' @ zr_rdata z @ '' )'') = record_head z @ CHR '' '' # CHR '' '' # zr_rdata z @ CHR '' '' # []"
    using cl hp by (simp add: without_parens_append quoted_after_append dquote_def)
  then have "py_words (without_parens False (join_with CHR '' '' ((record_head z @ '' ('') # parts @ ['')'']))) = head_words z @ concat (map py_words parts)"
    using py_words_space [of "record_head z" "CHR '' '' # zr_rdata z @ CHR '' '' # []"] py_words_space [of "[]" "zr_rdata z @ CHR '' '' # []"]
      py_words_space [of "zr_rdata z" "[]"] py_words_join [of parts]
    by (simp only: j record_head_words [OF ok(1)] ok(3) py_words_Nil append_Nil append_Nil2)
  moreover have "concat (map py_words parts) \<noteq> []" using ok(2) parts even_spacing by (cases parts) auto
  moreover have "join_with CHR '' '' (concat (map py_words parts)) = zr_rdata z"
  proof -
    have "map (join_with CHR '' '') (map py_words parts) = parts" using parts by (simp add: map_idI)
    then show ?thesis using join_concat [of "map py_words parts" "CHR '' ''"] parts even_spacing ok(3) by fastforce
  qed
  ultimately show ?thesis by (simp add: drop_parens_def join_with_append record_head_def)
qed

lemma logical_wrapped:
  assumes "item_ok (Wrapped z parts)"
  shows "logical_lines_from [] 0 (item_lines (Wrapped z parts) @ rest) = (record_head z @ CHR '' '' # zr_rdata z) # logical_lines_from [] 0 rest"
proof -
  let ?first = "record_head z @ '' (''"
  have ok: "head_ok z" and parts: "\<And>p. p \<in> set parts \<Longrightarrow> p \<noteq> [] \<and> closed_text p \<and> join_with CHR '' '' (py_words p) = p" using assms by auto
  have strip: "p \<noteq> [] \<and> closed_text p \<and> py_strip p = p" if "p \<in> set parts" for p using parts [OF that] even_spacing [of p] by simp
  have first: "strip_comment ?first = ?first" "paren_balance ?first = 1"
    using plain_text [of "record_head z" False] head_plain [OF ok] strip_comment_append [of False "record_head z" "'' (''"]
      paren_balance_append [of False "record_head z" "'' (''"] by (auto simp: strip_comment_def paren_balance_def dquote_def)
  have st: "?first \<noteq> []" "py_strip ?first = ?first" using record_line_stripped [OF ok, of "''(''"] by (auto simp: py_isspace_def code_def)
  have close: "py_strip (strip_comment '')'') = '')''" "paren_balance '')'' = -1"
    by (auto simp: strip_comment_def paren_balance_def dquote_def py_strip_def lstrip_by_def rstrip_by_def py_isspace_def code_def)
  have "CHR ''('' \<in> set (join_with CHR '' '' (?first # parts @ ['')'']))" by (simp add: join_with_Cons)
  then show ?thesis
    using logical_parts [of parts "[?first]" "'')'' # rest", OF strip] first st close drop_wrapping [OF assms] by (simp add: Let_def)
qed

lemma logical_comment: "logical_lines_from [] 0 (item_lines (Comment remark) @ rest) = logical_lines_from [] 0 rest"
  by (simp add: Let_def strip_comment_def dquote_def)

lemma strip_comment_set: "set (strip_comment_from q s) \<subseteq> set s"
  by (induction s arbitrary: q) auto

lemma logical_directive:
  assumes "item_ok (Directive d)"
  obtains l where "logical_lines_from [] 0 (item_lines (Directive d) @ rest) = (CHR ''$'' # l) # logical_lines_from [] 0 rest"
proof -
  let ?l = "CHR ''$'' # strip_comment_from False d"
  have dollar: "\<not> py_isspace CHR ''$''" by (simp add: py_isspace_def code_def)
  have p: "prefix (py_strip ?l) ?l" using rstrip_by_prefix [of py_isspace ?l] dollar by (simp add: py_strip_def lstrip_by_def)
  have ne: "py_strip ?l \<noteq> []" using dollar by (simp add: py_strip_def lstrip_by_def rstrip_by_def)
  then obtain l where l: "py_strip ?l = CHR ''$'' # l" using p by (cases "py_strip ?l") auto
  have "CHR ''('' \<notin> set (py_strip ?l)"
    using set_mono_prefix [OF p] strip_comment_set [of False d] assms by auto
  then have "CHR ''('' \<notin> set (CHR ''$'' # l)" "paren_balance (CHR ''$'' # l) \<le> 0"
    using no_paren_balance [of "CHR ''$'' # l" False] l by (auto simp: paren_balance_def)
  moreover have "strip_comment (CHR ''$'' # d) = ?l" by (simp add: strip_comment_def dquote_def)
  ultimately have "logical_lines_from [] 0 (item_lines (Directive d) @ rest) = (CHR ''$'' # l) # logical_lines_from [] 0 rest"
    using l by (simp add: Let_def)
  then show thesis by (rule that)
qed

lemma parse_item:
  assumes "item_ok i"
  shows "List.map_filter zone_record_of (logical_lines_from [] 0 (item_lines i @ rest)) =
    item_records i @ List.map_filter zone_record_of (logical_lines_from [] 0 rest)"
proof (cases i)
  case (Plain z remark)
  then have "zone_record_of (record_head z @ CHR '' '' # zr_rdata z) = Some z" using assms by (intro zone_record_of_line) auto
  then show ?thesis using logical_plain [of z remark rest] assms Plain by (simp add: map_filter_simps)
next
  case (Wrapped z parts)
  have "zr_rdata z = join_with CHR '' '' parts" "parts \<noteq> []" using assms Wrapped by auto
  moreover have "p \<noteq> [] \<and> \<not> py_isspace (hd p) \<and> \<not> py_isspace (last p)" if "p \<in> set parts" for p
    using assms Wrapped that even_spacing [of p] by auto
  ultimately have "zr_rdata z \<noteq> [] \<and> py_strip (zr_rdata z) = zr_rdata z"
    using py_strip_join [of parts "CHR '' ''"] hd_join_with [of parts "CHR '' ''"] by simp
  then have "zone_record_of (record_head z @ CHR '' '' # zr_rdata z) = Some z" using assms Wrapped by (intro zone_record_of_line) auto
  then show ?thesis using logical_wrapped [of z parts rest] assms Wrapped by (simp add: map_filter_simps)
next
  case (Comment remark)
  then show ?thesis using logical_comment by simp
next
  case (Directive d)
  then obtain l where "logical_lines_from [] 0 (item_lines (Directive d) @ rest) = (CHR ''$'' # l) # logical_lines_from [] 0 rest"
    using assms logical_directive by metis
  then show ?thesis using Directive by (simp add: map_filter_simps zone_record_of_def)
qed

lemma item_lines_ok:
  assumes "item_ok i" "l \<in> set (item_lines i)"
  shows "l \<noteq> [] \<and> (\<forall>c\<in>set l. \<not> is_linebreak c)"
proof -
  have plain: "\<not> is_linebreak CHR '' ''" "\<not> is_linebreak CHR '';''" "\<not> is_linebreak CHR ''(''" "\<not> is_linebreak CHR '')''" "\<not> is_linebreak CHR ''$''"
    by (simp_all add: is_linebreak_def code_def)
  show ?thesis
  proof (cases i)
    case (Plain z remark)
    then have "head_ok z" "closed_text (zr_rdata z)" "\<forall>c\<in>set remark. \<not> is_linebreak c" using assms(1) by simp_all
    then show ?thesis using assms(2) Plain plain head_plain [of z] by (simp add: closed_text_def ball_Un)
  next
    case (Wrapped z parts)
    then have "head_ok z" "\<forall>p\<in>set parts. p \<noteq> [] \<and> closed_text p" using assms(1) by simp_all
    then show ?thesis using assms(2) Wrapped plain head_plain [of z] by (fastforce simp: closed_text_def)
  qed (use assms plain in auto)
qed

text \<open>
  C36.  Reading a zone file gives its records: for a text made of records on one line (with or without a comment after
  them), records wrapped in parentheses over several lines, comment lines and directives, \<open>parse_zone_file\<close> returns
  exactly the records, in their order, with name, TTL, type and data as they were written.
\<close>

theorem parse_zone_file_round_trip:
  assumes "\<forall>i\<in>set items. item_ok i"
  shows "parse_zone_file (join_with newline (concat (map item_lines items))) = concat (map item_records items)"
proof -
  have "splitlines (join_with newline (concat (map item_lines items))) = concat (map item_lines items)"
    using assms item_lines_ok by (intro splitlines_join) auto
  moreover have "List.map_filter zone_record_of (logical_lines_from [] 0 (concat (map item_lines items))) = concat (map item_records items)"
    using assms by (induction items) (simp add: map_filter_simps, simp add: parse_item)
  ultimately show ?thesis by (simp add: parse_zone_file_def logical_lines_def)
qed

theorem parse_zone_file_round_trip_witness:
  "parse_zone_file (join_with newline (concat (map item_lines
     [Directive ''TTL 60'', Plain \<lparr>zr_name = ''a.io'', zr_ttl = Some 30, zr_type = ''MX'', zr_rdata = ''10 mx.io.''\<rparr> ''first'', Comment ''keys'',
      Wrapped \<lparr>zr_name = ''k._domainkey.a.io'', zr_ttl = None, zr_type = ''TXT'', zr_rdata = ''v=DKIM1 p=x''\<rparr> [''v=DKIM1'', ''p=x'']])))
   = [\<lparr>zr_name = ''a.io'', zr_ttl = Some 30, zr_type = ''MX'', zr_rdata = ''10 mx.io.''\<rparr>,
      \<lparr>zr_name = ''k._domainkey.a.io'', zr_ttl = None, zr_type = ''TXT'', zr_rdata = ''v=DKIM1 p=x''\<rparr>]"
  by (subst parse_zone_file_round_trip) (simp_all, code_simp)

section \<open>The rows of a domain\<close>

text \<open>What the category says of a row: it belongs to a group, its flag is the group's, and SPF is the cluster's.\<close>

definition row_ok :: "string \<Rightarrow> domain_record \<Rightarrow> bool" where
  "row_ok spf_include r \<longleftrightarrow>
    (case group_of (dn_category r) of None \<Rightarrow> False | Some g \<Rightarrow> dn_group r = zg_key g \<and> dn_is_mandatory r = zg_is_mandatory g) \<and>
    (dn_category r = ''SPF'' \<longrightarrow> dn_value r = spf_value spf_include)"

lemma in_category_ok:
  assumes "c \<in> set (concat (map zg_categories GROUPS))" "c = ''SPF'' \<longrightarrow> dn_value r = spf_value spf_include"
  shows "row_ok spf_include (in_category c r)"
  using assms by (auto simp: GROUPS_def row_ok_def in_category_def group_of_def is_mandatory_category_def)

lemma txt_category_known: "txt_category host text = Some c \<Longrightarrow> c \<in> set (concat (map zg_categories GROUPS))"
  by (auto simp: txt_category_def GROUPS_def split: if_splits)

lemma cname_category_known: "cname_category host = Some c \<Longrightarrow> c \<in> set (concat (map zg_categories GROUPS))"
  by (auto simp: cname_category_def GROUPS_def split: if_splits)

lemma cname_category_spf [simp]: "cname_category host \<noteq> Some ''SPF''"
  by (simp add: cname_category_def)

lemma MX_SRV_known: "''MX'' \<in> set (concat (map zg_categories GROUPS))" "''SRV'' \<in> set (concat (map zg_categories GROUPS))"
  by (simp_all add: GROUPS_def)

lemma to_row_ok:
  assumes "to_row domain spf_include default_ttl z = Inr (Some r)"
  shows "row_ok spf_include r"
  using assms MX_SRV_known txt_category_known cname_category_known
  by (auto simp: to_row_def Let_def split: option.splits if_splits prod.splits list.splits intro!: in_category_ok)

definition row_of :: "string \<Rightarrow> string \<Rightarrow> nat \<Rightarrow> zone_record \<Rightarrow> domain_record option" where
  "row_of domain spf_include default_ttl z = (case to_row domain spf_include default_ttl z of Inl _ \<Rightarrow> None | Inr row \<Rightarrow> row)"

lemma rmap_rows:
  "rmap (to_row domain spf_include default_ttl) zs = Inr rows \<Longrightarrow> List.map_filter id rows = List.map_filter (row_of domain spf_include default_ttl) zs"
proof (induction zs arbitrary: rows)
  case (Cons z zs)
  then obtain o' os where "to_row domain spf_include default_ttl z = Inr o'" "rmap (to_row domain spf_include default_ttl) zs = Inr os" "rows = o' # os"
    by (auto simp: rbind_Inr)
  then show ?case using Cons.IH [of os] by (cases o') (simp_all add: map_filter_simps row_of_def)
qed (simp add: map_filter_simps)



end
