(* ===== verification/Routing.thy ===== *)
theory Routing
  imports Cluster_Dns Zone
begin

text \<open>
  The outbound routes of a cluster (src/suite_cloud/mail/cluster/egress.py, pool resolution and cluster side): which pool
  a domain's mail leaves through, and the route expression written to Stalwart's \<open>MtaOutboundStrategy\<close>.

  Stalwart evaluates an expression: the first rule whose condition holds decides, else the \<open>else\<close> part.  Whether a condition
  holds is Stalwart's own code: a parameter of the evaluation.  Rules that Suite Cloud did not write are kept as they are.
\<close>

section \<open>Pools of domains\<close>

record routed_domain =
  ro_domain_name :: string
  ro_tenant :: string
  ro_cluster :: string
  ro_enabled :: bool
  ro_egress_pool :: string
  ro_allow_relaying :: bool

record routing_db =
  ro_infra :: infra
  ro_domains :: "routed_domain list"
  ro_tenants :: "(string \<times> string \<times> string) list"

text \<open>A tenant row is its name, its cluster and its pool; an empty text is no pool.\<close>

definition first_of :: "string list \<Rightarrow> string" where
  "first_of xs = (case find (\<lambda>x. x \<noteq> []) xs of None \<Rightarrow> [] | Some x \<Rightarrow> x)"

definition pool_for_domain :: "routed_domain \<Rightarrow> string \<Rightarrow> string \<Rightarrow> string" where
  "pool_for_domain d site_pool cluster_pool = first_of [ro_egress_pool d, site_pool, cluster_pool]"

definition populated_pools :: "infra \<Rightarrow> cluster_row \<Rightarrow> string list" where
  "populated_pools w k = map ep_name (filter (\<lambda>p. ep_cluster p = k_name k \<and> ep_addresses p \<noteq> []) (pools w))"

definition default_pool :: "infra \<Rightarrow> cluster_row \<Rightarrow> string option" where
  "default_pool w k = (if k_egress_pool k \<noteq> [] \<and> k_egress_pool k \<in> set (populated_pools w k) then Some (k_egress_pool k) else None)"

definition tenant_pool :: "routing_db \<Rightarrow> cluster_row \<Rightarrow> string \<Rightarrow> string" where
  "tenant_pool r k tenant =
    (case map_of (map (\<lambda>(n, _, p). (n, p)) (filter (\<lambda>(_, c, _). c = k_name k) (ro_tenants r))) tenant of None \<Rightarrow> [] | Some p \<Rightarrow> p)"

definition enabled_domains :: "routing_db \<Rightarrow> cluster_row \<Rightarrow> routed_domain list" where
  "enabled_domains r k = sort_key ro_domain_name (filter (\<lambda>d. ro_cluster d = k_name k \<and> ro_enabled d) (ro_domains r))"

definition leaving_pool :: "routing_db \<Rightarrow> cluster_row \<Rightarrow> routed_domain \<Rightarrow> string" where
  "leaving_pool r k d = pool_for_domain d (tenant_pool r k (ro_tenant d)) (k_egress_pool k)"

definition add_grouped :: "routing_db \<Rightarrow> cluster_row \<Rightarrow> routed_domain \<Rightarrow> (string, string list) dict \<Rightarrow> (string, string list) dict" where
  "add_grouped r k d grouped =
    (let pool = leaving_pool r k d in
     if pool \<in> set (populated_pools (ro_infra r) k)
     then dict_set pool ((case map_of grouped pool of None \<Rightarrow> [] | Some ds \<Rightarrow> ds) @ [ro_domain_name d]) grouped else grouped)"

definition domains_by_pool :: "routing_db \<Rightarrow> cluster_row \<Rightarrow> (string, string list) dict" where
  "domains_by_pool r k = fold (add_grouped r k) (enabled_domains r k) []"

definition relaying_domains :: "routing_db \<Rightarrow> cluster_row \<Rightarrow> string list" where
  "relaying_domains r k = map ro_domain_name (filter ro_allow_relaying (enabled_domains r k))"

section \<open>The route expression\<close>

definition SUITE_RULE_PREFIX :: string where "SUITE_RULE_PREFIX = [CHR 39] @ ''egress-''"

definition quoted :: "string \<Rightarrow> string" where
  "quoted s = [CHR 39] @ s @ [CHR 39]"

definition rule :: "string \<Rightarrow> string \<Rightarrow> json" where
  "rule c t = JObj [(''if'', JStr c), (''then'', JStr t)]"

definition LOCAL_CONDITION :: string where "LOCAL_CONDITION = ''is_local_domain(rcpt_domain)''"

definition LOCAL_RULE :: json where "LOCAL_RULE = rule LOCAL_CONDITION (quoted ''local'')"

definition LOCAL_ADDRESS_RULE :: json where "LOCAL_ADDRESS_RULE = rule ''is_local_address(rcpt)'' (quoted ''local'')"

text \<open>\<open>" || ".join(...)\<close> and \<open>" && ".join(...)\<close>.\<close>

fun join_text :: "string \<Rightarrow> string list \<Rightarrow> string" where
  "join_text sep [] = []"
| "join_text sep [x] = x"
| "join_text sep (x # y # xs) = x @ sep @ join_text sep (y # xs)"

definition elsewhere_condition :: "string list \<Rightarrow> string" where
  "elsewhere_condition relaying =
    LOCAL_CONDITION @ '' && '' @ join_text '' && '' (map (\<lambda>d. ''rcpt_domain != '' @ quoted d) relaying)"

definition local_rules :: "string list \<Rightarrow> json list" where
  "local_rules relaying =
    (if relaying = [] then [LOCAL_RULE] else [LOCAL_ADDRESS_RULE, rule (elsewhere_condition relaying) (quoted ''local'')])"

definition sender_condition :: "string list \<Rightarrow> string" where
  "sender_condition ds = join_text '' || '' (map (\<lambda>d. ''sender_domain == '' @ quoted d) ds)"

definition pool_label :: "infra \<Rightarrow> string \<Rightarrow> string" where
  "pool_label w name = (case find (\<lambda>p. ep_name p = name) (pools w) of None \<Rightarrow> ''None'' | Some p \<Rightarrow> ep_pool_name p)"

definition route_name :: "infra \<Rightarrow> string \<Rightarrow> string" where
  "route_name w name = quoted (''egress-'' @ pool_label w name)"

definition as_list_object :: "json list \<Rightarrow> json" where
  "as_list_object items = JObj (map (\<lambda>(i, x). (show_nat i, x)) (enumerate 0 items))"

text \<open>\<open>sorted(match, key=int)\<close>; a key that is no number raises.\<close>

definition expression_rules :: "json \<Rightarrow> json list res" where
  "expression_rules expression =
    (case jget ''match'' expression of
       JObj kvs \<Rightarrow>
         rbind (rmap (\<lambda>(key, x). case py_int key of None \<Rightarrow> Inl (PyValueError key) | Some i \<Rightarrow> Inr (i, x)) kvs) (\<lambda>es.
           Inr (map snd (sort_key fst es)))
     | JList xs \<Rightarrow> Inr xs
     | other \<Rightarrow> if truthy other then Inl (PyValueError ''TypeError'') else Inr [])"

definition is_object :: "json \<Rightarrow> bool" where
  "is_object j = (case j of JObj _ \<Rightarrow> True | _ \<Rightarrow> False)"

definition is_suite_target :: "json \<Rightarrow> bool" where
  "is_suite_target j = (case j of JStr s \<Rightarrow> prefix SUITE_RULE_PREFIX s | _ \<Rightarrow> False)"

definition is_foreign :: "json \<Rightarrow> bool" where
  "is_foreign x \<longleftrightarrow> \<not> is_suite_target (jget ''then'' x) \<and> jget ''then'' x \<noteq> JStr (quoted ''local'')"

text \<open>What the cluster holds now; a cluster that is not running or does not answer counts as empty.\<close>

definition is_stalwart_failure :: "exn \<Rightarrow> bool" where
  "is_stalwart_failure e = (case e of StalwartRejected _ \<Rightarrow> True | StalwartUnavailable \<Rightarrow> True
     | StalwartUnauthorized \<Rightarrow> True | StalwartFailed _ \<Rightarrow> True | _ \<Rightarrow> False)"

definition current_route_expression :: "cluster_row \<Rightarrow> bool \<Rightarrow> json res \<Rightarrow> json res" where
  "current_route_expression k has_credentials strategy =
    (if k_status k \<noteq> ''Active'' \<or> \<not> has_credentials then Inr (JObj [])
     else case strategy of
       Inl e \<Rightarrow> if is_stalwart_failure e then Inr (JObj []) else Inl e
     | Inr s \<Rightarrow> Inr (if truthy (jget ''route'' s) then jget ''route'' s else JObj []))"

definition fallback_of :: "json \<Rightarrow> string option \<Rightarrow> json res" where
  "fallback_of current dflt =
    (let kept = (if truthy (jget ''else'' current) then jget ''else'' current else JStr (quoted ''mx'')) in
     case dflt of
       Some target \<Rightarrow> Inr (JStr target)
     | None \<Rightarrow> (case kept of
           JStr s \<Rightarrow> Inr (if prefix SUITE_RULE_PREFIX s then JStr (quoted ''mx'') else JStr s)
         | _ \<Rightarrow> Inl (PyValueError ''AttributeError'')))"

definition route_expression ::
  "routing_db \<Rightarrow> cluster_row \<Rightarrow> json \<Rightarrow> (string, string list) dict \<Rightarrow> string option \<Rightarrow> json res" where
  "route_expression r k current grouped dflt =
    rbind (expression_rules current) (\<lambda>held.
    rbind (require (list_all is_object held) (PyValueError ''AttributeError'')) (\<lambda>_.
    rbind (fallback_of current (map_option (route_name (ro_infra r)) dflt)) (\<lambda>fallback.
      let pool_rules = map (\<lambda>(pool, ds). rule (sender_condition ds) (route_name (ro_infra r) pool)) grouped
      in Inr (JObj [(''match'', as_list_object (local_rules (relaying_domains r k) @ pool_rules @ filter is_foreign held)), (''else'', fallback)]))))"

section \<open>The operations of a push\<close>

record relay_login =
  rl_username :: string
  rl_password :: string

definition relay_route :: "relay_login \<Rightarrow> pool_row \<Rightarrow> json" where
  "relay_route l p = JObj [
     (''@type'', JStr ''Relay''), (''name'', JStr (''egress-'' @ ep_pool_name p)), (''description'', JStr (''Egress pool '' @ ep_pool_name p)),
     (''address'', JStr (ep_hostname p)), (''port'', JInt (ep_relay_port p)), (''protocol'', JStr ''smtp''),
     (''authUsername'', JStr (if rl_username l = [] then ''relay'' else rl_username l)), (''authSecret'', secret_value (rl_password l)),
     (''implicitTls'', JBool False), (''allowInvalidCerts'', JBool False)]"

definition strategy_update :: "json \<Rightarrow> json" where
  "strategy_update route = JObj [(''@type'', JStr ''update''), (''object'', JStr ''MtaOutboundStrategy''), (''value'', JObj [(''route'', route)])]"

definition cluster_operations :: "routing_db \<Rightarrow> cluster_row \<Rightarrow> relay_login \<Rightarrow> json \<Rightarrow> json list res" where
  "cluster_operations r k l current =
    (let grouped = domains_by_pool r k;
         dflt = default_pool (ro_infra r) k;
         overrides = filter (\<lambda>(pool, _). Some pool \<noteq> dflt) grouped;
         names = remdups (map fst grouped @ (case dflt of None \<Rightarrow> [] | Some p \<Rightarrow> [p]))
     in if names = [] then rbind (route_expression r k current [] None) (\<lambda>route. Inr [strategy_update route])
        else
          rbind (rmap (\<lambda>name. case find (\<lambda>p. ep_name p = name) (pools (ro_infra r)) of None \<Rightarrow> Inl (DoesNotExistError name) | Some p \<Rightarrow> Inr p) (sort names)) (\<lambda>ps.
          rbind (route_expression r k current overrides dflt) (\<lambda>route.
            Inr [JObj [(''@type'', JStr ''upsert''), (''object'', JStr ''MtaRoute''), (''matchOn'', JList [JStr ''name'']),
                       (''value'', JObj (dict_of (map (\<lambda>p. (''egress-'' @ ep_pool_name p, relay_route l p)) ps)))],
                 strategy_update route])))"

section \<open>Index-keyed lists\<close>

lemma py_int_show_nat: "py_int (show_nat n) = Some (int n)"
proof -
  have digit: "py_isdigit c" if "c \<in> set (show_nat n)" for c using show_nat_digits that by blast
  have "py_isdigit (hd (show_nat n))" "py_isdigit (last (show_nat n))" by (auto intro: digit)
  then have "py_strip (show_nat n) = show_nat n" by (intro py_strip_id) (auto simp: py_isdigit_def py_isspace_def)
  moreover have "hd (show_nat n) \<noteq> CHR ''-''" "hd (show_nat n) \<noteq> CHR ''+''"
    using \<open>py_isdigit (hd (show_nat n))\<close> by (auto simp: py_isdigit_def code_def)
  moreover have "split_on CHR ''_'' (show_nat n) = [show_nat n]" using digit [of "CHR ''_''"] by (intro split_on_id) (auto simp: py_isdigit_def code_def)
  ultimately show ?thesis using digit by (simp add: py_int_def list_all_iff)
qed

lemma sort_key_sorted: "sorted (map f xs) \<Longrightarrow> sort_key f xs = xs"
  by (induction xs) (auto simp: insort_is_Cons)

lemma keyed_sorted: "sorted (map fst (map (\<lambda>(i, x). (int i, x)) (enumerate n xs)))"
proof (induction xs arbitrary: n)
  case (Cons x xs)
  have "int n \<le> i" if "(i, y) \<in> set (map (\<lambda>(i, x). (int i, x)) (enumerate (Suc n) xs))" for i y
    using that by (auto simp: in_set_enumerate_eq)
  then show ?case using Cons.IH [of "Suc n"] by fastforce
qed simp

lemma expression_rules_as_list: "expression_rules (JObj ((''match'', as_list_object xs) # rest)) = Inr xs"
proof -
  have "rmap (\<lambda>(key, x). case py_int key of None \<Rightarrow> Inl (PyValueError key) | Some i \<Rightarrow> Inr (i, x)) (map (\<lambda>(i, x). (show_nat i, x)) es)
      = Inr (map (\<lambda>(i, x). (int i, x)) es)" for es :: "(nat \<times> json) list"
    by (induction es) (auto simp: py_int_show_nat)
  moreover have "map snd (map (\<lambda>(i, x). (int i, x)) (enumerate 0 xs)) = xs"
    by (simp add: comp_def case_prod_unfold)
  ultimately show ?thesis
    by (simp add: expression_rules_def as_list_object_def jget_def sort_key_sorted [OF keyed_sorted])
qed

section \<open>What a push writes is stable\<close>

lemma rule_parts [simp]: "jget ''if'' (rule c t) = JStr c" "jget ''then'' (rule c t) = JStr t" "is_object (rule c t)"
  by (simp_all add: rule_def jget_def is_object_def)

lemma route_name_suite [simp]: "prefix SUITE_RULE_PREFIX (route_name w p)"
  by (simp add: SUITE_RULE_PREFIX_def route_name_def quoted_def)

lemma own_rules_not_foreign:
  "x \<in> set (local_rules relaying) \<Longrightarrow> \<not> is_foreign x \<and> is_object x"
  "\<not> is_foreign (rule c (route_name w p))"
  by (auto simp: local_rules_def is_foreign_def is_suite_target_def LOCAL_RULE_def LOCAL_ADDRESS_RULE_def split: if_splits)

lemma route_expression_shape:
  assumes "route_expression r k current grouped target = Inr route"
  obtains held fallback where "expression_rules current = Inr held" "list_all is_object held"
    "fallback_of current (map_option (route_name (ro_infra r)) target) = Inr fallback"
    "route = JObj [(''match'', as_list_object (local_rules (relaying_domains r k) @
       map (\<lambda>(pool, ds). rule (sender_condition ds) (route_name (ro_infra r) pool)) grouped @ filter is_foreign held)), (''else'', fallback)]"
  using assms by (auto simp: route_expression_def Let_def)

lemma fallback_stable:
  assumes "fallback_of current target = Inr f" "jget ''else'' route = f"
  shows "fallback_of route target = Inr f"
proof (cases target)
  case None
  then show ?thesis using assms
    by (auto simp: fallback_of_def Let_def truthy_def quoted_def SUITE_RULE_PREFIX_def split: json.splits if_splits)
qed (use assms in \<open>auto simp: fallback_of_def\<close>)

text \<open>
  C26. Writing the routes is stable and leaves foreign rules alone: the rules the cluster holds after a push are the ones
  Suite Cloud wants followed by every rule it did not write, in the order they were; planning again from that
  expression gives the same expression, so repeated pushes change nothing.
\<close>

theorem route_expression_stable:
  assumes "route_expression r k current grouped target = Inr route"
  shows "route_expression r k route grouped target = Inr route \<and>
    (\<exists>held rules. expression_rules current = Inr held \<and> expression_rules route = Inr rules \<and> filter is_foreign rules = filter is_foreign held)"
proof -
  from route_expression_shape [OF assms] obtain held f where h: "expression_rules current = Inr held" "list_all is_object held"
    "fallback_of current (map_option (route_name (ro_infra r)) target) = Inr f"
    "route = JObj [(''match'', as_list_object (local_rules (relaying_domains r k) @
       map (\<lambda>(pool, ds). rule (sender_condition ds) (route_name (ro_infra r) pool)) grouped @ filter is_foreign held)), (''else'', f)]" by blast
  let ?own = "local_rules (relaying_domains r k) @ map (\<lambda>(pool, ds). rule (sender_condition ds) (route_name (ro_infra r) pool)) grouped"
  have rules: "expression_rules route = Inr (?own @ filter is_foreign held)" unfolding h(4) by (simp add: expression_rules_as_list)
  have own: "\<not> is_foreign x \<and> is_object x" if "x \<in> set ?own" for x using that own_rules_not_foreign by auto
  then have "filter is_foreign ?own = []" by (auto simp: filter_empty_conv simp del: filter_append)
  then have f: "filter is_foreign (?own @ filter is_foreign held) = filter is_foreign held" by simp
  moreover have "list_all is_object (?own @ filter is_foreign held)" using own h(2) by (auto simp: list_all_iff)
  moreover have "fallback_of route (map_option (route_name (ro_infra r)) target) = Inr f"
    by (rule fallback_stable [OF h(3)]) (simp add: h(4) jget_def)
  ultimately have "route_expression r k route grouped target = Inr route"
    unfolding route_expression_def rules by (simp add: h(4))
  then show ?thesis using rules f h(1) by blast
qed

section \<open>Where mail goes\<close>

record mail =
  m_sender_domain :: string
  m_rcpt_domain :: string
  m_rcpt_held :: bool
  m_rcpt_local :: bool

text \<open>Stalwart's reading of a route expression; \<open>ev\<close> is its evaluation of one condition.\<close>

definition eval_route :: "(string \<Rightarrow> mail \<Rightarrow> bool) \<Rightarrow> json \<Rightarrow> mail \<Rightarrow> json" where
  "eval_route ev expression m =
    (case expression_rules expression of
       Inl _ \<Rightarrow> JNull
     | Inr rs \<Rightarrow> (case find (\<lambda>x. ev (jstr (jget ''if'' x)) m) rs of
           Some x \<Rightarrow> jget ''then'' x
         | None \<Rightarrow> jget ''else'' expression))"

definition plain_name :: "string \<Rightarrow> bool" where
  "plain_name d \<longleftrightarrow> CHR '' '' \<notin> set d \<and> CHR 39 \<notin> set d"

text \<open>What the routes rely on: the conditions Suite Cloud writes mean what they say.\<close>

definition reads_conditions :: "(string \<Rightarrow> mail \<Rightarrow> bool) \<Rightarrow> bool" where
  "reads_conditions ev \<longleftrightarrow>
    (\<forall>m. ev LOCAL_CONDITION m = m_rcpt_local m) \<and> (\<forall>m. ev ''is_local_address(rcpt)'' m = m_rcpt_held m) \<and>
    (\<forall>m ds. ds \<noteq> [] \<longrightarrow> list_all plain_name ds \<longrightarrow>
       ev (sender_condition ds) m = (m_sender_domain m \<in> set ds) \<and>
       ev (elsewhere_condition ds) m = (m_rcpt_local m \<and> m_rcpt_domain m \<notin> set ds))"

text \<open>The destination as the documents say it.\<close>

definition stays :: "routing_db \<Rightarrow> cluster_row \<Rightarrow> mail \<Rightarrow> bool" where
  "stays r k m \<longleftrightarrow> (let relaying = relaying_domains r k in
     if relaying = [] then m_rcpt_local m else m_rcpt_held m \<or> m_rcpt_local m \<and> m_rcpt_domain m \<notin> set relaying)"

definition assigned_pool :: "routing_db \<Rightarrow> cluster_row \<Rightarrow> string \<Rightarrow> string option" where
  "assigned_pool r k domain =
    (case find (\<lambda>d. ro_domain_name d = domain) (enabled_domains r k) of
       None \<Rightarrow> None
     | Some d \<Rightarrow> if leaving_pool r k d \<in> set (populated_pools (ro_infra r) k) then Some (leaving_pool r k d) else None)"

definition destination :: "(string \<Rightarrow> mail \<Rightarrow> bool) \<Rightarrow> routing_db \<Rightarrow> cluster_row \<Rightarrow> json list \<Rightarrow> json \<Rightarrow> mail \<Rightarrow> json" where
  "destination ev r k held fallback m =
    (if stays r k m then JStr (quoted ''local'')
     else case assigned_pool r k (m_sender_domain m) of
       Some p \<Rightarrow> if Some p \<noteq> default_pool (ro_infra r) k then JStr (route_name (ro_infra r) p)
                 else (case find (\<lambda>x. ev (jstr (jget ''if'' x)) m) (filter is_foreign held) of Some x \<Rightarrow> jget ''then'' x | None \<Rightarrow> fallback)
     | None \<Rightarrow> (case find (\<lambda>x. ev (jstr (jget ''if'' x)) m) (filter is_foreign held) of Some x \<Rightarrow> jget ''then'' x | None \<Rightarrow> fallback))"

lemma find_append: "find p (xs @ ys) = (case find p xs of None \<Rightarrow> find p ys | Some x \<Rightarrow> Some x)"
  by (induction xs) auto

lemma find_map: "find p (map f xs) = map_option f (find (p \<circ> f) xs)"
  by (induction xs) auto

lemma grouped_exact:
  "dict_ok (fold (add_grouped r k) ds g) \<and> (\<forall>p names. map_of (fold (add_grouped r k) ds g) p = Some names \<longleftrightarrow>
     (\<exists>new. new = map ro_domain_name (filter (\<lambda>d. leaving_pool r k d = p \<and> p \<in> set (populated_pools (ro_infra r) k)) ds) \<and>
        (map_of g p = None \<and> new \<noteq> [] \<and> names = new \<or> (\<exists>old. map_of g p = Some old \<and> names = old @ new))))"
  if "dict_ok g"
  using that
proof (induction ds arbitrary: g)
  case (Cons d ds)
  have ok: "dict_ok (add_grouped r k d g)" using Cons.prems by (simp add: add_grouped_def Let_def)
  have m: "map_of (add_grouped r k d g) p = (if p = leaving_pool r k d \<and> p \<in> set (populated_pools (ro_infra r) k)
     then Some ((case map_of g p of None \<Rightarrow> [] | Some old \<Rightarrow> old) @ [ro_domain_name d]) else map_of g p)" for p
    by (auto simp: add_grouped_def Let_def)
  show ?case using Cons.IH [OF ok] by (auto simp: m split: option.splits)
qed auto

lemma grouped_of:
  "dict_ok (domains_by_pool r k)"
  "map_of (domains_by_pool r k) p = Some names \<longleftrightarrow>
     names = map ro_domain_name (filter (\<lambda>d. leaving_pool r k d = p \<and> p \<in> set (populated_pools (ro_infra r) k)) (enabled_domains r k)) \<and> names \<noteq> []"
  using grouped_exact [of "[]" r k "enabled_domains r k"] by (auto simp: domains_by_pool_def)

lemma map_filter_one:
  "distinct (map f xs) \<Longrightarrow> d \<in> set xs \<Longrightarrow> e \<in> set xs \<Longrightarrow> f d = f e \<Longrightarrow> d = e"
  by (auto simp: distinct_map dest: inj_onD)

lemma find_only: "x \<in> set xs \<Longrightarrow> p x \<Longrightarrow> (\<And>y. y \<in> set xs \<Longrightarrow> p y \<Longrightarrow> y = x) \<Longrightarrow> find p xs = Some x"
proof -
  assume x: "x \<in> set xs" "p x" and only: "\<And>y. y \<in> set xs \<Longrightarrow> p y \<Longrightarrow> y = x"
  then have "find p xs \<noteq> None" by (auto simp: find_None_iff)
  then obtain y where y: "find p xs = Some y" by blast
  then have "y \<in> set xs" "p y" by (auto simp: find_Some_iff)
  then show "find p xs = Some x" using y only by blast
qed

lemma enabled_distinct: "distinct (map ro_domain_name (ro_domains r)) \<Longrightarrow> distinct (map ro_domain_name (enabled_domains r k))"
  unfolding enabled_domains_def
  by (subst mset_eq_imp_distinct_iff [where ys = "map ro_domain_name (filter (\<lambda>d. ro_cluster d = k_name k \<and> ro_enabled d) (ro_domains r))"])
    (simp_all add: distinct_map_filter)

text \<open>The group a sender's domain stands in is the one of its pool, and there is one at most.\<close>

lemma group_of_sender:
  assumes "distinct (map ro_domain_name (ro_domains r))"
  shows "find (\<lambda>(_, ds). sender \<in> set ds) (filter (\<lambda>(p, _). Some p \<noteq> target) (domains_by_pool r k)) =
    (case assigned_pool r k sender of
       None \<Rightarrow> None
     | Some p \<Rightarrow> if Some p = target then None else Some (p, the (map_of (domains_by_pool r k) p)))"
proof -
  let ?g = "domains_by_pool r k"
  have member: "assigned_pool r k sender = Some p" if g: "(p, ds) \<in> set ?g" and sent: "sender \<in> set ds" for p ds
  proof -
    have "map_of ?g p = Some ds" using g grouped_of(1) [of r k] by (simp add: dict_ok_def)
    then obtain d where d: "d \<in> set (enabled_domains r k)" "ro_domain_name d = sender" "leaving_pool r k d = p" "p \<in> set (populated_pools (ro_infra r) k)"
      using sent by (auto simp: grouped_of(2))
    have "find (\<lambda>d. ro_domain_name d = sender) (enabled_domains r k) = Some d"
      by (rule find_only [OF d(1)]) (use d(1,2) map_filter_one [OF enabled_distinct [OF assms]] in auto)
    then show ?thesis using d by (simp add: assigned_pool_def)
  qed
  show ?thesis
  proof (cases "assigned_pool r k sender")
    case None
    then show ?thesis using member by (auto simp: find_None_iff)
  next
    case (Some p)
    then obtain d where d: "find (\<lambda>d. ro_domain_name d = sender) (enabled_domains r k) = Some d" "leaving_pool r k d = p" "p \<in> set (populated_pools (ro_infra r) k)"
      by (auto simp: assigned_pool_def split: option.splits if_splits)
    then have in_d: "d \<in> set (enabled_domains r k)" "ro_domain_name d = sender" by (auto simp: find_Some_iff)
    define ds where "ds = map ro_domain_name (filter (\<lambda>d. leaving_pool r k d = p \<and> p \<in> set (populated_pools (ro_infra r) k)) (enabled_domains r k))"
    have sent: "sender \<in> set ds" using in_d d(2,3) unfolding ds_def by auto
    then have "ds \<noteq> []" by (metis empty_iff empty_set)
    then have ds: "map_of ?g p = Some ds" "sender \<in> set ds" using iffD2 [OF grouped_of(2) conjI [OF ds_def]] sent by blast+
    show ?thesis
    proof (cases "Some p = target")
      case True
      have "\<not> (Some q \<noteq> target \<and> sender \<in> set es)" if "(q, es) \<in> set ?g" for q es using member [OF that] Some True by auto
      then have "find (\<lambda>(_, ds). sender \<in> set ds) (filter (\<lambda>(p, _). Some p \<noteq> target) ?g) = None" unfolding find_None_iff by auto
      then show ?thesis using Some True by (simp split: option.splits)
    next
      case False
      have in_g: "(p, ds) \<in> set ?g" using ds(1) by (rule map_of_SomeD)
      have only: "y = (p, ds)" if "y \<in> set ?g" "sender \<in> set (snd y)" for y
      proof -
        obtain q es where y: "y = (q, es)" by (cases y)
        then have "q = p" using that member [of q es] Some by simp
        moreover have "map_of ?g q = Some es" using that(1) y grouped_of(1) [of r k] by (simp add: dict_ok_def)
        ultimately show ?thesis using y ds(1) by simp
      qed
      have "find (\<lambda>(_, ds). sender \<in> set ds) (filter (\<lambda>(p, _). Some p \<noteq> target) ?g) = Some (p, ds)"
      proof (rule find_only)
        show "(p, ds) \<in> set (filter (\<lambda>(p, _). Some p \<noteq> target) ?g)" using in_g False by simp
        show "case (p, ds) of (_, ds) \<Rightarrow> sender \<in> set ds" using ds(2) by simp
        show "y = (p, ds)" if "y \<in> set (filter (\<lambda>(p, _). Some p \<noteq> target) ?g)" "case y of (_, ds) \<Rightarrow> sender \<in> set ds" for y
          using that only [of y] by (simp add: case_prod_beta)
      qed
      then show ?thesis using Some False ds(1) by simp
    qed
  qed
qed

lemma local_rules_hold:
  assumes "reads_conditions ev" "list_all plain_name (relaying_domains r k)"
  shows "find (\<lambda>x. ev (jstr (jget ''if'' x)) m) (local_rules (relaying_domains r k)) = None \<longleftrightarrow> \<not> stays r k m"
    "find (\<lambda>x. ev (jstr (jget ''if'' x)) m) (local_rules (relaying_domains r k)) = Some x \<Longrightarrow> jget ''then'' x = JStr (quoted ''local'')"
proof -
  have "ev (elsewhere_condition (relaying_domains r k)) m = (m_rcpt_local m \<and> m_rcpt_domain m \<notin> set (relaying_domains r k))"
    if "relaying_domains r k \<noteq> []"
    using assms that by (simp add: reads_conditions_def)
  moreover have "ev LOCAL_CONDITION m = m_rcpt_local m" "ev ''is_local_address(rcpt)'' m = m_rcpt_held m"
    using assms(1) by (simp_all add: reads_conditions_def)
  ultimately show "find (\<lambda>x. ev (jstr (jget ''if'' x)) m) (local_rules (relaying_domains r k)) = None \<longleftrightarrow> \<not> stays r k m"
    by (simp add: local_rules_def stays_def LOCAL_RULE_def LOCAL_ADDRESS_RULE_def jstr_def Let_def)
  show "find (\<lambda>x. ev (jstr (jget ''if'' x)) m) (local_rules (relaying_domains r k)) = Some x \<Longrightarrow> jget ''then'' x = JStr (quoted ''local'')"
    by (auto simp: local_rules_def LOCAL_RULE_def LOCAL_ADDRESS_RULE_def split: if_splits)
qed

lemma sender_rule_holds:
  assumes "reads_conditions ev" "\<forall>d\<in>set (ro_domains r). plain_name (ro_domain_name d)" "(p, ds) \<in> set (domains_by_pool r k)"
  shows "ev (sender_condition ds) m = (m_sender_domain m \<in> set ds)"
proof -
  have "map_of (domains_by_pool r k) p = Some ds" using assms(3) grouped_of(1) [of r k] by (simp add: dict_ok_def)
  then have ds: "ds \<noteq> []" "set ds \<subseteq> ro_domain_name ` set (enabled_domains r k)" by (auto simp: grouped_of(2))
  then have "list_all plain_name ds" using assms(2) by (fastforce simp: list_all_iff enabled_domains_def)
  with ds(1) show ?thesis using assms(1) by (simp add: reads_conditions_def)
qed

lemma relaying_plain: "\<forall>d\<in>set (ro_domains r). plain_name (ro_domain_name d) \<Longrightarrow> list_all plain_name (relaying_domains r k)"
  by (auto simp: relaying_domains_def enabled_domains_def list_all_iff)

lemma cluster_operations_route:
  assumes "cluster_operations r k l current = Inr ops"
  shows "\<exists>route. last ops = strategy_update route \<and>
    route_expression r k current (filter (\<lambda>(pool, _). Some pool \<noteq> default_pool (ro_infra r) k) (domains_by_pool r k)) (default_pool (ro_infra r) k) = Inr route"
proof (cases "remdups (map fst (domains_by_pool r k) @ (case default_pool (ro_infra r) k of None \<Rightarrow> [] | Some p \<Rightarrow> [p])) = []")
  case True
  then have "domains_by_pool r k = []" "default_pool (ro_infra r) k = None" by (auto split: option.splits)
  then show ?thesis using assms by (auto simp: cluster_operations_def Let_def)
next
  case False
  then show ?thesis using assms by (auto simp: cluster_operations_def Let_def simp del: remdups_eq_nil_iff split: if_splits)
qed

text \<open>
  C6. The routes a push writes send every message where the documents say: a recipient of the cluster's own stays local
  (an address a relaying domain keeps elsewhere does not); mail of a domain whose pool, its own, its tenant's or
  the cluster's, has addresses and is not the default leaves through that pool; anything else follows the foreign
  rules the cluster already had, and then the default pool, or without one the fallback that was there.
\<close>

theorem routes_follow_documents:
  assumes "cluster_operations r k l current = Inr ops" "reads_conditions ev"
    and "distinct (map ro_domain_name (ro_domains r))" "\<forall>d\<in>set (ro_domains r). plain_name (ro_domain_name d)"
  shows "\<exists>route held fallback. last ops = strategy_update route \<and> expression_rules current = Inr held \<and>
    fallback_of current (map_option (route_name (ro_infra r)) (default_pool (ro_infra r) k)) = Inr fallback \<and>
    eval_route ev route m = destination ev r k held fallback m"
proof -
  let ?w = "ro_infra r" and ?dp = "default_pool (ro_infra r) k"
  let ?g = "filter (\<lambda>(pool, _). Some pool \<noteq> ?dp) (domains_by_pool r k)"
  from cluster_operations_route [OF assms(1)] obtain route where last: "last ops = strategy_update route" and e: "route_expression r k current ?g ?dp = Inr route"
    by blast
  from route_expression_shape [OF e] obtain held f where h: "expression_rules current = Inr held"
    "fallback_of current (map_option (route_name ?w) ?dp) = Inr f"
    "route = JObj [(''match'', as_list_object (local_rules (relaying_domains r k) @
       map (\<lambda>(pool, ds). rule (sender_condition ds) (route_name ?w pool)) ?g @ filter is_foreign held)), (''else'', f)]" by metis
  let ?holds = "\<lambda>x. ev (jstr (jget ''if'' x)) m"
  have "find (?holds \<circ> (\<lambda>(pool, ds). rule (sender_condition ds) (route_name ?w pool))) ?g = find (\<lambda>(_, ds). m_sender_domain m \<in> set ds) ?g"
    by (rule find_cong [OF refl]) (use sender_rule_holds [OF assms(2,4)] in \<open>auto simp: jstr_def\<close>)
  then have pool: "find ?holds (map (\<lambda>(pool, ds). rule (sender_condition ds) (route_name ?w pool)) ?g) =
    (case assigned_pool r k (m_sender_domain m) of
       None \<Rightarrow> None | Some p \<Rightarrow> if Some p = ?dp then None else Some (rule (sender_condition (the (map_of (domains_by_pool r k) p))) (route_name ?w p)))"
    by (simp add: find_map group_of_sender [OF assms(3)] split: option.splits)
  have rs: "expression_rules route = Inr (local_rules (relaying_domains r k) @ map (\<lambda>(pool, ds). rule (sender_condition ds) (route_name ?w pool)) ?g @ filter is_foreign held)"
    unfolding h(3) by (simp add: expression_rules_as_list)
  have els: "jget ''else'' route = f" by (simp add: h(3) jget_def)
  have "eval_route ev route m = destination ev r k held f m"
  proof (cases "find ?holds (local_rules (relaying_domains r k))")
    case None
    then have "\<not> stays r k m" using local_rules_hold(1) [OF assms(2) relaying_plain [OF assms(4)]] by blast
    then show ?thesis using None pool by (simp add: eval_route_def rs find_append destination_def els split: option.splits)
  next
    case (Some x)
    then have "stays r k m" "jget ''then'' x = JStr (quoted ''local'')"
      using local_rules_hold [OF assms(2) relaying_plain [OF assms(4), of k]] by (metis option.distinct(1))+
    then show ?thesis using Some by (simp add: eval_route_def rs find_append destination_def)
  qed
  then show ?thesis using last h(1,2) by blast
qed

text \<open>An evaluation of conditions of this form: comparisons of a domain, chained by one operator.\<close>

definition compare :: "mail \<Rightarrow> string \<Rightarrow> string \<Rightarrow> bool" where
  "compare m cmp q = (if cmp = ''=='' then q = quoted (m_sender_domain m) else q \<noteq> quoted (m_rcpt_domain m))"

fun eval_words :: "mail \<Rightarrow> string list \<Rightarrow> bool" where
  "eval_words m [x] \<longleftrightarrow> (if x = LOCAL_CONDITION then m_rcpt_local m else m_rcpt_held m)"
| "eval_words m [x, cmp, q] \<longleftrightarrow> compare m cmp q"
| "eval_words m (x # cmp # q # opr # rest) \<longleftrightarrow>
    (if cmp = ''&&'' then m_rcpt_local m \<and> eval_words m (q # opr # rest)
     else if opr = ''||'' then compare m cmp q \<or> eval_words m rest else compare m cmp q \<and> eval_words m rest)"
| "eval_words m _ \<longleftrightarrow> False"

definition eval_condition :: "string \<Rightarrow> mail \<Rightarrow> bool" where
  "eval_condition s m = eval_words m (split_on CHR '' '' s)"

lemma plain_quoted: "plain_name d \<Longrightarrow> CHR '' '' \<notin> set (quoted d)"
  by (auto simp: plain_name_def quoted_def)

lemma quoted_eq [simp]: "quoted a = quoted b \<longleftrightarrow> a = b"
  by (simp add: quoted_def)

fun chain :: "string \<Rightarrow> string \<Rightarrow> string \<Rightarrow> string list \<Rightarrow> string list" where
  "chain x cmp opr [] = []"
| "chain x cmp opr [d] = [x, cmp, quoted d]"
| "chain x cmp opr (d # e # ds) = x # cmp # quoted d # opr # chain x cmp opr (e # ds)"

lemma chain_words:
  assumes "ds \<noteq> []" "list_all plain_name ds" "CHR '' '' \<notin> set x" "CHR '' '' \<notin> set cmp" "CHR '' '' \<notin> set opr"
  shows "split_on CHR '' '' (join_text (CHR '' '' # opr @ '' '') (map (\<lambda>d. x @ CHR '' '' # cmp @ CHR '' '' # quoted d) ds)) = chain x cmp opr ds"
  using assms
proof (induction x cmp opr ds rule: chain.induct)
  case (2 x cmp opr d)
  then show ?case using plain_quoted [of d] by (simp add: split_on_append split_on_id)
next
  case (3 x cmp opr d e ds)
  then show ?case using plain_quoted [of d] by (simp add: split_on_append)
qed simp

lemma eval_sender_chain: "ds \<noteq> [] \<Longrightarrow> eval_words m (chain x ''=='' ''||'' ds) \<longleftrightarrow> m_sender_domain m \<in> set ds"
  by (induction x "''==''" "''||''" ds rule: chain.induct) (auto simp: compare_def)

lemma eval_rcpt_chain: "ds \<noteq> [] \<Longrightarrow> eval_words m (chain x ''!='' ''&&'' ds) \<longleftrightarrow> m_rcpt_domain m \<notin> set ds"
  by (induction x "''!=''" "''&&''" ds rule: chain.induct) (auto simp: compare_def)

lemma eval_condition_reads: "reads_conditions eval_condition"
proof -
  have plain: "CHR '' '' \<notin> set LOCAL_CONDITION" by (simp add: LOCAL_CONDITION_def)
  have "eval_condition (sender_condition ds) m = (m_sender_domain m \<in> set ds) \<and>
      eval_condition (elsewhere_condition ds) m = (m_rcpt_local m \<and> m_rcpt_domain m \<notin> set ds)"
    if ds: "ds \<noteq> []" "list_all plain_name ds" for ds m
  proof
    have "split_on CHR '' '' (sender_condition ds) = chain ''sender_domain'' ''=='' ''||'' ds"
      using chain_words [OF ds, of "''sender_domain''" "''==''" "''||''"] by (simp add: sender_condition_def)
    then show "eval_condition (sender_condition ds) m = (m_sender_domain m \<in> set ds)"
      by (simp add: eval_condition_def eval_sender_chain [OF ds(1)])
    have "split_on CHR '' '' (elsewhere_condition ds) = LOCAL_CONDITION # ''&&'' # chain ''rcpt_domain'' ''!='' ''&&'' ds"
      using chain_words [OF ds, of "''rcpt_domain''" "''!=''" "''&&''"] plain split_on_append [of "CHR '' ''" "''&&''"]
      by (simp add: elsewhere_condition_def split_on_append)
    then show "eval_condition (elsewhere_condition ds) m = (m_rcpt_local m \<and> m_rcpt_domain m \<notin> set ds)"
      using eval_rcpt_chain [OF ds(1)] ds(1) by (cases ds; cases "tl ds") (auto simp: eval_condition_def)
  qed
  moreover have "eval_condition LOCAL_CONDITION m = m_rcpt_local m" "eval_condition ''is_local_address(rcpt)'' m = m_rcpt_held m" for m
    using plain by (simp_all add: eval_condition_def split_on_id LOCAL_CONDITION_def)
  ultimately show ?thesis by (simp add: reads_conditions_def)
qed

definition sample_pool :: "string \<Rightarrow> string \<Rightarrow> pool_row" where
  "sample_pool name label = \<lparr>ep_name = name, ep_cluster = k_name sample_cluster, ep_pool_name = label, ep_hostname = name, ep_title = [], ep_relay_port = 2525,
     ep_addresses = [\<lparr>pa_gateway = ''g'', pa_ip_address = ''10.0.0.1'', pa_ehlo_hostname = ''e'', pa_ptr_verified = False\<rparr>]\<rparr>"

definition sample_routing :: routing_db where
  "sample_routing = \<lparr>ro_infra = \<lparr>nodes = [], gateways = [], pools = [sample_pool ''p1.out'' ''p1'', sample_pool ''p2.out'' ''p2''], cluster_docs = [],
      pool_users = [], dns = \<lparr>rows = [], zones = [], default_dns_ttl = 300, calls = []\<rparr>, jobs = []\<rparr>,
     ro_domains = [\<lparr>ro_domain_name = ''a.io'', ro_tenant = ''t'', ro_cluster = k_name sample_cluster, ro_enabled = True, ro_egress_pool = ''p2.out'', ro_allow_relaying = True\<rparr>],
     ro_tenants = []\<rparr>"

theorem routes_follow_documents_witness:
  "\<exists>route. eval_route eval_condition route \<lparr>m_sender_domain = ''a.io'', m_rcpt_domain = ''b.io'', m_rcpt_held = False, m_rcpt_local = False\<rparr>
     = JStr (quoted ''egress-p2'')"
proof -
  let ?m = "\<lparr>m_sender_domain = ''a.io'', m_rcpt_domain = ''b.io'', m_rcpt_held = False, m_rcpt_local = False\<rparr>"
  have "case cluster_operations sample_routing sample_cluster \<lparr>rl_username = [], rl_password = ''x''\<rparr> (JObj []) of Inl _ \<Rightarrow> False | Inr _ \<Rightarrow> True"
    by code_simp
  then obtain ops where ops: "cluster_operations sample_routing sample_cluster \<lparr>rl_username = [], rl_password = ''x''\<rparr> (JObj []) = Inr ops"
    by (auto split: sum.splits)
  have "distinct (map ro_domain_name (ro_domains sample_routing))" "\<forall>d\<in>set (ro_domains sample_routing). plain_name (ro_domain_name d)"
    by code_simp+
  from routes_follow_documents [OF ops eval_condition_reads this, of ?m] obtain route f where
    "eval_route eval_condition route ?m = destination eval_condition sample_routing sample_cluster [] f ?m"
    by (auto simp: expression_rules_def jget_def truthy_def)
  moreover have "destination eval_condition sample_routing sample_cluster [] f ?m = JStr (quoted ''egress-p2'')" by code_simp
  ultimately show ?thesis by auto
qed

theorem route_expression_stable_witness:
  "\<exists>route. route_expression sample_routing sample_cluster (JObj []) [(''p2.out'', [''a.io''])] None = Inr route \<and>
     route_expression sample_routing sample_cluster route [(''p2.out'', [''a.io''])] None = Inr route"
proof -
  have "case route_expression sample_routing sample_cluster (JObj []) [(''p2.out'', [''a.io''])] None of Inl _ \<Rightarrow> False | Inr _ \<Rightarrow> True" by code_simp
  then obtain route where r: "route_expression sample_routing sample_cluster (JObj []) [(''p2.out'', [''a.io''])] None = Inr route"
    by (auto split: sum.splits)
  from route_expression_stable [OF r] r show ?thesis by blast
qed

end
