(* ===== verification/Egress_Pools.thy ===== *)
theory Egress_Pools
  imports Cluster_Dns Ip_Networks
begin

text \<open>
  The Egress IP Pool and Egress Gateway documents (src/suite_cloud/mail/doctype/egress_ip_pool/egress_ip_pool.py,
  src/suite_cloud/mail/doctype/egress_gateway/egress_gateway.py) as far as pools, addresses, DNS and a gateway's
  status go, with what a pool change queues (apply_pool_changes, check_gateway of src/suite_cloud/mail/cluster/egress.py).
\<close>

section \<open>Validation\<close>

definition validate_ip :: "string \<Rightarrow> nat \<Rightarrow> string res" where
  "validate_ip value version =
    (case ip_address (py_strip value) of
       None \<Rightarrow> Inl (ValidationError value)
     | Some a \<Rightarrow> if ip_version a \<noteq> version then Inl (ValidationError value) else Inr (address_str a))"

definition POOL_NAME :: "string \<Rightarrow> bool" where
  "POOL_NAME s = dollar_match (\<lambda>s. 1 \<le> length s \<and> length s \<le> 8 \<and> list_all is_az09 s) s"

definition FIRST_RELAY_PORT :: int where "FIRST_RELAY_PORT = 2525"

definition single_label_under :: "string \<Rightarrow> string \<Rightarrow> bool" where
  "single_label_under hostname domain \<longleftrightarrow>
    suffix (''.'' @ domain) hostname \<and> CHR ''.'' \<notin> set (drop_suffix (length (''.'' @ domain)) hostname)"

definition clean_hostname :: "string \<Rightarrow> string" where
  "clean_hostname h = rstrip_dots (py_lower (py_strip h))"

definition other_pool_with :: "infra \<Rightarrow> string \<Rightarrow> string \<Rightarrow> bool" where
  "other_pool_with w name ip \<longleftrightarrow> list_ex (\<lambda>q. ep_name q \<noteq> name \<and> ip \<in> set (map pa_ip_address (ep_addresses q))) (pools w)"

fun validate_pool_rows :: "infra \<Rightarrow> pool_row \<Rightarrow> string \<Rightarrow> string list \<Rightarrow> pool_address list \<Rightarrow> pool_address list res" where
  "validate_pool_rows w p domain seen [] = Inr []"
| "validate_pool_rows w p domain seen (a # as) =
    rbind (validate_ip (pa_ip_address a) (if CHR '':'' \<in> set (pa_ip_address a) then 6 else 4)) (\<lambda>ip.
    let ehlo = clean_hostname (pa_ehlo_hostname a) in
    rbind (require (ip \<notin> set seen) (ValidationError ip)) (\<lambda>_.
    rbind (require (map_option gw_cluster (find (\<lambda>g. gw_name g = pa_gateway a) (gateways w)) = Some (ep_cluster p)) (ValidationError (pa_gateway a))) (\<lambda>_.
    rbind (require (single_label_under ehlo domain) (ValidationError ehlo)) (\<lambda>_.
    rbind (require (\<not> other_pool_with w (ep_name p) ip) (ValidationError ip)) (\<lambda>_.
    rbind (validate_pool_rows w p domain (seen @ [ip]) as) (\<lambda>rest.
      Inr (a\<lparr>pa_ip_address := ip, pa_ehlo_hostname := ehlo\<rparr> # rest)))))))"

definition name_addresses :: "string \<Rightarrow> pool_row \<Rightarrow> pool_address list" where
  "name_addresses domain p =
    map (\<lambda>(a, h). a\<lparr>pa_ehlo_hostname := h\<rparr>) (zip (ep_addresses p) (assign_ehlo_hostnames (ep_pool_name p) domain (map pa_ehlo_hostname (ep_addresses p))))"

definition next_relay_port :: "infra \<Rightarrow> string \<Rightarrow> int" where
  "next_relay_port w cluster =
    foldr max (filter (\<lambda>x. x \<noteq> 0) (map ep_relay_port (filter (\<lambda>p. ep_cluster p = cluster) (pools w)))) (FIRST_RELAY_PORT - 1) + 1"

definition pool_hostname :: "string \<Rightarrow> cluster_row \<Rightarrow> string" where
  "pool_hostname label k = label @ ''.out.'' @ k_default_domain k"

definition prepare_pool :: "infra \<Rightarrow> cluster_row \<Rightarrow> pool_row \<Rightarrow> pool_row" where
  "prepare_pool w k p =
    (let hostname = pool_hostname (ep_pool_name p) k in
     p\<lparr>ep_hostname := hostname,
       ep_title := (if py_strip (ep_title p) = [] then hostname else py_strip (ep_title p)),
       ep_relay_port := (if ep_relay_port p = 0 then next_relay_port w (ep_cluster p) else ep_relay_port p)\<rparr>)"

definition validate_pool :: "infra \<Rightarrow> pool_row \<Rightarrow> pool_row res" where
  "validate_pool w p =
    rbind (require (POOL_NAME (ep_pool_name p)) (ValidationError ''Pool Name'')) (\<lambda>_.
    rbind (find_cluster w (ep_cluster p)) (\<lambda>k.
    let p = prepare_pool w k p
    in rbind (validate_pool_rows w p (k_default_domain k) [] (name_addresses (k_default_domain k) p)) (\<lambda>as. Inr (p\<lparr>ep_addresses := as\<rparr>))))"

section \<open>Operations on pools\<close>

definition snapshot :: "pool_row \<Rightarrow> int \<times> string \<times> (string \<times> string \<times> string) multiset" where
  "snapshot p = (ep_relay_port p, ep_hostname p, mset (map (\<lambda>a. (pa_gateway a, pa_ip_address a, pa_ehlo_hostname a)) (ep_addresses p)))"

text \<open>\<open>apply_pool_changes\<close>: the gateways that newly host the pool's relay port.\<close>

definition new_port_on :: "pool_row option \<Rightarrow> pool_row \<Rightarrow> string list" where
  "new_port_on before p =
    (let port_is_new = (case before of None \<Rightarrow> True | Some b \<Rightarrow> ep_relay_port b \<noteq> ep_relay_port p);
         hosted_before = (case before of None \<Rightarrow> [] | Some b \<Rightarrow> gateway_names b)
     in filter (\<lambda>name. ep_relay_port p \<noteq> 0 \<and> (port_is_new \<or> name \<notin> set hosted_before)) (gateway_names p))"

definition queue_job :: "job \<Rightarrow> infra \<Rightarrow> infra" where
  "queue_job j w = w\<lparr>jobs := jobs w @ [j]\<rparr>"

definition pool_on_update :: "(dns_row list \<Rightarrow> string) \<Rightarrow> pool_row option \<Rightarrow> pool_row \<Rightarrow> infra \<Rightarrow> infra res" where
  "pool_on_update uuid before p w =
    (if map_option snapshot before = Some (snapshot p) then Inr w
     else rbind (sync_pool_records uuid p w) (\<lambda>w.
          rbind (find_cluster w (ep_cluster p)) (\<lambda>k.
          rbind (sync_spf_record uuid k w) (\<lambda>w. Inr (queue_job (Pool_Changes (ep_name p) (new_port_on before p)) w)))))"

definition put_pool :: "pool_row \<Rightarrow> infra \<Rightarrow> infra" where
  "put_pool p w = w\<lparr>pools := map (\<lambda>q. if ep_name q = ep_name p then p else q) (pools w)\<rparr>"

definition insert_pool :: "(dns_row list \<Rightarrow> string) \<Rightarrow> pool_row \<Rightarrow> infra \<Rightarrow> infra res" where
  "insert_pool uuid p w =
    rbind (find_cluster w (ep_cluster p)) (\<lambda>k.
    let label = next_pool_name (map ep_pool_name (filter (\<lambda>q. ep_cluster q = ep_cluster p) (pools w)));
        name = pool_hostname label k
    in rbind (validate_pool w (p\<lparr>ep_pool_name := label, ep_hostname := name, ep_name := name, ep_relay_port := 0\<rparr>)) (\<lambda>p.
       rbind (require (name \<notin> set (map ep_name (pools w))) (DuplicateEntryError name)) (\<lambda>_.
         pool_on_update uuid None p (w\<lparr>pools := pools w @ [p]\<rparr>))))"

text \<open>The read-only fields of a form are those of the stored document.\<close>

definition save_pool :: "(dns_row list \<Rightarrow> string) \<Rightarrow> pool_row \<Rightarrow> infra \<Rightarrow> infra res" where
  "save_pool uuid form w =
    (case find (\<lambda>q. ep_name q = ep_name form) (pools w) of
       None \<Rightarrow> Inl (DoesNotExistError (ep_name form))
     | Some before \<Rightarrow>
         rbind (validate_pool w (before\<lparr>ep_title := ep_title form, ep_addresses := ep_addresses form\<rparr>)) (\<lambda>p.
           pool_on_update uuid (Some before) p (put_pool p w)))"

definition delete_pool :: "(dns_row list \<Rightarrow> string) \<Rightarrow> string \<Rightarrow> infra \<Rightarrow> infra res" where
  "delete_pool uuid name w =
    (case find (\<lambda>q. ep_name q = name) (pools w) of
       None \<Rightarrow> Inl (DoesNotExistError name)
     | Some p \<Rightarrow>
         rbind (require (name \<notin> set (pool_users w)) (ValidationError name)) (\<lambda>_.
         rbind (delete_pool_records uuid p w) (\<lambda>w.
         let w = w\<lparr>pools := filter (\<lambda>q. ep_name q \<noteq> name) (pools w)\<rparr> in
         rbind (find_cluster w (ep_cluster p)) (\<lambda>k.
         rbind (sync_spf_record uuid k w) (\<lambda>w. Inr (queue_job (Resync_Cluster (k_name k)) w))))))"

definition verify_address_ptr :: "(string \<Rightarrow> string \<Rightarrow> bool option) \<Rightarrow> pool_address \<Rightarrow> bool \<times> pool_address" where
  "verify_address_ptr verify a =
    (case verify (pa_ip_address a) (pa_ehlo_hostname a) of
       None \<Rightarrow> (pa_ptr_verified a, a) | Some ok \<Rightarrow> (ok, a\<lparr>pa_ptr_verified := ok\<rparr>))"

definition verify_all_ptr_records :: "(string \<Rightarrow> string \<Rightarrow> bool option) \<Rightarrow> infra \<Rightarrow> infra" where
  "verify_all_ptr_records verify w =
    w\<lparr>pools := map (\<lambda>p. p\<lparr>ep_addresses := map (snd \<circ> verify_address_ptr verify) (ep_addresses p)\<rparr>) (pools w)\<rparr>"

section \<open>Operations on gateways\<close>

definition gateway_pools :: "infra \<Rightarrow> string \<Rightarrow> pool_row list" where
  "gateway_pools w name = sort_key ep_name (filter (\<lambda>p. addresses_on p name \<noteq> []) (pools w))"

definition put_gateway :: "gateway_row \<Rightarrow> infra \<Rightarrow> infra" where
  "put_gateway g w = w\<lparr>gateways := map (\<lambda>x. if gw_name x = gw_name g then g else x) (gateways w)\<rparr>"

text \<open>A pool whose records cannot follow is logged and skipped.\<close>

definition resync_pool_records :: "(dns_row list \<Rightarrow> string) \<Rightarrow> string \<Rightarrow> infra \<Rightarrow> infra" where
  "resync_pool_records uuid name w =
    fold (\<lambda>p w. case sync_pool_records uuid p w of Inl _ \<Rightarrow> w | Inr w' \<Rightarrow> w') (gateway_pools w name) w"

definition set_gateway_status :: "(dns_row list \<Rightarrow> string) \<Rightarrow> string \<Rightarrow> string option \<Rightarrow> gateway_row \<Rightarrow> infra \<Rightarrow> infra" where
  "set_gateway_status uuid status err g w =
    (let w' = put_gateway (g\<lparr>gw_status := status, gw_last_error := (case err of None \<Rightarrow> gw_last_error g | Some e \<Rightarrow> take 1000 e)\<rparr>) w in
     if (gw_status g = ''Active'') \<noteq> (status = ''Active'') then resync_pool_records uuid (gw_name g) w' else w')"

definition new_gateway :: "gateway_row \<Rightarrow> string \<Rightarrow> string \<Rightarrow> gateway_row" where
  "new_gateway g name ip = g\<lparr>gw_name := name, gw_hostname := clean_hostname name, gw_ipv4 := ip, gw_status := ''Pending''\<rparr>"

definition insert_gateway :: "(dns_row list \<Rightarrow> string) \<Rightarrow> gateway_row \<Rightarrow> infra \<Rightarrow> infra res" where
  "insert_gateway uuid g w =
    rbind (find_cluster w (gw_cluster g)) (\<lambda>k.
    let name = next_hostname (k_default_domain k) (map gw_hostname (filter (\<lambda>x. gw_cluster x = gw_cluster g) (gateways w))) ''g''
    in rbind (validate_ip (gw_ipv4 g) 4) (\<lambda>ip.
       let g = new_gateway g name ip in
       rbind (require (single_label_under (clean_hostname name) (k_default_domain k)) (ValidationError name)) (\<lambda>_.
       rbind (require (name \<notin> set (map gw_name (gateways w))) (DuplicateEntryError name)) (\<lambda>_.
         sync_gateway_records uuid g (w\<lparr>gateways := gateways w @ [g]\<rparr>)))))"

definition edit_gateway :: "gateway_row \<Rightarrow> string \<Rightarrow> bool \<Rightarrow> gateway_row" where
  "edit_gateway g ip enabled = g\<lparr>gw_ipv4 := ip, gw_enabled := enabled, gw_hostname := clean_hostname (gw_hostname g)\<rparr>"

definition republish_gateway :: "(dns_row list \<Rightarrow> string) \<Rightarrow> gateway_row \<Rightarrow> gateway_row \<Rightarrow> infra \<Rightarrow> infra res" where
  "republish_gateway uuid before g w =
    (if gw_ipv4 before = gw_ipv4 g then Inr w
     else rbind (sync_gateway_records uuid g w) (rfold (sync_pool_records uuid) (gateway_pools w (gw_name g))))"

definition save_gateway :: "(dns_row list \<Rightarrow> string) \<Rightarrow> string \<Rightarrow> string \<Rightarrow> bool \<Rightarrow> infra \<Rightarrow> infra res" where
  "save_gateway uuid name ipv4 enabled w =
    (case find (\<lambda>g. gw_name g = name) (gateways w) of
       None \<Rightarrow> Inl (DoesNotExistError name)
     | Some before \<Rightarrow>
         rbind (find_cluster w (gw_cluster before)) (\<lambda>k.
         rbind (require (single_label_under (clean_hostname (gw_hostname before)) (k_default_domain k)) (ValidationError (gw_hostname before))) (\<lambda>_.
         rbind (validate_ip ipv4 4) (\<lambda>ip.
         let g = edit_gateway before ip enabled in
         rbind (republish_gateway uuid before g (put_gateway g w)) (\<lambda>w.
           Inr (if gw_enabled before \<and> \<not> enabled \<and> gw_status g \<in> {''Provisioned'', ''Active''}
                then set_gateway_status uuid ''Disabled'' None g w else w))))))"

definition delete_gateway :: "(dns_row list \<Rightarrow> string) \<Rightarrow> string \<Rightarrow> infra \<Rightarrow> infra res" where
  "delete_gateway uuid name w =
    (case find (\<lambda>g. gw_name g = name) (gateways w) of
       None \<Rightarrow> Inl (DoesNotExistError name)
     | Some g \<Rightarrow>
         rbind (require (gw_status g \<notin> {''Provisioning'', ''Provisioned'', ''Active''}) (ValidationError name)) (\<lambda>_.
         rbind (require (\<not> list_ex (\<lambda>p. addresses_on p name \<noteq> []) (pools w)) (ValidationError name)) (\<lambda>_.
         rbind (delete_gateway_records uuid g w) (\<lambda>w. Inr (w\<lparr>gateways := filter (\<lambda>x. gw_name x \<noteq> name) (gateways w)\<rparr>)))))"

text \<open>
  \<open>check_gateway\<close>: \<open>key\<close> is the answer of \<open>ensure_api_key\<close> on the gateway, \<open>expired\<close> whether the deadline since its
  provisioning has passed.
\<close>

definition GATEWAY_DEADLINE_MINUTES :: nat where "GATEWAY_DEADLINE_MINUTES = 45"

definition check_gateway :: "(dns_row list \<Rightarrow> string) \<Rightarrow> string res \<Rightarrow> bool \<Rightarrow> (exn \<Rightarrow> string) \<Rightarrow> gateway_row \<Rightarrow> infra \<Rightarrow> (bool \<times> infra) res" where
  "check_gateway uuid key expired str_of g w =
    (if gw_status g \<notin> {''Provisioned'', ''Active''} then Inr (False, w)
     else case key of
       Inl e \<Rightarrow>
         if \<not> is_stalwart_error e then Inl e
         else if expired \<and> gw_status g = ''Provisioned''
         then Inr (False, set_gateway_status uuid ''Failed'' (Some (''Not reachable after '' @ show_nat GATEWAY_DEADLINE_MINUTES @ '' minutes: '' @ str_of e)) g w)
         else Inr (False, put_gateway (g\<lparr>gw_last_error := take 1000 (str_of e)\<rparr>) w)
     | Inr _ \<Rightarrow>
         if gw_status g \<noteq> ''Active''
         then Inr (True, queue_job (Resync_Cluster (gw_cluster g)) (put_gateway (g\<lparr>gw_status := ''Active'', gw_last_error := []\<rparr>) w))
         else Inr (True, w))"

section \<open>What every pool keeps\<close>

definition pool_ips :: "pool_row \<Rightarrow> string list" where
  "pool_ips p = map pa_ip_address (ep_addresses p)"

definition address_fits :: "infra \<Rightarrow> pool_row \<Rightarrow> pool_address \<Rightarrow> bool" where
  "address_fits w p a \<longleftrightarrow> (\<exists>g\<in>set (gateways w). gw_name g = pa_gateway a \<and> gw_cluster g = ep_cluster p) \<and>
     (\<exists>ip. ip_address (pa_ip_address a) = Some ip \<and> address_str ip = pa_ip_address a)"

definition pool_fits :: "infra \<Rightarrow> pool_row \<Rightarrow> bool" where
  "pool_fits w p \<longleftrightarrow> distinct (pool_ips p) \<and> FIRST_RELAY_PORT \<le> ep_relay_port p \<and> (\<forall>a\<in>set (ep_addresses p). address_fits w p a)"

definition pools_apart :: "pool_row \<Rightarrow> pool_row \<Rightarrow> bool" where
  "pools_apart p q \<longleftrightarrow> set (pool_ips p) \<inter> set (pool_ips q) = {} \<and> (ep_cluster p = ep_cluster q \<longrightarrow> ep_relay_port p \<noteq> ep_relay_port q)"

definition pools_ok :: "infra \<Rightarrow> bool" where
  "pools_ok w \<longleftrightarrow> distinct (map ep_name (pools w)) \<and> (\<forall>p\<in>set (pools w). pool_fits w p) \<and>
     (\<forall>p\<in>set (pools w). \<forall>q\<in>set (pools w). ep_name p \<noteq> ep_name q \<longrightarrow> pools_apart p q)"

lemma pools_apart_sym: "pools_apart p q \<Longrightarrow> pools_apart q p"
  by (auto simp: pools_apart_def)

text \<open>Publishing records touches nothing but the record table.\<close>

lemma sync_records_frame: "sync_records uuid own ds w = Inr w' \<Longrightarrow> pools w' = pools w \<and> gateways w' = gateways w"
  by (auto simp: sync_records_def)

lemma sync_frames:
  "sync_pool_records uuid p w = Inr w' \<Longrightarrow> pools w' = pools w \<and> gateways w' = gateways w"
  "sync_spf_record uuid k w = Inr w' \<Longrightarrow> pools w' = pools w \<and> gateways w' = gateways w"
  "sync_gateway_records uuid g w = Inr w' \<Longrightarrow> pools w' = pools w \<and> gateways w' = gateways w"
  "delete_pool_records uuid p w = Inr w' \<Longrightarrow> pools w' = pools w \<and> gateways w' = gateways w"
  "delete_gateway_records uuid g w = Inr w' \<Longrightarrow> pools w' = pools w \<and> gateways w' = gateways w"
  using sync_records_frame
  by (auto simp: sync_pool_records_def sync_spf_record_def sync_gateway_records_def delete_pool_records_def delete_gateway_records_def)

lemma pool_on_update_frame: "pool_on_update uuid before p w = Inr w' \<Longrightarrow> pools w' = pools w \<and> gateways w' = gateways w"
  by (fastforce simp: pool_on_update_def queue_job_def split: if_splits dest: sync_frames)

lemma resync_frame: "pools (resync_pool_records uuid name w) = pools w \<and> gateways (resync_pool_records uuid name w) = gateways w"
proof -
  have "pools (fold (\<lambda>p w. case sync_pool_records uuid p w of Inl _ \<Rightarrow> w | Inr w' \<Rightarrow> w') ps w) = pools w \<and>
      gateways (fold (\<lambda>p w. case sync_pool_records uuid p w of Inl _ \<Rightarrow> w | Inr w' \<Rightarrow> w') ps w) = gateways w" for ps
    by (induction ps arbitrary: w) (auto split: sum.splits dest: sync_frames)
  then show ?thesis by (simp add: resync_pool_records_def)
qed

lemma set_status_frame:
  "pools (set_gateway_status uuid status err g w) = pools w"
  "\<exists>e. gateways (set_gateway_status uuid status err g w) = gateways (put_gateway (g\<lparr>gw_status := status, gw_last_error := e\<rparr>) w)"
  using resync_frame by (auto simp: set_gateway_status_def Let_def put_gateway_def)

lemma rfold_pool_frame: "rfold (sync_pool_records uuid) ps w = Inr w' \<Longrightarrow> pools w' = pools w \<and> gateways w' = gateways w"
  by (rule rfold_invariant [where P = "\<lambda>x. pools x = pools w \<and> gateways x = gateways w"]) (auto dest: sync_frames)

text \<open>What a validated pool satisfies.\<close>

lemma validate_ip_canonical: "validate_ip v n = Inr ip \<Longrightarrow> \<exists>a. ip_address ip = Some a \<and> address_str a = ip"
  using addresses.canonical by (auto simp: validate_ip_def split: option.splits if_splits)

lemma validated_rows:
  assumes "validate_pool_rows w p domain seen as = Inr bs"
  shows "distinct (map pa_ip_address bs) \<and> set (map pa_ip_address bs) \<inter> set seen = {} \<and>
    (\<forall>b\<in>set bs. address_fits w p b \<and> \<not> other_pool_with w (ep_name p) (pa_ip_address b))"
  using assms
proof (induction as arbitrary: seen bs)
  case (Cons a as)
  from Cons.prems obtain ip rest g where ip: "validate_ip (pa_ip_address a) (if CHR '':'' \<in> set (pa_ip_address a) then 6 else 4) = Inr ip"
    "ip \<notin> set seen" "\<not> other_pool_with w (ep_name p) ip"
    and g: "find (\<lambda>g. gw_name g = pa_gateway a) (gateways w) = Some g" "gw_cluster g = ep_cluster p"
    and rest: "validate_pool_rows w p domain (seen @ [ip]) as = Inr rest"
    "bs = a\<lparr>pa_ip_address := ip, pa_ehlo_hostname := clean_hostname (pa_ehlo_hostname a)\<rparr> # rest"
    by (auto simp: Let_def)
  have "g \<in> set (gateways w)" "gw_name g = pa_gateway a" using g(1) by (auto simp: find_Some_iff)
  then have "address_fits w p (a\<lparr>pa_ip_address := ip, pa_ehlo_hostname := clean_hostname (pa_ehlo_hostname a)\<rparr>)"
    using g(2) validate_ip_canonical [OF ip(1)] by (auto simp: address_fits_def)
  then show ?case using Cons.IH [OF rest(1)] ip rest(2) by auto
qed simp

lemma next_relay_port_above:
  "p \<in> set (pools w) \<Longrightarrow> ep_cluster p = cluster \<Longrightarrow> ep_relay_port p \<noteq> 0 \<Longrightarrow> ep_relay_port p < next_relay_port w cluster"
  "FIRST_RELAY_PORT \<le> next_relay_port w cluster"
proof -
  have b: "b \<le> foldr max xs b" for xs and b :: int by (induction xs) auto
  have m: "x \<le> foldr max xs b" if "x \<in> set xs" for x :: int and xs b using that by (induction xs) auto
  show "ep_relay_port p < next_relay_port w cluster" if "p \<in> set (pools w)" "ep_cluster p = cluster" "ep_relay_port p \<noteq> 0"
    unfolding next_relay_port_def using that by (intro zless_add1_eq [THEN iffD2] le_imp_less_or_eq m) auto
  show "FIRST_RELAY_PORT \<le> next_relay_port w cluster"
    unfolding next_relay_port_def using b [of "FIRST_RELAY_PORT - 1" "filter (\<lambda>x. x \<noteq> 0) (map ep_relay_port (filter (\<lambda>p. ep_cluster p = cluster) (pools w)))"] by linarith
qed

lemma validate_pool_Inr:
  assumes "validate_pool w p = Inr p'"
  shows "ep_name p' = ep_name p" "ep_cluster p' = ep_cluster p"
    "ep_relay_port p' = (if ep_relay_port p = 0 then next_relay_port w (ep_cluster p) else ep_relay_port p)"
    "distinct (pool_ips p')" "\<forall>a\<in>set (ep_addresses p'). address_fits w p' a \<and> \<not> other_pool_with w (ep_name p) (pa_ip_address a)"
proof -
  from assms obtain k bs where rows: "validate_pool_rows w (prepare_pool w k p) (k_default_domain k) [] (name_addresses (k_default_domain k) (prepare_pool w k p)) = Inr bs"
    and p': "p' = (prepare_pool w k p)\<lparr>ep_addresses := bs\<rparr>"
    by (auto simp: validate_pool_def Let_def)
  have p0: "ep_name (prepare_pool w k p) = ep_name p" "ep_cluster (prepare_pool w k p) = ep_cluster p"
    "ep_relay_port (prepare_pool w k p) = (if ep_relay_port p = 0 then next_relay_port w (ep_cluster p) else ep_relay_port p)"
    by (simp_all add: prepare_pool_def Let_def)
  note v = validated_rows [OF rows]
  show "ep_name p' = ep_name p" "ep_cluster p' = ep_cluster p"
    "ep_relay_port p' = (if ep_relay_port p = 0 then next_relay_port w (ep_cluster p) else ep_relay_port p)" using p0 p' by auto
  show "distinct (pool_ips p')" using v p' by (simp add: pool_ips_def)
  show "\<forall>a\<in>set (ep_addresses p'). address_fits w p' a \<and> \<not> other_pool_with w (ep_name p) (pa_ip_address a)"
    using v p' p0 by (simp add: address_fits_def)
qed

text \<open>Pools that only change in one row stay consistent when that row was validated.\<close>

lemma pools_ok_with:
  assumes "pools_ok w" "pool_fits w' p" "set (pools w') \<subseteq> insert p {q \<in> set (pools w). ep_name q \<noteq> ep_name p}" "distinct (map ep_name (pools w'))"
    "set (gateways w') = set (gateways w)" "\<And>q. q \<in> set (pools w) \<Longrightarrow> ep_name q \<noteq> ep_name p \<Longrightarrow> pools_apart p q"
  shows "pools_ok w'"
proof -
  have "pool_fits w' q" if "q \<in> set (pools w')" for q
    using that assms(1-3,5) by (auto simp: pools_ok_def pool_fits_def address_fits_def)
  moreover have "pools_apart q r" if qr: "q \<in> set (pools w')" "r \<in> set (pools w')" "ep_name q \<noteq> ep_name r" for q r
  proof -
    consider "q = p" "r \<in> set (pools w)" | "r = p" "q \<in> set (pools w)" | "q \<in> set (pools w)" "r \<in> set (pools w)"
      using subsetD [OF assms(3) qr(1)] subsetD [OF assms(3) qr(2)] qr(3) by blast
    then show ?thesis
    proof cases
      case 3
      then show ?thesis using assms(1) qr(3) by (simp add: pools_ok_def)
    qed (use assms(6) qr(3) pools_apart_sym in metis)+
  qed
  ultimately show ?thesis using assms(4) by (simp add: pools_ok_def)
qed

lemma validated_apart:
  assumes "validate_pool w p = Inr p'" "q \<in> set (pools w)" "ep_name q \<noteq> ep_name p"
    "ep_cluster q = ep_cluster p \<Longrightarrow> ep_relay_port p' \<noteq> ep_relay_port q"
  shows "pools_apart p' q"
proof -
  have "pa_ip_address a \<notin> set (pool_ips q)" if "a \<in> set (ep_addresses p')" for a
    using validate_pool_Inr(5) [OF assms(1)] that assms(2,3) by (auto simp: other_pool_with_def list_ex_iff pool_ips_def)
  then show ?thesis using assms(4) validate_pool_Inr(2) [OF assms(1)] by (auto simp: pools_apart_def pool_ips_def)
qed

lemma insert_pool_ok:
  assumes "pools_ok w" "insert_pool uuid p w = Inr w'"
  shows "pools_ok w'"
proof -
  from assms(2) obtain p0 p' where v: "validate_pool w p0 = Inr p'" "ep_relay_port p0 = 0" "ep_name p0 \<notin> set (map ep_name (pools w))"
    and up: "pool_on_update uuid None p' (w\<lparr>pools := pools w @ [p']\<rparr>) = Inr w'"
    by (auto simp: insert_pool_def Let_def)
  note p' = validate_pool_Inr [OF v(1)]
  have port: "ep_relay_port p' = next_relay_port w (ep_cluster p0)" using p'(3) v(2) by simp
  have frame: "pools w' = pools w @ [p']" "gateways w' = gateways w" using pool_on_update_frame [OF up] by auto
  show ?thesis
  proof (rule pools_ok_with [OF assms(1), of _ p'])
    show "pool_fits w' p'" using p' port next_relay_port_above(2) frame by (auto simp: pool_fits_def address_fits_def)
    show "pools_apart p' q" if "q \<in> set (pools w)" "ep_name q \<noteq> ep_name p'" for q
    proof (rule validated_apart [OF v(1) that(1)])
      show "ep_name q \<noteq> ep_name p0" using that(2) p'(1) by simp
      have "ep_relay_port q \<noteq> 0" using assms(1) that(1) by (auto simp: pools_ok_def pool_fits_def FIRST_RELAY_PORT_def)
      then show "ep_relay_port p' \<noteq> ep_relay_port q" if "ep_cluster q = ep_cluster p0"
        using next_relay_port_above(1) [OF \<open>q \<in> set (pools w)\<close> that] port by simp
    qed
    have new: "ep_name q \<noteq> ep_name p'" if "q \<in> set (pools w)" for q using v(3) p'(1) that by (metis image_eqI list.set_map)
    then show "set (pools w') \<subseteq> insert p' {q \<in> set (pools w). ep_name q \<noteq> ep_name p'}" by (auto simp: frame)
    show "distinct (map ep_name (pools w'))" using assms(1) new by (fastforce simp: frame pools_ok_def)
  qed (use frame in auto)
qed

lemma save_pool_ok:
  assumes "pools_ok w" "save_pool uuid form w = Inr w'"
  shows "pools_ok w'"
proof -
  from assms(2) obtain b p' where b: "find (\<lambda>q. ep_name q = ep_name form) (pools w) = Some b"
    and v: "validate_pool w (b\<lparr>ep_title := ep_title form, ep_addresses := ep_addresses form\<rparr>) = Inr p'"
    and up: "pool_on_update uuid (Some b) p' (put_pool p' w) = Inr w'"
    by (auto simp: save_pool_def split: option.splits)
  note p' = validate_pool_Inr [OF v, simplified]
  have bw: "b \<in> set (pools w)" using b by (auto simp: find_Some_iff)
  then have fits: "pool_fits w b" using assms(1) by (simp add: pools_ok_def)
  then have port: "ep_relay_port p' = ep_relay_port b" using p'(3) by (auto simp: pool_fits_def FIRST_RELAY_PORT_def)
  have frame: "pools w' = map (\<lambda>q. if ep_name q = ep_name p' then p' else q) (pools w)" "gateways w' = gateways w"
    using pool_on_update_frame [OF up] by (auto simp: put_pool_def)
  have names: "map ep_name (pools w') = map ep_name (pools w)" by (simp add: frame)
  show ?thesis
  proof (rule pools_ok_with [OF assms(1), of _ p'])
    show "pool_fits w' p'" using p' port fits frame(2) by (auto simp: pool_fits_def address_fits_def)
    show "pools_apart p' q" if q: "q \<in> set (pools w)" "ep_name q \<noteq> ep_name p'" for q
    proof (rule validated_apart [OF v q(1)])
      show "ep_name q \<noteq> ep_name (b\<lparr>ep_title := ep_title form, ep_addresses := ep_addresses form\<rparr>)" using q(2) p'(1) by simp
      have "pools_apart b q" using assms(1) bw q p'(1) by (simp add: pools_ok_def)
      then show "ep_relay_port p' \<noteq> ep_relay_port q" if "ep_cluster q = ep_cluster (b\<lparr>ep_title := ep_title form, ep_addresses := ep_addresses form\<rparr>)"
        using that port by (simp add: pools_apart_def)
    qed
    show "distinct (map ep_name (pools w'))" unfolding names using assms(1) by (simp add: pools_ok_def)
  qed (use frame in auto)
qed

text \<open>Operations that leave pools alone, or only lose some, and keep every gateway's cluster.\<close>

lemma pools_ok_fewer:
  assumes "pools_ok w" "set (pools w') \<subseteq> set (pools w)" "distinct (map ep_name (pools w'))"
    "\<And>p a g. p \<in> set (pools w') \<Longrightarrow> a \<in> set (ep_addresses p) \<Longrightarrow> g \<in> set (gateways w) \<Longrightarrow> gw_name g = pa_gateway a \<Longrightarrow>
       \<exists>g'\<in>set (gateways w'). gw_name g' = gw_name g \<and> gw_cluster g' = gw_cluster g"
  shows "pools_ok w'"
proof -
  have "pool_fits w' p" if p: "p \<in> set (pools w')" for p
  proof -
    have "pool_fits w p" using assms(1,2) p by (auto simp: pools_ok_def)
    moreover have "address_fits w' p a" if "a \<in> set (ep_addresses p)" "address_fits w p a" for a
      using that assms(4) [OF p that(1)] by (fastforce simp: address_fits_def)
    ultimately show ?thesis by (simp add: pool_fits_def)
  qed
  moreover have "pools_apart p q" if "p \<in> set (pools w')" "q \<in> set (pools w')" "ep_name p \<noteq> ep_name q" for p q
    using assms(1) subsetD [OF assms(2)] that by (simp add: pools_ok_def)
  ultimately show ?thesis using assms(3) by (simp add: pools_ok_def)
qed

lemma put_gateway_same: "gw_cluster g = gw_cluster g0 \<Longrightarrow> g0 \<in> set (gateways w) \<Longrightarrow> gw_name g = gw_name g0 \<Longrightarrow> distinct (map gw_name (gateways w)) \<Longrightarrow>
    x \<in> set (gateways w) \<Longrightarrow> \<exists>x'\<in>set (gateways (put_gateway g w)). gw_name x' = gw_name x \<and> gw_cluster x' = gw_cluster x"
  by (auto simp: put_gateway_def distinct_map dest: inj_onD)

lemma put_gateway_names: "map gw_name (gateways (put_gateway g w)) = map gw_name (gateways w)"
  by (simp add: put_gateway_def)

definition egress_ok :: "infra \<Rightarrow> bool" where
  "egress_ok w \<longleftrightarrow> pools_ok w \<and> distinct (map gw_name (gateways w))"

lemma egress_ok_gateway:
  assumes "egress_ok w" "g0 \<in> set (gateways w)" "gw_name g = gw_name g0" "gw_cluster g = gw_cluster g0"
    "pools w' = pools w" "gateways w' = gateways (put_gateway g w)"
  shows "egress_ok w'"
proof -
  have "pools_ok w'"
  proof (rule pools_ok_fewer [of w])
    show "\<exists>g'\<in>set (gateways w'). gw_name g' = gw_name x \<and> gw_cluster g' = gw_cluster x" if "x \<in> set (gateways w)" for x
      using put_gateway_same [OF assms(4,2,3) _ that] assms(1,6) by (simp add: egress_ok_def)
  qed (use assms(1,5) in \<open>auto simp: egress_ok_def pools_ok_def\<close>)
  then show ?thesis using assms(1,6) put_gateway_names [of g w] by (simp add: egress_ok_def)
qed

inductive egress_step :: "infra \<Rightarrow> infra \<Rightarrow> bool" where
  pool_inserted: "insert_pool uuid p w = Inr w' \<Longrightarrow> egress_step w w'"
| pool_saved: "save_pool uuid p w = Inr w' \<Longrightarrow> egress_step w w'"
| pool_deleted: "delete_pool uuid name w = Inr w' \<Longrightarrow> egress_step w w'"
| ptr_verified: "w' = verify_all_ptr_records verify w \<Longrightarrow> egress_step w w'"
| gateway_inserted: "insert_gateway uuid g w = Inr w' \<Longrightarrow> egress_step w w'"
| gateway_saved: "save_gateway uuid name ipv4 enabled w = Inr w' \<Longrightarrow> egress_step w w'"
| gateway_deleted: "delete_gateway uuid name w = Inr w' \<Longrightarrow> egress_step w w'"
| status_set: "g \<in> set (gateways w) \<Longrightarrow> w' = set_gateway_status uuid status err g w \<Longrightarrow> egress_step w w'"
| gateway_checked: "g \<in> set (gateways w) \<Longrightarrow> check_gateway uuid key expired str_of g w = Inr (b, w') \<Longrightarrow> egress_step w w'"

lemma verify_all_ok: "pools_ok w \<Longrightarrow> pools_ok (verify_all_ptr_records verify w)"
proof -
  let ?f = "\<lambda>p. p\<lparr>ep_addresses := map (snd \<circ> verify_address_ptr verify) (ep_addresses p)\<rparr>"
  have same: "pa_ip_address (snd (verify_address_ptr verify a)) = pa_ip_address a" "pa_gateway (snd (verify_address_ptr verify a)) = pa_gateway a" for a
    by (auto simp: verify_address_ptr_def split: option.splits)
  have "pool_ips (?f p) = pool_ips p" for p by (simp add: pool_ips_def same)
  moreover assume "pools_ok w"
  ultimately show ?thesis
    by (simp add: verify_all_ptr_records_def pools_ok_def pool_fits_def address_fits_def pools_apart_def same comp_def)
qed

lemma delete_pool_ok: "pools_ok w \<Longrightarrow> delete_pool uuid name w = Inr w' \<Longrightarrow> pools_ok w' \<and> gateways w' = gateways w"
proof -
  assume ok: "pools_ok w" and d: "delete_pool uuid name w = Inr w'"
  from d obtain p w1 k w2 where "delete_pool_records uuid p w = Inr w1"
    "sync_spf_record uuid k (w1\<lparr>pools := filter (\<lambda>q. ep_name q \<noteq> name) (pools w1)\<rparr>) = Inr w2" "w' = queue_job (Resync_Cluster (k_name k)) w2"
    by (auto simp: delete_pool_def Let_def split: option.splits)
  then have "pools w' = filter (\<lambda>q. ep_name q \<noteq> name) (pools w)" "gateways w' = gateways w"
    using sync_frames(2,4) by (fastforce simp: queue_job_def)+
  moreover from this have "pools_ok w'"
    by (intro pools_ok_fewer [OF ok]) (use ok in \<open>auto simp: pools_ok_def distinct_map_filter\<close>)
  ultimately show ?thesis by simp
qed

lemma insert_gateway_ok:
  assumes "egress_ok w" "insert_gateway uuid g w = Inr w'"
  shows "egress_ok w'"
proof -
  from assms(2) obtain name ip where n: "name \<notin> set (map gw_name (gateways w))"
    "sync_gateway_records uuid (new_gateway g name ip) (w\<lparr>gateways := gateways w @ [new_gateway g name ip]\<rparr>) = Inr w'"
    by (auto simp: insert_gateway_def Let_def)
  define g' where "g' = new_gateway g name ip"
  have "gw_name g' \<notin> set (map gw_name (gateways w))" "sync_gateway_records uuid g' (w\<lparr>gateways := gateways w @ [g']\<rparr>) = Inr w'"
    using n by (simp_all add: g'_def) (simp add: new_gateway_def)
  then have g': "gw_name g' \<notin> set (map gw_name (gateways w))" "pools w' = pools w" "gateways w' = gateways w @ [g']"
    using sync_frames(3) by fastforce+
  have "pools_ok w'"
    by (rule pools_ok_fewer [of w]) (use assms(1) g' in \<open>auto simp: egress_ok_def pools_ok_def\<close>)
  then show ?thesis using assms(1) g' by (auto simp: egress_ok_def)
qed

lemma save_gateway_ok:
  assumes "egress_ok w" "save_gateway uuid name ipv4 enabled w = Inr w'"
  shows "egress_ok w'"
proof -
  from assms(2) obtain b ip w1 where b: "find (\<lambda>g. gw_name g = name) (gateways w) = Some b"
    and w1: "republish_gateway uuid b (edit_gateway b ip enabled) (put_gateway (edit_gateway b ip enabled) w) = Inr w1"
    and w'': "w' = (if gw_enabled b \<and> \<not> enabled \<and> gw_status (edit_gateway b ip enabled) \<in> {''Provisioned'', ''Active''}
                    then set_gateway_status uuid ''Disabled'' None (edit_gateway b ip enabled) w1 else w1)"
    by (auto simp: save_gateway_def Let_def split: option.splits)
  define g where "g = edit_gateway b ip enabled"
  have g: "gw_name g = gw_name b" "gw_cluster g = gw_cluster b" by (simp_all add: g_def edit_gateway_def)
  have w': "w' = w1 \<or> w' = set_gateway_status uuid ''Disabled'' None g w1" using w'' by (auto simp: g_def split: if_splits)
  have "pools w1 = pools (put_gateway g w) \<and> gateways w1 = gateways (put_gateway g w)"
    using w1 sync_frames(3) rfold_pool_frame unfolding g_def [symmetric] republish_gateway_def by (auto split: if_splits)
  then have "pools w1 = pools (put_gateway g w)" "gateways w1 = gateways (put_gateway g w)" by auto
  moreover have "b \<in> set (gateways w)" using b by (auto simp: find_Some_iff)
  ultimately have ok1: "egress_ok w1" and g_in: "g \<in> set (gateways w1)"
    using egress_ok_gateway [OF assms(1) _ g, of w1] g by (auto simp: put_gateway_def)
  obtain e where e: "gateways (set_gateway_status uuid ''Disabled'' None g w1) = gateways (put_gateway (g\<lparr>gw_status := ''Disabled'', gw_last_error := e\<rparr>) w1)"
    using set_status_frame(2) by blast
  have "egress_ok (set_gateway_status uuid ''Disabled'' None g w1)"
    by (rule egress_ok_gateway [OF ok1 g_in _ _ set_status_frame(1) e]) simp_all
  then show ?thesis using w' ok1 by blast
qed

lemma delete_gateway_ok:
  assumes "egress_ok w" "delete_gateway uuid name w = Inr w'"
  shows "egress_ok w'"
proof -
  from assms(2) obtain g w1 where none: "\<not> list_ex (\<lambda>p. addresses_on p name \<noteq> []) (pools w)" and "delete_gateway_records uuid g w = Inr w1"
    "w' = w1\<lparr>gateways := filter (\<lambda>x. gw_name x \<noteq> name) (gateways w1)\<rparr>"
    by (auto simp: delete_gateway_def split: option.splits)
  then have w': "pools w' = pools w" "gateways w' = filter (\<lambda>x. gw_name x \<noteq> name) (gateways w)" using sync_frames(5) by fastforce+
  have "pa_gateway a \<noteq> name" if "p \<in> set (pools w)" "a \<in> set (ep_addresses p)" for p a
    using none that by (auto simp: list_ex_iff addresses_on_def filter_empty_conv)
  then have keep: "\<exists>g'\<in>set (gateways w'). gw_name g' = gw_name x \<and> gw_cluster g' = gw_cluster x"
    if "p \<in> set (pools w')" "a \<in> set (ep_addresses p)" "x \<in> set (gateways w)" "gw_name x = pa_gateway a" for p a x
    using that w' by (intro bexI [of _ x]) auto
  have "pools_ok w" "distinct (map ep_name (pools w'))" using assms(1) w'(1) by (simp_all add: egress_ok_def pools_ok_def)
  then have "pools_ok w'" using keep w'(1) by (intro pools_ok_fewer [of w w']) simp_all
  then show ?thesis using assms(1) w'(2) by (simp add: egress_ok_def distinct_map_filter)
qed

lemma set_status_ok:
  assumes "egress_ok w" "g \<in> set (gateways w)"
  shows "egress_ok (set_gateway_status uuid status err g w)"
proof -
  obtain e where "gateways (set_gateway_status uuid status err g w) = gateways (put_gateway (g\<lparr>gw_status := status, gw_last_error := e\<rparr>) w)"
    using set_status_frame(2) by blast
  then show ?thesis by (intro egress_ok_gateway [OF assms _ _ set_status_frame(1)]) simp_all
qed

lemma check_gateway_ok:
  assumes "egress_ok w" "g \<in> set (gateways w)" "check_gateway uuid key expired str_of g w = Inr (b, w')"
  shows "egress_ok w'"
proof -
  have "egress_ok (put_gateway (g\<lparr>gw_last_error := e\<rparr>) w)" "egress_ok (queue_job j (put_gateway (g\<lparr>gw_status := ''Active'', gw_last_error := []\<rparr>) w))" for e j
    by (rule egress_ok_gateway [OF assms(1,2), of "g\<lparr>gw_last_error := e\<rparr>"] egress_ok_gateway [OF assms(1,2), of "g\<lparr>gw_status := ''Active'', gw_last_error := []\<rparr>"],
        auto simp: queue_job_def put_gateway_def)+
  then show ?thesis using assms set_status_ok [OF assms(1,2)] by (auto simp: check_gateway_def split: if_splits sum.splits)
qed

lemma egress_step_ok: "egress_step w w' \<Longrightarrow> egress_ok w \<Longrightarrow> egress_ok w'"
proof (induction rule: egress_step.induct)
  case (pool_inserted uuid p w w')
  then show ?case using insert_pool_ok [of w uuid p w'] by (auto simp: egress_ok_def insert_pool_def Let_def dest: pool_on_update_frame)
next
  case (pool_saved uuid p w w')
  then show ?case using save_pool_ok [of w uuid p w'] by (auto simp: egress_ok_def save_pool_def put_pool_def split: option.splits dest: pool_on_update_frame)
next
  case (pool_deleted uuid name w w')
  then show ?case using delete_pool_ok [of w uuid name w'] by (simp add: egress_ok_def)
next
  case (ptr_verified w' verify w)
  then show ?case using verify_all_ok by (simp add: egress_ok_def) (simp add: verify_all_ptr_records_def)
next
  case (gateway_inserted uuid g w w')
  from insert_gateway_ok [OF this(2,1)] show ?case .
next
  case (gateway_saved uuid name ipv4 enabled w w')
  from save_gateway_ok [OF this(2,1)] show ?case .
next
  case (gateway_deleted uuid name w w')
  from delete_gateway_ok [OF this(2,1)] show ?case .
next
  case (status_set g w w' uuid status err)
  from set_status_ok [OF this(3,1)] this(2) show ?case by simp
next
  case (gateway_checked g w uuid key expired str_of b w')
  from check_gateway_ok [OF this(3,1,2)] show ?case .
qed

text \<open>
  C25. Whatever is done with pools and gateways, every sending address is written canonically and belongs to one row of one
  pool; it sits on a gateway of the pool's own cluster, which cannot be deleted while it does; and no two pools of a
  cluster share a relay port.
\<close>

theorem egress_consistent:
  assumes "egress_step\<^sup>*\<^sup>* w w'" "pools w = []" "gateways w = []"
  shows "(\<forall>p\<in>set (pools w'). distinct (map pa_ip_address (ep_addresses p)) \<and> 2525 \<le> ep_relay_port p \<and>
      (\<forall>a\<in>set (ep_addresses p). (\<exists>g\<in>set (gateways w'). gw_name g = pa_gateway a \<and> gw_cluster g = ep_cluster p) \<and>
         (\<exists>ip. ip_address (pa_ip_address a) = Some ip \<and> address_str ip = pa_ip_address a))) \<and>
    (\<forall>p\<in>set (pools w'). \<forall>q\<in>set (pools w'). ep_name p \<noteq> ep_name q \<longrightarrow>
      set (map pa_ip_address (ep_addresses p)) \<inter> set (map pa_ip_address (ep_addresses q)) = {} \<and>
      (ep_cluster p = ep_cluster q \<longrightarrow> ep_relay_port p \<noteq> ep_relay_port q))"
proof -
  have "egress_ok w" using assms(2,3) by (simp add: egress_ok_def pools_ok_def)
  with assms(1) have "egress_ok w'" by (induction rule: rtranclp_induct) (auto intro: egress_step_ok)
  then show ?thesis
    by (simp add: egress_ok_def pools_ok_def pool_fits_def address_fits_def pools_apart_def pool_ips_def FIRST_RELAY_PORT_def)
qed

definition sample_infra :: infra where
  "sample_infra = \<lparr>nodes = [], gateways = [], pools = [], cluster_docs = [sample_cluster], pool_users = [],
     dns = \<lparr>rows = [], zones = [], default_dns_ttl = 300, calls = []\<rparr>, jobs = []\<rparr>"

definition blank_pool :: pool_row where
  "blank_pool = \<lparr>ep_name = [], ep_cluster = k_name sample_cluster, ep_pool_name = [], ep_hostname = [], ep_title = [], ep_relay_port = 0, ep_addresses = []\<rparr>"

definition two_pools :: "infra res" where
  "two_pools = rbind (insert_pool long_name blank_pool sample_infra) (insert_pool long_name blank_pool)"

theorem egress_consistent_witness:
  "case two_pools of Inl _ \<Rightarrow> False | Inr w \<Rightarrow> length (pools w) = 2 \<and>
     (\<forall>p\<in>set (pools w). \<forall>q\<in>set (pools w). ep_name p \<noteq> ep_name q \<longrightarrow> ep_cluster p = ep_cluster q \<longrightarrow> ep_relay_port p \<noteq> ep_relay_port q)"
proof -
  have two: "case two_pools of Inl _ \<Rightarrow> False | Inr w \<Rightarrow> length (pools w) = 2" by code_simp
  then obtain w1 w where w: "insert_pool long_name blank_pool sample_infra = Inr w1" "insert_pool long_name blank_pool w1 = Inr w" "two_pools = Inr w"
    by (auto simp: two_pools_def split: sum.splits)
  have "egress_step\<^sup>*\<^sup>* sample_infra w"
    using rtranclp_trans [OF r_into_rtranclp [of egress_step, OF egress_step.pool_inserted [OF w(1)]] r_into_rtranclp [of egress_step, OF egress_step.pool_inserted [OF w(2)]]] .
  then have "\<forall>p\<in>set (pools w). \<forall>q\<in>set (pools w). ep_name p \<noteq> ep_name q \<longrightarrow> ep_cluster p = ep_cluster q \<longrightarrow> ep_relay_port p \<noteq> ep_relay_port q"
    using egress_consistent [of sample_infra w] by (simp add: sample_infra_def)
  then show ?thesis using two unfolding w(3) sum.case by blast
qed

section \<open>Pool records and the status of a gateway\<close>

text \<open>
  A change of status republishes the pools of a gateway, so that a pool's host name lists the gateways that serve.  The
  activation in \<open>check_gateway\<close> writes the status without it: the records stay those of a gateway that does not serve.
\<close>

lemma activation_keeps_records:
  "gw_status g = ''Provisioned'' \<Longrightarrow> check_gateway uuid (Inr key) expired str_of g w =
     Inr (True, queue_job (Resync_Cluster (gw_cluster g)) (put_gateway (g\<lparr>gw_status := ''Active'', gw_last_error := []\<rparr>) w))"
  by (simp add: check_gateway_def)

definition waiting_gateway :: gateway_row where
  "waiting_gateway = \<lparr>gw_name = ''g1.c.host.io'', gw_cluster = k_name sample_cluster, gw_hostname = ''g1.c.host.io'', gw_ipv4 = ''10.0.0.9'',
     gw_status = ''Provisioned'', gw_enabled = True, gw_last_error = []\<rparr>"

definition waiting_pool :: pool_row where
  "waiting_pool = blank_pool\<lparr>ep_name := ''p1.out.c.host.io'', ep_hostname := ''p1.out.c.host.io'', ep_pool_name := ''p1'', ep_relay_port := 2525,
     ep_addresses := [\<lparr>pa_gateway = ''g1.c.host.io'', pa_ip_address = ''10.0.0.10'', pa_ehlo_hostname = ''p1-1.c.host.io'', pa_ptr_verified = False\<rparr>]\<rparr>"

definition waiting_infra :: infra where
  "waiting_infra = sample_infra\<lparr>gateways := [waiting_gateway], pools := [waiting_pool]\<rparr>"

definition hosts_listed :: "infra \<Rightarrow> string list" where
  "hosts_listed w = map rr_value (filter (\<lambda>r. rr_host r = ''p1.out.c'' \<and> rr_type r = ''A'') (rows (dns w)))"

lemma activation_misses_pool_records:
  "case sync_pool_records long_name waiting_pool waiting_infra of
     Inl _ \<Rightarrow> False
   | Inr w \<Rightarrow> hosts_listed w = [] \<and>
       hosts_listed (set_gateway_status long_name ''Active'' None waiting_gateway w) = [''10.0.0.9''] \<and>
       (case check_gateway long_name (Inr ''key'') False (\<lambda>_. []) waiting_gateway w of Inl _ \<Rightarrow> False | Inr (ok, w') \<Rightarrow> ok \<and> hosts_listed w' = [])"
  by code_simp

end
