(* ===== verification/Mail_Domains.thy ===== *)
theory Mail_Domains
  imports Tenants Cluster_Dns Zone
begin

text \<open>
  The Mail Domain document (src/suite_cloud/mail/doctype/mail_domain/mail_domain.py) with its DNS rows
  (src/suite_cloud/mail/doctype/mail_domain_dns_record/mail_domain_dns_record.py), the zone file read from the cluster
  (get_zone_file of src/suite_cloud/mail/stalwart/directory.py) and the purge of an archived tenant.

  The clusters are one state \<open>'s\<close>, reached through a client per cluster.  A database operation that raises is rolled
  back, while what a cluster was told stays: an operation returns its error, if any, with the state it leaves.
\<close>

section \<open>State\<close>

record checked_row =
  ck_row :: domain_record
  ck_is_verified :: bool
  ck_last_checked_at :: "nat option"

record domain_doc =
  dd_row :: mail_domain
  dd_domain_name :: string
  dd_description :: string
  dd_catch_all_address :: string
  dd_sub_addressing :: bool
  dd_allow_relaying :: bool
  dd_egress_pool :: string
  dd_skip_scheduled_verification :: bool
  dd_verification_skipped :: bool
  dd_publish_client_discovery_records :: bool
  dd_records :: "checked_row list"
  dd_dns_zone_file :: string
  dd_last_verified_at :: "nat option"
  dd_last_refreshed_at :: "nat option"

text \<open>Tables: the cloud's, the domains, the reports (policy domain, tenant) and the DNS records Suite Cloud publishes.\<close>

record 's mail_world =
  mw_cloud :: cloud
  mw_docs :: "domain_doc list"
  mw_reports :: "(string \<times> string) list"
  mw_dns :: dns_db
  mw_skipped :: bool
  mw_servers :: 's

record 's domain_client =
  dc_create :: "json \<Rightarrow> 's \<Rightarrow> exn + (string \<times> 's)"
  dc_update :: "string \<Rightarrow> (string \<times> json) list \<Rightarrow> 's \<Rightarrow> exn + 's"
  dc_delete :: "string \<Rightarrow> 's \<Rightarrow> exn + 's"
  dc_replace_dkim_keys :: "string \<Rightarrow> string list \<Rightarrow> 's \<Rightarrow> exn + 's"
  dc_zone_file :: "string \<Rightarrow> nat \<Rightarrow> 's \<Rightarrow> exn + (string \<times> 's)"
  dc_signatures :: "string \<Rightarrow> 's \<Rightarrow> exn + ((string \<times> string) list \<times> 's)"

text \<open>The request's surroundings: session, settings, clock, resolver, clients.\<close>

record 's mail_env =
  me_rules :: rules
  me_client :: "string \<Rightarrow> 's domain_client"
  me_resolve :: "string \<Rightarrow> string \<Rightarrow> string \<Rightarrow> string list option"
  me_session_user :: string
  me_dkim_algorithms :: "string list"
  me_default_ttl :: nat
  me_now :: nat
  me_uuid :: "dns_row list \<Rightarrow> string"

definition d_id :: "domain_doc \<Rightarrow> string" where
  "d_id d = (case d_stalwart_id (dd_row d) of None \<Rightarrow> [] | Some i \<Rightarrow> i)"

definition doc_live :: "domain_doc \<Rightarrow> bool" where
  "doc_live d = Addresses.is_live (dd_row d)"

text \<open>What the tables the other documents read hold.\<close>

definition seen :: "'s mail_world \<Rightarrow> cloud" where
  "seen w = (mw_cloud w)\<lparr>dir := (dir (mw_cloud w))\<lparr>base := (base (dir (mw_cloud w)))\<lparr>domains := map dd_row (mw_docs w)\<rparr>\<rparr>,
     report_tenants := filter (\<lambda>t. t \<noteq> []) (map snd (mw_reports w))\<rparr>"

definition find_doc :: "'s mail_world \<Rightarrow> string \<Rightarrow> domain_doc option" where
  "find_doc w name = find (\<lambda>d. d_name (dd_row d) = name) (mw_docs w)"

definition put_doc :: "domain_doc \<Rightarrow> 's mail_world \<Rightarrow> 's mail_world" where
  "put_doc d w = w\<lparr>mw_docs := map (\<lambda>x. if d_name (dd_row x) = d_name (dd_row d) then d else x) (mw_docs w)\<rparr>"

definition queue_resync :: "string \<Rightarrow> 's mail_world \<Rightarrow> 's mail_world" where
  "queue_resync cluster w = w\<lparr>mw_cloud := (mw_cloud w)\<lparr>resyncs := resyncs (mw_cloud w) @ [cluster]\<rparr>\<rparr>"

section \<open>The zone file of a domain\<close>

text \<open>\<open>re.findall(r"^\S+\._domainkey\.", zone, re.MULTILINE)\<close>: lines that begin with a selector.\<close>

definition starts_with_selector :: "string \<Rightarrow> bool" where
  "starts_with_selector line =
    (let w = takeWhile (\<lambda>c. \<not> py_isspace c) line in
     list_ex (\<lambda>n. n \<ge> 1 \<and> prefix ''._domainkey.'' (drop n w)) [0..<Suc (length w)])"

definition count_dkim_selectors :: "string \<Rightarrow> nat" where
  "count_dkim_selectors zone_file = length (filter starts_with_selector (split_on newline zone_file))"

definition DKIM_KEY_WAIT_MS :: nat where "DKIM_KEY_WAIT_MS = 15000"
definition DKIM_KEY_POLL_MS :: nat where "DKIM_KEY_POLL_MS = 500"

text \<open>
  The polling loop, by the milliseconds since it began: \<open>took n\<close> is how long the read at \<open>n\<close> takes.  Each turn sleeps, so
  the deadline is reached whatever the cluster answers.
\<close>

function get_zone_file ::
  "('s \<Rightarrow> exn + (string \<times> 's)) \<Rightarrow> (nat \<Rightarrow> nat) \<Rightarrow> nat \<Rightarrow> nat \<Rightarrow> 's \<Rightarrow> exn + (string \<times> 's)" where
  "get_zone_file read took expected elapsed s =
    (case read s of
       Inl e \<Rightarrow> Inl e
     | Inr (zone, s') \<Rightarrow>
         let elapsed' = elapsed + took elapsed in
         if count_dkim_selectors zone \<ge> expected \<or> elapsed' \<ge> DKIM_KEY_WAIT_MS then Inr (zone, s')
         else get_zone_file read took expected (elapsed' + DKIM_KEY_POLL_MS) s')"
  by pat_completeness auto
termination
  by (relation "measure (\<lambda>(_, _, _, elapsed, _). DKIM_KEY_WAIT_MS - elapsed)") (auto simp: DKIM_KEY_POLL_MS_def)

text \<open>The client of a cluster, on the services of the JMAP model.\<close>

definition read_zone :: "'s jmap \<Rightarrow> service \<Rightarrow> string \<Rightarrow> 's \<Rightarrow> exn + (string \<times> 's)" where
  "read_zone call sv i s = rbind (sget call sv i (Some [''dnsZoneFile'']) s) (\<lambda>(live, s').
     Inr (jstr (jget ''dnsZoneFile'' (case live of None \<Rightarrow> JNull | Some x \<Rightarrow> x)), s'))"

definition signatures_by_domain :: "'s jmap \<Rightarrow> service \<Rightarrow> string \<Rightarrow> 's \<Rightarrow> exn + ((string \<times> string) list \<times> 's)" where
  "signatures_by_domain call dkim i s =
    rbind (get_all call dkim (JObj [(''domainId'', JStr i)]) JNull JNull None s) (\<lambda>(sigs, s').
      Inr (map (\<lambda>x. (jstr (jget ''selector'' x), py_lower (jstr (jget ''stage'' x)))) sigs, s'))"

definition domain_client_of :: "'s jmap \<Rightarrow> service \<Rightarrow> service \<Rightarrow> (nat \<Rightarrow> nat) \<Rightarrow> 's domain_client" where
  "domain_client_of call sv dkim took =
    \<lparr>dc_create = (\<lambda>payload s. rbind (screate call sv payload s) (\<lambda>(created, s'). Inr (jstr (jget ''id'' created), s'))),
     dc_update = supdate call sv,
     dc_delete = (\<lambda>i. delete_domains call sv dkim [i]),
     dc_replace_dkim_keys = replace_dkim_keys call sv dkim,
     dc_zone_file = (\<lambda>i expected. get_zone_file (read_zone call sv i) took expected 0),
     dc_signatures = signatures_by_domain call dkim\<rparr>"

section \<open>Rows\<close>

definition row_fqdn :: "domain_doc \<Rightarrow> checked_row \<Rightarrow> string" where
  "row_fqdn d r =
    (let host = dn_host (ck_row r) in if host = [] \<or> host = ''@'' then d_name (dd_row d) else host @ ''.'' @ d_name (dd_row d))"

definition dns_rows :: "domain_doc \<Rightarrow> checked_row list" where
  "dns_rows d = concat (map (\<lambda>g. filter (\<lambda>r. dn_group (ck_row r) = zg_key g) (dd_records d)) GROUPS)"

definition expected_value :: "domain_record \<Rightarrow> string" where
  "expected_value r =
    (if dn_record_type r = ''SRV'' then show_int (dn_priority r) @ '' '' @ show_int (dn_weight r) @ '' '' @ show_int (dn_port r) @ '' '' @ dn_value r
     else dn_value r)"

definition checked_key :: "domain_record \<Rightarrow> string \<times> string \<times> string" where
  "checked_key r = (dn_record_type r, dn_host r, py_strip (dn_value r))"

definition rebuild_rows :: "checked_row list \<Rightarrow> domain_record list \<Rightarrow> checked_row list" where
  "rebuild_rows old rs =
    (let verified = dict_of (map (\<lambda>r. (checked_key (ck_row r), r)) (filter ck_is_verified old)) in
     map (\<lambda>r. case map_of verified (checked_key r) of
         None \<Rightarrow> \<lparr>ck_row = r, ck_is_verified = False, ck_last_checked_at = None\<rparr>
       | Some p \<Rightarrow> \<lparr>ck_row = r, ck_is_verified = True, ck_last_checked_at = ck_last_checked_at p\<rparr>) rs)"

definition doc_cluster :: "'s mail_world \<Rightarrow> domain_doc \<Rightarrow> cluster_row res" where
  "doc_cluster w d =
    (if d_cluster (dd_row d) \<noteq> [] then get_cluster (dir (mw_cloud w)) (d_cluster (dd_row d))
     else rbind (get_tenant (dir (mw_cloud w)) (d_tenant (dd_row d))) (tenant_cluster (mw_cloud w)))"

definition rebuild_dns_records :: "'s mail_env \<Rightarrow> 's mail_world \<Rightarrow> string \<Rightarrow> domain_doc \<Rightarrow> domain_doc res" where
  "rebuild_dns_records e w zone_file d =
    rbind (doc_cluster w d) (\<lambda>k.
    rbind (build_domain_records (dd_domain_name d) zone_file (spf_include k) (dd_publish_client_discovery_records d) (me_default_ttl e)) (\<lambda>rs.
      Inr (d\<lparr>dd_records := rebuild_rows (dns_rows d) rs, dd_dns_zone_file := zone_file\<rparr>)))"

text \<open>SPF and DMARC verified, and one DKIM selector.\<close>

definition compute_is_verified :: "domain_doc \<Rightarrow> bool" where
  "compute_is_verified d =
    (let rs = filter (\<lambda>r. dn_group (ck_row r) = ''authentication_records'') (dd_records d);
         of_category = (\<lambda>c. filter (\<lambda>r. dn_category (ck_row r) = c) rs)
     in rs \<noteq> [] \<and> list_all (\<lambda>c. of_category c \<noteq> [] \<and> list_all ck_is_verified (of_category c)) [''SPF'', ''DMARC''] \<and>
        list_ex ck_is_verified (of_category ''DKIM''))"

section \<open>Validation\<close>

definition assert_can_be_added :: "'s mail_env \<Rightarrow> 's mail_world \<Rightarrow> tenant \<Rightarrow> domain_doc \<Rightarrow> unit res" where
  "assert_can_be_added e w t d =
    (let b = base (dir (seen w)) in
     if d_hosted (dd_row d) then assert_hosted_domain b (dd_domain_name d) (d_tenant (dd_row d))
     else rbind (if ownership_required (mw_skipped w) (me_session_user e) t then assert_ownership (me_resolve e) t (dd_domain_name d) else Inr ()) (\<lambda>_.
       assert_domain_available b (dd_domain_name d) (d_tenant (dd_row d))))"

definition set_flags :: "bool \<Rightarrow> domain_doc option \<Rightarrow> domain_doc \<Rightarrow> domain_doc" where
  "set_flags skipped before d =
    (let d = (case before of
           Some b \<Rightarrow> if d_enabled (dd_row b) \<noteq> d_enabled (dd_row d) \<and> \<not> d_enabled (dd_row d)
                     then d\<lparr>dd_row := (dd_row d)\<lparr>d_is_verified := False\<rparr>\<rparr> else d
         | None \<Rightarrow> d)
     in if skipped then d\<lparr>dd_row := (dd_row d)\<lparr>d_is_verified := d_enabled (dd_row d)\<rparr>, dd_skip_scheduled_verification := True, dd_verification_skipped := True\<rparr>
        else d)"

definition validate_catch_all :: "'s mail_env \<Rightarrow> 's mail_world \<Rightarrow> domain_doc \<Rightarrow> domain_doc res" where
  "validate_catch_all e w d =
    (if dd_catch_all_address d = [] then Inr d
     else rbind (validate_email_address (idna (me_rules e)) (frappe_validate_email (me_rules e)) (dd_catch_all_address d)) (\<lambda>a.
       rbind (assert_addresses_deliverable (book (dir (seen w))) (d_tenant (dd_row d)) [a]) (\<lambda>_. Inr (d\<lparr>dd_catch_all_address := a\<rparr>))))"

definition settle_domain :: "'s mail_env \<Rightarrow> 's mail_world \<Rightarrow> domain_doc option \<Rightarrow> domain_doc \<Rightarrow> domain_doc res" where
  "settle_domain e w before d =
    (let d = set_flags (mw_skipped w) before d in
     if (case before of None \<Rightarrow> False | Some b \<Rightarrow> dd_publish_client_discovery_records b \<noteq> dd_publish_client_discovery_records d)
     then rebuild_dns_records e w (dd_dns_zone_file d) d else Inr d)"

definition on_cluster :: "string \<Rightarrow> cluster_row \<Rightarrow> domain_doc \<Rightarrow> domain_doc" where
  "on_cluster name k d = d\<lparr>dd_domain_name := name, dd_row := (dd_row d)\<lparr>d_cluster := k_name k\<rparr>\<rparr>"

definition validate_domain :: "'s mail_env \<Rightarrow> 's mail_world \<Rightarrow> bool \<Rightarrow> domain_doc option \<Rightarrow> domain_doc \<Rightarrow> domain_doc res" where
  "validate_domain e w adopting before d =
    rbind (validate_domain_name (idna (me_rules e)) (dd_domain_name d)) (\<lambda>name.
    rbind (get_tenant (dir (mw_cloud w)) (d_tenant (dd_row d))) (\<lambda>t.
    rbind (tenant_cluster (mw_cloud w) t) (\<lambda>k.
    rbind (if before = None \<and> \<not> adopting
           then rbind (assert_can_be_added e w t (on_cluster name k d)) (\<lambda>_. assert_can_add_domain (dir (seen w)) t) else Inr ()) (\<lambda>_.
    rbind (validate_catch_all e w (on_cluster name k d)) (\<lambda>d.
    rbind (require (dd_egress_pool d = [] \<or> map_of (egress_pools (mw_cloud w)) (dd_egress_pool d) = Some (d_cluster (dd_row d)))
             (ValidationError (dd_egress_pool d))) (\<lambda>_. settle_domain e w before d))))))"

section \<open>What the cluster is told\<close>

definition description_of :: "domain_doc \<Rightarrow> string" where
  "description_of d = (if dd_description d = [] then ''Suite Tenant '' @ d_tenant (dd_row d) else dd_description d)"

definition stalwart_payload :: "'s mail_env \<Rightarrow> domain_doc \<Rightarrow> json" where
  "stalwart_payload e d = domain_to_dict
    \<lparr>do_name = dd_domain_name d, do_description = Some (description_of d), do_is_enabled = doc_live d, do_aliases = [],
     do_dkim_algorithms = me_dkim_algorithms e, do_certificate_management = JNull, do_dns_management = JNull,
     do_catch_all_address = str_or_none (dd_catch_all_address d), do_sub_addressing = dd_sub_addressing d,
     do_allow_relaying = dd_allow_relaying d, do_report_address_uri = Some (''mailto:postmaster@'' @ dd_domain_name d)\<rparr>"

definition stalwart_patch :: "domain_doc \<Rightarrow> (string \<times> json) list" where
  "stalwart_patch d = [
     (''description'', JStr (description_of d)), (''isEnabled'', JBool (doc_live d)), (''catchAllAddress'', nonempty (dd_catch_all_address d)),
     (''subAddressing'', JObj [(''@type'', JStr (if dd_sub_addressing d then ''Enabled'' else ''Disabled''))]), (''allowRelaying'', JBool (dd_allow_relaying d))]"

text \<open>The values of \<open>PUSHED_FIELDS\<close> and of \<open>ROUTED_FIELDS\<close>.\<close>

definition pushed_fields :: "domain_doc \<Rightarrow> string \<times> string \<times> bool \<times> bool \<times> bool \<times> bool" where
  "pushed_fields d = (dd_description d, dd_catch_all_address d, dd_sub_addressing d, dd_allow_relaying d, d_enabled (dd_row d), d_is_verified (dd_row d))"

definition routed_fields :: "domain_doc \<Rightarrow> string \<times> bool \<times> bool" where
  "routed_fields d = (dd_egress_pool d, d_enabled (dd_row d), dd_allow_relaying d)"

definition destroy_domain :: "'s mail_env \<Rightarrow> domain_doc \<Rightarrow> 's \<Rightarrow> exn + 's" where
  "destroy_domain e d s =
    (if d_id d = [] then Inr s
     else case dc_delete (me_client e (d_cluster (dd_row d))) (d_id d) s of
       Inl x \<Rightarrow> if x = StalwartRejected ''notFound'' then Inr s else Inl x
     | Inr s' \<Rightarrow> Inr s')"

section \<open>Records of a hosted domain\<close>

definition PUBLISHED_TYPES :: "string list" where "PUBLISHED_TYPES = [''MX'', ''TXT'', ''CNAME'']"

definition hosted_rows :: "domain_doc \<Rightarrow> string \<Rightarrow> desired_row list res" where
  "hosted_rows d zone =
    rmap (\<lambda>r. rbind (relative_host (row_fqdn d r) zone) (\<lambda>host.
        Inr \<lparr>w_zone = zone, w_host = host, w_type = dn_record_type (ck_row r), w_value = dn_value (ck_row r),
             w_category = (if dn_category (ck_row r) = ''SPF'' then ''SPF'' else ''Other''),
             w_priority = dn_priority (ck_row r), w_ttl = int (dn_ttl (ck_row r))\<rparr>))
      (filter (\<lambda>r. dn_record_type (ck_row r) \<in> set PUBLISHED_TYPES) (dns_rows d))"

definition publish_hosted :: "'s mail_env \<Rightarrow> domain_doc \<Rightarrow> 's mail_world \<Rightarrow> 's mail_world res" where
  "publish_hosted e d w =
    (if \<not> d_hosted (dd_row d) then Inr w
     else case partition_at CHR ''.'' (dd_domain_name d) of (_, found, zone) \<Rightarrow>
       if \<not> found then Inl (PyValueError ''IndexError'')
       else rbind (hosted_rows d zone) (\<lambda>desired.
         rbind (reconcile_managed_records (me_uuid e) (''Mail Domain'', d_name (dd_row d)) desired (mw_dns w)) (\<lambda>db. Inr (w\<lparr>mw_dns := db\<rparr>))))"

section \<open>Saving\<close>

definition push_changes :: "'s mail_env \<Rightarrow> domain_doc \<Rightarrow> domain_doc \<Rightarrow> 's \<Rightarrow> exn + 's" where
  "push_changes e before d s =
    (if pushed_fields before \<noteq> pushed_fields d then dc_update (me_client e (d_cluster (dd_row d))) (d_id d) (stalwart_patch d) s else Inr s)"

definition resync_routed :: "domain_doc \<Rightarrow> domain_doc \<Rightarrow> 's mail_world \<Rightarrow> 's mail_world" where
  "resync_routed before d w = (if routed_fields before \<noteq> routed_fields d then queue_resync (d_cluster (dd_row d)) w else w)"

definition on_update_domain :: "'s mail_env \<Rightarrow> bool \<Rightarrow> domain_doc \<Rightarrow> domain_doc \<Rightarrow> 's mail_world \<Rightarrow> 's mail_world res" where
  "on_update_domain e skip_push before d w =
    rbind (publish_hosted e d w) (\<lambda>w.
      if d_id d = [] \<or> skip_push then Inr w
      else rbind (push_changes e before d (mw_servers w)) (\<lambda>s. Inr (resync_routed before d (w\<lparr>mw_servers := s\<rparr>))))"

definition save_doc :: "'s mail_env \<Rightarrow> bool \<Rightarrow> domain_doc \<Rightarrow> 's mail_world \<Rightarrow> 's mail_world res" where
  "save_doc e skip_push d w =
    (case find_doc w (d_name (dd_row d)) of
       None \<Rightarrow> Inl (DoesNotExistError (d_name (dd_row d)))
     | Some before \<Rightarrow> rbind (validate_domain e w False (Some before) d) (\<lambda>d. on_update_domain e skip_push before d (put_doc d w)))"

text \<open>A form: the fields set once and the read-only ones are those of the stored document.\<close>

definition with_form :: "domain_doc \<Rightarrow> domain_doc \<Rightarrow> domain_doc" where
  "with_form form stored = stored\<lparr>
     dd_row := (dd_row stored)\<lparr>d_enabled := d_enabled (dd_row form), d_is_verified := d_is_verified (dd_row form)\<rparr>,
     dd_description := dd_description form, dd_catch_all_address := dd_catch_all_address form, dd_sub_addressing := dd_sub_addressing form,
     dd_allow_relaying := dd_allow_relaying form, dd_egress_pool := dd_egress_pool form,
     dd_skip_scheduled_verification := dd_skip_scheduled_verification form,
     dd_publish_client_discovery_records := dd_publish_client_discovery_records form\<rparr>"

definition save_form :: "'s mail_env \<Rightarrow> string \<Rightarrow> domain_doc \<Rightarrow> 's mail_world \<Rightarrow> 's mail_world res" where
  "save_form e name form w =
    (case find_doc w name of None \<Rightarrow> Inl (DoesNotExistError name) | Some stored \<Rightarrow> save_doc e False (with_form form stored) w)"

definition assert_saved :: "domain_doc \<Rightarrow> domain_doc \<Rightarrow> unit res" where
  "assert_saved stored d =
    require (pushed_fields stored = pushed_fields d \<and> dd_egress_pool stored = dd_egress_pool d \<and>
        dd_publish_client_discovery_records stored = dd_publish_client_discovery_records d)
      (ValidationError ''Save the domain before running this action.'')"

text \<open>An action either succeeds or is rolled back; what the clusters heard stays.\<close>

definition finish :: "'s mail_world \<Rightarrow> 's \<Rightarrow> 's mail_world res \<Rightarrow> exn option \<times> 's mail_world" where
  "finish w s r = (case r of Inl x \<Rightarrow> (Some x, w\<lparr>mw_servers := s\<rparr>) | Inr w' \<Rightarrow> (None, w'))"

definition refresh_dns_records :: "'s mail_env \<Rightarrow> nat \<Rightarrow> string \<Rightarrow> domain_doc \<Rightarrow> 's mail_world \<Rightarrow> exn option \<times> 's mail_world" where
  "refresh_dns_records e expected_dkim_keys name form w =
    (case find_doc w name of
       None \<Rightarrow> (Some (DoesNotExistError name), w)
     | Some stored \<Rightarrow>
         let d = with_form form stored in
         case assert_saved stored d of
           Inl x \<Rightarrow> (Some x, w)
         | Inr _ \<Rightarrow> (case dc_zone_file (me_client e (d_cluster (dd_row d))) (d_id d) expected_dkim_keys (mw_servers w) of
               Inl x \<Rightarrow> (Some x, w)
             | Inr (zone_file, s) \<Rightarrow>
                 finish w s (rbind (rebuild_dns_records e w zone_file d) (\<lambda>d.
                   save_doc e True (d\<lparr>dd_last_refreshed_at := Some (me_now e)\<rparr>) (w\<lparr>mw_servers := s\<rparr>)))))"

definition replace_keys :: "'s mail_env \<Rightarrow> string \<Rightarrow> domain_doc \<Rightarrow> 's mail_world \<Rightarrow> exn option \<times> 's mail_world" where
  "replace_keys e name form w =
    (case find_doc w name of
       None \<Rightarrow> (Some (DoesNotExistError name), w)
     | Some stored \<Rightarrow>
         case assert_saved stored (with_form form stored) of
           Inl x \<Rightarrow> (Some x, w)
         | Inr _ \<Rightarrow> (case dc_replace_dkim_keys (me_client e (d_cluster (dd_row stored))) (d_id stored) (me_dkim_algorithms e) (mw_servers w) of
               Inl x \<Rightarrow> (Some x, w)
             | Inr s \<Rightarrow> refresh_dns_records e (length (me_dkim_algorithms e)) name form (w\<lparr>mw_servers := s\<rparr>)))"

section \<open>Verification\<close>

definition check_row_dns :: "'s mail_env \<Rightarrow> domain_doc \<Rightarrow> checked_row \<Rightarrow> checked_row" where
  "check_row_dns e d r =
    (case verify_dns_record (me_resolve e) (row_fqdn d r) (dn_record_type (ck_row r)) (expected_value (ck_row r)) of
       None \<Rightarrow> r
     | Some ok \<Rightarrow> r\<lparr>ck_is_verified := ok, ck_last_checked_at := Some (me_now e)\<rparr>)"

definition checked_doc :: "'s mail_env \<Rightarrow> bool \<Rightarrow> domain_doc \<Rightarrow> domain_doc" where
  "checked_doc e skipped d =
    (let d' = d\<lparr>dd_records := map (check_row_dns e d) (dd_records d)\<rparr> in
     d'\<lparr>dd_row := (dd_row d)\<lparr>d_is_verified := skipped \<or> compute_is_verified d'\<rparr>, dd_last_verified_at := Some (me_now e)\<rparr>)"

definition push_live :: "'s mail_env \<Rightarrow> domain_doc \<Rightarrow> domain_doc \<Rightarrow> 's \<Rightarrow> exn + 's" where
  "push_live e d d' s =
    (if d_id d \<noteq> [] \<and> doc_live d \<noteq> doc_live d'
     then dc_update (me_client e (d_cluster (dd_row d))) (d_id d) [(''isEnabled'', JBool (doc_live d'))] s else Inr s)"

definition verify_dns_records :: "'s mail_env \<Rightarrow> string \<Rightarrow> domain_doc \<Rightarrow> 's mail_world \<Rightarrow> exn option \<times> 's mail_world" where
  "verify_dns_records e name form w =
    (case find_doc w name of
       None \<Rightarrow> (Some (DoesNotExistError name), w)
     | Some stored \<Rightarrow>
         let d = with_form form stored; d' = checked_doc e (mw_skipped w) d in
         case assert_saved stored d of
           Inl x \<Rightarrow> (Some x, w)
         | Inr _ \<Rightarrow> (case push_live e d d' (mw_servers w) of
               Inl x \<Rightarrow> (Some x, w)
             | Inr s \<Rightarrow> finish w s (save_doc e True d' (w\<lparr>mw_servers := s\<rparr>))))"

section \<open>Inserting and deleting\<close>

definition new_domain :: "'s mail_env \<Rightarrow> 's mail_world \<Rightarrow> bool \<Rightarrow> domain_doc \<Rightarrow> domain_doc res" where
  "new_domain e w adopting d =
    rbind (validate_domain_name (idna (me_rules e)) (dd_domain_name d)) (\<lambda>name.
    rbind (validate_domain e w adopting None (d\<lparr>dd_row := (dd_row d)\<lparr>d_name := name\<rparr>, dd_domain_name := name\<rparr>)) (\<lambda>d.
    rbind (require (find_doc w (d_name (dd_row d)) = None) (DuplicateEntryError (d_name (dd_row d)))) (\<lambda>_. Inr d)))"

definition add_doc :: "domain_doc \<Rightarrow> 's mail_world \<Rightarrow> 's mail_world" where
  "add_doc d w = w\<lparr>mw_docs := mw_docs w @ [d]\<rparr>"

definition with_id :: "string \<Rightarrow> domain_doc \<Rightarrow> domain_doc" where
  "with_id i d = d\<lparr>dd_row := (dd_row d)\<lparr>d_stalwart_id := Some i\<rparr>\<rparr>"

text \<open>
  \<open>after_insert\<close>: a zone that cannot be read takes the domain off the cluster again before the insert rolls back.  The
  \<open>on_update\<close> that follows an insert finds no pushed field changed since the save inside, and publishes once more.
\<close>

definition insert_domain :: "'s mail_env \<Rightarrow> domain_doc \<Rightarrow> 's mail_world \<Rightarrow> exn option \<times> 's mail_world" where
  "insert_domain e d w =
    (case new_domain e w False (with_id [] d) of
       Inl x \<Rightarrow> (Some x, w)
     | Inr d \<Rightarrow>
         let c = me_client e (d_cluster (dd_row d)); name = d_name (dd_row d) in
         case dc_create c (stalwart_payload e d) (mw_servers w) of
           Inl x \<Rightarrow> (Some x, w)
         | Inr (i, s) \<Rightarrow>
             let d = with_id i d in
             case refresh_dns_records e (length (me_dkim_algorithms e)) name d (add_doc d (w\<lparr>mw_servers := s\<rparr>)) of
               (None, w') \<Rightarrow>
                 finish w (mw_servers w') (rbind (case find_doc w' name of None \<Rightarrow> Inr w' | Some d \<Rightarrow> publish_hosted e d w') (\<lambda>w'.
                   Inr (if dd_allow_relaying d then queue_resync (d_cluster (dd_row d)) w' else w')))
             | (Some x, w') \<Rightarrow>
                 (case destroy_domain e d (mw_servers w') of
                    Inl x' \<Rightarrow> (Some x', w\<lparr>mw_servers := mw_servers w'\<rparr>)
                  | Inr s' \<Rightarrow> (Some x, w\<lparr>mw_servers := s'\<rparr>)))"

definition adopt_domain :: "'s mail_env \<Rightarrow> string \<Rightarrow> domain_doc \<Rightarrow> 's mail_world \<Rightarrow> exn option \<times> 's mail_world" where
  "adopt_domain e i d w =
    (case new_domain e w True (with_id i d) of
       Inl x \<Rightarrow> (Some x, w)
     | Inr d \<Rightarrow>
         (case refresh_dns_records e 0 (d_name (dd_row d)) d (add_doc d w) of
            (None, w') \<Rightarrow> (None, w') | (Some x, w') \<Rightarrow> (Some x, w\<lparr>mw_servers := mw_servers w'\<rparr>)))"

definition domain_in_use :: "'s mail_world \<Rightarrow> string \<Rightarrow> bool" where
  "domain_in_use w name \<longleftrightarrow> list_ex (\<lambda>x. e_domain x = name \<or> list_ex (\<lambda>a. suffix (''@'' @ name) (al_email a)) (e_aliases x)) (entries (dir (mw_cloud w)))"

definition detach_reports :: "string \<Rightarrow> (string \<times> string) list \<Rightarrow> (string \<times> string) list" where
  "detach_reports domain reports = map (\<lambda>(p, t). if p = domain then (p, []) else (p, t)) reports"

text \<open>\<open>on_trash\<close> tells the cluster before the DNS provider, and \<open>after_delete\<close> re-routes.\<close>

definition routed :: "'s mail_world \<Rightarrow> domain_doc \<Rightarrow> bool" where
  "routed w d \<longleftrightarrow> dd_egress_pool d \<noteq> [] \<or>
     (case get_tenant (dir (mw_cloud w)) (d_tenant (dd_row d)) of Inl _ \<Rightarrow> False | Inr t \<Rightarrow> tn_egress_pool t \<noteq> []) \<or> dd_allow_relaying d"

definition drop_doc :: "string \<Rightarrow> dns_db \<Rightarrow> 's \<Rightarrow> 's mail_world \<Rightarrow> 's mail_world" where
  "drop_doc name db s w = w\<lparr>mw_docs := filter (\<lambda>x. d_name (dd_row x) \<noteq> name) (mw_docs w),
     mw_reports := detach_reports name (mw_reports w), mw_dns := db, mw_servers := s\<rparr>"

definition delete_domain :: "'s mail_env \<Rightarrow> string \<Rightarrow> 's mail_world \<Rightarrow> exn option \<times> 's mail_world" where
  "delete_domain e name w =
    (case find_doc w name of
       None \<Rightarrow> (Some (DoesNotExistError name), w)
     | Some d \<Rightarrow>
         if domain_in_use w name then (Some (ValidationError name), w)
         else case destroy_domain e d (mw_servers w) of
           Inl x \<Rightarrow> (Some x, w)
         | Inr s \<Rightarrow> finish w s (rbind (delete_managed_records (me_uuid e) (''Mail Domain'', name) (mw_dns w)) (\<lambda>db.
             Inr (if routed w d then queue_resync (d_cluster (dd_row d)) (drop_doc name db s w) else drop_doc name db s w))))"

section \<open>Scheduled work\<close>

text \<open>\<open>host.split("._domainkey", 1)[0]\<close>.\<close>

fun before_text :: "string \<Rightarrow> string \<Rightarrow> string" where
  "before_text sep [] = []"
| "before_text sep (c # cs) = (if prefix sep (c # cs) then [] else c # before_text sep cs)"

definition stored_dkim_selectors :: "domain_doc \<Rightarrow> string list" where
  "stored_dkim_selectors d = map (\<lambda>r. before_text ''._domainkey'' (dn_host (ck_row r))) (filter (\<lambda>r. dn_category (ck_row r) = ''DKIM'') (dd_records d))"

definition needs_refresh :: "(string \<times> string) list \<Rightarrow> domain_doc \<Rightarrow> bool" where
  "needs_refresh signatures d =
    (let stages = dict_of signatures in
     list_ex (\<lambda>(_, stage). stage \<in> {''pending'', ''retiring''}) stages \<or>
     \<not> list_all (\<lambda>(selector, stage). stage \<in> {''active'', ''pending''} \<longrightarrow> selector \<in> set (stored_dkim_selectors d)) stages)"

definition refresh_if_rotating :: "'s mail_env \<Rightarrow> domain_doc \<Rightarrow> 's mail_world \<Rightarrow> 's mail_world" where
  "refresh_if_rotating e d w =
    (case dc_signatures (me_client e (d_cluster (dd_row d))) (d_id d) (mw_servers w) of
       Inl _ \<Rightarrow> w
     | Inr (signatures, s) \<Rightarrow>
         let w = w\<lparr>mw_servers := s\<rparr>; name = d_name (dd_row d) in
         if needs_refresh signatures d
         then (case find_doc w name of None \<Rightarrow> w | Some stored \<Rightarrow> snd (refresh_dns_records e 0 name stored w)) else w)"

definition refresh_rotating_domains :: "'s mail_env \<Rightarrow> 's mail_world \<Rightarrow> 's mail_world" where
  "refresh_rotating_domains e w = fold (refresh_if_rotating e) (filter (\<lambda>d. d_id d \<noteq> [] \<and> d_enabled (dd_row d)) (mw_docs w)) w"

definition recheck_vouched :: "'s mail_env \<Rightarrow> string \<Rightarrow> 's mail_world \<Rightarrow> exn option \<times> 's mail_world" where
  "recheck_vouched e name w =
    (case find_doc w name of
       None \<Rightarrow> (Some (DoesNotExistError name), w)
     | Some d \<Rightarrow>
         if \<not> dd_verification_skipped d then (None, w)
         else case save_doc e False (d\<lparr>dd_verification_skipped := False, dd_skip_scheduled_verification := False\<rparr>) w of
           Inl x \<Rightarrow> (Some x, w)
         | Inr w1 \<Rightarrow>
             (case find_doc w1 name of
                None \<Rightarrow> (Some (DoesNotExistError name), w\<lparr>mw_servers := mw_servers w1\<rparr>)
              | Some d1 \<Rightarrow>
                  (case verify_dns_records e name d1 w1 of
                     (None, w2) \<Rightarrow> (None, w2) | (Some x, w2) \<Rightarrow> (Some x, w\<lparr>mw_servers := mw_servers w2\<rparr>))))"

definition recheck_vouched_domains :: "'s mail_env \<Rightarrow> 's mail_world \<Rightarrow> 's mail_world" where
  "recheck_vouched_domains e w = fold (\<lambda>name w. snd (recheck_vouched e name w)) (map (d_name \<circ> dd_row) (filter dd_verification_skipped (mw_docs w))) w"

definition due_for_verification :: "domain_doc \<Rightarrow> bool" where
  "due_for_verification d \<longleftrightarrow> d_enabled (dd_row d) \<and> d_id d \<noteq> [] \<and> \<not> dd_skip_scheduled_verification d \<and>
     (\<not> d_is_verified (dd_row d) \<or> list_ex (\<lambda>r. dn_is_mandatory (ck_row r) \<and> \<not> ck_is_verified r) (dd_records d))"

definition domains_due_for_verification :: "'s mail_world \<Rightarrow> string list" where
  "domains_due_for_verification w = sort (map (d_name \<circ> dd_row) (filter due_for_verification (mw_docs w)))"

definition verify_unverified_domains :: "'s mail_env \<Rightarrow> 's mail_world \<Rightarrow> 's mail_world" where
  "verify_unverified_domains e w =
    (let w = fold (\<lambda>name w. case find_doc w name of None \<Rightarrow> w | Some d \<Rightarrow> snd (verify_dns_records e name d w)) (domains_due_for_verification w) w
     in if mw_skipped w then w else recheck_vouched_domains e w)"

section \<open>The cluster mirrors the documents\<close>

text \<open>
  What a cluster promises: \<open>live s (k, i)\<close> is whether domain \<open>i\<close> of cluster \<open>k\<close> is enabled.  A domain created gets a new id and the state of
  its payload; an update changes the state only when it says so; a delete removes the domain; reading and key changes
  leave every state alone.
\<close>

definition lawful_domains :: "(string \<Rightarrow> 's domain_client) \<Rightarrow> ('s \<Rightarrow> string \<times> string \<Rightarrow> bool option) \<Rightarrow> bool" where
  "lawful_domains client live \<longleftrightarrow>
    (\<forall>k payload s i s' b. dc_create (client k) payload s = Inr (i, s') \<longrightarrow> jget ''isEnabled'' payload = JBool b \<longrightarrow>
       i \<noteq> [] \<and> live s (k, i) = None \<and> live s' = (live s)((k, i) \<mapsto> b)) \<and>
    (\<forall>k i patch s s' b. dc_update (client k) i patch s = Inr s' \<longrightarrow> map_of patch ''isEnabled'' = Some (JBool b) \<longrightarrow>
       live s' = (live s)((k, i) \<mapsto> b)) \<and>
    (\<forall>k i s s'. dc_delete (client k) i s = Inr s' \<longrightarrow> live s' = (live s)((k, i) := None)) \<and>
    (\<forall>k i algorithms s s'. dc_replace_dkim_keys (client k) i algorithms s = Inr s' \<longrightarrow> live s' = live s) \<and>
    (\<forall>k i n s z s'. dc_zone_file (client k) i n s = Inr (z, s') \<longrightarrow> live s' = live s) \<and>
    (\<forall>k i s l s'. dc_signatures (client k) i s = Inr (l, s') \<longrightarrow> live s' = live s)"

definition doc_key :: "domain_doc \<Rightarrow> string \<times> string" where
  "doc_key d = (d_cluster (dd_row d), d_id d)"

definition mirrored :: "('s \<Rightarrow> string \<times> string \<Rightarrow> bool option) \<Rightarrow> 's mail_world \<Rightarrow> bool" where
  "mirrored live w \<longleftrightarrow> distinct (map (d_name \<circ> dd_row) (mw_docs w)) \<and>
    (\<forall>d\<in>set (mw_docs w). d_id d \<noteq> [] \<longrightarrow> live (mw_servers w) (doc_key d) = Some (doc_live d)) \<and>
    (\<forall>d\<in>set (mw_docs w). \<forall>d'\<in>set (mw_docs w). d_id d \<noteq> [] \<longrightarrow> doc_key d = doc_key d' \<longrightarrow> d_name (dd_row d) = d_name (dd_row d'))"

text \<open>Every domain is on its tenant's cluster; with the setting on, a domain is verified exactly while it is enabled.\<close>

definition placed :: "cloud \<Rightarrow> mail_domain \<Rightarrow> bool" where
  "placed c d \<longleftrightarrow> (\<exists>t. get_tenant (dir c) (d_tenant d) = Inr t \<and> tn_cluster t = d_cluster d)"

definition domains_ok :: "('s \<Rightarrow> string \<times> string \<Rightarrow> bool option) \<Rightarrow> 's mail_world \<Rightarrow> bool" where
  "domains_ok live w \<longleftrightarrow> mirrored live w \<and> (\<forall>d\<in>set (mw_docs w). placed (mw_cloud w) (dd_row d)) \<and>
    (mw_skipped w \<longrightarrow> (\<forall>d\<in>set (mw_docs w). d_is_verified (dd_row d) = d_enabled (dd_row d)))"

text \<open>What validation settles.\<close>

lemma set_flags_row:
  "d_name (dd_row (set_flags sk before d)) = d_name (dd_row d)" "d_tenant (dd_row (set_flags sk before d)) = d_tenant (dd_row d)"
  "d_cluster (dd_row (set_flags sk before d)) = d_cluster (dd_row d)" "d_stalwart_id (dd_row (set_flags sk before d)) = d_stalwart_id (dd_row d)"
  "d_enabled (dd_row (set_flags sk before d)) = d_enabled (dd_row d)"
  "d_is_verified (dd_row (set_flags sk before d)) = (if sk then d_enabled (dd_row d)
     else (case before of None \<Rightarrow> d_is_verified (dd_row d)
           | Some b \<Rightarrow> d_is_verified (dd_row d) \<and> \<not> (d_enabled (dd_row b) \<and> \<not> d_enabled (dd_row d))))"
  by (auto simp: set_flags_def Let_def split: option.splits)

lemma set_flags_hosted: "d_hosted (dd_row (set_flags sk before d)) = d_hosted (dd_row d)"
  by (auto simp: set_flags_def Let_def split: option.splits)

lemma validate_domain_row:
  assumes "validate_domain e w adopting before d = Inr d'"
  shows "\<exists>t. get_tenant (dir (mw_cloud w)) (d_tenant (dd_row d)) = Inr t \<and>
    dd_row d' = (dd_row d)\<lparr>d_cluster := tn_cluster t,
      d_is_verified := (if mw_skipped w then d_enabled (dd_row d)
        else (case before of None \<Rightarrow> d_is_verified (dd_row d)
              | Some b \<Rightarrow> d_is_verified (dd_row d) \<and> \<not> (d_enabled (dd_row b) \<and> \<not> d_enabled (dd_row d))))\<rparr>"
proof -
  obtain name t k d1 where t: "get_tenant (dir (mw_cloud w)) (d_tenant (dd_row d)) = Inr t" and k: "tenant_cluster (mw_cloud w) t = Inr k"
    and d1: "validate_catch_all e w (on_cluster name k d) = Inr d1" and settled: "settle_domain e w before d1 = Inr d'"
    using assms unfolding validate_domain_def rbind_eq_Inr_iff by blast
  have k_name: "k_name k = tn_cluster t" using k by (auto simp: tenant_cluster_def get_cluster_def find_Some_iff split: option.splits)
  have row1: "dd_row d1 = (dd_row d)\<lparr>d_cluster := tn_cluster t\<rparr>"
    using d1 k_name by (auto simp: validate_catch_all_def on_cluster_def split: if_splits)
  have "dd_row d' = dd_row (set_flags (mw_skipped w) before d1)"
    using settled by (auto simp: settle_domain_def rebuild_dns_records_def Let_def split: if_splits)
  also have "\<dots> = (dd_row d)\<lparr>d_cluster := tn_cluster t,
      d_is_verified := (if mw_skipped w then d_enabled (dd_row d)
        else (case before of None \<Rightarrow> d_is_verified (dd_row d)
              | Some b \<Rightarrow> d_is_verified (dd_row d) \<and> \<not> (d_enabled (dd_row b) \<and> \<not> d_enabled (dd_row d))))\<rparr>"
    by (rule mail_domain.equality) (simp_all add: set_flags_row set_flags_hosted row1 split: option.split)
  finally show ?thesis using t by blast
qed

lemma find_doc_in: "find_doc w name = Some d \<Longrightarrow> d \<in> set (mw_docs w) \<and> d_name (dd_row d) = name"
  by (auto simp: find_doc_def dest: find_Some_in)

lemma doc_named:
  assumes "distinct (map (d_name \<circ> dd_row) (mw_docs w))" "d \<in> set (mw_docs w)" "find_doc w (d_name (dd_row d)) = Some d'"
  shows "d' = d"
  using assms find_doc_in [OF assms(3)] by (auto simp: distinct_map inj_on_def)

lemma frame_queue_resync [simp]:
  "mw_docs (queue_resync k w) = mw_docs w" "mw_servers (queue_resync k w) = mw_servers w" "mw_skipped (queue_resync k w) = mw_skipped w"
  "placed (mw_cloud (queue_resync k w)) d = placed (mw_cloud w) d"
  by (simp_all add: queue_resync_def placed_def)

lemma frame_put_doc [simp]:
  "mw_cloud (put_doc d w) = mw_cloud w" "mw_servers (put_doc d w) = mw_servers w" "mw_skipped (put_doc d w) = mw_skipped w"
  by (simp_all add: put_doc_def)

lemma publish_hosted_frame:
  assumes "publish_hosted e d w = Inr w'"
  shows "mw_docs w' = mw_docs w \<and> mw_servers w' = mw_servers w \<and> mw_skipped w' = mw_skipped w \<and> mw_cloud w' = mw_cloud w"
  using assms by (auto simp: publish_hosted_def split: if_splits prod.splits)

text \<open>The invariant reads the documents, the clusters, the setting and where tenants are.\<close>

lemma domains_ok_frame:
  assumes "domains_ok live w" "mw_docs w' = mw_docs w" "mw_skipped w' = mw_skipped w" "live (mw_servers w') = live (mw_servers w)"
    "\<And>d. placed (mw_cloud w) d \<Longrightarrow> placed (mw_cloud w') d"
  shows "domains_ok live w'"
  using assms unfolding domains_ok_def mirrored_def by simp

lemma mirrored_live: "domains_ok live w \<Longrightarrow> d \<in> set (mw_docs w) \<Longrightarrow> d_id d \<noteq> [] \<Longrightarrow> live (mw_servers w) (doc_key d) = Some (doc_live d)"
  by (simp add: domains_ok_def mirrored_def)

lemma mirrored_key:
  assumes "domains_ok live w" "d \<in> set (mw_docs w)" "d' \<in> set (mw_docs w)" "d_id d \<noteq> []" "doc_key d = doc_key d'"
  shows "d_name (dd_row d) = d_name (dd_row d')"
  using assms unfolding domains_ok_def mirrored_def by blast

lemma domains_ok_put:
  assumes ok: "domains_ok live w" and stored: "find_doc w (d_name (dd_row d)) = Some b" and same: "doc_key d = doc_key b"
    and docs: "mw_docs w' = mw_docs (put_doc d w)" and skipped: "mw_skipped w' = mw_skipped w"
    and servers: "live (mw_servers w') = (if d_id b = [] then live (mw_servers w) else (live (mw_servers w))(doc_key b \<mapsto> doc_live d))"
    and place: "placed (mw_cloud w') (dd_row d)" "\<And>x. placed (mw_cloud w) x \<Longrightarrow> placed (mw_cloud w') x"
    and vouched: "mw_skipped w \<Longrightarrow> d_is_verified (dd_row d) = d_enabled (dd_row d)"
  shows "domains_ok live w'"
proof -
  let ?put = "\<lambda>x. if d_name (dd_row x) = d_name (dd_row d) then d else x"
  have inv: "distinct (map (d_name \<circ> dd_row) (mw_docs w))" using ok by (simp add: domains_ok_def mirrored_def)
  have b: "b \<in> set (mw_docs w)" "d_name (dd_row b) = d_name (dd_row d)" using find_doc_in [OF stored] by simp_all
  note live_at = mirrored_live [OF ok] and only_key = mirrored_key [OF ok]
  have same_id: "d_id d = d_id b" using same by (simp add: doc_key_def)
  have names: "map (d_name \<circ> dd_row) (mw_docs w') = map (d_name \<circ> dd_row) (mw_docs w)" by (simp add: docs put_doc_def)
  have key: "doc_key (?put x) = doc_key x" "d_id (?put x) = d_id x" if x: "x \<in> set (mw_docs w)" for x
  proof -
    have "x = b" if "d_name (dd_row x) = d_name (dd_row d)" using x that b inv by (auto simp: distinct_map inj_on_def)
    then show "doc_key (?put x) = doc_key x" "d_id (?put x) = d_id x" using same same_id by metis+
  qed
  have each: "live (mw_servers w') (doc_key (?put x)) = Some (doc_live (?put x))" if x: "x \<in> set (mw_docs w)" "d_id x \<noteq> []" for x
  proof (cases "d_name (dd_row x) = d_name (dd_row d)")
    case True
    then have "x = b" using x b inv by (auto simp: distinct_map inj_on_def)
    then show ?thesis using x servers same True by simp
  next
    case False
    have "doc_key x \<noteq> doc_key b" using only_key [OF x(1) b(1) x(2)] b(2) False by auto
    then show ?thesis using live_at [OF x] False servers by simp
  qed
  have set': "set (mw_docs w') = ?put ` set (mw_docs w)" by (simp add: docs put_doc_def)
  have "mirrored live w'"
    unfolding mirrored_def
  proof (intro conjI)
    show "distinct (map (d_name \<circ> dd_row) (mw_docs w'))" using inv names by metis
    show "\<forall>x\<in>set (mw_docs w'). d_id x \<noteq> [] \<longrightarrow> live (mw_servers w') (doc_key x) = Some (doc_live x)"
      unfolding set' using each key by (metis (no_types, lifting) imageE)
    have same_name: "d_name (dd_row (?put x)) = d_name (dd_row x)" for x by simp
    show "\<forall>x\<in>set (mw_docs w'). \<forall>x'\<in>set (mw_docs w'). d_id x \<noteq> [] \<longrightarrow> doc_key x = doc_key x' \<longrightarrow> d_name (dd_row x) = d_name (dd_row x')"
      unfolding set' ball_simps(9) same_name using only_key key by metis
  qed
  moreover have "\<forall>x\<in>set (mw_docs w'). placed (mw_cloud w') (dd_row x)"
    using ok place unfolding set' domains_ok_def by auto
  moreover have "mw_skipped w' \<longrightarrow> (\<forall>x\<in>set (mw_docs w'). d_is_verified (dd_row x) = d_enabled (dd_row x))"
    using ok vouched skipped unfolding set' domains_ok_def by auto
  ultimately show ?thesis by (simp add: domains_ok_def)
qed

text \<open>A save keeps the invariant when the clusters hear of the change: either the save itself pushes, or they have been told before.\<close>

lemma law_update:
  assumes "lawful_domains client live" "dc_update (client k) i patch s = Inr s'" "map_of patch ''isEnabled'' = Some (JBool b)"
  shows "live s' = (live s)((k, i) \<mapsto> b)"
  using assms unfolding lawful_domains_def by metis

lemma law_zone_file:
  assumes "lawful_domains client live" "dc_zone_file (client k) i n s = Inr (z, s')"
  shows "live s' = live s"
  using assms unfolding lawful_domains_def by metis

lemma stalwart_patch_live: "map_of (stalwart_patch d) ''isEnabled'' = Some (JBool (doc_live d))"
  by (simp add: stalwart_patch_def)

lemma pushed_fields_live: "pushed_fields b = pushed_fields d \<Longrightarrow> doc_live b = doc_live d"
  by (simp add: pushed_fields_def doc_live_def is_live_def)

lemma frame_resync_routed [simp]:
  "mw_docs (resync_routed b d w) = mw_docs w" "mw_servers (resync_routed b d w) = mw_servers w"
  "mw_skipped (resync_routed b d w) = mw_skipped w" "placed (mw_cloud (resync_routed b d w)) x = placed (mw_cloud w) x"
  by (simp_all add: resync_routed_def)

lemma on_update_domain_cases:
  assumes "on_update_domain e skip_push b d w = Inr w'"
  obtains (told) "d_id d = [] \<or> skip_push" "publish_hosted e d w = Inr w'"
  | (pushed) w1 s where "d_id d \<noteq> []" "\<not> skip_push" "publish_hosted e d w = Inr w1"
      "push_changes e b d (mw_servers w1) = Inr s" "w' = resync_routed b d (w1\<lparr>mw_servers := s\<rparr>)"
proof (cases "d_id d = [] \<or> skip_push")
  case True
  then show ?thesis using assms told by (auto simp: on_update_domain_def)
next
  case False
  then show ?thesis using assms pushed unfolding on_update_domain_def rbind_eq_Inr_iff by (simp only: if_False sum.inject rbind_eq_Inr_iff) blast
qed

lemma on_update_domain_frame:
  assumes "on_update_domain e skip_push b d w = Inr w'"
  shows "mw_docs w' = mw_docs w \<and> mw_skipped w' = mw_skipped w \<and> placed (mw_cloud w') x = placed (mw_cloud w) x"
  using assms by (cases rule: on_update_domain_cases) (simp_all add: publish_hosted_frame)

lemma on_update_domain_told:
  assumes "on_update_domain e skip_push b d w = Inr w'" "d_id d = [] \<or> skip_push"
  shows "mw_servers w' = mw_servers w"
  using assms(1) by (cases rule: on_update_domain_cases) (use assms(2) publish_hosted_frame in auto)

lemma on_update_domain_pushes:
  assumes law: "lawful_domains (me_client e) live" and upd: "on_update_domain e False b d w = Inr w'" and i: "d_id d \<noteq> []"
    and before: "live (mw_servers w) (doc_key d) = Some (doc_live b)"
  shows "live (mw_servers w') = (live (mw_servers w))(doc_key d \<mapsto> doc_live d)"
  using upd
proof (cases rule: on_update_domain_cases)
  case (pushed w1 s)
  have same: "mw_servers w1 = mw_servers w" using publish_hosted_frame [OF pushed(3)] by simp
  have s: "mw_servers w' = s" using pushed by simp
  show ?thesis
  proof (cases "pushed_fields b = pushed_fields d")
    case True
    then have "live (mw_servers w) (doc_key d) = Some (doc_live d)" using before pushed_fields_live [of b d] by simp
    moreover have "s = mw_servers w" using pushed(4) True same by (simp add: push_changes_def)
    ultimately show ?thesis using s by (simp add: fun_upd_idem)
  next
    case False
    then have "dc_update (me_client e (d_cluster (dd_row d))) (d_id d) (stalwart_patch d) (mw_servers w) = Inr s"
      using pushed(4) same by (simp add: push_changes_def)
    from law_update [OF law this stalwart_patch_live] show ?thesis using s by (simp add: doc_key_def)
  qed
qed (use i in simp)

lemma save_doc_cases:
  assumes "save_doc e skip_push d w = Inr w'" "find_doc w (d_name (dd_row d)) = Some b"
  obtains d' where "validate_domain e w False (Some b) d = Inr d'" "on_update_domain e skip_push b d' (put_doc d' w) = Inr w'"
  using assms by (auto simp: save_doc_def)

lemma placed_cluster: "placed c d \<Longrightarrow> get_tenant (dir c) (d_tenant d) = Inr t \<Longrightarrow> tn_cluster t = d_cluster d"
  by (simp add: placed_def)

lemma save_doc_ok:
  assumes law: "lawful_domains (me_client e) live" and ok: "domains_ok live w" and stored: "find_doc w (d_name (dd_row d)) = Some b"
    and same: "d_tenant (dd_row d) = d_tenant (dd_row b)" "d_stalwart_id (dd_row d) = d_stalwart_id (dd_row b)"
    and docs: "mw_docs w1 = mw_docs w" "mw_skipped w1 = mw_skipped w" "mw_cloud w1 = mw_cloud w"
    and save: "save_doc e skip_push d w1 = Inr w'"
    and told: "if skip_push
      then live (mw_servers w1) = (if d_id b = [] then live (mw_servers w) else (live (mw_servers w))(doc_key b \<mapsto>
        (d_enabled (dd_row d) \<and> (mw_skipped w \<or> d_is_verified (dd_row d)))))
      else mw_servers w1 = mw_servers w"
  shows "domains_ok live w'"
proof -
  have stored1: "find_doc w1 (d_name (dd_row d)) = Some b" using stored docs by (simp add: find_doc_def)
  obtain d' where v: "validate_domain e w1 False (Some b) d = Inr d'" and u: "on_update_domain e skip_push b d' (put_doc d' w1) = Inr w'"
    by (rule save_doc_cases [OF save stored1])
  obtain t where t: "get_tenant (dir (mw_cloud w)) (d_tenant (dd_row d)) = Inr t"
    and row: "dd_row d' = (dd_row d)\<lparr>d_cluster := tn_cluster t, d_is_verified := (if mw_skipped w then d_enabled (dd_row d)
      else d_is_verified (dd_row d) \<and> \<not> (d_enabled (dd_row b) \<and> \<not> d_enabled (dd_row d)))\<rparr>"
    using validate_domain_row [OF v] docs by auto
  have b: "b \<in> set (mw_docs w)" "d_name (dd_row b) = d_name (dd_row d)" using find_doc_in [OF stored] by simp_all
  have pl: "placed (mw_cloud w) (dd_row b)" using ok b by (simp add: domains_ok_def)
  have key: "doc_key d' = doc_key b" using placed_cluster [OF pl] t same row by (simp add: doc_key_def d_id_def)
  have live': "doc_live d' \<longleftrightarrow> d_enabled (dd_row d) \<and> (mw_skipped w \<or> d_is_verified (dd_row d))"
    using row by (auto simp: doc_live_def is_live_def)
  have frame: "mw_docs w' = mw_docs (put_doc d' w1) \<and> mw_skipped w' = mw_skipped w1 \<and> (\<forall>x. placed (mw_cloud w') x = placed (mw_cloud w1) x)"
    using on_update_domain_frame [OF u] by simp
  have place: "placed (mw_cloud w) (dd_row d')" using t row by (simp add: placed_def)
  have servers: "live (mw_servers w') = (if d_id b = [] then live (mw_servers w) else (live (mw_servers w))(doc_key b \<mapsto> doc_live d'))"
  proof (cases "d_id b = [] \<or> skip_push")
    case True
    then have "mw_servers w' = mw_servers w1" using on_update_domain_told [OF u] key by (simp add: doc_key_def)
    then show ?thesis using told live' True by (auto split: if_splits)
  next
    case False
    have "live (mw_servers (put_doc d' w1)) (doc_key d') = Some (doc_live b)" using told False mirrored_live [OF ok b(1)] key by simp
    moreover have "on_update_domain e False b d' (put_doc d' w1) = Inr w'" using u False by simp
    ultimately show ?thesis
      using on_update_domain_pushes [OF law] False key told by (simp add: doc_key_def)
  qed
  show ?thesis
  proof (rule domains_ok_put [OF ok, of d' b])
    show "find_doc w (d_name (dd_row d')) = Some b" using stored row by simp
    show "mw_docs w' = mw_docs (put_doc d' w)" using frame docs by (simp add: put_doc_def)
    show "placed (mw_cloud w') (dd_row d')" using frame docs place by simp
    show "mw_skipped w \<Longrightarrow> d_is_verified (dd_row d') = d_enabled (dd_row d')" using row by simp
  qed (use key frame docs servers in simp_all)
qed

lemma with_form_row [simp]:
  "d_name (dd_row (with_form form b)) = d_name (dd_row b)" "d_tenant (dd_row (with_form form b)) = d_tenant (dd_row b)"
  "d_cluster (dd_row (with_form form b)) = d_cluster (dd_row b)" "d_stalwart_id (dd_row (with_form form b)) = d_stalwart_id (dd_row b)"
  "d_id (with_form form b) = d_id b"
  by (simp_all add: with_form_def d_id_def)

lemma assert_saved_row:
  assumes "assert_saved b d = Inr u"
  shows "d_enabled (dd_row d) = d_enabled (dd_row b)" "d_is_verified (dd_row d) = d_is_verified (dd_row b)" "doc_live d = doc_live b"
  using assms by (auto simp: assert_saved_def pushed_fields_def doc_live_def is_live_def split: if_splits)

lemma save_form_ok:
  assumes law: "lawful_domains (me_client e) live" and ok: "domains_ok live w" and save: "save_form e name form w = Inr w'"
  shows "domains_ok live w'"
proof -
  obtain b where b: "find_doc w name = Some b" and s: "save_doc e False (with_form form b) w = Inr w'"
    using save by (auto simp: save_form_def split: option.splits)
  show ?thesis by (rule save_doc_ok [OF law ok _ _ _ _ _ _ s, of b]) (use b find_doc_in [OF b] in auto)
qed

lemma rebuild_dns_records_row: "rebuild_dns_records e w zone d = Inr d' \<Longrightarrow> dd_row d' = dd_row d"
  by (auto simp: rebuild_dns_records_def)

lemma refresh_cases:
  assumes "refresh_dns_records e n name form w = (r, w')"
  obtains (refused) "r \<noteq> None" "w' = w"
  | (read) b zone s where "find_doc w name = Some b" "assert_saved b (with_form form b) = Inr ()"
      "dc_zone_file (me_client e (d_cluster (dd_row b))) (d_id b) n (mw_servers w) = Inr (zone, s)"
      "(r, w') = finish w s (rbind (rebuild_dns_records e w zone (with_form form b)) (\<lambda>d.
         save_doc e True (d\<lparr>dd_last_refreshed_at := Some (me_now e)\<rparr>) (w\<lparr>mw_servers := s\<rparr>)))"
  using assms by (auto simp: refresh_dns_records_def Let_def split: option.splits sum.splits)

text \<open>A refresh tells the cluster nothing; with the setting on, every domain is as live as the cluster already has it.\<close>

lemma save_doc_silent:
  assumes "save_doc e True d w = Inr w'"
  shows "mw_servers w' = mw_servers w"
proof -
  obtain b where b: "find_doc w (d_name (dd_row d)) = Some b" using assms by (auto simp: save_doc_def split: option.splits)
  obtain d' where "on_update_domain e True b d' (put_doc d' w) = Inr w'" by (rule save_doc_cases [OF assms b])
  then show ?thesis using on_update_domain_told by fastforce
qed

lemma refresh_live:
  assumes law: "lawful_domains (me_client e) live" and r: "refresh_dns_records e n name form w = (r, w')"
  shows "live (mw_servers w') = live (mw_servers w)"
  using r
proof (cases rule: refresh_cases)
  case (read b zone s)
  have "mw_servers w' = s"
    using read(4) by (auto simp: finish_def dest!: save_doc_silent split: sum.splits)
  then show ?thesis using law_zone_file [OF law read(3)] by simp
qed simp

lemma refresh_ok:
  assumes law: "lawful_domains (me_client e) live" and ok: "domains_ok live w" and r: "refresh_dns_records e n name form w = (r, w')"
  shows "domains_ok live w'"
  using r
proof (cases rule: refresh_cases)
  case (read b zone s)
  have live: "live s = live (mw_servers w)" by (rule law_zone_file [OF law read(3)])
  have in_b: "b \<in> set (mw_docs w)" "d_name (dd_row b) = name" using find_doc_in [OF read(1)] by simp_all
  let ?r = "rbind (rebuild_dns_records e w zone (with_form form b)) (\<lambda>d.
         save_doc e True (d\<lparr>dd_last_refreshed_at := Some (me_now e)\<rparr>) (w\<lparr>mw_servers := s\<rparr>))"
  show ?thesis
  proof (cases ?r)
    case (Inl x)
    then have "w' = w\<lparr>mw_servers := s\<rparr>" using read(4) by (simp add: finish_def)
    then show ?thesis using domains_ok_frame [OF ok, of w'] live by simp
  next
    case (Inr w2)
    then obtain d where d: "rebuild_dns_records e w zone (with_form form b) = Inr d"
      and save: "save_doc e True (d\<lparr>dd_last_refreshed_at := Some (me_now e)\<rparr>) (w\<lparr>mw_servers := s\<rparr>) = Inr w'"
      using read(4) by (auto simp: finish_def)
    have row: "dd_row d = dd_row (with_form form b)" by (rule rebuild_dns_records_row [OF d])
    have was: "doc_live b \<longleftrightarrow> d_enabled (dd_row d) \<and> (mw_skipped w \<or> d_is_verified (dd_row d))"
      using assert_saved_row [OF read(2)] row ok in_b by (auto simp: doc_live_def is_live_def domains_ok_def)
    have told: "live s = (if d_id b = [] then live (mw_servers w) else (live (mw_servers w))(doc_key b \<mapsto>
        (d_enabled (dd_row d) \<and> (mw_skipped w \<or> d_is_verified (dd_row d)))))"
      using live mirrored_live [OF ok in_b(1)] was by (simp add: fun_upd_idem)
    show ?thesis by (rule save_doc_ok [OF law ok _ _ _ _ _ _ save, of b]) (use read(1) in_b row told in simp_all)
  qed
qed (use ok in simp)

lemma checked_doc_row [simp]:
  "d_name (dd_row (checked_doc e sk d)) = d_name (dd_row d)" "d_tenant (dd_row (checked_doc e sk d)) = d_tenant (dd_row d)"
  "d_stalwart_id (dd_row (checked_doc e sk d)) = d_stalwart_id (dd_row d)" "d_enabled (dd_row (checked_doc e sk d)) = d_enabled (dd_row d)"
  by (simp_all add: checked_doc_def Let_def)

lemma checked_doc_vouched: "sk \<Longrightarrow> d_is_verified (dd_row (checked_doc e sk d))"
  by (simp add: checked_doc_def Let_def)

lemma verify_cases:
  assumes "verify_dns_records e name form w = (None, w')"
  obtains b s d d' where "find_doc w name = Some b" "d = with_form form b" "d' = checked_doc e (mw_skipped w) d" "assert_saved b d = Inr ()"
      "push_live e d d' (mw_servers w) = Inr s" "save_doc e True d' (w\<lparr>mw_servers := s\<rparr>) = Inr w'"
  using assms by (auto simp: verify_dns_records_def Let_def finish_def split: option.splits sum.splits)

lemma verify_ok:
  assumes law: "lawful_domains (me_client e) live" and ok: "domains_ok live w" and v: "verify_dns_records e name form w = (None, w')"
  shows "domains_ok live w'"
proof -
  obtain b s d d' where b: "find_doc w name = Some b" and d: "d = with_form form b" and d': "d' = checked_doc e (mw_skipped w) d"
    and saved: "assert_saved b d = Inr ()" and push: "push_live e d d' (mw_servers w) = Inr s"
    and save: "save_doc e True d' (w\<lparr>mw_servers := s\<rparr>) = Inr w'"
    by (rule verify_cases [OF v])
  have in_b: "b \<in> set (mw_docs w)" "d_name (dd_row b) = name" using find_doc_in [OF b] by simp_all
  have same: "d_id d = d_id b" "doc_key d = doc_key b" using d by (simp_all add: doc_key_def)
  have live': "doc_live d' \<longleftrightarrow> d_enabled (dd_row d') \<and> (mw_skipped w \<or> d_is_verified (dd_row d'))"
    using d' checked_doc_vouched [of "mw_skipped w" e d] by (auto simp: doc_live_def is_live_def)
  have told: "live s = (if d_id b = [] then live (mw_servers w) else (live (mw_servers w))(doc_key b \<mapsto> doc_live d'))"
  proof (cases "d_id d \<noteq> [] \<and> doc_live d \<noteq> doc_live d'")
    case True
    then have "dc_update (me_client e (d_cluster (dd_row d))) (d_id d) [(''isEnabled'', JBool (doc_live d'))] (mw_servers w) = Inr s"
      using push by (simp add: push_live_def)
    from law_update [OF law this, of "doc_live d'"] show ?thesis using True same by (simp add: doc_key_def)
  next
    case False
    then have "s = mw_servers w" using push by (auto simp: push_live_def)
    then show ?thesis using False mirrored_live [OF ok in_b(1)] assert_saved_row(3) [OF saved] same(1) by (auto intro!: ext)
  qed
  show ?thesis by (rule save_doc_ok [OF law ok _ _ _ _ _ _ save, of b]) (use b d d' in_b told live' in simp_all)
qed

lemma law_create:
  assumes "lawful_domains client live" "dc_create (client k) payload s = Inr (i, s')" "jget ''isEnabled'' payload = JBool b"
  shows "i \<noteq> [] \<and> live s (k, i) = None \<and> live s' = (live s)((k, i) \<mapsto> b)"
  using assms unfolding lawful_domains_def by metis

lemma law_delete:
  assumes "lawful_domains client live" "dc_delete (client k) i s = Inr s'"
  shows "live s' = (live s)((k, i) := None)"
  using assms unfolding lawful_domains_def by metis

lemma payload_live: "jget ''isEnabled'' (stalwart_payload e d) = JBool (doc_live d)"
  by (simp add: stalwart_payload_def domain_to_dict_def jget_def)

lemma with_id_row [simp]:
  "d_name (dd_row (with_id i d)) = d_name (dd_row d)" "d_tenant (dd_row (with_id i d)) = d_tenant (dd_row d)"
  "d_cluster (dd_row (with_id i d)) = d_cluster (dd_row d)" "d_id (with_id i d) = i" "doc_live (with_id i d) = doc_live d"
  "d_enabled (dd_row (with_id i d)) = d_enabled (dd_row d)" "d_is_verified (dd_row (with_id i d)) = d_is_verified (dd_row d)"
  by (simp_all add: with_id_def d_id_def doc_live_def is_live_def)

lemma new_domain_row:
  assumes "new_domain e w adopting d = Inr d'"
  shows "placed (mw_cloud w) (dd_row d') \<and> find_doc w (d_name (dd_row d')) = None \<and> (mw_skipped w \<longrightarrow> d_is_verified (dd_row d') = d_enabled (dd_row d'))"
proof -
  obtain d0 where v: "validate_domain e w adopting None d0 = Inr d'" and fresh: "find_doc w (d_name (dd_row d')) = None"
    using assms by (auto simp: new_domain_def split: if_splits)
  show ?thesis using validate_domain_row [OF v] fresh by (auto simp: placed_def)
qed

lemma find_doc_None: "find_doc w name = None \<longleftrightarrow> (\<forall>d\<in>set (mw_docs w). d_name (dd_row d) \<noteq> name)"
  by (auto simp: find_doc_def find_None_iff)

text \<open>A document whose id the clusters have just made joins the others.\<close>

lemma frame_add_doc [simp]:
  "mw_docs (add_doc d w) = mw_docs w @ [d]" "mw_servers (add_doc d w) = mw_servers w" "mw_skipped (add_doc d w) = mw_skipped w"
  "mw_cloud (add_doc d w) = mw_cloud w"
  by (simp_all add: add_doc_def)

lemma add_doc_ok:
  assumes ok: "domains_ok live w" and fresh: "find_doc w (d_name (dd_row d)) = None" and place: "placed (mw_cloud w) (dd_row d)"
    and vouched: "mw_skipped w \<longrightarrow> d_is_verified (dd_row d) = d_enabled (dd_row d)"
    and key: "live (mw_servers w) (doc_key d) = None" "live s = (live (mw_servers w))(doc_key d \<mapsto> doc_live d)"
  shows "domains_ok live (add_doc d (w\<lparr>mw_servers := s\<rparr>))"
proof -
  have other: "doc_key x \<noteq> doc_key d" if "x \<in> set (mw_docs w)" "d_id x \<noteq> []" for x
    using mirrored_live [OF ok that] key(1) by (metis option.distinct(1))
  have other': "doc_key d \<noteq> doc_key x" if "x \<in> set (mw_docs w)" "d_id d \<noteq> []" for x
    using other [OF that(1)] that(2) unfolding doc_key_def by (metis prod.inject)
  have names: "distinct (map (d_name \<circ> dd_row) (mw_docs w @ [d]))"
    using ok fresh unfolding domains_ok_def mirrored_def find_doc_None by auto
  have lives: "live s (doc_key x) = Some (doc_live x)" if "x \<in> set (mw_docs w @ [d])" "d_id x \<noteq> []" for x
    using that mirrored_live [OF ok, of x] other [of x] key(2) by auto
  have keys: "d_name (dd_row x) = d_name (dd_row x')"
    if "x \<in> set (mw_docs w @ [d])" "x' \<in> set (mw_docs w @ [d])" "d_id x \<noteq> []" "doc_key x = doc_key x'" for x x'
    using that mirrored_key [OF ok, of x x'] other [of x] other' [of x'] by auto
  have frame: "mw_docs (w\<lparr>mw_servers := s\<rparr>) = mw_docs w" "mw_servers (w\<lparr>mw_servers := s\<rparr>) = s" by simp_all
  have "mirrored live (add_doc d (w\<lparr>mw_servers := s\<rparr>))"
    unfolding mirrored_def frame_add_doc frame using names lives keys by blast
  then show ?thesis using ok place vouched by (auto simp: domains_ok_def)
qed

lemma destroy_domain_live:
  assumes law: "lawful_domains (me_client e) live" and destroyed: "destroy_domain e d s = Inr s'" and k: "k \<noteq> doc_key d"
  shows "live s' k = live s k"
proof (cases "dc_delete (me_client e (d_cluster (dd_row d))) (d_id d) s")
  case (Inl x)
  then show ?thesis using destroyed by (auto simp: destroy_domain_def split: if_splits)
next
  case (Inr s'')
  then show ?thesis using destroyed law_delete [OF law Inr] k by (auto simp: destroy_domain_def doc_key_def split: if_splits)
qed

text \<open>What the clusters hold beside the documents is free: an insert that fails may leave a domain behind.\<close>

lemma domains_ok_elsewhere:
  assumes ok: "domains_ok live w" and s: "\<And>d. d \<in> set (mw_docs w) \<Longrightarrow> d_id d \<noteq> [] \<Longrightarrow> live s (doc_key d) = live (mw_servers w) (doc_key d)"
  shows "domains_ok live (w\<lparr>mw_servers := s\<rparr>)"
  using ok s unfolding domains_ok_def mirrored_def by simp

lemma insert_cases:
  assumes "insert_domain e d w = (r, w')"
  obtains (refused) "w' = w"
  | (created) d0 i s r1 w1 where "new_domain e w False (with_id [] d) = Inr d0"
      "dc_create (me_client e (d_cluster (dd_row d0))) (stalwart_payload e d0) (mw_servers w) = Inr (i, s)"
      "refresh_dns_records e (length (me_dkim_algorithms e)) (d_name (dd_row d0)) (with_id i d0) (add_doc (with_id i d0) (w\<lparr>mw_servers := s\<rparr>)) = (r1, w1)"
      "(mw_docs w' = mw_docs w1 \<and> mw_skipped w' = mw_skipped w1 \<and> mw_servers w' = mw_servers w1 \<and> (\<forall>x. placed (mw_cloud w') x = placed (mw_cloud w1) x)) \<or>
       w' = w\<lparr>mw_servers := mw_servers w1\<rparr> \<or>
       (\<exists>s'. destroy_domain e (with_id i d0) (mw_servers w1) = Inr s' \<and> w' = w\<lparr>mw_servers := s'\<rparr>)"
proof (cases "new_domain e w False (with_id [] d)")
  case new: (Inr d0)
  show ?thesis
  proof (cases "dc_create (me_client e (d_cluster (dd_row d0))) (stalwart_payload e d0) (mw_servers w)")
    case made: (Inr x)
    obtain i s where x: "x = (i, s)" by fastforce
    let ?d = "with_id i d0"
    obtain r1 w1 where r: "refresh_dns_records e (length (me_dkim_algorithms e)) (d_name (dd_row d0)) ?d (add_doc ?d (w\<lparr>mw_servers := s\<rparr>)) = (r1, w1)"
      by fastforce
    have "(mw_docs w' = mw_docs w1 \<and> mw_skipped w' = mw_skipped w1 \<and> mw_servers w' = mw_servers w1 \<and> (\<forall>x. placed (mw_cloud w') x = placed (mw_cloud w1) x)) \<or>
       w' = w\<lparr>mw_servers := mw_servers w1\<rparr> \<or> (\<exists>s'. destroy_domain e ?d (mw_servers w1) = Inr s' \<and> w' = w\<lparr>mw_servers := s'\<rparr>)"
    proof (cases r1)
      case (Some y)
      then show ?thesis using assms new made x r by (auto simp: insert_domain_def Let_def split: sum.splits)
    next
      case None
      let ?p = "case find_doc w1 (d_name (dd_row d0)) of None \<Rightarrow> Inr w1 | Some d \<Rightarrow> publish_hosted e d w1"
      have w': "(r, w') = finish w (mw_servers w1) (rbind ?p (\<lambda>w'.
          Inr (if dd_allow_relaying ?d then queue_resync (d_cluster (dd_row ?d)) w' else w')))"
        using assms new made x r None by (simp add: insert_domain_def Let_def)
      show ?thesis
        using w' by (cases ?p) (auto simp: finish_def dest!: publish_hosted_frame split: option.splits if_splits)
    qed
    then show ?thesis using created [OF new made [unfolded x] r] by blast
  qed (use assms new refused in \<open>simp add: insert_domain_def Let_def\<close>)
qed (use assms refused in \<open>simp add: insert_domain_def\<close>)

lemma insert_ok:
  assumes law: "lawful_domains (me_client e) live" and ok: "domains_ok live w" and ins: "insert_domain e d w = (r, w')"
  shows "domains_ok live w'"
  using ins
proof (cases rule: insert_cases)
  case (created d0 i s r1 w1)
  let ?d = "with_id i d0" and ?k = "(d_cluster (dd_row d0), i)"
  have i: "i \<noteq> [] \<and> live (mw_servers w) ?k = None \<and> live s = (live (mw_servers w))(?k \<mapsto> doc_live d0)"
    by (rule law_create [OF law created(2) payload_live])
  have key: "doc_key ?d = ?k" by (simp add: doc_key_def)
  have new: "placed (mw_cloud w) (dd_row d0)" "find_doc w (d_name (dd_row d0)) = None" "mw_skipped w \<longrightarrow> d_is_verified (dd_row d0) = d_enabled (dd_row d0)"
    using new_domain_row [OF created(1)] by simp_all
  have "domains_ok live (add_doc ?d (w\<lparr>mw_servers := s\<rparr>))"
    by (rule add_doc_ok [OF ok]) (use new i key in \<open>simp_all add: placed_def\<close>)
  then have ok1: "domains_ok live w1" by (rule refresh_ok [OF law _ created(3)])
  have servers: "live (mw_servers w1) = (live (mw_servers w))(?k \<mapsto> doc_live d0)" using refresh_live [OF law created(3)] i by simp
  have other: "doc_key x \<noteq> ?k" if "x \<in> set (mw_docs w)" "d_id x \<noteq> []" for x
    using mirrored_live [OF ok that] i by (metis option.distinct(1))
  from created(4) consider "mw_docs w' = mw_docs w1 \<and> mw_skipped w' = mw_skipped w1 \<and> mw_servers w' = mw_servers w1 \<and> (\<forall>x. placed (mw_cloud w') x = placed (mw_cloud w1) x)"
    | "w' = w\<lparr>mw_servers := mw_servers w1\<rparr>" | s' where "destroy_domain e ?d (mw_servers w1) = Inr s'" "w' = w\<lparr>mw_servers := s'\<rparr>" by blast
  then show ?thesis
  proof cases
    case 1
    then show ?thesis using domains_ok_frame [OF ok1, of w'] by simp
  next
    case 2
    show ?thesis unfolding 2 by (rule domains_ok_elsewhere [OF ok]) (use other servers in simp)
  next
    case (3 s')
    have "live s' (doc_key x) = live (mw_servers w) (doc_key x)" if "x \<in> set (mw_docs w)" "d_id x \<noteq> []" for x
      using destroy_domain_live [OF law 3(1), of "doc_key x"] other [OF that] servers key by simp
    then show ?thesis unfolding 3(2) by (rule domains_ok_elsewhere [OF ok])
  qed
qed (use ok in simp)

lemma frame_drop_doc [simp]:
  "mw_docs (drop_doc name db s w) = filter (\<lambda>x. d_name (dd_row x) \<noteq> name) (mw_docs w)" "mw_servers (drop_doc name db s w) = s"
  "mw_skipped (drop_doc name db s w) = mw_skipped w" "mw_cloud (drop_doc name db s w) = mw_cloud w"
  by (simp_all add: drop_doc_def)

lemma delete_ok:
  assumes law: "lawful_domains (me_client e) live" and ok: "domains_ok live w" and del: "delete_domain e name w = (None, w')"
  shows "domains_ok live w'"
proof -
  obtain d s db where d: "find_doc w name = Some d" and s: "destroy_domain e d (mw_servers w) = Inr s"
    and w': "w' = queue_resync (d_cluster (dd_row d)) (drop_doc name db s w) \<or> w' = drop_doc name db s w"
    using del by (auto simp: delete_domain_def finish_def split: option.splits sum.splits if_splits)
  have in_d: "d \<in> set (mw_docs w)" "d_name (dd_row d) = name" using find_doc_in [OF d] by simp_all
  have lives: "live s (doc_key x) = Some (doc_live x)" if x: "x \<in> set (mw_docs w)" "d_name (dd_row x) \<noteq> name" "d_id x \<noteq> []" for x
  proof -
    have "doc_key x \<noteq> doc_key d" using mirrored_key [OF ok x(1) in_d(1) x(3)] x(2) in_d(2) by auto
    then show ?thesis using destroy_domain_live [OF law s] mirrored_live [OF ok x(1,3)] by simp
  qed
  have names: "distinct (map (d_name \<circ> dd_row) (filter (\<lambda>x. d_name (dd_row x) \<noteq> name) (mw_docs w)))"
    using ok unfolding domains_ok_def mirrored_def by (simp add: distinct_map_filter)
  have frame: "mw_docs w' = filter (\<lambda>x. d_name (dd_row x) \<noteq> name) (mw_docs w)" "mw_servers w' = s" "mw_skipped w' = mw_skipped w"
    "placed (mw_cloud w') x = placed (mw_cloud w) x" for x
    using w' by auto
  have "mirrored live w'"
    unfolding mirrored_def frame using names lives mirrored_key [OF ok] unfolding set_filter by blast
  then show ?thesis using ok frame by (auto simp: domains_ok_def)
qed

lemma get_tenant_put:
  assumes "get_tenant (dir c) (tn_name t') = Inr t"
  shows "get_tenant (dir (put_tenant t' c)) n = (if n = tn_name t' then Inr t' else get_tenant (dir c) n)"
proof -
  have "find (\<lambda>t. tn_name t = n) (map (\<lambda>x. if tn_name x = tn_name t' then t' else x) ts) =
      (if n = tn_name t' \<and> find (\<lambda>t. tn_name t = n) ts \<noteq> None then Some t' else find (\<lambda>t. tn_name t = n) ts)" for ts
    by (induction ts) auto
  then show ?thesis using assms by (auto simp: get_tenant_def put_tenant_def split: option.splits)
qed

lemma placed_put:
  assumes "placed c d" "get_tenant (dir c) (tn_name t') = Inr t" "d_tenant d = tn_name t' \<Longrightarrow> tn_cluster t' = tn_cluster t"
  shows "placed (put_tenant t' c) d"
  using assms get_tenant_put [OF assms(2), of "d_tenant d"] by (auto simp: placed_def)

text \<open>A tenant with domains stays on its cluster, and stays.\<close>

lemma tenant_step_placed:
  assumes "tenant_step R c c'" "d \<in> set (domains (base (dir c)))" "placed c d"
  shows "placed c' d"
  using assms(1)
proof cases
  case (inserted name region t)
  have "find P (xs @ ys) = Some x" if "find P xs = Some x" for P :: "tenant \<Rightarrow> bool" and xs ys x using that by (induction xs) (auto split: if_splits)
  then show ?thesis using inserted assms(3) by (auto simp: insert_tenant_def placed_def get_tenant_def split: option.splits)
next
  case (saved t)
  obtain b t' where b: "get_tenant (dir c) (tn_name t) = Inr b" and v: "validate_tenant R c (Some b) t = Inr t'"
    and c': "c' = put_tenant t' (c\<lparr>resyncs := resyncs c @ pool_resyncs b t'\<rparr>)"
    using saved by (auto simp: save_tenant_def)
  have t': "tn_name t' = tn_name t" "d_tenant d = tn_name t \<Longrightarrow> tn_cluster t' = tn_cluster b"
    using v assms(2) by (auto simp: validate_tenant_def validate_stalwart_cluster_def validate_contact_def cluster_changed_def has_mail_data_def list_ex_iff Let_def
        split: if_splits)
  show ?thesis unfolding c' by (rule placed_put [of _ _ _ b]) (use assms(3) b t' in \<open>auto simp: placed_def\<close>)
next
  case (deleted name)
  then have "d_tenant d \<noteq> name" using assms(2) by (auto simp: delete_tenant_def list_ex_iff split: if_splits)
  moreover have "find (\<lambda>t. tn_name t = n) (filter (\<lambda>t. tn_name t \<noteq> name) ts) = find (\<lambda>t. tn_name t = n) ts" if "n \<noteq> name" for n and ts :: "tenant list"
    using that by (induction ts) auto
  moreover have "tenants (dir c') = filter (\<lambda>t. tn_name t \<noteq> name) (tenants (dir c))" using deleted by (auto simp: delete_tenant_def split: if_splits)
  ultimately have "get_tenant (dir c') (d_tenant d) = get_tenant (dir c) (d_tenant d)" by (simp add: get_tenant_def)
  then show ?thesis using assms(3) by (simp add: placed_def)
next
  case (suspended user name)
  then obtain t where "get_tenant (dir c) name = Inr t" "c' = put_tenant (t\<lparr>tn_status := ''Suspended''\<rparr>) c" by (auto simp: suspend_def split: if_splits)
  then show ?thesis using get_tenant_in by (auto intro!: placed_put [OF assms(3)])
next
  case (resumed user name)
  then obtain t where "get_tenant (dir c) name = Inr t" "c' = put_tenant (t\<lparr>tn_enabled := True, tn_status := ''Active''\<rparr>) c" by (auto simp: resume_def split: if_splits)
  then show ?thesis using get_tenant_in by (auto intro!: placed_put [OF assms(3)])
next
  case (archived user name delete_data jobs)
  then obtain t where "get_tenant (dir c) name = Inr t" "c' = put_tenant (t\<lparr>tn_enabled := False, tn_status := ''Archived'', tn_archived := True\<rparr>) c"
    by (auto simp: archive_def)
  then show ?thesis using get_tenant_in by (auto intro!: placed_put [OF assms(3)])
next
  case (user_saved u)
  then show ?thesis using assms(3) by (auto simp: save_user_def placed_def split: if_splits)
qed

text \<open>
  What may happen to domains and to their tenants.  A verification and a deletion are steps when they succeed: each tells the cluster
  first, and a save that fails after that leaves the cluster ahead.
\<close>

inductive domain_step :: "'s mail_env \<Rightarrow> 's mail_world \<Rightarrow> 's mail_world \<Rightarrow> bool" for e :: "'s mail_env" where
  saved: "save_form e name form w = Inr w' \<Longrightarrow> domain_step e w w'"
| refreshed: "refresh_dns_records e n name form w = (r, w') \<Longrightarrow> domain_step e w w'"
| rotated: "replace_keys e name form w = (r, w') \<Longrightarrow> domain_step e w w'"
| verified: "verify_dns_records e name form w = (None, w') \<Longrightarrow> domain_step e w w'"
| inserted: "insert_domain e d w = (r, w') \<Longrightarrow> domain_step e w w'"
| deleted: "delete_domain e name w = (None, w') \<Longrightarrow> domain_step e w w'"
| no_longer_skipped: "domain_step e w (w\<lparr>mw_skipped := False\<rparr>)"
| tenant: "tenant_step (me_rules e) (seen w) c' \<Longrightarrow> domain_step e w (w\<lparr>mw_cloud := c'\<rparr>)"

lemma law_replace_keys:
  assumes "lawful_domains client live" "dc_replace_dkim_keys (client k) i algorithms s = Inr s'"
  shows "live s' = live s"
  using assms unfolding lawful_domains_def by metis

lemma replace_keys_ok:
  assumes law: "lawful_domains (me_client e) live" and ok: "domains_ok live w" and r: "replace_keys e name form w = (r, w')"
  shows "domains_ok live w'"
proof -
  consider "w' = w" | b s where "dc_replace_dkim_keys (me_client e (d_cluster (dd_row b))) (d_id b) (me_dkim_algorithms e) (mw_servers w) = Inr s"
      "refresh_dns_records e (length (me_dkim_algorithms e)) name form (w\<lparr>mw_servers := s\<rparr>) = (r, w')"
    using r by (auto simp: replace_keys_def split: option.splits sum.splits)
  then show ?thesis
  proof cases
    case (2 b s)
    have "domains_ok live (w\<lparr>mw_servers := s\<rparr>)"
      by (rule domains_ok_elsewhere [OF ok]) (simp add: law_replace_keys [OF law 2(1)])
    then show ?thesis by (rule refresh_ok [OF law _ 2(2)])
  qed (use ok in simp)
qed

lemma tenant_domain_step_ok:
  assumes ok: "domains_ok live w" and step: "tenant_step R (seen w) c'"
  shows "domains_ok live (w\<lparr>mw_cloud := c'\<rparr>)"
proof -
  have "placed c' (dd_row d)" if "d \<in> set (mw_docs w)" for d
  proof (rule tenant_step_placed [OF step])
    show "dd_row d \<in> set (domains (base (dir (seen w))))" using that by (simp add: seen_def)
    show "placed (seen w) (dd_row d)" using ok that by (simp add: domains_ok_def placed_def seen_def get_tenant_def)
  qed
  then show ?thesis using ok by (simp add: domains_ok_def mirrored_def)
qed

lemma domain_step_ok:
  assumes law: "lawful_domains (me_client e) live" and step: "domain_step e w w'" and ok: "domains_ok live w"
  shows "domains_ok live w'"
  using step
proof cases
  case no_longer_skipped
  then show ?thesis using ok by (simp add: domains_ok_def mirrored_def)
qed (use ok law in \<open>blast intro: save_form_ok refresh_ok replace_keys_ok verify_ok insert_ok delete_ok tenant_domain_step_ok\<close>)+


text \<open>A cluster that keeps which domains are enabled, and a domain whose records have just been published.\<close>

definition sample_client :: "string \<Rightarrow> ((string \<times> string) \<times> bool) list domain_client" where
  "sample_client k = \<lparr>
     dc_create = (\<lambda>payload s. let i = CHR ''x'' # concat (map (\<lambda>((k, i), b). i) s) in Inr (i, ((k, i), jget ''isEnabled'' payload = JBool True) # s)),
     dc_update = (\<lambda>i patch s. Inr (case map_of patch ''isEnabled'' of Some (JBool b) \<Rightarrow> ((k, i), b) # s | _ \<Rightarrow> s)),
     dc_delete = (\<lambda>i s. Inr (filter (\<lambda>x. fst x \<noteq> (k, i)) s)),
     dc_replace_dkim_keys = (\<lambda>_ _ s. Inr s),
     dc_zone_file = (\<lambda>_ _ s. Inr ([], s)),
     dc_signatures = (\<lambda>_ s. Inr ([], s))\<rparr>"

lemma sample_client_lawful: "lawful_domains sample_client map_of"
proof -
  have fresh: "map_of s (k, CHR ''x'' # concat (map (\<lambda>((k, i), b). i) s)) = None" for s :: "((string \<times> string) \<times> bool) list" and k
  proof -
    have "length i \<le> length (concat (map (\<lambda>((k, i), b). i) s))" if "((k, i), b) \<in> set s" for i b
      using that by (induction s) (auto split: prod.splits)
    then have "((k, CHR ''x'' # concat (map (\<lambda>((k, i), b). i) s)), b) \<notin> set s" for b by fastforce
    then show ?thesis by (auto simp: map_of_eq_None_iff)
  qed
  have gone: "map_of (filter (\<lambda>x. fst x \<noteq> y) s) = (map_of s)(y := None)" for s :: "((string \<times> string) \<times> bool) list" and y
    by (induction s) (auto simp: fun_eq_iff)
  show ?thesis
    unfolding lawful_domains_def using fresh gone by (auto simp: sample_client_def Let_def)
qed

definition sample_env :: "((string \<times> string) \<times> bool) list mail_env" where
  "sample_env = \<lparr>me_rules = sample_rules\<lparr>idna := Some\<rparr>, me_client = sample_client,
     me_resolve = (\<lambda>_ name _. Some (if name = ''acme.com'' then [''v=spf1''] else if name = ''_dmarc.acme.com'' then [''v=DMARC1''] else [''v=DKIM1''])),
     me_session_user = [], me_dkim_algorithms = [], me_default_ttl = 60, me_now = 7, me_uuid = (\<lambda>_. [])\<rparr>"

definition sample_row :: "string \<Rightarrow> string \<Rightarrow> string \<Rightarrow> checked_row" where
  "sample_row host value category = \<lparr>ck_row = \<lparr>dn_record_type = ''TXT'', dn_host = host, dn_ttl = 60, dn_priority = 0, dn_weight = 0,
       dn_port = 0, dn_value = value, dn_category = category, dn_group = ''authentication_records'', dn_is_mandatory = True\<rparr>,
     ck_is_verified = False, ck_last_checked_at = None\<rparr>"

definition sample_domain_doc :: domain_doc where
  "sample_domain_doc = \<lparr>dd_row = \<lparr>d_name = ''acme.com'', d_tenant = ''t1'', d_cluster = ''c'', d_enabled = True, d_is_verified = False,
       d_hosted = False, d_stalwart_id = Some ''i1''\<rparr>,
     dd_domain_name = ''acme.com'', dd_description = [], dd_catch_all_address = [], dd_sub_addressing = True, dd_allow_relaying = False,
     dd_egress_pool = [], dd_skip_scheduled_verification = False, dd_verification_skipped = False, dd_publish_client_discovery_records = False,
     dd_records = [sample_row ''@'' ''v=spf1'' ''SPF'', sample_row ''_dmarc'' ''v=DMARC1'' ''DMARC'', sample_row ''s._domainkey'' ''v=DKIM1'' ''DKIM''],
     dd_dns_zone_file = [], dd_last_verified_at = None, dd_last_refreshed_at = None\<rparr>"

definition sample_world :: "((string \<times> string) \<times> bool) list mail_world" where
  "sample_world = \<lparr>mw_cloud = sample_cloud\<lparr>dir := sample_directory\<rparr>, mw_docs = [sample_domain_doc], mw_reports = [],
     mw_dns = \<lparr>rows = [], zones = [], default_dns_ttl = 60, calls = []\<rparr>, mw_skipped = False, mw_servers = [((''c'', ''i1''), False)]\<rparr>"


text \<open>
  Turning the setting on is no step above: a domain that was waiting for its records is then vouched for by whichever save comes next, and
  when that is a refresh the cluster is not told.  A verification does not tell it either, since the document is live already.
\<close>

definition sample_vouched :: "((string \<times> string) \<times> bool) list mail_world" where
  "sample_vouched = snd (refresh_dns_records sample_env 0 ''acme.com'' sample_domain_doc (sample_world\<lparr>mw_skipped := True\<rparr>))"

lemma refresh_vouches_silently:
  "map doc_live (mw_docs sample_vouched) = [True] \<and> map_of (mw_servers sample_vouched) (''c'', ''i1'') = Some False"
  by code_simp

lemma verification_stays_silent:
  "(case verify_dns_records sample_env ''acme.com'' (hd (mw_docs sample_vouched)) sample_vouched of (r, w) \<Rightarrow>
     r = None \<and> map doc_live (mw_docs w) = [True] \<and> map_of (mw_servers w) (''c'', ''i1'') = Some False)"
  by code_simp

end
